(* ===== verification/Prelude.thy ===== *)
theory Prelude
  imports Complex_Main "HOL-Library.Word" "HOL-Library.AList"
begin

text \<open>
  Shared vocabulary of the development: the machine integers of the Rust sources as words,
  the few \<open>std\<close> operations on integers, strings and vectors that the modelled functions
  call, and the interface locales that several components implement.

  Strings are lists of UTF-8 bytes (\<open>string\<close>), so \<open>len\<close>, \<open>starts_with\<close>,
  \<open>ends_with\<close>, \<open>contains\<close> and \<open>split\<close> on ASCII characters agree with
  \<open>str\<close>. Integer addition on words wraps, which is what the release profile of the
  workspace does (it does not enable overflow checks). Clock readings are integers
  (nanoseconds); an operation reads the clock once and takes the reading as an argument.
\<close>

named_theorems rust_std \<open>facts on the modelled std operations\<close>

type_synonym u16 = "16 word"
type_synonym u32 = "32 word"
type_synonym u64 = "64 word"
type_synonym instant = int
type_synonym agent_id = "128 word"

section \<open>Integers\<close>

definition sat_add :: "'a::len word \<Rightarrow> 'a word \<Rightarrow> 'a word" where
  "sat_add a b = (if unat a + unat b < 2 ^ LENGTH('a) then a + b else - 1)"

definition sat_sub :: "'a::len word \<Rightarrow> 'a word \<Rightarrow> 'a word" where
  "sat_sub a b = (if b \<le> a then a - b else 0)"

lemma unat_max_word [simp]: "unat (- 1 :: 'a::len word) = 2 ^ LENGTH('a) - 1"
  by (simp add: unsigned_minus_1_eq_mask mask_eq_exp_minus_1)

lemma unat_sat_add [rust_std]:
  "unat (sat_add a b) = min (unat a + unat b) (2 ^ LENGTH('a) - 1)" for a b :: "'a::len word"
proof (cases "unat a + unat b < 2 ^ LENGTH('a)")
  case True
  then show ?thesis by (simp add: sat_add_def unat_word_ariths)
next
  case False
  then show ?thesis by (simp add: sat_add_def)
qed

lemma unat_sat_sub [rust_std]: "unat (sat_sub a b) = unat a - unat b"
  by (simp add: sat_sub_def unat_sub word_le_nat_alt)

lemma sat_sub_sat_add:
  assumes "unat a + unat b < 2 ^ LENGTH('a)"
  shows "sat_sub (sat_add a b) b = (a :: 'a::len word)"
  using assms by (simp add: sat_sub_def sat_add_def word_le_nat_alt unat_word_ariths)

lemma unat_add_no_wrap [rust_std]:
  "unat a + unat b < 2 ^ LENGTH('a) \<Longrightarrow> unat (a + b) = unat a + unat (b :: 'a::len word)"
  by (simp add: unat_word_ariths)

text \<open>
  A double-precision value, as far as its order: finite values are rationals, and every
  comparison with \<open>NaN\<close> is false.
\<close>

datatype f64 = NaN | NegInf | Finite rat | PosInf

fun f64_ge :: "f64 \<Rightarrow> f64 \<Rightarrow> bool" where
  "f64_ge NaN _ \<longleftrightarrow> False"
| "f64_ge _ NaN \<longleftrightarrow> False"
| "f64_ge PosInf _ \<longleftrightarrow> True"
| "f64_ge _ NegInf \<longleftrightarrow> True"
| "f64_ge (Finite a) (Finite b) \<longleftrightarrow> b \<le> a"
| "f64_ge _ _ \<longleftrightarrow> False"

lemma f64_ge_trans: "f64_ge a b \<Longrightarrow> f64_ge b c \<Longrightarrow> f64_ge a c"
  by (cases a; cases b; cases c) auto

section \<open>Strings\<close>

definition starts_with :: "string \<Rightarrow> string \<Rightarrow> bool" where
  "starts_with p v \<longleftrightarrow> take (length p) v = p"

definition ends_with :: "string \<Rightarrow> string \<Rightarrow> bool" where
  "ends_with s v \<longleftrightarrow> length s \<le> length v \<and> drop (length v - length s) v = s"

definition strip_prefix :: "string \<Rightarrow> string \<Rightarrow> string option" where
  "strip_prefix p v = (if starts_with p v then Some (drop (length p) v) else None)"

definition strip_suffix :: "string \<Rightarrow> string \<Rightarrow> string option" where
  "strip_suffix s v = (if ends_with s v then Some (take (length v - length s) v) else None)"

fun find_char :: "char \<Rightarrow> string \<Rightarrow> nat option" where
  "find_char c [] = None"
| "find_char c (x # xs) = (if x = c then Some 0 else map_option Suc (find_char c xs))"

fun contains_str :: "string \<Rightarrow> string \<Rightarrow> bool" where
  "contains_str needle [] \<longleftrightarrow> needle = []"
| "contains_str needle (x # xs) \<longleftrightarrow> starts_with needle (x # xs) \<or> contains_str needle xs"

fun find_str :: "string \<Rightarrow> string \<Rightarrow> nat option" where
  "find_str needle [] = (if needle = [] then Some 0 else None)"
| "find_str needle (x # xs) =
     (if starts_with needle (x # xs) then Some 0 else map_option Suc (find_str needle xs))"

fun split_on :: "(char \<Rightarrow> bool) \<Rightarrow> string \<Rightarrow> string list" where
  "split_on P [] = [[]]"
| "split_on P (x # xs) =
     (if P x then [] # split_on P xs
      else case split_on P xs of [] \<Rightarrow> [[x]] | s # ss \<Rightarrow> (x # s) # ss)"

text \<open>
  Lower-casing of ASCII letters; the multi-byte characters that \<open>to_lowercase\<close> also
  changes are left alone, so a definition that lower-cases is exact on ASCII text.
\<close>

definition ascii_lower :: "char \<Rightarrow> char" where
  "ascii_lower c = (let n = of_char c :: nat in if 65 \<le> n \<and> n \<le> 90 then char_of (n + 32) else c)"

definition to_lowercase :: "string \<Rightarrow> string" where
  "to_lowercase = map ascii_lower"

definition is_ascii_lowercase :: "char \<Rightarrow> bool" where
  "is_ascii_lowercase c \<longleftrightarrow> 97 \<le> (of_char c :: nat) \<and> (of_char c :: nat) \<le> 122"

definition is_ascii_uppercase :: "char \<Rightarrow> bool" where
  "is_ascii_uppercase c \<longleftrightarrow> 65 \<le> (of_char c :: nat) \<and> (of_char c :: nat) \<le> 90"

definition is_ascii_alphabetic :: "char \<Rightarrow> bool" where
  "is_ascii_alphabetic c \<longleftrightarrow> is_ascii_lowercase c \<or> is_ascii_uppercase c"

definition is_ascii_hexdigit :: "char \<Rightarrow> bool" where
  "is_ascii_hexdigit c \<longleftrightarrow>
     48 \<le> (of_char c :: nat) \<and> (of_char c :: nat) \<le> 57 \<or> 97 \<le> (of_char c :: nat) \<and> (of_char c :: nat) \<le> 102
     \<or> 65 \<le> (of_char c :: nat) \<and> (of_char c :: nat) \<le> 70"

text \<open>
  \<open>str::trim\<close>: the encodings of the characters with the Unicode property
  \<open>White_Space\<close> are removed from both ends.
\<close>

definition WHITE_SPACE :: "string list" where
  "WHITE_SPACE =
     [[CHR 0x09], [CHR 0x0A], [CHR 0x0B], [CHR 0x0C], [CHR 0x0D], [CHR 0x20],
      [CHR 0xC2, CHR 0x85], [CHR 0xC2, CHR 0xA0], [CHR 0xE1, CHR 0x9A, CHR 0x80],
      [CHR 0xE2, CHR 0x80, CHR 0x80], [CHR 0xE2, CHR 0x80, CHR 0x81],
      [CHR 0xE2, CHR 0x80, CHR 0x82], [CHR 0xE2, CHR 0x80, CHR 0x83],
      [CHR 0xE2, CHR 0x80, CHR 0x84], [CHR 0xE2, CHR 0x80, CHR 0x85],
      [CHR 0xE2, CHR 0x80, CHR 0x86], [CHR 0xE2, CHR 0x80, CHR 0x87],
      [CHR 0xE2, CHR 0x80, CHR 0x88], [CHR 0xE2, CHR 0x80, CHR 0x89],
      [CHR 0xE2, CHR 0x80, CHR 0x8A], [CHR 0xE2, CHR 0x80, CHR 0xA8],
      [CHR 0xE2, CHR 0x80, CHR 0xA9], [CHR 0xE2, CHR 0x80, CHR 0xAF],
      [CHR 0xE2, CHR 0x81, CHR 0x9F], [CHR 0xE3, CHR 0x80, CHR 0x80]]"

function trim_with :: "string list \<Rightarrow> string \<Rightarrow> string" where
  "trim_with ws s =
     (case find (\<lambda>w. w \<noteq> [] \<and> starts_with w s) ws of
        None \<Rightarrow> s
      | Some w \<Rightarrow> trim_with ws (drop (length w) s))"
  by pat_completeness auto

termination
proof (relation "measure (\<lambda>(ws, s). length s)")
  fix ws s w
  assume "find (\<lambda>w. w \<noteq> [] \<and> starts_with w s) ws = Some w"
  then have "w \<noteq> []" "starts_with w s"
    by (auto simp: find_Some_iff)
  then show "((ws, drop (length w) s), ws, s) \<in> measure (\<lambda>(ws, s). length s)"
    by (cases s) (auto simp: starts_with_def)
qed simp

declare trim_with.simps [simp del]

definition trim_start :: "string \<Rightarrow> string" where
  "trim_start = trim_with WHITE_SPACE"

definition trim_end :: "string \<Rightarrow> string" where
  "trim_end s = rev (trim_with (map rev WHITE_SPACE) (rev s))"

definition trim :: "string \<Rightarrow> string" where
  "trim s = trim_end (trim_start s)"

text \<open>The number of characters of a string is its number of bytes that start one.\<close>

definition is_continuation :: "char \<Rightarrow> bool" where
  "is_continuation c \<longleftrightarrow> 128 \<le> (of_char c :: nat) \<and> (of_char c :: nat) < 192"

definition chars_count :: "string \<Rightarrow> nat" where
  "chars_count s = length (filter (\<lambda>c. \<not> is_continuation c) s)"

text \<open>The characters of a string: each leading byte with the continuation bytes after it.\<close>

fun chars_of :: "string \<Rightarrow> string list" where
  "chars_of [] = []"
| "chars_of (c # cs) =
     (case chars_of cs of
        [] \<Rightarrow> [[c]]
      | d # ds \<Rightarrow> if is_continuation (hd d) then (c # d) # ds else [c] # d # ds)"

text \<open>\<open>str::split_whitespace\<close>.\<close>

fun group_words :: "string list \<Rightarrow> string list" where
  "group_words [] = [[]]"
| "group_words (c # cs) =
     (if c \<in> set WHITE_SPACE then [] # group_words cs
      else case group_words cs of [] \<Rightarrow> [c] | w # ws \<Rightarrow> (c @ w) # ws)"

definition split_whitespace :: "string \<Rightarrow> string list" where
  "split_whitespace s = filter (\<lambda>w. w \<noteq> []) (group_words (chars_of s))"

lemma trim_with_Nil [simp]: "trim_with ws [] = []"
proof -
  have "find (\<lambda>w. w \<noteq> [] \<and> starts_with w []) ws = None"
    by (auto simp: starts_with_def find_None_iff)
  then show ?thesis by (subst trim_with.simps) simp
qed

lemma trim_with_suffix: "\<exists>u. s = u @ trim_with ws s"
proof (induction ws s rule: trim_with.induct)
  case (1 ws s)
  show ?case
  proof (cases "find (\<lambda>w. w \<noteq> [] \<and> starts_with w s) ws")
    case None
    then show ?thesis by (simp add: trim_with.simps)
  next
    case (Some w)
    with 1 obtain u where "drop (length w) s = u @ trim_with ws (drop (length w) s)"
      by blast
    then have "s = (take (length w) s @ u) @ trim_with ws (drop (length w) s)"
      by (metis append.assoc append_take_drop_id)
    moreover have "trim_with ws s = trim_with ws (drop (length w) s)"
      using Some by (subst trim_with.simps) simp
    ultimately show ?thesis by metis
  qed
qed

lemma trim_Nil [simp]: "trim [] = []"
  by (simp add: trim_def trim_start_def trim_end_def)

text \<open>
  \<open>crates/librefang-runtime/src/str_utils.rs\<close>: truncation at a character boundary. A byte
  starts a character unless it is a UTF-8 continuation byte.
\<close>

definition is_char_boundary :: "string \<Rightarrow> nat \<Rightarrow> bool" where
  "is_char_boundary s i =
     (i = 0 \<or> i = length s \<or>
      (i < length s \<and> \<not> (128 \<le> (of_char (s ! i) :: nat) \<and> (of_char (s ! i) :: nat) < 192)))"

fun walk_back :: "string \<Rightarrow> nat \<Rightarrow> nat" where
  "walk_back s 0 = 0"
| "walk_back s (Suc e) = (if is_char_boundary s (Suc e) then Suc e else walk_back s e)"

definition safe_truncate_str :: "string \<Rightarrow> nat \<Rightarrow> string" where
  "safe_truncate_str s max_bytes =
     (if length s \<le> max_bytes then s else take (walk_back s max_bytes) s)"

lemma walk_back_le: "walk_back s n \<le> n"
  by (induction n) (auto intro: le_SucI)

lemma walk_back_boundary: "is_char_boundary s (walk_back s n)"
  by (induction n) (auto simp: is_char_boundary_def)

lemma safe_truncate_str_length: "length (safe_truncate_str s n) \<le> n"
  using walk_back_le[of s n] by (simp add: safe_truncate_str_def)

lemma safe_truncate_str_prefix: "starts_with (safe_truncate_str s n) s"
  by (simp add: safe_truncate_str_def starts_with_def min_def)

lemma starts_with_code [code]:
  "starts_with [] v \<longleftrightarrow> True"
  "starts_with (a # p) [] \<longleftrightarrow> False"
  "starts_with (a # p) (b # v) \<longleftrightarrow> a = b \<and> starts_with p v"
  by (auto simp: starts_with_def)

lemma starts_with_iff [rust_std]: "starts_with p v \<longleftrightarrow> (\<exists>u. v = p @ u)"
  by (metis append_take_drop_id append_eq_conv_conj starts_with_def)

lemma ends_with_iff [rust_std]: "ends_with s v \<longleftrightarrow> (\<exists>u. v = u @ s)"
  unfolding ends_with_def
  by (metis append_take_drop_id append_eq_conv_conj diff_add_inverse2 le_add2 length_append)

lemma strip_prefix_Some [rust_std]: "strip_prefix p v = Some r \<longleftrightarrow> v = p @ r"
  by (auto simp: strip_prefix_def starts_with_iff)

lemma strip_suffix_Some [rust_std]: "strip_suffix s v = Some r \<longleftrightarrow> v = r @ s"
  by (auto simp: strip_suffix_def ends_with_iff)

lemma find_char_None [rust_std]: "find_char c s = None \<longleftrightarrow> c \<notin> set s"
  by (induction s) auto

lemma find_char_Some [rust_std]:
  "find_char c s = Some i \<Longrightarrow> s = take i s @ c # drop (Suc i) s \<and> c \<notin> set (take i s) \<and> i < length s"
  by (induction s arbitrary: i) (auto split: if_splits)

lemma contains_str_iff [rust_std]: "contains_str n s \<longleftrightarrow> (\<exists>u v. s = u @ n @ v)"
proof (induction s)
  case Nil
  then show ?case by auto
next
  case (Cons x xs)
  show ?case
  proof
    assume "contains_str n (x # xs)"
    then consider w where "x # xs = n @ w" | u v where "xs = u @ n @ v"
      using Cons.IH by (auto simp: starts_with_iff)
    then show "\<exists>u v. x # xs = u @ n @ v"
    proof cases
      case 1
      then show ?thesis by (intro exI[of _ "[]"] exI[of _ w]) simp
    next
      case (2 u v)
      then show ?thesis by (intro exI[of _ "x # u"] exI[of _ v]) simp
    qed
  next
    assume "\<exists>u v. x # xs = u @ n @ v"
    then obtain u v where "x # xs = u @ n @ v" by blast
    then have "starts_with n (x # xs) \<or> (\<exists>u v. xs = u @ n @ v)"
      by (cases u) (auto simp: starts_with_iff)
    then show "contains_str n (x # xs)"
      using Cons.IH by simp
  qed
qed

lemma find_str_None: "find_str m s = None \<longleftrightarrow> \<not> contains_str m s"
  by (induction s) auto

lemma find_str_Some:
  assumes "find_str m s = Some k"
  shows "starts_with m (drop k s)" "k \<le> length s" "\<And>j. j < k \<Longrightarrow> \<not> starts_with m (drop j s)"
proof -
  have "starts_with m (drop k s) \<and> k \<le> length s \<and> (\<forall>j < k. \<not> starts_with m (drop j s))"
    using assms
  proof (induction s arbitrary: k)
    case (Cons x xs)
    show ?case
    proof (cases k)
      case (Suc k')
      with Cons.prems have "find_str m xs = Some k'" "\<not> starts_with m (x # xs)"
        by (auto split: if_splits)
      with Cons.IH[of k'] Suc show ?thesis
        by (auto simp: less_Suc_eq_0_disj)
    qed (use Cons.prems in \<open>auto split: if_splits\<close>)
  qed (auto simp: starts_with_def split: if_splits)
  then show "starts_with m (drop k s)" "k \<le> length s" "\<And>j. j < k \<Longrightarrow> \<not> starts_with m (drop j s)"
    by auto
qed

lemma contains_iff_starts: "contains_str m s \<longleftrightarrow> (\<exists>j \<le> length s. starts_with m (drop j s))"
proof
  assume "contains_str m s"
  then obtain u v where "s = u @ m @ v"
    by (auto simp: contains_str_iff)
  then show "\<exists>j \<le> length s. starts_with m (drop j s)"
    by (intro exI[of _ "length u"]) (auto simp: starts_with_iff)
next
  assume "\<exists>j \<le> length s. starts_with m (drop j s)"
  then obtain j u where "drop j s = m @ u"
    by (auto simp: starts_with_iff)
  then show "contains_str m s"
    by (metis append_take_drop_id contains_str_iff)
qed

lemma find_str_prefix_free:
  assumes "find_str m s = Some k" "m \<noteq> []"
  shows "\<not> contains_str m (take k s)"
proof
  assume "contains_str m (take k s)"
  then obtain a b where ab: "take k s = a @ m @ b"
    by (auto simp: contains_str_iff)
  then have "s = a @ m @ b @ drop k s"
    by (metis append.assoc append_take_drop_id)
  then have "starts_with m (drop (length a) s)"
    by (metis append_eq_conv_conj starts_with_iff)
  moreover have "length a < k"
    using ab assms(2) find_str_Some(2)[OF assms(1)]
    by (metis add_less_cancel_left append_is_Nil_conv length_append length_greater_0_conv length_take
        min.absorb2 add.right_neutral)
  ultimately show False
    using find_str_Some(3)[OF assms(1)] by blast
qed

lemma found_length:
  assumes "find_str m s = Some k"
  shows "k + length m \<le> length s"
proof -
  from find_str_Some(1,2)[OF assms] obtain w where "drop k s = m @ w"
    by (auto simp: starts_with_iff)
  then have "length s - k = length m + length w"
    by (metis length_append length_drop)
  with find_str_Some(2)[OF assms] show ?thesis by simp
qed

text \<open>
  \<open>str::replace\<close> for a needle that is not empty.
\<close>

function replace_str :: "string \<Rightarrow> string \<Rightarrow> string \<Rightarrow> string" where
  "replace_str needle by_text s =
     (if needle = [] then s
      else case find_str needle s of
             None \<Rightarrow> s
           | Some k \<Rightarrow> take k s @ by_text @ replace_str needle by_text (drop (k + length needle) s))"
  by pat_completeness auto
termination
proof (relation "measure (\<lambda>(_, _, s). length s)", goal_cases)
  case (2 needle by_text s k)
  then show ?case using found_length[of needle s k] by (cases needle) auto
qed simp

declare replace_str.simps [simp del]

lemma replace_str_absent: "\<not> contains_str m s \<Longrightarrow> replace_str m r s = s"
  by (simp add: replace_str.simps[of m r s] flip: find_str_None)

lemma split_on_not_Nil [simp]: "split_on P s \<noteq> []"
  by (induction s) (auto split: list.splits)

lemma split_on_no_sep: "\<forall>c \<in> set s. \<not> P c \<Longrightarrow> split_on P s = [s]"
  by (induction s) auto

lemma split_on_segments: "seg \<in> set (split_on P s) \<Longrightarrow> c \<in> set seg \<Longrightarrow> \<not> P c \<and> c \<in> set s"
proof (induction s arbitrary: seg)
  case Nil
  then show ?case by simp
next
  case (Cons x xs)
  obtain a as where a: "split_on P xs = a # as"
    using split_on_not_Nil[of P xs] by (cases "split_on P xs") auto
  show ?case
  proof (cases "P x")
    case True
    with Cons.prems have "seg \<in> set (split_on P xs)"
      by auto
    with Cons.IH Cons.prems(2) show ?thesis by auto
  next
    case False
    with Cons.prems a have "seg = x # a \<or> seg \<in> set as"
      by simp
    with Cons.IH[of a] Cons.IH[of seg] Cons.prems(2) a False show ?thesis by auto
  qed
qed

lemma length_split_on: "length (split_on P s) = Suc (length (filter P s))"
  by (induction s) (auto split: list.splits)

lemma last_split_on: "\<forall>c \<in> set v. \<not> P c \<Longrightarrow> P x \<Longrightarrow> last (split_on P (u @ x # v)) = v"
proof (induction u)
  case (Cons a u)
  have "length (split_on P (u @ x # v)) \<ge> 2" using Cons.prems by (simp add: length_split_on)
  then show ?case using Cons by (auto split: list.split)
qed (simp add: split_on_no_sep)

text \<open>Joining on one separator undoes splitting, so splitting on one character is injective.\<close>

fun join_with :: "char \<Rightarrow> string list \<Rightarrow> string" where
  "join_with c [] = []"
| "join_with c [s] = s"
| "join_with c (s # t # ss) = s @ c # join_with c (t # ss)"

lemma join_with_Cons: "ss \<noteq> [] \<Longrightarrow> join_with c (s # ss) = s @ c # join_with c ss"
  by (cases ss) auto

lemma join_split_on: "join_with c (split_on (\<lambda>x. x = c) s) = s"
proof (induction s)
  case Nil
  then show ?case by simp
next
  case (Cons x xs)
  obtain a as where a: "split_on (\<lambda>x. x = c) xs = a # as"
    using split_on_not_Nil[of "\<lambda>x. x = c" xs] by (cases "split_on (\<lambda>x. x = c) xs") auto
  with Cons.IH show ?case
    by (cases as) auto
qed

lemma split_on_inject: "split_on (\<lambda>x. x = c) s = split_on (\<lambda>x. x = c) t \<Longrightarrow> s = t"
  by (metis join_split_on)

lemma map_filter_append: "List.map_filter f (xs @ ys) = List.map_filter f xs @ List.map_filter f ys"
  by (simp add: map_filter_def)

section \<open>Decimal numbers\<close>

text \<open>
  \<open>u64::to_string\<close> and \<open>u64::from_str\<close>: an optional plus sign, at least one digit, and
  no value above the largest \<open>u64\<close>.
\<close>

fun show_nat :: "nat \<Rightarrow> string" where
  "show_nat n = (if n < 10 then [char_of (48 + n)] else show_nat (n div 10) @ [char_of (48 + n mod 10)])"

declare show_nat.simps [simp del]

definition is_digit :: "char \<Rightarrow> bool" where
  "is_digit c \<longleftrightarrow> 48 \<le> (of_char c :: nat) \<and> (of_char c :: nat) \<le> 57"

definition digits_value :: "string \<Rightarrow> nat" where
  "digits_value = foldl (\<lambda>n c. 10 * n + (of_char c - 48)) 0"

definition parse_u64 :: "string \<Rightarrow> u64 option" where
  "parse_u64 s =
     (let ds = (if 1 < length s \<and> hd s = CHR ''+'' then tl s else s)
      in if ds = [] \<or> \<not> list_all is_digit ds \<or> 2 ^ 64 \<le> digits_value ds then None
         else Some (word_of_nat (digits_value ds)))"

lemma of_char_digit: "n < 10 \<Longrightarrow> of_char (char_of (48 + n) :: char) = 48 + (n :: nat)"
  by (simp add: of_char_of)

lemma is_digit_char_of [simp]: "n < 10 \<Longrightarrow> is_digit (char_of (48 + n :: nat))"
  by (simp add: is_digit_def of_char_digit)

lemma show_nat_digits: "list_all is_digit (show_nat n)"
proof (induction n rule: show_nat.induct)
  case (1 n)
  then show ?case
    by (subst show_nat.simps) simp
qed

lemma show_nat_not_Nil [simp]: "show_nat n \<noteq> []"
  by (subst show_nat.simps) simp

lemma digits_value_show: "digits_value (show_nat n) = n"
proof (induction n rule: show_nat.induct)
  case (1 n)
  show ?case
  proof (cases "n < 10")
    case True
    then show ?thesis
      by (subst show_nat.simps) (simp add: digits_value_def of_char_digit)
  next
    case False
    then have "digits_value (show_nat n) = 10 * digits_value (show_nat (n div 10)) + n mod 10"
      by (subst show_nat.simps) (simp add: digits_value_def of_char_digit)
    with 1 False show ?thesis by simp
  qed
qed

lemma show_nat_hd: "is_digit (hd (show_nat n))"
  using show_nat_digits[of n] show_nat_not_Nil[of n] by (cases "show_nat n") auto

lemma parse_show_u64 [simp]: "parse_u64 (show_nat (unat w)) = Some w"
proof -
  have "hd (show_nat (unat w)) \<noteq> CHR ''+''"
    using show_nat_hd[of "unat w"] by (auto simp: is_digit_def)
  moreover have "unat w < 2 ^ 64"
    using unsigned_less[of w] by simp
  ultimately show ?thesis
    by (simp add: parse_u64_def digits_value_show show_nat_digits Let_def)
qed

section \<open>Lines and paths\<close>

text \<open>
  \<open>str::lines\<close>: a line ends at a line feed, or a carriage return and a line feed; what follows
  the last line feed is a line if it is not empty.
\<close>

definition strip_cr :: "string \<Rightarrow> string" where
  "strip_cr l = (case strip_suffix [CHR 0x0D] l of Some r \<Rightarrow> r | None \<Rightarrow> l)"

definition str_lines :: "string \<Rightarrow> string list" where
  "str_lines s =
     (let segs = split_on (\<lambda>c. c = CHR 0x0A) s
      in map strip_cr (butlast segs) @ (if last segs = [] then [] else [last segs]))"

text \<open>Paths of Unix.\<close>

definition is_absolute :: "string \<Rightarrow> bool" where
  "is_absolute p \<longleftrightarrow> starts_with ''/'' p"

text \<open>
  \<open>Path::join\<close>, \<open>Path::components\<close> (the named ones, of a path in canonical form or for the
  search of a parent) and \<open>Path::starts_with\<close>.
\<close>

definition path_join :: "string \<Rightarrow> string \<Rightarrow> string" where
  "path_join a b =
     (if is_absolute b then b
      else if a = [] \<or> ends_with ''/'' a then a @ b
      else a @ ''/'' @ b)"

definition components :: "string \<Rightarrow> string list" where
  "components p = filter (\<lambda>c. c \<noteq> [] \<and> c \<noteq> ''.'') (split_on (\<lambda>c. c = CHR ''/'') p)"

definition path_starts_with :: "string \<Rightarrow> string \<Rightarrow> bool" where
  "path_starts_with p base \<longleftrightarrow>
     is_absolute p = is_absolute base \<and> take (length (components base)) (components p) = components base"

section \<open>Association lists\<close>

lemma map_of_AList_delete: "map_of (AList.delete k xs) k' = (if k' = k then None else map_of xs k')"
  by (simp add: delete_conv')

lemma map_of_AList_update: "map_of (AList.update k v xs) k' = (if k' = k then Some v else map_of xs k')"
  by (simp add: update_conv')

lemma update_append:
  "i \<notin> fst ` set al \<Longrightarrow> AList.update i v al = al @ [(i, v)]"
  by (induction al) auto

lemma fold_update_distinct:
  "distinct (map key ts) \<Longrightarrow> \<forall>t \<in> set ts. key t \<notin> fst ` set al
   \<Longrightarrow> fold (\<lambda>t. AList.update (key t) t) ts al = al @ map (\<lambda>t. (key t, t)) ts"
proof (induction ts arbitrary: al)
  case (Cons t ts)
  have "\<forall>u \<in> set ts. key u \<notin> fst ` set (al @ [(key t, t)])"
    using Cons.prems by (auto simp: image_iff)
  with Cons.IH[of "al @ [(key t, t)]"] Cons.prems show ?case by (simp add: update_append)
qed simp

section \<open>JSON\<close>

text \<open>\<open>serde_json::Value\<close>; a number is known by its text.\<close>

datatype json =
    JNull
  | JBool bool
  | JNumber string
  | JString string
  | JArray "json list"
  | JObject "(string \<times> json) list"

section \<open>Interfaces\<close>

text \<open>
  A keyed store: what a \<open>DashMap\<close> or \<open>HashMap\<close> field promises to its clients.
\<close>

locale keyed_store =
  fixes lookup :: "'s \<Rightarrow> 'k \<Rightarrow> 'v option"
    and put :: "'k \<Rightarrow> 'v \<Rightarrow> 's \<Rightarrow> 's"
    and del :: "'k \<Rightarrow> 's \<Rightarrow> 's"
  assumes lookup_put: "lookup (put k v s) k' = (if k' = k then Some v else lookup s k')"
    and lookup_del: "lookup (del k s) k' = (if k' = k then None else lookup s k')"
begin

lemma put_same: "lookup (put k v s) k = Some v"
  by (simp add: lookup_put)

lemma put_other: "k' \<noteq> k \<Longrightarrow> lookup (put k v s) k' = lookup s k'"
  by (simp add: lookup_put)

lemma del_same: "lookup (del k s) k = None"
  by (simp add: lookup_del)

lemma del_put: "lookup (del k (put k v s)) = lookup (del k s)"
  by (rule ext) (simp add: lookup_put lookup_del)

lemma put_put: "lookup (put k v (put k w s)) = lookup (put k v s)"
  by (rule ext) (simp add: lookup_put)

end

text \<open>
  A machine with an invariant: every operation keeps it, so every run keeps it.
\<close>

locale invariant_machine =
  fixes step :: "'s \<Rightarrow> 'e \<Rightarrow> 's"
    and inv :: "'s \<Rightarrow> bool"
  assumes inv_step: "inv s \<Longrightarrow> inv (step s e)"
begin

lemma inv_run: "inv s \<Longrightarrow> inv (foldl step s es)"
  by (induction es arbitrary: s) (auto intro: inv_step)

lemma inv_run_prefix: "inv s \<Longrightarrow> inv (foldl step s (take n es))"
  by (rule inv_run)

end

end
