(* ===== verification/Capability.thy ===== *)
theory Capability
  imports Prelude
begin

text \<open>
  Capability-based security: \<open>crates/librefang-types/src/capability.rs\<close> (the capability
  type, glob matching, matching of a grant against a request, inheritance check) and
  \<open>crates/librefang-kernel/src/capabilities.rs\<close> (the manager that stores grants).

  The messages of \<open>Denied\<close> and of the inheritance error are kept as structured values
  instead of formatted text. The lemmas relate the three glob matchers to declarative
  relations, and show what the inheritance check does and does not guarantee.
\<close>

section \<open>Data\<close>

datatype capability =
    FileRead string
  | FileWrite string
  | NetConnect string
  | NetListen u16
  | ToolInvoke string
  | ToolAll
  | LlmQuery string
  | LlmMaxTokens u64
  | AgentSpawn
  | AgentMessage string
  | AgentKill string
  | MemoryRead string
  | MemoryWrite string
  | ShellExec string
  | EnvRead string
  | OfpDiscover
  | OfpConnect string
  | OfpAdvertise
  | EconSpend f64
  | EconEarn
  | EconTransfer string

datatype deny_reason =
    NoCapabilitiesRegistered agent_id
  | LacksCapability agent_id capability

datatype capability_check = Granted | Denied deny_reason

definition is_granted :: "capability_check \<Rightarrow> bool" where
  "is_granted c = (case c of Granted \<Rightarrow> True | Denied _ \<Rightarrow> False)"

definition require :: "capability_check \<Rightarrow> deny_reason + unit" where
  "require c = (case c of Granted \<Rightarrow> Inr () | Denied reason \<Rightarrow> Inl reason)"

section \<open>Glob matching\<close>

abbreviation star :: char where
  "star \<equiv> CHR ''*''"

abbreviation is_path_sep :: "char \<Rightarrow> bool" where
  "is_path_sep c \<equiv> c = CHR ''/'' \<or> c = CHR 0x5C"

function glob_matches_simple :: "string \<Rightarrow> string \<Rightarrow> bool" where
  "glob_matches_simple pattern value =
     (if (case strip_prefix [star] pattern of Some suffix \<Rightarrow> star \<notin> set suffix | None \<Rightarrow> False)
      then ends_with (drop 1 pattern) value
      else if (case strip_suffix [star] pattern of Some prefix \<Rightarrow> star \<notin> set prefix | None \<Rightarrow> False)
      then starts_with (take (length pattern - 1) pattern) value
      else case find_char star pattern of
          None \<Rightarrow> False
        | Some star_pos \<Rightarrow>
            let prefix = take star_pos pattern; suffix = drop (star_pos + 1) pattern
            in if star \<in> set suffix
               then (case strip_prefix prefix value of
                       Some rest \<Rightarrow> glob_matches_simple suffix rest
                     | None \<Rightarrow> False)
               else starts_with prefix value \<and> ends_with suffix value
                    \<and> length prefix + length suffix \<le> length value)"
  by pat_completeness auto
termination
  by (relation "measure (\<lambda>(p, v). length p)") (auto dest: find_char_Some)

declare glob_matches_simple.simps [simp del]

definition segment_matches :: "string \<Rightarrow> string \<Rightarrow> bool" where
  "segment_matches pattern value =
     (if pattern = [star] \<or> pattern = value then True
      else if CHR ''/'' \<in> set value then False
      else glob_matches_simple pattern value)"

fun glob_match_segments :: "string list \<Rightarrow> string list \<Rightarrow> bool" where
  "glob_match_segments [] [] = True"
| "glob_match_segments [] (v # vs) = False"
| "glob_match_segments (p # ps) [] = list_all (\<lambda>s. s = ''**'') (p # ps)"
| "glob_match_segments (p # ps) (v # vs) =
     (if p = ''**''
      then glob_match_segments ps (v # vs)
           \<or> list_ex (\<lambda>i. glob_match_segments ps (drop i (v # vs))) [1..<Suc (length (v # vs))]
      else if segment_matches p v then glob_match_segments ps vs
      else False)"

definition glob_matches_path :: "string \<Rightarrow> string \<Rightarrow> bool" where
  "glob_matches_path pattern value =
     glob_match_segments (split_on is_path_sep pattern) (split_on is_path_sep value)"

definition glob_matches_with_separator :: "string \<Rightarrow> string \<Rightarrow> char \<Rightarrow> bool" where
  "glob_matches_with_separator pattern value sep =
     glob_match_segments (split_on (\<lambda>c. c = sep) pattern) (split_on (\<lambda>c. c = sep) value)"

definition glob_matches :: "string \<Rightarrow> string \<Rightarrow> bool" where
  "glob_matches pattern value =
     (if pattern = [star] then True
      else if pattern = value then True
      else if CHR ''/'' \<in> set pattern \<or> CHR 0x5C \<in> set pattern then glob_matches_path pattern value
      else if CHR ''.'' \<in> set pattern \<and> CHR ''.'' \<in> set value
      then glob_matches_with_separator pattern value CHR ''.''
      else glob_matches_simple pattern value)"

section \<open>Matching a grant against a request, inheritance\<close>

definition capability_matches :: "capability \<Rightarrow> capability \<Rightarrow> bool" where
  "capability_matches granted required =
     (case granted of
        ToolAll \<Rightarrow> (case required of ToolInvoke _ \<Rightarrow> True | _ \<Rightarrow> False)
      | FileRead pattern \<Rightarrow> (case required of FileRead path \<Rightarrow> glob_matches pattern path | _ \<Rightarrow> False)
      | FileWrite pattern \<Rightarrow> (case required of FileWrite path \<Rightarrow> glob_matches pattern path | _ \<Rightarrow> False)
      | NetConnect pattern \<Rightarrow> (case required of NetConnect host \<Rightarrow> glob_matches pattern host | _ \<Rightarrow> False)
      | ToolInvoke granted_id \<Rightarrow> (case required of ToolInvoke required_id \<Rightarrow> glob_matches granted_id required_id | _ \<Rightarrow> False)
      | LlmQuery pattern \<Rightarrow> (case required of LlmQuery model \<Rightarrow> glob_matches pattern model | _ \<Rightarrow> False)
      | AgentMessage pattern \<Rightarrow> (case required of AgentMessage target \<Rightarrow> glob_matches pattern target | _ \<Rightarrow> False)
      | AgentKill pattern \<Rightarrow> (case required of AgentKill target \<Rightarrow> glob_matches pattern target | _ \<Rightarrow> False)
      | MemoryRead pattern \<Rightarrow> (case required of MemoryRead scope \<Rightarrow> glob_matches pattern scope | _ \<Rightarrow> False)
      | MemoryWrite pattern \<Rightarrow> (case required of MemoryWrite scope \<Rightarrow> glob_matches pattern scope | _ \<Rightarrow> False)
      | ShellExec pattern \<Rightarrow> (case required of ShellExec cmd \<Rightarrow> glob_matches pattern cmd | _ \<Rightarrow> False)
      | EnvRead pattern \<Rightarrow> (case required of EnvRead var \<Rightarrow> glob_matches pattern var | _ \<Rightarrow> False)
      | OfpConnect pattern \<Rightarrow> (case required of OfpConnect peer \<Rightarrow> glob_matches pattern peer | _ \<Rightarrow> False)
      | EconTransfer pattern \<Rightarrow> (case required of EconTransfer target \<Rightarrow> glob_matches pattern target | _ \<Rightarrow> False)
      | AgentSpawn \<Rightarrow> (case required of AgentSpawn \<Rightarrow> True | _ \<Rightarrow> False)
      | OfpDiscover \<Rightarrow> (case required of OfpDiscover \<Rightarrow> True | _ \<Rightarrow> False)
      | OfpAdvertise \<Rightarrow> (case required of OfpAdvertise \<Rightarrow> True | _ \<Rightarrow> False)
      | EconEarn \<Rightarrow> (case required of EconEarn \<Rightarrow> True | _ \<Rightarrow> False)
      | NetListen granted_port \<Rightarrow>
          (case required of NetListen required_port \<Rightarrow> granted_port = required_port | _ \<Rightarrow> False)
      | LlmMaxTokens granted_max \<Rightarrow>
          (case required of LlmMaxTokens required_max \<Rightarrow> required_max \<le> granted_max | _ \<Rightarrow> False)
      | EconSpend granted_max \<Rightarrow>
          (case required of EconSpend required_amount \<Rightarrow> f64_ge granted_max required_amount | _ \<Rightarrow> False))"

datatype inheritance_error = PrivilegeEscalation capability

fun validate_capability_inheritance ::
  "capability list \<Rightarrow> capability list \<Rightarrow> inheritance_error + unit" where
  "validate_capability_inheritance parent_caps [] = Inr ()"
| "validate_capability_inheritance parent_caps (child_cap # rest) =
     (if list_ex (\<lambda>parent_cap. capability_matches parent_cap child_cap) parent_caps
      then validate_capability_inheritance parent_caps rest
      else Inl (PrivilegeEscalation child_cap))"

section \<open>The capability manager\<close>

record capability_manager =
  grants :: "agent_id \<rightharpoonup> capability list"

definition new_manager :: capability_manager where
  "new_manager = \<lparr>grants = Map.empty\<rparr>"

definition grant :: "agent_id \<Rightarrow> capability list \<Rightarrow> capability_manager \<Rightarrow> capability_manager" where
  "grant agent capabilities m = m\<lparr>grants := (grants m)(agent \<mapsto> capabilities)\<rparr>"

fun check_grants :: "agent_id \<Rightarrow> capability \<Rightarrow> capability list \<Rightarrow> capability_check" where
  "check_grants agent required [] = Denied (LacksCapability agent required)"
| "check_grants agent required (granted # rest) =
     (if capability_matches granted required then Granted
      else check_grants agent required rest)"

definition check :: "capability_manager \<Rightarrow> agent_id \<Rightarrow> capability \<Rightarrow> capability_check" where
  "check m agent required =
     (case grants m agent of
        None \<Rightarrow> Denied (NoCapabilitiesRegistered agent)
      | Some gs \<Rightarrow> check_grants agent required gs)"

definition list_caps :: "capability_manager \<Rightarrow> agent_id \<Rightarrow> capability list" where
  "list_caps m agent = (case grants m agent of None \<Rightarrow> [] | Some gs \<Rightarrow> gs)"

definition revoke_all :: "agent_id \<Rightarrow> capability_manager \<Rightarrow> capability_manager" where
  "revoke_all agent m = m\<lparr>grants := (grants m)(agent := None)\<rparr>"

section \<open>What the matchers mean\<close>

text \<open>
  The documented meaning of a wildcard pattern: a star stands for any string, any other
  character for itself; over path segments, a double star stands for any list of segments.
\<close>

inductive wild_match :: "string \<Rightarrow> string \<Rightarrow> bool" where
  wild_nil: "wild_match [] []"
| wild_star: "wild_match p v \<Longrightarrow> wild_match (star # p) (u @ v)"
| wild_lit: "c \<noteq> star \<Longrightarrow> wild_match p v \<Longrightarrow> wild_match (c # p) (c # v)"

inductive_simps wild_match_Nil: "wild_match [] v"
inductive_simps wild_match_Cons: "wild_match (c # p) v"

inductive seg_match :: "string list \<Rightarrow> string list \<Rightarrow> bool" where
  seg_nil: "seg_match [] []"
| seg_dstar: "seg_match ps vs \<Longrightarrow> seg_match (''**'' # ps) (us @ vs)"
| seg_one: "p \<noteq> ''**'' \<Longrightarrow> segment_matches p v \<Longrightarrow> seg_match ps vs \<Longrightarrow> seg_match (p # ps) (v # vs)"

inductive_simps seg_match_Nil: "seg_match [] vs"
inductive_simps seg_match_Cons: "seg_match (p # ps) vs"

lemma wild_match_literal_append:
  "star \<notin> set a \<Longrightarrow> wild_match (a @ p) v \<longleftrightarrow> (\<exists>w. v = a @ w \<and> wild_match p w)"
  by (induction a arbitrary: v) (auto simp: wild_match_Cons)

lemma wild_match_literal: "star \<notin> set p \<Longrightarrow> wild_match p v \<longleftrightarrow> v = p"
  using wild_match_literal_append[of p "[]" v] by (simp add: wild_match_Nil)

lemma wild_match_star: "wild_match (star # p) v \<longleftrightarrow> (\<exists>u w. v = u @ w \<and> wild_match p w)"
  by (auto simp: wild_match_Cons)

lemma glob_simple_single:
  assumes "star \<notin> set a" "star \<notin> set b"
  shows "glob_matches_simple (a @ star # b) v \<longleftrightarrow> (\<exists>u. v = a @ u @ b)"
proof -
  have pos: "find_char star (a @ star # b) = Some (length a)"
    using assms(1) by (induction a) auto
  have suf: "strip_suffix [star] (a @ star # b) = (if b = [] then Some a else None)"
    using assms(2)
    by (cases b rule: rev_cases) (auto simp: strip_suffix_def ends_with_iff)
  have mid: "starts_with a v \<and> ends_with b v \<and> length a + length b \<le> length v
      \<longleftrightarrow> (\<exists>u. v = a @ u @ b)"
  proof
    assume h: "starts_with a v \<and> ends_with b v \<and> length a + length b \<le> length v"
    then obtain x y where x: "v = a @ x" and y: "v = y @ b"
      unfolding starts_with_iff ends_with_iff by blast
    from h x have "length b \<le> length x" by simp
    moreover from x y have "a @ x = y @ b" by simp
    ultimately have "\<exists>u. x = u @ b"
      by (auto simp: append_eq_append_conv2)
    with x show "\<exists>u. v = a @ u @ b" by auto
  qed (auto simp: starts_with_iff ends_with_iff)
  show ?thesis
  proof (cases "a = []")
    case True
    with assms show ?thesis
      by (simp add: glob_matches_simple.simps[of "star # b"] strip_prefix_def starts_with_def
          ends_with_iff)
  next
    case False
    then have pre: "strip_prefix [star] (a @ star # b) = None"
      using assms(1) by (cases a) (auto simp: strip_prefix_def starts_with_def)
    show ?thesis
      using assms pos suf pre mid
      by (auto simp: glob_matches_simple.simps[of "a @ star # b"] starts_with_iff Let_def)
  qed
qed

lemma glob_simple_no_star:
  assumes "star \<notin> set p"
  shows "\<not> glob_matches_simple p v"
proof -
  have "strip_prefix [star] p = None" "strip_suffix [star] p = None" "find_char star p = None"
    using assms by (auto simp: strip_prefix_def strip_suffix_def starts_with_iff ends_with_iff
        find_char_None)
  then show ?thesis by (simp add: glob_matches_simple.simps[of p])
qed

lemma split_at_star:
  assumes "star \<in> set p"
  obtains a b where "p = a @ star # b" "star \<notin> set a"
  using assms by (metis split_list_first)

lemma glob_simple_many:
  assumes "star \<notin> set a" "star \<in> set b"
  shows "glob_matches_simple (a @ star # b) v \<longleftrightarrow> (\<exists>w. v = a @ w \<and> glob_matches_simple b w)"
proof -
  have pos: "find_char star (a @ star # b) = Some (length a)"
    using assms(1) by (induction a) auto
  have pre: "\<not> (case strip_prefix [star] (a @ star # b) of Some s \<Rightarrow> star \<notin> set s | None \<Rightarrow> False)"
    using assms by (cases a) (auto simp: rust_std split: option.splits)
  have suf: "\<not> (case strip_suffix [star] (a @ star # b) of Some s \<Rightarrow> star \<notin> set s | None \<Rightarrow> False)"
    using assms(2)
    by (cases b rule: rev_cases) (auto simp: rust_std strip_suffix_def split: option.splits)
  show ?thesis
    using assms pos pre suf
    by (auto simp: glob_matches_simple.simps[of "a @ star # b"] rust_std strip_prefix_def
        split: option.splits)
qed

lemma glob_simple_sound_aux: "glob_matches_simple p v \<Longrightarrow> wild_match p v"
proof (induction p arbitrary: v rule: measure_induct_rule[where f = length])
  case (less p)
  then have "star \<in> set p" using glob_simple_no_star by blast
  then obtain a b where p: "p = a @ star # b" "star \<notin> set a" by (rule split_at_star)
  show ?case
  proof (cases "star \<in> set b")
    case True
    with less.prems p obtain w where w: "v = a @ w" "glob_matches_simple b w"
      by (auto simp: glob_simple_many)
    have "wild_match b w" by (rule less.IH) (use w p in auto)
    then have "wild_match (star # b) ([] @ w)" by (rule wild_star)
    with w p show ?thesis by (simp add: wild_match_literal_append)
  next
    case False
    with less.prems p obtain u where "v = a @ u @ b" by (auto simp: glob_simple_single)
    with p False show ?thesis
      by (auto simp: wild_match_literal_append wild_match_star wild_match_literal)
  qed
qed

lemma count_list_1_split:
  assumes "count_list p c = 1"
  obtains a b where "p = a @ c # b" "c \<notin> set a" "c \<notin> set b"
proof -
  have "c \<in> set p" using assms by (metis count_notin zero_neq_one)
  then obtain a b where p: "p = a @ c # b" "c \<notin> set a" by (metis split_list_first)
  with assms have "count_list b c = 0" by simp
  then have "c \<notin> set b" by (simp add: count_list_0_iff)
  with p that show thesis by blast
qed

lemma list_all_dstar_seg_match: "list_all (\<lambda>s. s = ''**'') ps \<longleftrightarrow> seg_match ps []"
  by (induction ps) (auto simp: seg_match_Nil seg_match_Cons)

lemma glob_match_segments_seg_match: "glob_match_segments ps vs \<longleftrightarrow> seg_match ps vs"
proof (induction ps vs rule: glob_match_segments.induct)
  case (3 p ps)
  show ?case by (simp only: glob_match_segments.simps list_all_dstar_seg_match)
next
  case (4 p ps v vs)
  show ?case
  proof (cases "p = ''**''")
    case True
    have "glob_match_segments (p # ps) (v # vs) \<longleftrightarrow>
        (\<exists>i \<le> length (v # vs). seg_match ps (drop i (v # vs)))" (is "?l \<longleftrightarrow> ?r")
    proof -
      have "?l \<longleftrightarrow> seg_match ps (drop 0 (v # vs)) \<or>
          (\<exists>i \<in> {1..<Suc (length (v # vs))}. seg_match ps (drop i (v # vs)))"
        using 4(1) 4(2) True
        by (simp only: glob_match_segments.simps list_ex_iff drop_0 if_True set_upt refl
            simp_thms cong: bex_cong)
      also have "\<dots> \<longleftrightarrow> ?r"
        by (metis (no_types, lifting) One_nat_def Suc_leI atLeastLessThan_iff le_eq_less_or_eq
            less_Suc_eq_le not_gr_zero zero_le)
      finally show ?thesis .
    qed
    also have "\<dots> \<longleftrightarrow> (\<exists>us ws. v # vs = us @ ws \<and> seg_match ps ws)"
      by (metis append_eq_conv_conj append_take_drop_id le_add1 length_append)
    also have "\<dots> \<longleftrightarrow> seg_match (p # ps) (v # vs)"
      using True by (auto simp: seg_match_Cons)
    finally show ?thesis .
  next
    case False
    with 4 show ?thesis by (auto simp: seg_match_Cons)
  qed
qed (auto simp: seg_match_Nil)

lemma seg_match_no_dstar:
  "''**'' \<notin> set ps \<Longrightarrow> seg_match ps vs \<longleftrightarrow> list_all2 segment_matches ps vs"
  by (induction ps arbitrary: vs) (auto simp: seg_match_Nil seg_match_Cons list_all2_Cons1)

lemma segment_matches_refl [simp]: "segment_matches p p"
  by (simp add: segment_matches_def)

lemma seg_match_refl: "seg_match ps ps"
proof (induction ps)
  case (Cons p ps)
  then show ?case
    using seg_dstar[of ps ps "[''**'']"] seg_one[of p p ps ps] by (cases "p = ''**''") auto
qed (rule seg_nil)

lemma glob_matches_refl [simp]: "glob_matches p p"
  by (simp add: glob_matches_def)

text \<open>Patterns with no wildcard and no path separator match only themselves.\<close>

definition plain :: "string \<Rightarrow> bool" where
  "plain s \<longleftrightarrow> star \<notin> set s \<and> (\<forall>c \<in> set s. \<not> is_path_sep c)"

lemma segment_matches_literal: "star \<notin> set p \<Longrightarrow> segment_matches p v \<longleftrightarrow> p = v"
  by (auto simp: segment_matches_def glob_simple_no_star)

lemma list_all2_literal:
  "\<forall>p \<in> set ps. star \<notin> set p \<Longrightarrow> list_all2 segment_matches ps vs \<Longrightarrow> ps = vs"
  by (induction ps arbitrary: vs) (auto simp: list_all2_Cons1 segment_matches_literal)

lemma glob_matches_plain:
  assumes "plain p"
  shows "glob_matches p v \<longleftrightarrow> v = p"
proof
  assume g: "glob_matches p v"
  let ?S = "split_on (\<lambda>c. c = CHR ''.'')"
  have lit: "\<forall>s \<in> set (?S p). star \<notin> set s"
    using assms split_on_segments by (fastforce simp: plain_def)
  then have nod: "''**'' \<notin> set (?S p)" by auto
  show "v = p"
  proof (rule ccontr)
    assume "v \<noteq> p"
    with g assms have "glob_match_segments (?S p) (?S v) \<or> glob_matches_simple p v"
      by (auto simp: glob_matches_def plain_def glob_matches_with_separator_def split: if_splits)
    with assms have "list_all2 segment_matches (?S p) (?S v)"
      by (auto simp: glob_match_segments_seg_match seg_match_no_dstar[OF nod] plain_def
          glob_simple_no_star)
    with lit have "?S p = ?S v" by (rule list_all2_literal)
    with \<open>v \<noteq> p\<close> show False using split_on_inject by metis
  qed
qed simp

section \<open>Grants and inheritance\<close>

lemma check_grants_Granted:
  "check_grants a r gs = Granted \<longleftrightarrow> (\<exists>g \<in> set gs. capability_matches g r)"
  by (induction gs) auto

lemma check_Granted:
  "check m a r = Granted \<longleftrightarrow> (\<exists>gs. grants m a = Some gs \<and> (\<exists>g \<in> set gs. capability_matches g r))"
  by (auto simp: check_def check_grants_Granted split: option.splits)

lemma check_list_caps: "check m a r = Granted \<longleftrightarrow> (\<exists>g \<in> set (list_caps m a). capability_matches g r)"
  by (cases "grants m a") (auto simp: check_Granted list_caps_def)

interpretation grant_store: keyed_store grants grant revoke_all
  by unfold_locales (auto simp: grant_def revoke_all_def)

lemma validate_ok_iff:
  "validate_capability_inheritance ps cs = Inr () \<longleftrightarrow>
     (\<forall>c \<in> set cs. \<exists>p \<in> set ps. capability_matches p c)"
  by (induction cs) (auto simp: list_ex_iff)

fun cap_pattern :: "capability \<Rightarrow> string option" where
  "cap_pattern (FileRead s) = Some s"
| "cap_pattern (FileWrite s) = Some s"
| "cap_pattern (NetConnect s) = Some s"
| "cap_pattern (ToolInvoke s) = Some s"
| "cap_pattern (LlmQuery s) = Some s"
| "cap_pattern (AgentMessage s) = Some s"
| "cap_pattern (AgentKill s) = Some s"
| "cap_pattern (MemoryRead s) = Some s"
| "cap_pattern (MemoryWrite s) = Some s"
| "cap_pattern (ShellExec s) = Some s"
| "cap_pattern (EnvRead s) = Some s"
| "cap_pattern (OfpConnect s) = Some s"
| "cap_pattern (EconTransfer s) = Some s"
| "cap_pattern _ = None"

lemma split_on_cong: "\<forall>c \<in> set s. P c = Q c \<Longrightarrow> split_on P s = split_on Q s"
  by (induction s) (auto split: list.splits)

text \<open>
  A wildcard-free pattern with separators reads \<open>/\<close> and the backslash alike, so it also
  matches the same path spelt with the other separator. With no backslash on either side it
  matches only itself.
\<close>

lemma glob_matches_slash_literal:
  assumes "star \<notin> set p" "CHR 0x5C \<notin> set p" "CHR 0x5C \<notin> set v"
    and "CHR ''/'' \<in> set p" "glob_matches p v"
  shows "v = p"
proof -
  let ?S = "split_on is_path_sep"
  have lit: "\<forall>s \<in> set (?S p). star \<notin> set s"
    using assms(1) split_on_segments by fastforce
  then have nod: "''**'' \<notin> set (?S p)" by auto
  have slash: "?S w = split_on (\<lambda>c. c = CHR ''/'') w" if "CHR 0x5C \<notin> set w" for w
    using that by (intro split_on_cong) auto
  from assms have "v = p \<or> glob_match_segments (?S p) (?S v)"
    by (auto simp: glob_matches_def glob_matches_path_def split: if_splits)
  then show ?thesis
  proof
    assume "glob_match_segments (?S p) (?S v)"
    then have "list_all2 segment_matches (?S p) (?S v)"
      by (simp add: glob_match_segments_seg_match seg_match_no_dstar[OF nod])
    with lit have "?S p = ?S v" by (rule list_all2_literal)
    with slash[OF assms(2)] slash[OF assms(3)] show "v = p" by (metis split_on_inject)
  qed
qed

definition wildcard_free :: "capability \<Rightarrow> bool" where
  "wildcard_free c \<longleftrightarrow> (case cap_pattern c of None \<Rightarrow> True | Some s \<Rightarrow> star \<notin> set s)"

definition backslash_free :: "capability \<Rightarrow> bool" where
  "backslash_free c \<longleftrightarrow> (case cap_pattern c of None \<Rightarrow> True | Some s \<Rightarrow> CHR 0x5C \<notin> set s)"

definition slash_free :: "capability \<Rightarrow> bool" where
  "slash_free c \<longleftrightarrow> (case cap_pattern c of None \<Rightarrow> True | Some s \<Rightarrow> CHR ''/'' \<notin> set s)"

lemma glob_matches_wildcard_free:
  assumes "star \<notin> set p" "CHR 0x5C \<notin> set p" "CHR ''/'' \<notin> set p \<or> CHR 0x5C \<notin> set v"
  shows "glob_matches p v \<longleftrightarrow> v = p"
  using assms glob_matches_slash_literal[of p v] glob_matches_plain[of p v]
  by (auto simp: plain_def)

lemma capability_matches_trans_literal:
  assumes "wildcard_free c" "backslash_free c" "slash_free c \<or> backslash_free r"
    and "capability_matches p c" "capability_matches c r"
  shows "capability_matches p r"
  using assms
  by (cases c; cases r)
    (auto simp: wildcard_free_def backslash_free_def slash_free_def capability_matches_def
        glob_matches_wildcard_free split: capability.splits intro: f64_ge_trans)

lemma capability_matches_refl:
  "capability_matches c c \<longleftrightarrow> c \<noteq> ToolAll \<and> c \<noteq> EconSpend NaN"
proof (cases c)
  case (EconSpend x)
  then show ?thesis by (cases x) (auto simp: capability_matches_def)
qed (auto simp: capability_matches_def)

lemma nothing_matches_ToolAll: "\<not> capability_matches p ToolAll"
  by (cases p) (auto simp: capability_matches_def)

lemma nothing_matches_NaN: "\<not> capability_matches p (EconSpend NaN)"
proof (cases p)
  case (EconSpend x)
  then show ?thesis by (cases x) (auto simp: capability_matches_def)
qed (auto simp: capability_matches_def)

lemma name_glob_single:
  assumes "\<forall>c \<in> set pattern. \<not> is_path_sep c \<and> c \<noteq> CHR ''.''"
    and "count_list pattern star = 1"
  shows "glob_matches pattern value \<longleftrightarrow> wild_match pattern value"
proof -
  obtain a b where p: "pattern = a @ star # b" and ab: "star \<notin> set a" "star \<notin> set b"
    using assms(2) by (rule count_list_1_split)
  have w: "wild_match pattern v \<longleftrightarrow> glob_matches_simple pattern v" for v
    unfolding p by (auto simp: glob_simple_single[OF ab] wild_match_literal_append[OF ab(1)]
        wild_match_star wild_match_literal[OF ab(2)])
  have "glob_matches_simple pattern pattern"
    unfolding p glob_simple_single[OF ab] by (rule exI[of _ "[star]"]) simp
  moreover have "glob_matches_simple [star] value"
    using glob_simple_single[of "[]" "[]" "value"] by simp
  ultimately show ?thesis
    using assms(1) unfolding w by (auto simp: glob_matches_def)
qed

lemma name_glob_wild:
  assumes "\<forall>c \<in> set pattern. \<not> is_path_sep c \<and> c \<noteq> CHR ''.''"
    and "count_list pattern star \<le> 1"
  shows "glob_matches pattern value \<longleftrightarrow> wild_match pattern value"
proof (cases "count_list pattern star = 1")
  case True
  with assms(1) show ?thesis by (rule name_glob_single)
next
  case False
  with assms(2) have "count_list pattern star = 0" by linarith
  then have n: "star \<notin> set pattern" by (simp add: count_list_0_iff)
  then have "pattern \<noteq> [star]" by auto
  moreover have "CHR ''/'' \<notin> set pattern" "CHR 0x5C \<notin> set pattern" "CHR ''.'' \<notin> set pattern"
    using assms(1) by blast+
  ultimately show ?thesis
    using wild_match_literal[OF n, of "value"] glob_simple_no_star[OF n, of "value"]
    by (auto simp: glob_matches_def)
qed

section \<open>Properties\<close>

text \<open>
  C15: A grant pattern that contains a path separator matches a value exactly when the
  declarative segment relation holds between the pattern's and the value's segments: a double
  star stands for any list of segments, any other pattern segment for exactly one segment.
\<close>
theorem path_glob_semantics:
  assumes "\<exists>c \<in> set pattern. is_path_sep c"
  shows "glob_matches pattern value \<longleftrightarrow>
    seg_match (split_on is_path_sep pattern) (split_on is_path_sep value)"
proof -
  have "pattern \<noteq> [star]" using assms by auto
  with assms show ?thesis
    by (auto simp: glob_matches_def glob_matches_path_def glob_match_segments_seg_match
        intro: seg_match_refl)
qed

theorem path_glob_semantics_witness:
  "glob_matches ''data/**'' ''data/a/b'' \<longleftrightarrow>
    seg_match (split_on is_path_sep ''data/**'') (split_on is_path_sep ''data/a/b'')"
  by (rule path_glob_semantics) simp

text \<open>
  A path grant without a double-star segment only matches values with the same number of
  segments, each matched by its own pattern segment: a single star never crosses a separator.
\<close>
theorem single_star_stays_in_segment:
  assumes "\<exists>c \<in> set pattern. is_path_sep c"
    and "''**'' \<notin> set (split_on is_path_sep pattern)"
    and "glob_matches pattern value"
  shows "length (split_on is_path_sep value) = length (split_on is_path_sep pattern)
    \<and> list_all2 segment_matches (split_on is_path_sep pattern) (split_on is_path_sep value)"
proof -
  have "pattern \<noteq> [star]" using assms(1) by auto
  with assms have "seg_match (split_on is_path_sep pattern) (split_on is_path_sep value)"
    by (auto simp: glob_matches_def glob_matches_path_def glob_match_segments_seg_match
        intro: seg_match_refl split: if_splits)
  with seg_match_no_dstar[OF assms(2)]
  have "list_all2 segment_matches (split_on is_path_sep pattern) (split_on is_path_sep value)"
    by simp
  then show ?thesis by (auto dest: list_all2_lengthD)
qed

theorem single_star_stays_in_segment_witness:
  "length (split_on is_path_sep ''data/x.txt'') = length (split_on is_path_sep ''data/*'')
    \<and> list_all2 segment_matches (split_on is_path_sep ''data/*'') (split_on is_path_sep ''data/x.txt'')"
proof (rule single_star_stays_in_segment)
  show "glob_matches ''data/*'' ''data/x.txt''" by code_simp
qed simp_all

text \<open>
  For name patterns (no path separator, no dot) with exactly one star, \<open>glob_matches\<close>
  is exactly wildcard matching.
\<close>
theorem name_glob_exact:
  assumes "\<forall>c \<in> set pattern. \<not> is_path_sep c \<and> c \<noteq> CHR ''.''"
    and "count_list pattern star = 1"
  shows "glob_matches pattern value \<longleftrightarrow> wild_match pattern value"
  using name_glob_single[OF assms] .

theorem name_glob_exact_witness:
  "glob_matches ''file_*'' ''file_read'' \<longleftrightarrow> wild_match ''file_*'' ''file_read''"
  by (rule name_glob_exact) simp_all

text \<open>
  The legacy matcher never accepts more than wildcard matching allows, whatever the number
  of stars; but with two stars it rejects values that wildcard matching accepts, since all stars
  but the last match only the empty string.
\<close>
theorem glob_simple_sound_not_complete:
  "(\<forall>p v. glob_matches_simple p v \<longrightarrow> wild_match p v)
   \<and> wild_match ''*a*'' ''xay'' \<and> \<not> glob_matches ''*a*'' ''xay''"
proof -
  have "wild_match ''*a*'' ''xay''"
    using wild_star[of "''a*''" "''ay''" "''x''"] wild_lit[of "CHR ''a''" "''*''" "''y''"]
      wild_star[of "[]" "[]" "''y''"] wild_nil by simp
  moreover have "\<not> glob_matches ''*a*'' ''xay''" by code_simp
  ultimately show ?thesis using glob_simple_sound_aux by blast
qed

theorem glob_simple_sound_not_complete_witness:
  "wild_match ''a*c'' ''abc''"
proof -
  have "glob_matches_simple ''a*c'' ''abc''" by code_simp
  with glob_simple_sound_not_complete show ?thesis by blast
qed

text \<open>
  C3: No privilege escalation through literal child capabilities: suppose the inheritance check
  accepts the child's capabilities against the parent's current grants, no pattern among them
  holds a star or a backslash, and, for those that hold a slash, the request holds no backslash
  either. Then every request the manager grants to the child, it grants to the parent. (Both
  side conditions are needed: \<open>inheritance_wildcard_escalation\<close> escalates with a star,
  \<open>inheritance_separator_escalation\<close> by exchanging the two separators.)
\<close>
theorem child_grant_implies_parent_grant:
  assumes "validate_capability_inheritance (list_caps m parent) child_caps = Inr ()"
    and "\<forall>c \<in> set child_caps. wildcard_free c \<and> backslash_free c"
    and "\<forall>c \<in> set child_caps. slash_free c \<or> backslash_free r"
    and "child \<noteq> parent"
    and "check (grant child child_caps m) child r = Granted"
  shows "check (grant child child_caps m) parent r = Granted"
proof -
  from assms(5) obtain c where c: "c \<in> set child_caps" "capability_matches c r"
    by (auto simp: check_Granted grant_store.put_same)
  with assms(1) obtain p where p: "p \<in> set (list_caps m parent)" "capability_matches p c"
    by (auto simp: validate_ok_iff)
  have "list_caps (grant child child_caps m) parent = list_caps m parent"
    using assms(4) by (simp add: list_caps_def grant_store.put_other)
  with p c assms(2,3) show ?thesis
    by (metis check_list_caps capability_matches_trans_literal)
qed

theorem child_grant_implies_parent_grant_witness:
  "check (grant 2 [FileRead ''data/a''] (grant 1 [FileRead ''data/*''] new_manager)) 1
     (FileRead ''data/a'') = Granted"
  by (rule child_grant_implies_parent_grant) code_simp+

text \<open>
  Without wildcards the check can still be escalated through the two path separators: a host-like
  pattern without separators is matched by dots and rejects a slash, but not a backslash, inside a
  segment, while a child pattern with a backslash is granted the same path spelt with a slash.
\<close>
theorem inheritance_separator_escalation:
  "validate_capability_inheritance [FileRead ''a.*b''] [FileRead (''a.x'' @ CHR 0x5C # ''b'')] = Inr ()
   \<and> capability_matches (FileRead (''a.x'' @ CHR 0x5C # ''b'')) (FileRead ''a.x/b'')
   \<and> \<not> capability_matches (FileRead ''a.*b'') (FileRead ''a.x/b'')"
  by code_simp

text \<open>
  With wildcards the check does not prevent escalation: a parent confined to one directory
  level may create a child with a recursive grant, and that child is granted a path outside the
  directory that the parent is denied.
\<close>
theorem inheritance_wildcard_escalation:
  "validate_capability_inheritance [FileRead ''data/*''] [FileRead ''data/**''] = Inr ()
   \<and> capability_matches (FileRead ''data/**'') (FileRead ''data/../../etc/passwd'')
   \<and> \<not> capability_matches (FileRead ''data/*'') (FileRead ''data/../../etc/passwd'')"
  by code_simp

text \<open>
  A set of capabilities may be inherited by an identical child exactly when it holds neither
  \<open>ToolAll\<close> nor a spending limit of \<open>NaN\<close>: \<open>ToolAll\<close> is never covered, not
  even by \<open>ToolAll\<close> itself.
\<close>
theorem self_inheritance_iff:
  "validate_capability_inheritance cs cs = Inr () \<longleftrightarrow> ToolAll \<notin> set cs \<and> EconSpend NaN \<notin> set cs"
  unfolding validate_ok_iff
  using capability_matches_refl nothing_matches_ToolAll nothing_matches_NaN by metis

text \<open>
  The inheritance check fails on the first child capability that no parent capability covers,
  and names it; it never fails otherwise.
\<close>
theorem inheritance_error_first_uncovered:
  "validate_capability_inheritance ps cs = Inl (PrivilegeEscalation c) \<longleftrightarrow>
     (\<exists>us vs. cs = us @ c # vs \<and> (\<forall>u \<in> set us. \<exists>p \<in> set ps. capability_matches p u)
        \<and> (\<forall>p \<in> set ps. \<not> capability_matches p c))"
proof (induction cs)
  case (Cons d cs)
  show ?case
  proof (cases "\<exists>p \<in> set ps. capability_matches p d")
    case True
    then have "validate_capability_inheritance ps (d # cs) = validate_capability_inheritance ps cs"
      by (auto simp: list_ex_iff)
    with Cons.IH True show ?thesis
      by (auto simp: Cons_eq_append_conv intro: exI[of _ "d # _"])
        (metis append_Cons list.set_intros(1) set_ConsD)+
  next
    case False
    then show ?thesis by (auto simp: list_ex_iff Cons_eq_append_conv)
  qed
qed auto

theorem inheritance_error_first_uncovered_witness:
  "validate_capability_inheritance [ToolInvoke ''a''] [ToolInvoke ''a'', AgentSpawn]
     = Inl (PrivilegeEscalation AgentSpawn)"
  unfolding inheritance_error_first_uncovered
  by (rule exI[of _ "[ToolInvoke ''a'']"], rule exI[of _ "[]"]) (simp add: capability_matches_def)

text \<open>
  The manager's answers: a grant replaces the agent's capabilities and leaves other agents
  alone, and after revocation every request of the agent is denied as unregistered.
\<close>
theorem manager_grant_revoke:
  "is_granted (check (grant a cs m) b r) =
     (if b = a then (\<exists>c \<in> set cs. capability_matches c r) else is_granted (check m b r))
   \<and> check (revoke_all a m) a r = Denied (NoCapabilitiesRegistered a)"
proof
  show "is_granted (check (grant a cs m) b r) =
      (if b = a then (\<exists>c \<in> set cs. capability_matches c r) else is_granted (check m b r))"
    using check_grants_Granted[of a r cs]
    by (cases "check_grants a r cs")
      (auto simp: is_granted_def check_def grant_store.lookup_put split: option.splits)
  show "check (revoke_all a m) a r = Denied (NoCapabilitiesRegistered a)"
    by (simp add: check_def grant_store.del_same)
qed

end
