(* ===== verification/Scheduler.thy ===== *)
theory Scheduler
  imports Prelude
begin

text \<open>
  The agent scheduler of \<open>crates/librefang-kernel/src/scheduler.rs\<close>: per-agent quotas,
  hourly usage counters, per-minute sliding windows and the reserve / settle / release protocol,
  with \<open>ResourceQuota\<close> of \<open>librefang-types/src/agent.rs\<close> and \<open>TokenUsage\<close> of
  \<open>librefang-types/src/message.rs\<close>.

  Every operation takes the clock reading \<open>now\<close> it would obtain from \<open>Instant::now()\<close>
  under the entry lock it holds. The text of \<open>QuotaExceeded\<close> is the structured value
  \<open>quota_error\<close>. A task handle is a number, and aborting it appends it to \<open>aborted\<close>.
\<close>

section \<open>Data\<close>

record resource_quota =
  max_memory_bytes :: u64
  max_cpu_time_ms :: u64
  max_tool_calls_per_minute :: u32
  max_llm_tokens_per_hour :: "u64 option"
  max_network_bytes_per_hour :: u64
  max_cost_per_hour_usd :: f64
  max_cost_per_day_usd :: f64
  max_cost_per_month_usd :: f64

definition default_quota :: resource_quota where
  "default_quota = \<lparr>max_memory_bytes = 256 * 1024 * 1024, max_cpu_time_ms = 30000,
     max_tool_calls_per_minute = 60, max_llm_tokens_per_hour = None,
     max_network_bytes_per_hour = 100 * 1024 * 1024, max_cost_per_hour_usd = Finite 0,
     max_cost_per_day_usd = Finite 0, max_cost_per_month_usd = Finite 0\<rparr>"

definition effective_token_limit :: "resource_quota \<Rightarrow> u64" where
  "effective_token_limit q = (case max_llm_tokens_per_hour q of None \<Rightarrow> 0 | Some n \<Rightarrow> n)"

record token_usage =
  usage_input_tokens :: u64
  usage_output_tokens :: u64
  cache_creation_input_tokens :: u64
  cache_read_input_tokens :: u64

definition total :: "token_usage \<Rightarrow> u64" where
  "total u = usage_input_tokens u + usage_output_tokens u"

record usage_snapshot =
  snap_total_tokens :: u64
  snap_input_tokens :: u64
  snap_output_tokens :: u64
  snap_tool_calls :: u64
  snap_llm_calls :: u64

record usage_tracker =
  total_tokens :: u64
  input_tokens :: u64
  output_tokens :: u64
  tool_calls :: u64
  llm_calls :: u64
  window_start :: instant
  tool_call_timestamps :: "instant list"
  token_timestamps :: "(instant \<times> u64) list"

definition ONE_MINUTE :: int where
  "ONE_MINUTE = 60 * 1000000000"

definition ONE_HOUR :: int where
  "ONE_HOUR = 3600 * 1000000000"

definition default_tracker :: "instant \<Rightarrow> usage_tracker" where
  "default_tracker now = \<lparr>total_tokens = 0, input_tokens = 0, output_tokens = 0, tool_calls = 0,
     llm_calls = 0, window_start = now, tool_call_timestamps = [], token_timestamps = []\<rparr>"

datatype quota_error =
    TokenLimitExceeded u64 u64
  | TokenBurstExceeded u64 u64
  | ToolRateExceeded u32 u32
  | TokenLimitWouldExceed u64 u64 u64
  | TokenBurstWouldExceed u64 u64 u64

record scheduler =
  quotas :: "agent_id \<rightharpoonup> resource_quota"
  usage :: "agent_id \<rightharpoonup> usage_tracker"
  tasks :: "agent_id \<rightharpoonup> nat"
  aborted :: "nat list"

section \<open>The usage tracker\<close>

definition elapsed :: "instant \<Rightarrow> instant \<Rightarrow> int" where
  "elapsed now start = max 0 (now - start)"

definition reset_if_expired :: "instant \<Rightarrow> usage_tracker \<Rightarrow> usage_tracker" where
  "reset_if_expired now t =
     (if ONE_HOUR \<le> elapsed now (window_start t)
      then t\<lparr>total_tokens := 0, input_tokens := 0, output_tokens := 0, tool_calls := 0,
             llm_calls := 0, window_start := now, tool_call_timestamps := [],
             token_timestamps := []\<rparr>
      else t)"

definition tool_calls_in_last_minute :: "instant \<Rightarrow> usage_tracker \<Rightarrow> u32 \<times> usage_tracker" where
  "tool_calls_in_last_minute now t =
     (let cutoff = now - ONE_MINUTE;
          ts = dropWhile (\<lambda>x. x < cutoff) (tool_call_timestamps t)
      in (word_of_nat (length ts), t\<lparr>tool_call_timestamps := ts\<rparr>))"

definition tokens_in_last_minute :: "instant \<Rightarrow> usage_tracker \<Rightarrow> u64 \<times> usage_tracker" where
  "tokens_in_last_minute now t =
     (let cutoff = now - ONE_MINUTE;
          ts = dropWhile (\<lambda>(x, _). x < cutoff) (token_timestamps t)
      in (sum_list (map snd ts), t\<lparr>token_timestamps := ts\<rparr>))"

section \<open>The scheduler\<close>

definition new_scheduler :: scheduler where
  "new_scheduler = \<lparr>quotas = Map.empty, usage = Map.empty, tasks = Map.empty, aborted = []\<rparr>"

definition put_usage :: "agent_id \<Rightarrow> usage_tracker \<Rightarrow> scheduler \<Rightarrow> scheduler" where
  "put_usage a t s = s\<lparr>usage := (usage s)(a \<mapsto> t)\<rparr>"

definition register :: "instant \<Rightarrow> agent_id \<Rightarrow> resource_quota \<Rightarrow> scheduler \<Rightarrow> scheduler" where
  "register now a q s =
     put_usage a (default_tracker now) (s\<lparr>quotas := (quotas s)(a \<mapsto> q)\<rparr>)"

definition update_quota :: "agent_id \<Rightarrow> resource_quota \<Rightarrow> scheduler \<Rightarrow> scheduler" where
  "update_quota a q s = s\<lparr>quotas := (quotas s)(a \<mapsto> q)\<rparr>"

definition record_usage :: "instant \<Rightarrow> agent_id \<Rightarrow> token_usage \<Rightarrow> scheduler \<Rightarrow> scheduler" where
  "record_usage now a u s =
     (case usage s a of
        None \<Rightarrow> s
      | Some t0 \<Rightarrow>
          let t = reset_if_expired now t0; n = total u
          in put_usage a
               (t\<lparr>total_tokens := total_tokens t + n,
                  input_tokens := input_tokens t + usage_input_tokens u,
                  output_tokens := output_tokens t + usage_output_tokens u,
                  llm_calls := llm_calls t + 1,
                  token_timestamps := token_timestamps t @ [(now, n)]\<rparr>) s)"

definition record_tool_calls :: "instant \<Rightarrow> agent_id \<Rightarrow> u32 \<Rightarrow> scheduler \<Rightarrow> scheduler" where
  "record_tool_calls now a count s =
     (if count = 0 then s
      else case usage s a of
          None \<Rightarrow> s
        | Some t0 \<Rightarrow>
            let t = reset_if_expired now t0
            in put_usage a
                 (t\<lparr>tool_call_timestamps := tool_call_timestamps t @ replicate (unat count) now,
                    tool_calls := tool_calls t + ucast count\<rparr>) s)"

definition check_quota ::
  "instant \<Rightarrow> agent_id \<Rightarrow> scheduler \<Rightarrow> (quota_error + unit) \<times> scheduler" where
  "check_quota now a s =
     (case quotas s a of
        None \<Rightarrow> (Inr (), s)
      | Some quota \<Rightarrow>
          (case usage s a of
             None \<Rightarrow> (Inr (), s)
           | Some t0 \<Rightarrow>
               let t = reset_if_expired now t0;
                   token_limit = effective_token_limit quota
               in if token_limit > 0 \<and> total_tokens t > token_limit
                  then (Inl (TokenLimitExceeded (total_tokens t) token_limit), put_usage a t s)
                  else
                    let burst_cap = token_limit div 5;
                        (tokens_last_min, t1) =
                          (if token_limit > 0 then tokens_in_last_minute now t else (0, t))
                    in if token_limit > 0 \<and> burst_cap > 0 \<and> tokens_last_min > burst_cap
                       then (Inl (TokenBurstExceeded tokens_last_min burst_cap), put_usage a t1 s)
                       else if max_tool_calls_per_minute quota > 0
                       then let (recent, t2) = tool_calls_in_last_minute now t1
                            in if recent \<ge> max_tool_calls_per_minute quota
                               then (Inl (ToolRateExceeded recent (max_tool_calls_per_minute quota)),
                                     put_usage a t2 s)
                               else (Inr (), put_usage a t2 s)
                       else (Inr (), put_usage a t1 s)))"

definition check_quota_and_reserve ::
  "instant \<Rightarrow> agent_id \<Rightarrow> u64 \<Rightarrow> scheduler \<Rightarrow> (quota_error + u64) \<times> scheduler" where
  "check_quota_and_reserve now a estimated s =
     (case quotas s a of
        None \<Rightarrow> (Inr 0, s)
      | Some quota \<Rightarrow>
          (case usage s a of
             None \<Rightarrow> (Inr 0, s)
           | Some t0 \<Rightarrow>
               let t = reset_if_expired now t0;
                   token_limit = effective_token_limit quota
               in if token_limit = 0 then (Inr 0, put_usage a t s)
                  else
                    let projected = sat_add (total_tokens t) estimated
                    in if projected > token_limit
                       then (Inl (TokenLimitWouldExceed (total_tokens t) estimated token_limit),
                             put_usage a t s)
                       else
                         let burst_cap = token_limit div 5;
                             (tokens_last_min, t1) = tokens_in_last_minute now t
                         in if burst_cap > 0 \<and> sat_add tokens_last_min estimated > burst_cap
                            then (Inl (TokenBurstWouldExceed tokens_last_min estimated burst_cap),
                                  put_usage a t1 s)
                            else (Inr estimated, put_usage a (t1\<lparr>total_tokens := projected\<rparr>) s)))"

definition settle_reservation ::
  "instant \<Rightarrow> agent_id \<Rightarrow> u64 \<Rightarrow> token_usage \<Rightarrow> scheduler \<Rightarrow> scheduler" where
  "settle_reservation now a estimated u s =
     (let actual = total u
      in case usage s a of
           None \<Rightarrow> s
         | Some t0 \<Rightarrow>
             let t = reset_if_expired now t0;
                 new_total = (if estimated > 0
                              then sat_add (sat_sub (total_tokens t) estimated) actual
                              else total_tokens t + actual)
             in put_usage a
                  (t\<lparr>total_tokens := new_total,
                     input_tokens := input_tokens t + usage_input_tokens u,
                     output_tokens := output_tokens t + usage_output_tokens u,
                     llm_calls := llm_calls t + 1,
                     token_timestamps := token_timestamps t @ [(now, actual)]\<rparr>) s)"

definition release_reservation :: "instant \<Rightarrow> agent_id \<Rightarrow> u64 \<Rightarrow> scheduler \<Rightarrow> scheduler" where
  "release_reservation now a estimated s =
     (if estimated = 0 then s
      else case usage s a of
          None \<Rightarrow> s
        | Some t0 \<Rightarrow>
            let t = reset_if_expired now t0
            in put_usage a (t\<lparr>total_tokens := sat_sub (total_tokens t) estimated\<rparr>) s)"

definition reset_usage :: "instant \<Rightarrow> agent_id \<Rightarrow> scheduler \<Rightarrow> scheduler" where
  "reset_usage now a s =
     (case usage s a of
        None \<Rightarrow> s
      | Some t \<Rightarrow>
          put_usage a
            (t\<lparr>total_tokens := 0, input_tokens := 0, output_tokens := 0, tool_calls := 0,
               llm_calls := 0, window_start := now, tool_call_timestamps := [],
               token_timestamps := []\<rparr>) s)"

definition abort_task :: "agent_id \<Rightarrow> scheduler \<Rightarrow> scheduler" where
  "abort_task a s =
     (case tasks s a of
        None \<Rightarrow> s
      | Some handle \<Rightarrow> s\<lparr>tasks := (tasks s)(a := None), aborted := aborted s @ [handle]\<rparr>)"

definition unregister :: "agent_id \<Rightarrow> scheduler \<Rightarrow> scheduler" where
  "unregister a s =
     (let s1 = abort_task a s
      in s1\<lparr>quotas := (quotas s1)(a := None), usage := (usage s1)(a := None)\<rparr>)"

definition get_usage :: "agent_id \<Rightarrow> scheduler \<Rightarrow> usage_snapshot option" where
  "get_usage a s =
     map_option (\<lambda>t. \<lparr>snap_total_tokens = total_tokens t, snap_input_tokens = input_tokens t,
       snap_output_tokens = output_tokens t, snap_tool_calls = tool_calls t,
       snap_llm_calls = llm_calls t\<rparr>) (usage s a)"

section \<open>Operations as events under a monotone clock\<close>

datatype sched_op =
    Register agent_id resource_quota
  | UpdateQuota agent_id resource_quota
  | RecordUsage agent_id token_usage
  | RecordToolCalls agent_id u32
  | CheckQuota agent_id
  | Reserve agent_id u64
  | Settle agent_id u64 token_usage
  | Release agent_id u64
  | ResetUsage agent_id
  | AbortTask agent_id
  | Unregister agent_id

fun exec_op :: "instant \<Rightarrow> sched_op \<Rightarrow> scheduler \<Rightarrow> scheduler" where
  "exec_op now (Register a q) s = register now a q s"
| "exec_op now (UpdateQuota a q) s = update_quota a q s"
| "exec_op now (RecordUsage a u) s = record_usage now a u s"
| "exec_op now (RecordToolCalls a n) s = record_tool_calls now a n s"
| "exec_op now (CheckQuota a) s = snd (check_quota now a s)"
| "exec_op now (Reserve a n) s = snd (check_quota_and_reserve now a n s)"
| "exec_op now (Settle a n u) s = settle_reservation now a n u s"
| "exec_op now (Release a n) s = release_reservation now a n s"
| "exec_op now (ResetUsage a) s = reset_usage now a s"
| "exec_op now (AbortTask a) s = abort_task a s"
| "exec_op now (Unregister a) s = unregister a s"

definition timed_step :: "instant \<times> scheduler \<Rightarrow> nat \<times> sched_op \<Rightarrow> instant \<times> scheduler" where
  "timed_step = (\<lambda>(now, s) (dt, op). (now + int dt, exec_op (now + int dt) op s))"

section \<open>Invariant of the trackers\<close>

definition tracker_ok :: "instant \<Rightarrow> usage_tracker \<Rightarrow> bool" where
  "tracker_ok now t \<longleftrightarrow>
     window_start t \<le> now
     \<and> sorted (tool_call_timestamps t)
     \<and> (\<forall>x \<in> set (tool_call_timestamps t). window_start t \<le> x \<and> x \<le> now)
     \<and> sorted (map fst (token_timestamps t))
     \<and> (\<forall>(x, n) \<in> set (token_timestamps t). window_start t \<le> x \<and> x \<le> now)"

definition sched_ok :: "instant \<times> scheduler \<Rightarrow> bool" where
  "sched_ok = (\<lambda>(now, s). \<forall>a t. usage s a = Some t \<longrightarrow> tracker_ok now t)"

lemma tracker_ok_mono: "tracker_ok now t \<Longrightarrow> now \<le> now' \<Longrightarrow> tracker_ok now' t"
  by (force simp: tracker_ok_def)

lemma tracker_ok_default [simp]: "tracker_ok now (default_tracker now)"
  by (simp add: tracker_ok_def default_tracker_def)

lemma tracker_ok_reset [simp]: "tracker_ok now t \<Longrightarrow> tracker_ok now (reset_if_expired now t)"
  by (auto simp: tracker_ok_def reset_if_expired_def)

lemma tracker_ok_counters [simp]:
  "tracker_ok now (t\<lparr>total_tokens := n\<rparr>) = tracker_ok now t"
  "tracker_ok now (t\<lparr>input_tokens := n\<rparr>) = tracker_ok now t"
  "tracker_ok now (t\<lparr>output_tokens := n\<rparr>) = tracker_ok now t"
  "tracker_ok now (t\<lparr>llm_calls := n\<rparr>) = tracker_ok now t"
  "tracker_ok now (t\<lparr>tool_calls := n\<rparr>) = tracker_ok now t"
  by (simp_all add: tracker_ok_def)

lemma tracker_ok_charge:
  "tracker_ok now t \<Longrightarrow>
     tracker_ok now (t\<lparr>total_tokens := w, input_tokens := x, output_tokens := y, llm_calls := z,
       token_timestamps := token_timestamps t @ [(now, n)]\<rparr>)"
  by (auto simp: tracker_ok_def sorted_append)

lemma tracker_ok_push_tools:
  "tracker_ok now t \<Longrightarrow>
     tracker_ok now (t\<lparr>tool_call_timestamps := tool_call_timestamps t @ replicate k now\<rparr>)"
  by (auto simp: tracker_ok_def sorted_append sorted_replicate)

lemma sorted_dropWhile_fst: "sorted (map fst xs) \<Longrightarrow> sorted (map fst (dropWhile P xs))"
  by (induction xs) auto

lemma tracker_ok_evict:
  assumes "tracker_ok now t"
  shows "tracker_ok now (snd (tokens_in_last_minute now t))"
    and "tracker_ok now (snd (tool_calls_in_last_minute now t))"
  using assms
  by (auto simp: tracker_ok_def tokens_in_last_minute_def tool_calls_in_last_minute_def Let_def
      sorted_dropWhile_fst sorted_dropWhile dest: set_dropWhileD)

lemma dropWhile_sorted_filter:
  "sorted (map f xs) \<Longrightarrow> dropWhile (\<lambda>x. f x < c) xs = filter (\<lambda>x. c \<le> f x) xs"
proof (induction xs)
  case (Cons x xs)
  show ?case
  proof (cases "f x < c")
    case False
    with Cons.prems have "\<forall>y \<in> set (x # xs). c \<le> f y" by auto
    with False show ?thesis by (metis dropWhile.simps(2) filter_True)
  qed (use Cons in auto)
qed simp

lemma tokens_in_last_minute_exact:
  assumes "tracker_ok now t"
  shows "fst (tokens_in_last_minute now t) =
    sum_list (map snd (filter (\<lambda>(x, _). now - ONE_MINUTE \<le> x) (token_timestamps t)))"
  using assms dropWhile_sorted_filter[of fst "token_timestamps t" "now - ONE_MINUTE"]
  by (simp add: tokens_in_last_minute_def tracker_ok_def Let_def case_prod_unfold)

lemma tool_calls_in_last_minute_exact:
  assumes "tracker_ok now t"
  shows "fst (tool_calls_in_last_minute now t) =
    word_of_nat (length (filter (\<lambda>x. now - ONE_MINUTE \<le> x) (tool_call_timestamps t)))"
  using assms dropWhile_sorted_filter[of id "tool_call_timestamps t" "now - ONE_MINUTE"]
  by (simp add: tool_calls_in_last_minute_def tracker_ok_def Let_def)

lemma usage_put_usage [simp]: "usage (put_usage a t s) = (usage s)(a \<mapsto> t)"
  and quotas_put_usage [simp]: "quotas (put_usage a t s) = quotas s"
  by (simp_all add: put_usage_def)

lemma evict_ok [intro]:
  "tokens_in_last_minute now t = (n, t') \<Longrightarrow> tracker_ok now t \<Longrightarrow> tracker_ok now t'"
  "tool_calls_in_last_minute now t = (k, t') \<Longrightarrow> tracker_ok now t \<Longrightarrow> tracker_ok now t'"
  using tracker_ok_evict[of now t] by simp_all

lemma evict_tokens_reset:
  "tokens_in_last_minute now (reset_if_expired now t) = (n, t') \<Longrightarrow> tracker_ok now t \<Longrightarrow>
     tracker_ok now t'"
  using tracker_ok_evict[of now "reset_if_expired now t"] by simp

lemma sched_ok_put_usage:
  "sched_ok (now, s) \<Longrightarrow> tracker_ok now t \<Longrightarrow> sched_ok (now, put_usage a t s)"
  by (simp add: sched_ok_def)

lemma sched_ok_usage: "sched_ok (now, s) \<Longrightarrow> usage s a = Some t \<Longrightarrow> tracker_ok now t"
  by (simp add: sched_ok_def)

lemma check_quota_tracker:
  assumes "quotas s a = Some q" "usage s a = Some t" "tracker_ok now t"
  shows "\<exists>t'. snd (check_quota now a s) = put_usage a t' s \<and> tracker_ok now t'"
proof -
  let ?t = "reset_if_expired now t"
  obtain n t1 where 1: "tokens_in_last_minute now ?t = (n, t1)" by fastforce
  obtain k t2 where 2: "tool_calls_in_last_minute now t1 = (k, t2)" by fastforce
  obtain k' t3 where 3: "tool_calls_in_last_minute now ?t = (k', t3)" by fastforce
  have "tracker_ok now ?t" using assms(3) by simp
  moreover have "tracker_ok now t1" using 1 calculation by blast
  moreover have "tracker_ok now t2" "tracker_ok now t3" using 2 3 calculation by blast+
  ultimately show ?thesis
    using assms(1,2) 1 2 3 by (auto simp: check_quota_def Let_def)
qed

lemma reserve_tracker:
  assumes "quotas s a = Some q" "usage s a = Some t" "tracker_ok now t"
  shows "\<exists>t'. snd (check_quota_and_reserve now a n s) = put_usage a t' s \<and> tracker_ok now t'"
proof -
  obtain k t1 where 1: "tokens_in_last_minute now (reset_if_expired now t) = (k, t1)" by fastforce
  then have "tracker_ok now t1" using assms(3) by (rule evict_tokens_reset)
  moreover have "tracker_ok now (t1\<lparr>total_tokens := x\<rparr>)" for x using calculation by simp
  ultimately show ?thesis
    using assms 1 by (auto simp: check_quota_and_reserve_def Let_def)
qed

lemma exec_op_ok:
  assumes "sched_ok (now, s)"
  shows "sched_ok (now, exec_op now op s)"
proof (cases op)
  case (CheckQuota a)
  show ?thesis
  proof (cases "quotas s a = None \<or> usage s a = None")
    case True
    with assms CheckQuota show ?thesis by (auto simp: check_quota_def split: option.splits)
  next
    case False
    then obtain q t where "quotas s a = Some q" "usage s a = Some t" by auto
    moreover from this(2) have "tracker_ok now t" using assms sched_ok_usage by blast
    ultimately obtain t' where "exec_op now op s = put_usage a t' s" "tracker_ok now t'"
      using check_quota_tracker CheckQuota by fastforce
    with assms show ?thesis by (simp add: sched_ok_put_usage)
  qed
next
  case (Reserve a n)
  show ?thesis
  proof (cases "quotas s a = None \<or> usage s a = None")
    case True
    with assms Reserve show ?thesis
      by (auto simp: check_quota_and_reserve_def split: option.splits)
  next
    case False
    then obtain q t where "quotas s a = Some q" "usage s a = Some t" by auto
    moreover from this(2) have "tracker_ok now t" using assms sched_ok_usage by blast
    ultimately obtain t' where "exec_op now op s = put_usage a t' s" "tracker_ok now t'"
      using reserve_tracker Reserve by fastforce
    with assms show ?thesis by (simp add: sched_ok_put_usage)
  qed
next
  case (RecordUsage a u)
  with assms show ?thesis
    by (auto simp: record_usage_def Let_def sched_ok_def split: option.splits)
      (auto simp: tracker_ok_charge)
next
  case (RecordToolCalls a k)
  with assms show ?thesis
    by (auto simp: record_tool_calls_def Let_def sched_ok_def split: option.splits)
      (auto simp: tracker_ok_push_tools)
next
  case (Settle a n u)
  with assms show ?thesis
    by (auto simp: settle_reservation_def Let_def sched_ok_def split: option.splits)
      (auto simp: tracker_ok_charge)
next
  case (ResetUsage a)
  with assms show ?thesis
    by (auto simp: reset_usage_def sched_ok_def split: option.splits) (auto simp: tracker_ok_def)
qed (use assms in \<open>auto simp: register_def update_quota_def release_reservation_def abort_task_def
    unregister_def Let_def sched_ok_def split: option.splits\<close>)

interpretation sched_machine: invariant_machine timed_step sched_ok
proof
  fix st :: "instant \<times> scheduler" and e :: "nat \<times> sched_op"
  assume ok: "sched_ok st"
  obtain now s dt op where [simp]: "st = (now, s)" "e = (dt, op)" by (cases st; cases e) auto
  have "sched_ok (now + int dt, s)"
    using ok tracker_ok_mono[of now _ "now + int dt"] by (auto simp: sched_ok_def)
  then show "sched_ok (timed_step st e)"
    by (simp add: timed_step_def exec_op_ok)
qed

lemma sched_ok_new [simp]: "sched_ok (now, new_scheduler)"
  by (simp add: sched_ok_def new_scheduler_def)

section \<open>Reservations\<close>

lemma not_expired [simp]: "elapsed now (window_start t) < ONE_HOUR \<Longrightarrow> reset_if_expired now t = t"
  by (simp add: reset_if_expired_def)

lemma evict_tokens_fields:
  "tokens_in_last_minute now t = (k, t') \<Longrightarrow>
     total_tokens t' = total_tokens t \<and> window_start t' = window_start t \<and> llm_calls t' = llm_calls t"
  by (auto simp: tokens_in_last_minute_def Let_def)

lemma reserve_Inl:
  assumes "check_quota_and_reserve now a n s = (Inl e, s')"
    and "quotas s a = Some q" "usage s a = Some t" "elapsed now (window_start t) < ONE_HOUR"
  shows "\<exists>t'. s' = put_usage a t' s \<and> window_start t' = window_start t
    \<and> total_tokens t' = total_tokens t"
proof -
  obtain k t1 where 1: "tokens_in_last_minute now t = (k, t1)" by fastforce
  from evict_tokens_fields[OF this] assms 1 show ?thesis
    by (auto simp: check_quota_and_reserve_def Let_def split: if_splits)
qed

lemma reserve_Inr:
  assumes "check_quota_and_reserve now a n s = (Inr m, s')"
    and "quotas s a = Some q" "usage s a = Some t" "elapsed now (window_start t) < ONE_HOUR"
  shows "\<exists>t'. s' = put_usage a t' s \<and> window_start t' = window_start t \<and> llm_calls t' = llm_calls t
    \<and> (if effective_token_limit q = 0 then m = 0 \<and> total_tokens t' = total_tokens t
       else m = n \<and> total_tokens t' = sat_add (total_tokens t) n
         \<and> sat_add (total_tokens t) n \<le> effective_token_limit q)"
proof -
  obtain k t1 where 1: "tokens_in_last_minute now t = (k, t1)" by fastforce
  from evict_tokens_fields[OF this] assms 1 show ?thesis
    by (auto simp: check_quota_and_reserve_def Let_def not_less split: if_splits)
qed

lemma sat_add_le_no_wrap:
  fixes x n L :: "'a::len word"
  assumes "sat_add x n \<le> L" "L \<noteq> - 1"
  shows "unat (sat_add x n) = unat x + unat n" and "unat x + unat n \<le> unat L"
    and "unat x + unat n < 2 ^ LENGTH('a)"
proof -
  show *: "unat x + unat n < 2 ^ LENGTH('a)"
  proof (rule ccontr)
    assume "\<not> ?thesis"
    then have "sat_add x n = - 1" by (simp add: sat_add_def)
    with assms show False
      by (metis word_order.extremum_unique)
  qed
  then show "unat (sat_add x n) = unat x + unat n"
    by (simp add: sat_add_def unat_add_no_wrap)
  with assms(1) show "unat x + unat n \<le> unat L"
    by (simp add: word_le_nat_alt)
qed

text \<open>The sequence of reservations that competing callers obtain, in any order.\<close>

fun reserve_all :: "agent_id \<Rightarrow> (instant \<times> u64) list \<Rightarrow> scheduler \<Rightarrow> u64 list \<times> scheduler" where
  "reserve_all a [] s = ([], s)"
| "reserve_all a ((now, n) # rs) s =
     (case check_quota_and_reserve now a n s of
        (Inl _, s') \<Rightarrow> reserve_all a rs s'
      | (Inr m, s') \<Rightarrow> (let (ms, s'') = reserve_all a rs s' in (m # ms, s'')))"

lemma reserve_all_total:
  assumes "quotas s a = Some q" "effective_token_limit q \<noteq> 0" "effective_token_limit q \<noteq> - 1"
    and "usage s a = Some t" "\<forall>(now, n) \<in> set rs. elapsed now (window_start t) < ONE_HOUR"
    and "total_tokens t \<le> effective_token_limit q"
  shows "\<exists>t'. usage (snd (reserve_all a rs s)) a = Some t'
    \<and> unat (total_tokens t') = unat (total_tokens t) + sum_list (map unat (fst (reserve_all a rs s)))
    \<and> total_tokens t' \<le> effective_token_limit q"
  using assms
proof (induction rs arbitrary: s t)
  case (Cons r rs)
  obtain now n where r: "r = (now, n)" by (cases r)
  obtain x s1 where x: "check_quota_and_reserve now a n s = (x, s1)" by fastforce
  have el: "elapsed now (window_start t) < ONE_HOUR" using Cons.prems(5) r by auto
  show ?case
  proof (cases x)
    case (Inl e)
    with x reserve_Inl[OF _ Cons.prems(1,4) el]
    obtain t1 where t1: "s1 = put_usage a t1 s" "window_start t1 = window_start t"
      "total_tokens t1 = total_tokens t" by blast
    have "\<exists>t'. usage (snd (reserve_all a rs s1)) a = Some t'
      \<and> unat (total_tokens t') = unat (total_tokens t1) + sum_list (map unat (fst (reserve_all a rs s1)))
      \<and> total_tokens t' \<le> effective_token_limit q"
      by (rule Cons.IH) (use Cons.prems t1 in auto)
    with Inl x r t1 show ?thesis by auto
  next
    case (Inr m)
    with x reserve_Inr[OF _ Cons.prems(1,4) el] Cons.prems(2)
    obtain t1 where t1: "s1 = put_usage a t1 s" "window_start t1 = window_start t" "m = n"
      "total_tokens t1 = sat_add (total_tokens t) n" "total_tokens t1 \<le> effective_token_limit q"
      by (metis (full_types))
    have "\<exists>t'. usage (snd (reserve_all a rs s1)) a = Some t'
      \<and> unat (total_tokens t') = unat (total_tokens t1) + sum_list (map unat (fst (reserve_all a rs s1)))
      \<and> total_tokens t' \<le> effective_token_limit q"
      by (rule Cons.IH) (use Cons.prems t1 in auto)
    moreover have "unat (total_tokens t1) = unat (total_tokens t) + unat m"
      using t1 sat_add_le_no_wrap(1)[OF _ Cons.prems(3)] by simp
    ultimately show ?thesis using Inr x r by (auto split: prod.splits)
  qed
qed auto

lemma reserve_all_over_limit:
  assumes "quotas s a = Some q" "effective_token_limit q \<noteq> 0" "effective_token_limit q \<noteq> - 1"
    and "usage s a = Some t" "\<forall>(now, n) \<in> set rs. elapsed now (window_start t) < ONE_HOUR"
    and "effective_token_limit q < total_tokens t"
  shows "fst (reserve_all a rs s) = []"
  using assms
proof (induction rs arbitrary: s t)
  case (Cons r rs)
  obtain now n where r: "r = (now, n)" by (cases r)
  obtain x s1 where x: "check_quota_and_reserve now a n s = (x, s1)" by fastforce
  have el: "elapsed now (window_start t) < ONE_HOUR" using Cons.prems(5) r by auto
  show ?case
  proof (cases x)
    case (Inl e)
    with x reserve_Inl[OF _ Cons.prems(1,4) el]
    obtain t1 where t1: "s1 = put_usage a t1 s" "window_start t1 = window_start t"
      "total_tokens t1 = total_tokens t" by blast
    have "fst (reserve_all a rs s1) = []"
      by (rule Cons.IH[of s1 t1]) (use Cons.prems t1 in auto)
    with Inl x r show ?thesis by simp
  next
    case (Inr m)
    with x reserve_Inr[OF _ Cons.prems(1,4) el] Cons.prems(2)
    have "sat_add (total_tokens t) n \<le> effective_token_limit q" by (metis (full_types))
    with sat_add_le_no_wrap(2)[OF this Cons.prems(3)] Cons.prems(6) have False
      by (simp add: word_less_nat_alt)
    then show ?thesis ..
  qed
qed simp

lemmas quota_eval =
  check_quota_and_reserve_def effective_token_limit_def default_quota_def new_scheduler_def
  tokens_in_last_minute_def sat_add_def reset_if_expired_def word_less_nat_alt

section \<open>Properties\<close>

text \<open>
  C5: Reservations hold the hourly limit under any interleaving of callers: for a registered
  agent whose limit is set (neither unlimited nor the largest u64) and any sequence of
  reservation requests inside one window, the amounts granted, on top of what was already
  charged, never exceed the limit; and an agent that is already past its limit (through recorded
  usage, a settlement or a lowered quota) is granted nothing at all.
\<close>
theorem reservations_within_limit:
  assumes "quotas s a = Some q" "effective_token_limit q \<noteq> 0" "effective_token_limit q \<noteq> - 1"
    and "usage s a = Some t" "\<forall>(now, n) \<in> set rs. elapsed now (window_start t) < ONE_HOUR"
  shows "if total_tokens t \<le> effective_token_limit q
    then unat (total_tokens t) + sum_list (map unat (fst (reserve_all a rs s)))
      \<le> unat (effective_token_limit q)
    else fst (reserve_all a rs s) = []"
proof (cases "total_tokens t \<le> effective_token_limit q")
  case True
  with reserve_all_total[OF assms True] show ?thesis by (auto simp: word_le_nat_alt)
next
  case False
  with reserve_all_over_limit[OF assms] show ?thesis by simp
qed

abbreviation quota4 :: resource_quota where
  "quota4 \<equiv> default_quota\<lparr>max_llm_tokens_per_hour := Some 4\<rparr>"

theorem reservations_within_limit_witness:
  "if total_tokens (default_tracker 0) \<le> effective_token_limit quota4
   then unat (total_tokens (default_tracker 0))
       + sum_list (map unat (fst (reserve_all 1 [(5, 3), (7, 2), (9, 1)] (register 0 1 quota4 new_scheduler))))
     \<le> unat (effective_token_limit quota4)
   else fst (reserve_all 1 [(5, 3), (7, 2), (9, 1)] (register 0 1 quota4 new_scheduler)) = []"
proof (rule reservations_within_limit)
  show "usage (register 0 1 quota4 new_scheduler) 1 = Some (default_tracker 0)"
    by (simp add: register_def)
  show "\<forall>(now, n) \<in> set [(5, 3), (7, 2), (9, 1 :: u64)].
      elapsed now (window_start (default_tracker 0)) < ONE_HOUR"
    by (simp add: default_tracker_def elapsed_def ONE_HOUR_def)
qed (simp_all add: register_def effective_token_limit_def default_quota_def default_tracker_def)

text \<open>
  Releasing a reservation inside its window restores the agent's charged total exactly, and
  counts no LLM call, whatever the quota (unlimited included).
\<close>
theorem reserve_release_roundtrip:
  assumes "quotas s a = Some q" "effective_token_limit q \<noteq> - 1" "usage s a = Some t"
    and "elapsed now (window_start t) < ONE_HOUR" "elapsed later (window_start t) < ONE_HOUR"
    and "check_quota_and_reserve now a n s = (Inr m, s')"
  shows "\<exists>t'. usage (release_reservation later a m s') a = Some t'
    \<and> total_tokens t' = total_tokens t \<and> llm_calls t' = llm_calls t
    \<and> window_start t' = window_start t"
proof -
  from reserve_Inr[OF assms(6,1,3,4)]
  obtain t1 where t1: "s' = put_usage a t1 s" "window_start t1 = window_start t"
      "llm_calls t1 = llm_calls t"
    and r: "if effective_token_limit q = 0 then m = 0 \<and> total_tokens t1 = total_tokens t
      else m = n \<and> total_tokens t1 = sat_add (total_tokens t) n
        \<and> sat_add (total_tokens t) n \<le> effective_token_limit q"
    by blast
  have "sat_sub (total_tokens t1) m = total_tokens t"
  proof (cases "effective_token_limit q = 0")
    case True
    with r show ?thesis by (simp add: sat_sub_def)
  next
    case False
    with r show ?thesis
      using sat_sub_sat_add[OF sat_add_le_no_wrap(3)[OF _ assms(2)]] by auto
  qed
  moreover have "total_tokens t1 = total_tokens t" if "m = 0"
    using calculation that by (simp add: sat_sub_def)
  ultimately show ?thesis
    using t1 assms(5) by (simp add: release_reservation_def Let_def)
qed

theorem reserve_release_roundtrip_witness:
  "\<exists>t'. usage (release_reservation 9 1 3
        (snd (check_quota_and_reserve 5 1 3 (register 0 1 quota4 new_scheduler)))) 1 = Some t'
    \<and> total_tokens t' = total_tokens (default_tracker 0)
    \<and> llm_calls t' = llm_calls (default_tracker 0) \<and> window_start t' = window_start (default_tracker 0)"
  by (rule reserve_release_roundtrip[where q = quota4 and s = "register 0 1 quota4 new_scheduler"
        and now = 5 and n = 3])
    (simp_all add: register_def default_tracker_def elapsed_def ONE_HOUR_def quota_eval)

text \<open>
  Settling a reservation inside its window replaces the estimate by the actual usage: the
  total is the total before the reservation plus the actual tokens (saturating), one LLM call is
  counted and the burst window gets exactly the actual amount.
\<close>
theorem reserve_settle_charges_actual:
  assumes "quotas s a = Some q" "effective_token_limit q \<noteq> - 1" "usage s a = Some t"
    and "elapsed now (window_start t) < ONE_HOUR" "elapsed later (window_start t) < ONE_HOUR"
    and "check_quota_and_reserve now a n s = (Inr m, s')" "m \<noteq> 0"
  shows "\<exists>t' ts. usage (settle_reservation later a m u s') a = Some t'
    \<and> total_tokens t' = sat_add (total_tokens t) (total u) \<and> llm_calls t' = llm_calls t + 1
    \<and> token_timestamps t' = ts @ [(later, total u)]"
proof -
  from reserve_Inr[OF assms(6,1,3,4)] assms(7)
  obtain t1 where t1: "s' = put_usage a t1 s" "window_start t1 = window_start t"
      "llm_calls t1 = llm_calls t" "m = n" "total_tokens t1 = sat_add (total_tokens t) n"
      "sat_add (total_tokens t) n \<le> effective_token_limit q"
    by (metis (full_types))
  then have "sat_sub (total_tokens t1) m = total_tokens t"
    using sat_sub_sat_add[OF sat_add_le_no_wrap(3)[OF _ assms(2)]] by auto
  then show ?thesis
    using t1 assms(5,7) by (simp add: settle_reservation_def Let_def word_gt_0)
qed

theorem reserve_settle_charges_actual_witness:
  "\<exists>t' ts. usage (settle_reservation 9 1 3 \<lparr>usage_input_tokens = 1, usage_output_tokens = 1,
        cache_creation_input_tokens = 0, cache_read_input_tokens = 0\<rparr>
        (snd (check_quota_and_reserve 5 1 3 (register 0 1 quota4 new_scheduler)))) 1 = Some t'
    \<and> total_tokens t' = sat_add (total_tokens (default_tracker 0))
        (total \<lparr>usage_input_tokens = 1, usage_output_tokens = 1,
          cache_creation_input_tokens = 0, cache_read_input_tokens = 0\<rparr>)
    \<and> llm_calls t' = llm_calls (default_tracker 0) + 1
    \<and> token_timestamps t' = ts @ [(9, total \<lparr>usage_input_tokens = 1, usage_output_tokens = 1,
        cache_creation_input_tokens = 0, cache_read_input_tokens = 0\<rparr>)]"
  by (rule reserve_settle_charges_actual[where q = quota4
        and s = "register 0 1 quota4 new_scheduler" and now = 5 and n = 3])
    (simp_all add: register_def default_tracker_def elapsed_def ONE_HOUR_def quota_eval)

text \<open>
  A reservation that outlives its window breaks the limit: with a limit of 4 tokens, agent 1
  reserves 4 in the first hour (call A) and, after the window has rolled over, 4 more (call B);
  releasing A then subtracts from the new window, so a third reservation of 4 (call C) succeeds
  while B is still outstanding, and 8 tokens are reserved in one window.
\<close>
theorem straddling_release_breaks_limit:
  "let s0 = register 0 1 quota4 new_scheduler;
       (a, s1) = check_quota_and_reserve 10 1 4 s0;
       (b, s2) = check_quota_and_reserve ONE_HOUR 1 4 s1;
       s3 = release_reservation (ONE_HOUR + 1) 1 4 s2;
       (c, s4) = check_quota_and_reserve (ONE_HOUR + 2) 1 4 s3
   in a = Inr 4 \<and> b = Inr 4 \<and> c = Inr 4
      \<and> map_option window_start (usage s4 1) = map_option window_start (usage s2 1)
      \<and> fst (check_quota_and_reserve (ONE_HOUR + 2) 1 4 s2) = Inl (TokenLimitWouldExceed 4 4 4)"
  by (simp add: quota_eval register_def default_tracker_def elapsed_def ONE_HOUR_def ONE_MINUTE_def
      release_reservation_def sat_sub_def Let_def)

text \<open>
  In every state reached from a fresh scheduler under a monotone clock, \<open>check_quota\<close>
  decides exactly on the hourly total, on the tokens recorded in the last minute and on the tool
  calls recorded in the last minute of the (possibly just reset) window.
\<close>
theorem check_quota_decision:
  assumes "(now, s) = foldl timed_step (start, new_scheduler) ops"
    and "quotas s a = Some q" "usage s a = Some t0"
  defines "t \<equiv> reset_if_expired now t0" and "limit \<equiv> effective_token_limit q"
  shows "fst (check_quota now a s) = Inr () \<longleftrightarrow>
      (limit = 0 \<or> total_tokens t \<le> limit)
    \<and> (limit = 0 \<or> limit div 5 = 0 \<or>
        sum_list (map snd (filter (\<lambda>(x, _). now - ONE_MINUTE \<le> x) (token_timestamps t))) \<le> limit div 5)
    \<and> (max_tool_calls_per_minute q = 0 \<or>
        word_of_nat (length (filter (\<lambda>x. now - ONE_MINUTE \<le> x) (tool_call_timestamps t)))
          < max_tool_calls_per_minute q)"
proof -
  have "sched_ok (now, s)"
    unfolding assms(1) by (rule sched_machine.inv_run) simp
  then have ok: "tracker_ok now t"
    unfolding t_def using assms(3) sched_ok_usage by auto
  obtain k t1 where 1: "tokens_in_last_minute now t = (k, t1)" by fastforce
  then have k: "k = sum_list (map snd (filter (\<lambda>(x, _). now - ONE_MINUTE \<le> x) (token_timestamps t)))"
    using tokens_in_last_minute_exact[OF ok] by simp
  have ok1: "tracker_ok now t1" and ts: "tool_call_timestamps t1 = tool_call_timestamps t"
    using evict_ok(1)[OF 1 ok] 1 by (auto simp: tokens_in_last_minute_def Let_def)
  show ?thesis
    using assms(2,3) 1 tool_calls_in_last_minute_exact[OF ok] tool_calls_in_last_minute_exact[OF ok1]
    unfolding check_quota_def t_def[symmetric] limit_def k[symmetric] ts
    by (auto simp: Let_def t_def[symmetric] word_gt_0 not_less not_le split: prod.splits)
qed

theorem check_quota_decision_witness:
  "fst (check_quota 5 1 (register 5 1 quota4 new_scheduler)) = Inr ()"
proof -
  have st: "(5, register 5 1 quota4 new_scheduler) = foldl timed_step (0, new_scheduler) [(5, Register 1 quota4)]"
    by (simp add: timed_step_def)
  show ?thesis
    using check_quota_decision[OF st, of 1 quota4 "default_tracker 5"]
    by (simp add: register_def default_tracker_def reset_if_expired_def elapsed_def ONE_HOUR_def
        effective_token_limit_def default_quota_def)
qed

end
