(* ===== verification/LoopGuard.thy ===== *)
theory LoopGuard
  imports Prelude
begin

text \<open>
  Tool-loop detection, \<open>crates/librefang-runtime/src/loop_guard.rs\<close>: the guard's state, the
  verdict of \<open>check\<close>, outcome recording, polling back-off and ping-pong detection.

  \<open>serde_json\<close> and \<open>sha2\<close> are parameters: a \<open>guard_env\<close> gives the digest and
  the three accesses to a JSON value that the guard makes. Messages are structured values of
  \<open>guard_msg\<close>. A \<open>HashMap\<close> of counters is an association list, whose order stands
  for the map's iteration order.
\<close>

section \<open>Data\<close>

record 'v guard_env =
  sha256_hex :: "string \<Rightarrow> string"
  to_json :: "'v \<Rightarrow> string"
  get_bool :: "'v \<Rightarrow> string \<Rightarrow> bool option"
  get_str :: "'v \<Rightarrow> string \<Rightarrow> string option"

definition POLL_TOOLS :: "string list" where
  "POLL_TOOLS = [''shell_exec'']"

definition POLL_COMMAND_PREFIXES :: "string list" where
  "POLL_COMMAND_PREFIXES =
     [''docker ps'', ''docker inspect'', ''kubectl get'', ''kubectl describe'', ''kubectl wait'',
      ''systemctl status'', ''systemctl is-active'', ''service '', ''supervisorctl status'',
      ''pgrep'', ''pidof'', ''lsof -i'', ''ss -tlnp'', ''netstat '', ''curl -s'', ''wget -q'']"

definition POLL_KEYWORDS :: "string list" where
  "POLL_KEYWORDS =
     [''status'', ''poll'', ''wait'', ''watch'', ''tail'', ''ps '', ''jobs'', ''pgrep'', ''health'',
      ''ping'', ''alive'', ''ready'', ''check'']"

definition HISTORY_SIZE :: nat where
  "HISTORY_SIZE = 30"

definition BACKOFF_SCHEDULE_MS :: "u64 list" where
  "BACKOFF_SCHEDULE_MS = [5000, 10000, 30000, 60000]"

record loop_guard_config =
  warn_threshold :: u32
  block_threshold :: u32
  global_circuit_breaker :: u32
  poll_multiplier :: u32
  outcome_warn_threshold :: u32
  outcome_block_threshold :: u32
  ping_pong_min_repeats :: u32
  max_warnings_per_call :: u32

definition default_guard_config :: loop_guard_config where
  "default_guard_config = \<lparr>warn_threshold = 3, block_threshold = 5, global_circuit_breaker = 30,
     poll_multiplier = 3, outcome_warn_threshold = 2, outcome_block_threshold = 3,
     ping_pong_min_repeats = 3, max_warnings_per_call = 3\<rparr>"

datatype guard_msg =
    CircuitBreaker u32
  | RepeatedResults string
  | RepeatedCall string u32
  | WarningsExhausted string u32
  | RepeatWarning string u32
  | PingPong2 string string
  | PingPong3 string string string

datatype loop_guard_verdict =
    Allow
  | Warn guard_msg
  | Block guard_msg
  | CircuitBreak guard_msg

type_synonym counts = "(string \<times> u32) list"

record loop_guard =
  config :: loop_guard_config
  call_counts :: counts
  total_calls :: u32
  outcome_counts :: counts
  blocked_outcomes :: "string set"
  recent_calls :: "string list"
  warnings_emitted :: counts
  poll_counts :: counts
  blocked_calls :: u32
  hash_to_tool :: "string \<rightharpoonup> string"

record loop_guard_stats =
  stat_total_calls :: u32
  stat_unique_calls :: u32
  stat_blocked_calls :: u32
  stat_ping_pong_detected :: bool
  stat_most_repeated_tool :: "string option"
  stat_most_repeated_count :: u32

definition new_guard :: "loop_guard_config \<Rightarrow> loop_guard" where
  "new_guard c = \<lparr>config = c, call_counts = [], total_calls = 0, outcome_counts = [],
     blocked_outcomes = {}, recent_calls = [], warnings_emitted = [], poll_counts = [],
     blocked_calls = 0, hash_to_tool = Map.empty\<rparr>"

text \<open>\<open>*map.entry(k).or_insert(0) += 1\<close>, and the value it leaves.\<close>

fun bump :: "string \<Rightarrow> counts \<Rightarrow> counts" where
  "bump k [] = [(k, 1)]"
| "bump k ((k', n) # m) = (if k' = k then (k', n + 1) # m else (k', n) # bump k m)"

definition count_of :: "string \<Rightarrow> counts \<Rightarrow> u32" where
  "count_of k m = (case map_of m k of None \<Rightarrow> 0 | Some n \<Rightarrow> n)"

section \<open>Hashes and poll detection\<close>

definition compute_hash :: "'v guard_env \<Rightarrow> string \<Rightarrow> 'v \<Rightarrow> string" where
  "compute_hash env tool_name params = sha256_hex env (tool_name @ ''|'' @ to_json env params)"

definition compute_outcome_hash :: "'v guard_env \<Rightarrow> string \<Rightarrow> 'v \<Rightarrow> string \<Rightarrow> string" where
  "compute_outcome_hash env tool_name params result =
     sha256_hex env (tool_name @ ''|'' @ to_json env params @ ''|'' @ safe_truncate_str result 1000)"

definition is_poll_call :: "'v guard_env \<Rightarrow> string \<Rightarrow> 'v \<Rightarrow> bool" where
  "is_poll_call env tool_name params =
     (case get_bool env params ''poll'' of
        Some poll \<Rightarrow> poll
      | None \<Rightarrow>
          if List.member POLL_TOOLS tool_name
             \<and> (case get_str env params ''command'' of
                  None \<Rightarrow> False
                | Some cmd \<Rightarrow>
                    let cmd_lower = to_lowercase cmd
                    in list_ex (\<lambda>prefix. starts_with prefix cmd_lower) POLL_COMMAND_PREFIXES
                       \<or> list_ex (\<lambda>kw. contains_str kw cmd_lower) POLL_KEYWORDS)
          then True
          else let params_str = to_lowercase (to_json env params)
               in contains_str ''status'' params_str \<or> contains_str ''poll'' params_str
                  \<or> contains_str ''wait'' params_str)"

section \<open>Ping-pong detection\<close>

definition tool_of :: "loop_guard \<Rightarrow> string \<Rightarrow> string" where
  "tool_of g h = (case hash_to_tool g h of None \<Rightarrow> ''unknown'' | Some t \<Rightarrow> t)"

definition detect_ping_pong_impl :: "loop_guard \<Rightarrow> guard_msg option" where
  "detect_ping_pong_impl g =
     (let len = length (recent_calls g);
          tail6 = drop (len - 6) (recent_calls g);
          tail9 = drop (len - 9) (recent_calls g)
      in if 6 \<le> len \<and> tail6 ! 0 \<noteq> tail6 ! 1 \<and> tail6 ! 2 = tail6 ! 0 \<and> tail6 ! 3 = tail6 ! 1
            \<and> tail6 ! 4 = tail6 ! 0 \<and> tail6 ! 5 = tail6 ! 1
         then Some (PingPong2 (tool_of g (tail6 ! 0)) (tool_of g (tail6 ! 1)))
         else if 9 \<le> len \<and> \<not> (tail9 ! 0 = tail9 ! 1 \<and> tail9 ! 1 = tail9 ! 2)
            \<and> tail9 ! 3 = tail9 ! 0 \<and> tail9 ! 4 = tail9 ! 1 \<and> tail9 ! 5 = tail9 ! 2
            \<and> tail9 ! 6 = tail9 ! 0 \<and> tail9 ! 7 = tail9 ! 1 \<and> tail9 ! 8 = tail9 ! 2
         then Some (PingPong3 (tool_of g (tail9 ! 0)) (tool_of g (tail9 ! 1)) (tool_of g (tail9 ! 2)))
         else None)"

definition detect_ping_pong :: "loop_guard \<Rightarrow> guard_msg option" where
  "detect_ping_pong g = detect_ping_pong_impl g"

definition detect_ping_pong_pure :: "loop_guard \<Rightarrow> bool" where
  "detect_ping_pong_pure g = (detect_ping_pong_impl g \<noteq> None)"

text \<open>The two counting loops, each from index \<open>i\<close> downwards.\<close>

fun count_pairs :: "string list \<Rightarrow> string \<Rightarrow> string \<Rightarrow> nat \<Rightarrow> u32" where
  "count_pairs calls a b i =
     (if 2 \<le> i
      then if calls ! (i - 2) = a \<and> calls ! (i - 2 + 1) = b then 1 + count_pairs calls a b (i - 2) else 0
      else 0)"

fun count_triples :: "string list \<Rightarrow> string \<Rightarrow> string \<Rightarrow> string \<Rightarrow> nat \<Rightarrow> u32" where
  "count_triples calls a b c i =
     (if 3 \<le> i
      then if calls ! (i - 3) = a \<and> calls ! (i - 3 + 1) = b \<and> calls ! (i - 3 + 2) = c
           then 1 + count_triples calls a b c (i - 3) else 0
      else 0)"

declare count_pairs.simps [simp del] count_triples.simps [simp del]

definition count_ping_pong_repeats :: "loop_guard \<Rightarrow> u32" where
  "count_ping_pong_repeats g =
     (let calls = recent_calls g; len = length calls;
          pairs = (if 4 \<le> len \<and> calls ! (len - 2) \<noteq> calls ! (len - 1)
                   then count_pairs calls (calls ! (len - 2)) (calls ! (len - 1)) len else 0)
      in if pairs \<ge> 2 then pairs
         else let triples =
                    (if 6 \<le> len \<and> \<not> (calls ! (len - 3) = calls ! (len - 2)
                        \<and> calls ! (len - 2) = calls ! (len - 1))
                     then count_triples calls (calls ! (len - 3)) (calls ! (len - 2))
                            (calls ! (len - 1)) len
                     else 0)
              in if triples \<ge> 2 then triples else 0)"

section \<open>Operations\<close>

definition push_recent :: "string \<Rightarrow> loop_guard \<Rightarrow> loop_guard" where
  "push_recent h g =
     g\<lparr>recent_calls := (if HISTORY_SIZE \<le> length (recent_calls g) then tl (recent_calls g)
                        else recent_calls g) @ [h]\<rparr>"

definition blocked :: "loop_guard \<Rightarrow> loop_guard" where
  "blocked g = g\<lparr>blocked_calls := blocked_calls g + 1\<rparr>"

definition effective :: "'v guard_env \<Rightarrow> loop_guard \<Rightarrow> string \<Rightarrow> 'v \<Rightarrow> u32 \<Rightarrow> u32" where
  "effective env g tool_name params threshold =
     threshold * (if is_poll_call env tool_name params then poll_multiplier (config g) else 1)"

definition ping_pong_verdict :: "string \<Rightarrow> loop_guard \<Rightarrow> loop_guard_verdict \<times> loop_guard" where
  "ping_pong_verdict h g =
     (case detect_ping_pong g of
        None \<Rightarrow> (Allow, g)
      | Some msg \<Rightarrow>
          if count_ping_pong_repeats g \<ge> ping_pong_min_repeats (config g)
          then (Block msg, blocked g)
          else let key = ''pingpong_'' @ h;
                   g1 = g\<lparr>warnings_emitted := bump key (warnings_emitted g)\<rparr>
               in if count_of key (warnings_emitted g1) \<le> max_warnings_per_call (config g)
                  then (Warn msg, g1) else (Allow, g1))"

definition check ::
  "'v guard_env \<Rightarrow> string \<Rightarrow> 'v \<Rightarrow> loop_guard \<Rightarrow> loop_guard_verdict \<times> loop_guard" where
  "check env tool_name params g0 =
     (let g1 = g0\<lparr>total_calls := total_calls g0 + 1\<rparr>
      in if total_calls g1 > global_circuit_breaker (config g1)
         then (CircuitBreak (CircuitBreaker (global_circuit_breaker (config g1))), blocked g1)
         else
           let h = compute_hash env tool_name params;
               g2 = g1\<lparr>hash_to_tool := (if hash_to_tool g1 h = None
                                         then (hash_to_tool g1)(h \<mapsto> tool_name) else hash_to_tool g1)\<rparr>;
               g3 = push_recent h g2
           in if h \<in> blocked_outcomes g3 then (Block (RepeatedResults tool_name), blocked g3)
              else
                let g4 = g3\<lparr>call_counts := bump h (call_counts g3)\<rparr>;
                    count_val = count_of h (call_counts g4)
                in if count_val \<ge> effective env g4 tool_name params (block_threshold (config g4))
                   then (Block (RepeatedCall tool_name count_val), blocked g4)
                   else if count_val \<ge> effective env g4 tool_name params (warn_threshold (config g4))
                   then let g5 = g4\<lparr>warnings_emitted := bump h (warnings_emitted g4)\<rparr>
                        in if count_of h (warnings_emitted g5) > max_warnings_per_call (config g5)
                           then (Block (WarningsExhausted tool_name count_val), blocked g5)
                           else (Warn (RepeatWarning tool_name count_val), g5)
                   else ping_pong_verdict h g4)"

definition record_outcome ::
  "'v guard_env \<Rightarrow> string \<Rightarrow> 'v \<Rightarrow> string \<Rightarrow> loop_guard \<Rightarrow> guard_msg option \<times> loop_guard" where
  "record_outcome env tool_name params result g =
     (let outcome_hash = compute_outcome_hash env tool_name params result;
          call_hash = compute_hash env tool_name params;
          g1 = g\<lparr>outcome_counts := bump outcome_hash (outcome_counts g)\<rparr>;
          count_val = count_of outcome_hash (outcome_counts g1)
      in if count_val \<ge> outcome_block_threshold (config g1)
         then (Some (RepeatedResults tool_name),
               g1\<lparr>blocked_outcomes := insert call_hash (blocked_outcomes g1)\<rparr>)
         else if count_val \<ge> outcome_warn_threshold (config g1)
         then (Some (RepeatedResults tool_name), g1)
         else (None, g1))"

definition get_poll_backoff ::
  "'v guard_env \<Rightarrow> string \<Rightarrow> 'v \<Rightarrow> loop_guard \<Rightarrow> u64 option \<times> loop_guard" where
  "get_poll_backoff env tool_name params g =
     (if \<not> is_poll_call env tool_name params then (None, g)
      else let h = compute_hash env tool_name params;
               g1 = g\<lparr>poll_counts := bump h (poll_counts g)\<rparr>;
               count = count_of h (poll_counts g1)
           in if count \<le> 1 then (None, g1)
              else let idx = unat count - 2
                   in (Some (if idx < length BACKOFF_SCHEDULE_MS then BACKOFF_SCHEDULE_MS ! idx
                             else last BACKOFF_SCHEDULE_MS), g1))"

fun most_repeated :: "loop_guard \<Rightarrow> counts \<Rightarrow> string option \<times> u32 \<Rightarrow> string option \<times> u32" where
  "most_repeated g [] acc = acc"
| "most_repeated g ((h, n) # m) acc =
     most_repeated g m (if n > snd acc then (hash_to_tool g h, n) else acc)"

definition stats :: "loop_guard \<Rightarrow> loop_guard_stats" where
  "stats g =
     (let (tool, n) = most_repeated g (call_counts g) (None, 0)
      in \<lparr>stat_total_calls = total_calls g, stat_unique_calls = word_of_nat (length (call_counts g)),
          stat_blocked_calls = blocked_calls g, stat_ping_pong_detected = detect_ping_pong_pure g,
          stat_most_repeated_tool = tool, stat_most_repeated_count = n\<rparr>)"

section \<open>Runs of the guard\<close>

text \<open>
  The agent loop calls \<open>check\<close> before a tool and \<open>record_outcome\<close> after it. A run
  lists, for every \<open>Check\<close>, the call and its verdict.
\<close>

datatype 'v guard_event = Check string 'v | Outcome string 'v string

fun guard_step :: "'v guard_env \<Rightarrow> loop_guard \<Rightarrow> 'v guard_event \<Rightarrow> loop_guard" where
  "guard_step env g (Check t p) = snd (check env t p g)"
| "guard_step env g (Outcome t p r) = snd (record_outcome env t p r g)"

fun guard_run ::
  "'v guard_env \<Rightarrow> 'v guard_event list \<Rightarrow> loop_guard \<Rightarrow> (string \<times> 'v \<times> loop_guard_verdict) list" where
  "guard_run env [] g = []"
| "guard_run env (Check t p # es) g =
     (t, p, fst (check env t p g)) # guard_run env es (guard_step env g (Check t p))"
| "guard_run env (Outcome t p r # es) g = guard_run env es (guard_step env g (Outcome t p r))"

fun executed :: "loop_guard_verdict \<Rightarrow> bool" where
  "executed Allow = True"
| "executed (Warn _) = True"
| "executed (Block _) = False"
| "executed (CircuitBreak _) = False"

fun is_break :: "loop_guard_verdict \<Rightarrow> bool" where
  "is_break (CircuitBreak _) = True"
| "is_break _ = False"

lemma count_of_bump [simp]:
  "count_of k (bump k' m) = (if k = k' then count_of k m + 1 else count_of k m)"
  by (induction k' m rule: bump.induct) (auto simp: count_of_def)

lemma blocked_sel [simp]:
  "config (blocked g) = config g" "call_counts (blocked g) = call_counts g"
  "total_calls (blocked g) = total_calls g" "blocked_outcomes (blocked g) = blocked_outcomes g"
  "outcome_counts (blocked g) = outcome_counts g" "recent_calls (blocked g) = recent_calls g"
  "blocked_calls (blocked g) = blocked_calls g + 1"
  by (simp_all add: blocked_def)

lemma push_recent_sel [simp]:
  "config (push_recent h g) = config g" "call_counts (push_recent h g) = call_counts g"
  "total_calls (push_recent h g) = total_calls g"
  "blocked_outcomes (push_recent h g) = blocked_outcomes g"
  "outcome_counts (push_recent h g) = outcome_counts g"
  "blocked_calls (push_recent h g) = blocked_calls g"
  by (simp_all add: push_recent_def)

lemma ping_pong_verdict_frame:
  assumes "ping_pong_verdict h g = (v, g')"
  shows "config g' = config g" "call_counts g' = call_counts g" "total_calls g' = total_calls g"
    "blocked_outcomes g' = blocked_outcomes g" "outcome_counts g' = outcome_counts g"
    "recent_calls g' = recent_calls g" "\<not> is_break v"
    "blocked_calls g' = blocked_calls g + (if executed v then 0 else 1)"
  using assms by (auto simp: ping_pong_verdict_def Let_def split: option.splits if_splits)

lemma check_frame:
  assumes "check env t p g = (v, g')"
  shows "config g' = config g" "total_calls g' = total_calls g + 1"
    "blocked_outcomes g' = blocked_outcomes g" "outcome_counts g' = outcome_counts g"
    "blocked_calls g' = blocked_calls g + (if executed v then 0 else 1)"
    "is_break v \<longleftrightarrow> global_circuit_breaker (config g) < total_calls g + 1"
  using assms
  by (auto simp: check_def Let_def ping_pong_verdict_frame split: if_splits
      dest: ping_pong_verdict_frame)

lemma check_counts:
  assumes "check env t p g = (v, g')"
  shows "call_counts g' = call_counts g \<or> call_counts g' = bump (compute_hash env t p) (call_counts g)"
  using assms by (auto simp: check_def Let_def split: if_splits dest: ping_pong_verdict_frame)

lemma check_executed:
  assumes "check env t p g = (v, g')" "executed v"
  shows "call_counts g' = bump (compute_hash env t p) (call_counts g)"
    "count_of (compute_hash env t p) (call_counts g) + 1
       < effective env g t p (block_threshold (config g))"
    "compute_hash env t p \<notin> blocked_outcomes g"
  using assms
  by (auto simp: check_def Let_def effective_def not_le split: if_splits
      dest: ping_pong_verdict_frame)

lemma record_outcome_frame:
  assumes "record_outcome env t p r g = (w, g')"
  shows "config g' = config g" "call_counts g' = call_counts g" "total_calls g' = total_calls g"
    "blocked_calls g' = blocked_calls g" "blocked_outcomes g \<subseteq> blocked_outcomes g'"
    "recent_calls g' = recent_calls g"
    "outcome_counts g' = bump (compute_outcome_hash env t p r) (outcome_counts g)"
  using assms by (auto simp: record_outcome_def Let_def split: if_splits)

lemma record_outcome_blocks:
  assumes "outcome_block_threshold (config g)
    \<le> count_of (compute_outcome_hash env t p r) (outcome_counts g) + 1"
  shows "compute_hash env t p \<in> blocked_outcomes (snd (record_outcome env t p r g))"
  using assms by (simp add: record_outcome_def Let_def)

lemma check_config [simp]: "config (snd (check env t p g)) = config g"
  by (metis check_frame(1) prod.collapse)

lemma record_outcome_config [simp]: "config (snd (record_outcome env t p r g)) = config g"
  by (metis record_outcome_frame(1) prod.collapse)

lemma effective_config_cong:
  "config g' = config g \<Longrightarrow> effective env g' t p x = effective env g t p x"
  by (simp add: effective_def)

lemma guard_step_config [simp]: "config (guard_step env g e) = config g"
  by (cases e) simp_all

lemma guard_step_blocked_mono: "blocked_outcomes g \<subseteq> blocked_outcomes (guard_step env g e)"
  by (cases e) (simp, metis check_frame(3) order_refl prod.collapse, simp,
      metis record_outcome_frame(5) prod.collapse)

lemma length_guard_run_le: "length (guard_run env es g) \<le> length es"
  by (induction env es g rule: guard_run.induct) simp_all

lemma run_break:
  assumes "total_calls g = word_of_nat n" "n + length (guard_run env es g) < 2 ^ 32"
    and "i < length (guard_run env es g)"
  shows "is_break (snd (snd (guard_run env es g ! i))) \<longleftrightarrow>
    unat (global_circuit_breaker (config g)) \<le> n + i"
  using assms
proof (induction env es g arbitrary: n i rule: guard_run.induct)
  case (2 env t p es g)
  obtain v g' where c: "check env t p g = (v, g')" by fastforce
  have tc: "total_calls g' = word_of_nat (Suc n)"
    using check_frame(2)[OF c] 2(2) by simp
  show ?case
  proof (cases i)
    case 0
    have "unat (word_of_nat (Suc n) :: u32) = Suc n"
      using 2(3) by (simp add: unat_of_nat take_bit_nat_eq_self del: of_nat_Suc)
    with check_frame(2)[OF c] tc check_frame(6)[OF c] 0 c show ?thesis
      by (simp add: word_less_nat_alt less_Suc_eq_le add.commute)
  next
    case (Suc j)
    have "is_break (snd (snd (guard_run env es g' ! j))) \<longleftrightarrow>
        unat (global_circuit_breaker (config g')) \<le> Suc n + j"
      using 2(1)[of "Suc n" j] tc 2(3,4) c Suc by simp
    with c Suc check_frame(1)[OF c] show ?thesis by simp
  qed
next
  case (3 env t p r es g)
  obtain w g' where c: "record_outcome env t p r g = (w, g')" by fastforce
  with 3 record_outcome_frame[OF c] show ?case by simp
qed simp

lemma run_executed_bound:
  assumes "unat (count_of (compute_hash env t p) (call_counts g)) + length (guard_run env es g) < 2 ^ 32"
  shows "length (filter (\<lambda>(t', p', v). t' = t \<and> p' = p \<and> executed v) (guard_run env es g))
    \<le> unat (effective env g t p (block_threshold (config g))) - 1
       - unat (count_of (compute_hash env t p) (call_counts g))"
  using assms
proof (induction env es g rule: guard_run.induct)
  case (2 env t' p' es g)
  let ?h = "compute_hash env t p"
  obtain v g' where c: "check env t' p' g = (v, g')" by fastforce
  have eff: "effective env g' = (effective env g :: string \<Rightarrow> _)"
    using check_frame(1)[OF c] by (simp add: effective_def fun_eq_iff)
  define k where "k = unat (count_of ?h (call_counts g))"
  have k32: "Suc k < 2 ^ 32" using 2(2) by (simp add: k_def)
  have cnt: "unat (count_of ?h (call_counts g')) = k \<or>
      unat (count_of ?h (call_counts g')) = Suc k"
    using check_counts[OF c] k32 by (auto simp: k_def unat_word_ariths)
  then have IH: "length (filter (\<lambda>(t', p', v). t' = t \<and> p' = p \<and> executed v) (guard_run env es g'))
    \<le> unat (effective env g t p (block_threshold (config g))) - 1
       - unat (count_of ?h (call_counts g'))"
    using 2(1) 2(2) c check_frame(1)[OF c] eff by (auto simp: k_def)
  show ?case
  proof (cases "t' = t \<and> p' = p \<and> executed v")
    case True
    then have "count_of ?h (call_counts g') = count_of ?h (call_counts g) + 1"
      and lt: "count_of ?h (call_counts g) + 1 < effective env g t p (block_threshold (config g))"
      using check_executed[OF c] by auto
    then have "unat (count_of ?h (call_counts g')) = Suc k"
      and "Suc k < unat (effective env g t p (block_threshold (config g)))"
      using k32 by (auto simp: k_def unat_word_ariths word_less_nat_alt)
    with IH True c show ?thesis by (simp add: k_def)
  next
    case False
    with IH cnt c show ?thesis by (auto simp: k_def)
  qed
next
  case (3 env t' p' r es g)
  obtain w g' where c: "record_outcome env t' p' r g = (w, g')" by fastforce
  with 3 record_outcome_frame[OF c] effective_config_cong[of g' g env] show ?case by simp
qed simp

lemma run_blocked_stays:
  "compute_hash env t p \<in> blocked_outcomes g \<Longrightarrow> (t, p, v) \<in> set (guard_run env es g) \<Longrightarrow> \<not> executed v"
proof (induction env es g rule: guard_run.induct)
  case (2 env t' p' es g)
  have "compute_hash env t p \<in> blocked_outcomes (guard_step env g (Check t' p'))"
    using 2(2) guard_step_blocked_mono by blast
  with 2 show ?case using check_executed(3)[of env t p g] by (auto simp: prod_eq_iff)
next
  case (3 env t' p' r es g)
  then show ?case using guard_step_blocked_mono by fastforce
qed simp

abbreviation outcomes :: "string \<Rightarrow> 'v \<Rightarrow> string \<Rightarrow> 'v guard_event list \<Rightarrow> nat" where
  "outcomes t p r es \<equiv> count_list es (Outcome t p r)"

lemma step_outcome_count:
  "unat (count_of k (outcome_counts g)) < 2 ^ 32 - 1 \<Longrightarrow>
   unat (count_of k (outcome_counts (guard_step env g e)))
     \<in> {unat (count_of k (outcome_counts g)), Suc (unat (count_of k (outcome_counts g)))}"
proof (cases e)
  case (Check t p)
  then show ?thesis
    using check_frame(4)[of env t p g] by (metis guard_step.simps(1) insertI1 prod.collapse)
next
  case (Outcome t p r)
  assume "unat (count_of k (outcome_counts g)) < 2 ^ 32 - 1"
  with Outcome record_outcome_frame(7)[of env t p r g] show ?thesis
    by (auto simp: unat_word_ariths prod_eq_iff)
qed

lemma repeated_outcomes_block:
  assumes "unat (count_of (compute_outcome_hash env t p r) (outcome_counts g)) + length es < 2 ^ 32 - 1"
    and "unat (outcome_block_threshold (config g))
      \<le> unat (count_of (compute_outcome_hash env t p r) (outcome_counts g)) + outcomes t p r es"
    and "0 < outcomes t p r es"
  shows "compute_hash env t p \<in> blocked_outcomes (foldl (guard_step env) g es)"
  using assms
proof (induction es arbitrary: g)
  case (Cons e es)
  let ?k = "compute_outcome_hash env t p r"
  let ?n = "unat (count_of ?k (outcome_counts g))"
  let ?g = "guard_step env g e"
  have mono: "blocked_outcomes ?g \<subseteq> blocked_outcomes (foldl (guard_step env) ?g es)" for es
    by (induction es rule: rev_induct) (use guard_step_blocked_mono in fastforce)+
  have n32: "?n < 2 ^ 32 - 1" using Cons.prems(1) by simp
  have step: "unat (count_of ?k (outcome_counts ?g)) \<in> {?n, Suc ?n}"
    by (rule step_outcome_count[OF n32])
  show ?case
  proof (cases "e = Outcome t p r")
    case True
    have cnt: "unat (count_of ?k (outcome_counts ?g)) = Suc ?n"
      using True n32 record_outcome_frame(7)[of env t p r g]
      by (auto simp: unat_word_ariths prod_eq_iff)
    show ?thesis
    proof (cases "outcomes t p r es = 0")
      case zero: True
      with Cons.prems(2) True n32
      have "outcome_block_threshold (config g) \<le> count_of ?k (outcome_counts g) + 1"
        by (auto simp: word_le_nat_alt unat_word_ariths)
      from record_outcome_blocks[OF this] True mono show ?thesis by auto
    next
      case False
      have "compute_hash env t p \<in> blocked_outcomes (foldl (guard_step env) ?g es)"
        by (rule Cons.IH) (use Cons.prems cnt False True in auto)
      then show ?thesis by simp
    qed
  next
    case False
    have "compute_hash env t p \<in> blocked_outcomes (foldl (guard_step env) ?g es)"
      by (rule Cons.IH) (use Cons.prems step False in auto)
    then show ?thesis by simp
  qed
qed simp

lemma run_blocked_calls:
  "blocked_calls (foldl (guard_step env) g es) =
     blocked_calls g + word_of_nat (length (filter (\<lambda>(_, _, v). \<not> executed v) (guard_run env es g)))"
proof (induction env es g rule: guard_run.induct)
  case (2 env t p es g)
  obtain v g' where c: "check env t p g = (v, g')" by fastforce
  with 2 check_frame(5)[OF c] show ?case by auto
next
  case (3 env t p r es g)
  obtain w g' where c: "record_outcome env t p r g = (w, g')" by fastforce
  with 3 record_outcome_frame(4)[OF c] show ?case by auto
qed simp

section \<open>History and ping-pong\<close>

definition history_ok :: "loop_guard \<Rightarrow> bool" where
  "history_ok g \<longleftrightarrow> length (recent_calls g) \<le> HISTORY_SIZE"

lemma history_ok_push: "history_ok g \<Longrightarrow> history_ok (push_recent h g)"
  by (auto simp: history_ok_def push_recent_def HISTORY_SIZE_def)

lemma check_recent:
  assumes "check env t p g = (v, g')"
  shows "recent_calls g' = recent_calls g \<or>
    recent_calls g' = recent_calls (push_recent (compute_hash env t p) g)"
  using assms
  by (auto simp: check_def Let_def push_recent_def split: if_splits dest: ping_pong_verdict_frame(6))

interpretation guard_machine: invariant_machine "guard_step env" history_ok
proof
  fix g and e :: "'a guard_event"
  assume ok: "history_ok g"
  show "history_ok (guard_step env g e)"
  proof (cases e)
    case (Check t p)
    obtain v g' where c: "check env t p g = (v, g')" by fastforce
    from check_recent[OF c] history_ok_push[OF ok, of "compute_hash env t p"] ok show ?thesis
      using Check c by (auto simp: history_ok_def)
  next
    case (Outcome t p r)
    obtain w g' where c: "record_outcome env t p r g = (w, g')" by fastforce
    from record_outcome_frame(6)[OF c] ok Outcome c show ?thesis by (simp add: history_ok_def)
  qed
qed

lemma count_pairs_bound: "i < 2 ^ 32 \<Longrightarrow> unat (count_pairs calls a b i) \<le> i div 2"
proof (induction calls a b i rule: count_pairs.induct)
  case (1 calls a b i)
  show ?case
  proof (cases "2 \<le> i \<and> calls ! (i - 2) = a \<and> calls ! (i - 2 + 1) = b")
    case True
    then have "unat (count_pairs calls a b (i - 2)) \<le> (i - 2) div 2"
      using 1 by auto
    with True 1(2) have "unat (1 + count_pairs calls a b (i - 2)) \<le> 1 + (i - 2) div 2"
      by (simp add: unat_word_ariths)
    with True show ?thesis by (subst count_pairs.simps) auto
  next
    case False
    then show ?thesis by (subst count_pairs.simps) auto
  qed
qed

lemma count_triples_bound: "i < 2 ^ 32 \<Longrightarrow> unat (count_triples calls a b c i) \<le> i div 3"
proof (induction calls a b c i rule: count_triples.induct)
  case (1 calls a b c i)
  show ?case
  proof (cases "3 \<le> i \<and> calls ! (i - 3) = a \<and> calls ! (i - 3 + 1) = b \<and> calls ! (i - 3 + 2) = c")
    case True
    then have "unat (count_triples calls a b c (i - 3)) \<le> (i - 3) div 3"
      using 1 by auto
    with True 1(2) have "unat (1 + count_triples calls a b c (i - 3)) \<le> 1 + (i - 3) div 3"
      by (simp add: unat_word_ariths)
    moreover have "1 + (i - 3) div 3 = i div 3" using True by (simp add: le_div_geq)
    ultimately show ?thesis using True by (subst count_triples.simps) auto
  next
    case False
    then show ?thesis by (subst count_triples.simps) auto
  qed
qed

lemma word_3_le_add:
  "unat x < 2 ^ 32 - 3 \<Longrightarrow> (3 :: u32) \<le> 3 + x"
  by (simp add: word_le_nat_alt unat_word_ariths)

lemma count_pairs_step:
  "calls ! i = a \<Longrightarrow> calls ! (i + 1) = b \<Longrightarrow> count_pairs calls a b (i + 2) = 1 + count_pairs calls a b i"
  by (subst count_pairs.simps) simp

lemma count_triples_step:
  "calls ! i = a \<Longrightarrow> calls ! (i + 1) = b \<Longrightarrow> calls ! (i + 2) = c \<Longrightarrow>
     count_triples calls a b c (i + 3) = 1 + count_triples calls a b c i"
  by (subst count_triples.simps) simp

lemma pairs_three:
  assumes "m + 6 < 2 ^ 32" "\<forall>j \<in> {0, 2, 4}. calls ! (m + j) = a \<and> calls ! (m + j + 1) = b"
  shows "3 \<le> count_pairs calls a b (m + 6)"
proof -
  have "count_pairs calls a b (m + 6) = 1 + (1 + (1 + count_pairs calls a b m))"
    using count_pairs_step[of calls m a b] count_pairs_step[of calls "m + 2" a b]
      count_pairs_step[of calls "m + 4" a b] assms(2)
    by (simp add: numeral_eq_Suc)
  then show ?thesis
    using count_pairs_bound[of m calls a b] assms(1) by (simp add: word_3_le_add)
qed

lemma triples_three:
  assumes "m + 9 < 2 ^ 32"
    and "\<forall>j \<in> {0, 3, 6}. calls ! (m + j) = a \<and> calls ! (m + j + 1) = b \<and> calls ! (m + j + 2) = c"
  shows "3 \<le> count_triples calls a b c (m + 9)"
proof -
  have "count_triples calls a b c (m + 9) = 1 + (1 + (1 + count_triples calls a b c m))"
    using count_triples_step[of calls m a b c] count_triples_step[of calls "m + 3" a b c]
      count_triples_step[of calls "m + 6" a b c] assms(2)
    by (simp add: numeral_eq_Suc)
  then show ?thesis
    using count_triples_bound[of m calls a b c] assms(1) by (simp add: word_3_le_add)
qed

lemma two_le_if_three: "(3 :: u32) \<le> x \<Longrightarrow> 2 \<le> x"
  by (simp add: word_le_nat_alt)

lemma repeats_of_pair_pattern:
  assumes len: "length (recent_calls g) = m + 6" "m + 6 < 2 ^ 32"
    and pat: "drop m (recent_calls g) = [a, b, a, b, a, b]" "a \<noteq> b"
  shows "3 \<le> count_ping_pong_repeats g"
proof -
  let ?c = "recent_calls g"
  have nth: "?c ! (m + j) = [a, b, a, b, a, b] ! j" if "j < 6" for j
    using that len pat by (metis add_leE le_add1 nth_drop)
  have ab: "?c ! (m + 4) = a" "?c ! (m + 5) = b" using nth[of 4] nth[of 5] by simp_all
  have "3 \<le> count_pairs ?c a b (m + 6)"
    by (rule pairs_three[OF len(2)])
      (use nth[of 0] nth[of 1] nth[of 2] nth[of 3] nth[of 4] nth[of 5]
        in \<open>simp add: numeral_eq_Suc\<close>)
  then show ?thesis
    using len ab pat(2) two_le_if_three 
    by (simp add: count_ping_pong_repeats_def Let_def add.commute)
qed

lemma repeats_of_triple_pattern:
  assumes len: "length (recent_calls g) = m + 9" "m + 9 < 2 ^ 32"
    and pat: "drop m (recent_calls g) = [a, b, c, a, b, c, a, b, c]" "\<not> (a = b \<and> b = c)"
  shows "3 \<le> count_ping_pong_repeats g"
proof -
  let ?c = "recent_calls g"
  have nth: "?c ! (m + j) = [a, b, c, a, b, c, a, b, c] ! j" if "j < 9" for j
    using that len pat by (metis add_leE le_add1 nth_drop)
  have abc: "?c ! (m + 6) = a" "?c ! (m + 7) = b" "?c ! (m + 8) = c" "?c ! (m + 5) = c"
    using nth[of 6] nth[of 7] nth[of 8] nth[of 5] by simp_all
  have "count_pairs ?c b c (m + 7) = 0" if "b \<noteq> c"
    using that abc by (subst count_pairs.simps) (simp add: add.commute)
  then have "count_pairs ?c b c (m + 9) < 2" if "b \<noteq> c"
    using that abc count_pairs_step[of ?c "m + 7" b c] by (simp add: numeral_eq_Suc)
  moreover have "3 \<le> count_triples ?c a b c (m + 9)"
    by (rule triples_three[OF len(2)])
      (use nth[of 0] nth[of 1] nth[of 2] nth[of 3] nth[of 4] nth[of 5] nth[of 6] nth[of 7] nth[of 8]
        in \<open>simp add: numeral_eq_Suc\<close>)
  ultimately show ?thesis
    using len abc pat(2) two_le_if_three
    by (auto simp: count_ping_pong_repeats_def Let_def not_le add.commute)
qed

lemma list6: "length xs = 6 \<Longrightarrow> xs = [xs ! 0, xs ! 1, xs ! 2, xs ! 3, xs ! 4, xs ! 5]"
  by (auto simp: numeral_eq_Suc length_Suc_conv)

lemma list9:
  "length xs = 9 \<Longrightarrow>
     xs = [xs ! 0, xs ! 1, xs ! 2, xs ! 3, xs ! 4, xs ! 5, xs ! 6, xs ! 7, xs ! 8]"
  by (auto simp: numeral_eq_Suc length_Suc_conv)

lemma detect_repeats:
  assumes "history_ok g" "detect_ping_pong g = Some msg"
  shows "3 \<le> count_ping_pong_repeats g"
proof -
  let ?c = "recent_calls g"
  have small: "length ?c < 2 ^ 32" using assms(1) by (simp add: history_ok_def HISTORY_SIZE_def)
  let ?t6 = "drop (length ?c - 6) ?c" and ?t9 = "drop (length ?c - 9) ?c"
  from assms(2) consider
      (pair) "6 \<le> length ?c" "?t6 ! 0 \<noteq> ?t6 ! 1" "?t6 ! 2 = ?t6 ! 0" "?t6 ! 3 = ?t6 ! 1"
        "?t6 ! 4 = ?t6 ! 0" "?t6 ! 5 = ?t6 ! 1"
    | (triple) "9 \<le> length ?c" "\<not> (?t9 ! 0 = ?t9 ! 1 \<and> ?t9 ! 1 = ?t9 ! 2)" "?t9 ! 3 = ?t9 ! 0"
        "?t9 ! 4 = ?t9 ! 1" "?t9 ! 5 = ?t9 ! 2" "?t9 ! 6 = ?t9 ! 0" "?t9 ! 7 = ?t9 ! 1"
        "?t9 ! 8 = ?t9 ! 2"
    unfolding detect_ping_pong_def detect_ping_pong_impl_def Let_def
    by (auto split: if_splits)
  then show ?thesis
  proof cases
    case pair
    have "?t6 = [?t6 ! 0, ?t6 ! 1, ?t6 ! 0, ?t6 ! 1, ?t6 ! 0, ?t6 ! 1]"
      using list6[of ?t6] pair by simp
    then show ?thesis
      using repeats_of_pair_pattern[of g "length ?c - 6"] pair(1,2) small by simp
  next
    case triple
    have "?t9 = [?t9 ! 0, ?t9 ! 1, ?t9 ! 2, ?t9 ! 0, ?t9 ! 1, ?t9 ! 2, ?t9 ! 0, ?t9 ! 1, ?t9 ! 2]"
      using list9[of ?t9] triple by simp
    then show ?thesis
      using repeats_of_triple_pattern[of g "length ?c - 9"] triple(1,2) small by simp
  qed
qed

section \<open>Properties\<close>

text \<open>A concrete environment for the witnesses: parameters are text, the digest is the identity.\<close>

abbreviation text_env :: "string guard_env" where
  "text_env \<equiv> \<lparr>sha256_hex = (\<lambda>s. s), to_json = (\<lambda>v. v), get_bool = (\<lambda>_ _. Some False),
     get_str = (\<lambda>_ _. None)\<rparr>"

abbreviation small_config :: loop_guard_config where
  "small_config \<equiv> default_guard_config\<lparr>global_circuit_breaker := 2\<rparr>"

text \<open>
  C16: In any run of fewer than 2^32 checks, interleaved with recorded outcomes, exactly the
  checks after the first \<open>global_circuit_breaker\<close> ones break the loop: no earlier check
  does, every later one does.
\<close>
theorem circuit_breaker_exact:
  assumes "length (guard_run env es (new_guard c)) < 2 ^ 32"
    and "i < length (guard_run env es (new_guard c))"
  shows "is_break (snd (snd (guard_run env es (new_guard c) ! i))) \<longleftrightarrow>
    unat (global_circuit_breaker c) \<le> i"
  using run_break[of "new_guard c" 0 env es i] assms by (simp add: new_guard_def)

theorem circuit_breaker_exact_witness:
  "is_break (snd (snd (guard_run text_env [Check ''a'' [], Check ''b'' [], Check ''c'' []]
      (new_guard small_config) ! 2)))
    \<longleftrightarrow> unat (global_circuit_breaker small_config) \<le> 2"
  by (rule circuit_breaker_exact) simp_all

text \<open>
  In any run of fewer than 2^32 checks, one call (a tool with given parameters) is let through
  fewer times than its effective block threshold (the configured one, multiplied for polls).
\<close>
theorem identical_call_bound:
  assumes "length (guard_run env es (new_guard c)) < 2 ^ 32"
  shows "length (filter (\<lambda>(t', p', v). t' = t \<and> p' = p \<and> executed v) (guard_run env es (new_guard c)))
    \<le> unat (effective env (new_guard c) t p (block_threshold c)) - 1"
  using run_executed_bound[of env t p "new_guard c" es] assms
  by (simp add: new_guard_def count_of_def)

theorem identical_call_bound_witness:
  "length (filter (\<lambda>(t', p', v). t' = ''a'' \<and> p' = [] \<and> executed v)
      (guard_run text_env (replicate 9 (Check ''a'' [])) (new_guard default_guard_config)))
    \<le> unat (effective text_env (new_guard default_guard_config) ''a'' []
         (block_threshold default_guard_config)) - 1"
  by (rule identical_call_bound, rule le_less_trans[OF length_guard_run_le]) simp

text \<open>
  Once the same call has returned the same result \<open>outcome_block_threshold\<close> times
  (other events may lie between), the guard never lets that call through again.
\<close>
theorem repeated_outcome_blocks_forever:
  assumes "length es < 2 ^ 32 - 1"
    and "unat (outcome_block_threshold c) \<le> outcomes t p r es" "0 < outcomes t p r es"
    and "(t, p, v) \<in> set (guard_run env es' (foldl (guard_step env) (new_guard c) es))"
  shows "\<not> executed v"
proof (rule run_blocked_stays)
  show "compute_hash env t p \<in> blocked_outcomes (foldl (guard_step env) (new_guard c) es)"
    by (rule repeated_outcomes_block[where r = r])
      (use assms(1-3) in \<open>simp_all add: new_guard_def count_of_def\<close>)
qed (rule assms(4))

theorem repeated_outcome_blocks_forever_witness:
  "\<not> executed (fst (check text_env ''a'' ''x''
      (foldl (guard_step text_env) (new_guard default_guard_config)
        [Outcome ''a'' ''x'' ''same'', Outcome ''a'' ''x'' ''same'', Outcome ''a'' ''x'' ''same''])))"
  by (rule repeated_outcome_blocks_forever[of "[Outcome ''a'' ''x'' ''same'', Outcome ''a'' ''x'' ''same'', Outcome ''a'' ''x'' ''same'']"
        default_guard_config "''a''" "''x''" "''same''" _ text_env "[Check ''a'' ''x'']"])
    (simp_all add: default_guard_config_def)

text \<open>
  In every state the guard reaches, a detected ping-pong pattern has at least three full
  repeats; so with \<open>ping_pong_min_repeats\<close> at most 3 (its default) detection always blocks
  and the warning branch below the threshold is never taken.
\<close>
theorem detected_ping_pong_blocks:
  assumes "g = foldl (guard_step env) (new_guard c) es"
    and "detect_ping_pong g = Some msg" "ping_pong_min_repeats c \<le> 3"
  shows "3 \<le> count_ping_pong_repeats g \<and> fst (ping_pong_verdict h g) = Block msg"
proof -
  have "history_ok g"
    unfolding assms(1) by (rule guard_machine.inv_run) (simp add: history_ok_def new_guard_def)
  then have three: "3 \<le> count_ping_pong_repeats g" using assms(2) by (rule detect_repeats)
  have "config g = c"
    unfolding assms(1) by (induction es rule: rev_induct) (simp_all add: new_guard_def)
  with three assms(2,3) show ?thesis
    by (auto simp: ping_pong_verdict_def dest: order_trans)
qed

theorem detected_ping_pong_blocks_witness:
  "3 \<le> count_ping_pong_repeats (foldl (guard_step text_env) (new_guard default_guard_config)
      [Check ''a'' [], Check ''b'' [], Check ''a'' [], Check ''b'' [], Check ''a'' [], Check ''b'' []])
   \<and> fst (ping_pong_verdict [] (foldl (guard_step text_env) (new_guard default_guard_config)
      [Check ''a'' [], Check ''b'' [], Check ''a'' [], Check ''b'' [], Check ''a'' [], Check ''b'' []])) = Block (PingPong2 ''a'' ''b'')"
proof (rule detected_ping_pong_blocks[OF refl])
  show "detect_ping_pong (foldl (guard_step text_env) (new_guard default_guard_config)
      [Check ''a'' [], Check ''b'' [], Check ''a'' [], Check ''b'' [], Check ''a'' [], Check ''b'' []]) = Some (PingPong2 ''a'' ''b'')"
    by code_simp
  show "ping_pong_min_repeats default_guard_config \<le> 3" by (simp add: default_guard_config_def)
qed

text \<open>
  The guard's \<open>blocked_calls\<close> counter is the number of checks it did not let through
  (modulo 2^32), in any run.
\<close>
theorem blocked_calls_counts:
  "blocked_calls (foldl (guard_step env) (new_guard c) es) =
     word_of_nat (length (filter (\<lambda>(_, _, v). \<not> executed v) (guard_run env es (new_guard c))))"
  using run_blocked_calls[of env "new_guard c" es] by (simp add: new_guard_def)

end
