(* ===== verification/Message.thy ===== *)
theory Message
  imports Prelude
begin

text \<open>
  Conversation messages, \<open>crates/librefang-types/src/message.rs\<close>, the execution status of a
  tool call, \<open>crates/librefang-types/src/tool.rs\<close>, and the silent-reply detector
  \<open>crates/librefang-runtime/src/silent_response.rs\<close>.

  The JSON values that a block carries (\<open>serde_json::Value\<close>) are the type parameter
  \<open>'j\<close>; the one operation applied to them, printing, is an argument. A timestamp is an
  integer. The flag \<open>LIBREFANG_SILENT_V2\<close>, read once from the environment, is an argument.
\<close>

section \<open>Data\<close>

datatype role = System | User | Assistant

datatype tool_execution_status =
    Completed
  | Error
  | WaitingApproval
  | Denied
  | Expired
  | ModifyAndRetry
  | Skipped

definition is_error :: "tool_execution_status \<Rightarrow> bool" where
  "is_error s \<longleftrightarrow> s \<in> {Error, Denied, Expired, ModifyAndRetry}"

definition is_soft_error :: "tool_execution_status \<Rightarrow> bool" where
  "is_soft_error s \<longleftrightarrow> s \<in> {Denied, ModifyAndRetry, Skipped}"

text \<open>
  Fields in source order: \<open>BText text provider_metadata\<close>, \<open>Image media_type data\<close>,
  \<open>ImageFile media_type path\<close>, \<open>ToolUse id name input provider_metadata\<close>,
  \<open>ToolResult tool_use_id tool_name content is_error status approval_request_id\<close>,
  \<open>Thinking thinking provider_metadata\<close>.
\<close>

datatype 'j content_block =
    BText string "'j option"
  | Image string string
  | ImageFile string string
  | ToolUse string string 'j "'j option"
  | ToolResult string string string bool tool_execution_status "string option"
  | Thinking string "'j option"
  | Unknown

datatype 'j message_content = Text string | Blocks "'j content_block list"

record 'j message =
  role :: role
  content :: "'j message_content"
  pinned :: bool
  timestamp :: "int option"

datatype stop_reason = EndTurn | StopToolUse | MaxTokens | StopSequence

section \<open>Images\<close>

datatype image_error =
    UnsupportedImageType string
  | ImageTooLarge nat

definition ALLOWED_IMAGE_TYPES :: "string list" where
  "ALLOWED_IMAGE_TYPES = [''image/png'', ''image/jpeg'', ''image/gif'', ''image/webp'']"

definition MAX_IMAGE_BYTES :: nat where
  "MAX_IMAGE_BYTES = 5 * 1024 * 1024"

definition validate_image :: "string \<Rightarrow> string \<Rightarrow> image_error + unit" where
  "validate_image media_type data =
     (if media_type \<notin> set ALLOWED_IMAGE_TYPES then Inl (UnsupportedImageType media_type)
      else let max_b64_len = MAX_IMAGE_BYTES * 4 div 3 + 4
           in if length data > max_b64_len then Inl (ImageTooLarge (length data)) else Inr ())"

definition is_image :: "'j content_block \<Rightarrow> bool" where
  "is_image b = (case b of Image _ _ \<Rightarrow> True | ImageFile _ _ \<Rightarrow> True | _ \<Rightarrow> False)"

definition has_images :: "'j message_content \<Rightarrow> bool" where
  "has_images c = (case c of Text _ \<Rightarrow> False | Blocks bs \<Rightarrow> list_ex is_image bs)"

definition image_placeholder :: "string \<Rightarrow> 'j content_block" where
  "image_placeholder mt = BText (''[Image ('' @ mt @ '') previously processed]'') None"

definition strip_image_block :: "'j content_block \<Rightarrow> 'j content_block" where
  "strip_image_block b =
     (case b of Image mt _ \<Rightarrow> image_placeholder mt
      | ImageFile mt _ \<Rightarrow> image_placeholder mt
      | _ \<Rightarrow> b)"

definition strip_images :: "'j message_content \<Rightarrow> 'j message_content \<times> bool" where
  "strip_images c =
     (case c of Text s \<Rightarrow> (Text s, False)
      | Blocks bs \<Rightarrow> (Blocks (map strip_image_block bs), list_ex is_image bs))"

section \<open>Text\<close>

definition block_text_length :: "('j \<Rightarrow> string) \<Rightarrow> 'j content_block \<Rightarrow> nat" where
  "block_text_length print_json b =
     (case b of BText t _ \<Rightarrow> length t
      | ToolResult _ _ c _ _ _ \<Rightarrow> length c
      | Thinking t _ \<Rightarrow> length t
      | ToolUse _ name input _ \<Rightarrow> length name + length (print_json input)
      | _ \<Rightarrow> 0)"

definition text_length :: "('j \<Rightarrow> string) \<Rightarrow> 'j message_content \<Rightarrow> nat" where
  "text_length print_json c =
     (case c of Text s \<Rightarrow> length s
      | Blocks bs \<Rightarrow> sum_list (map (block_text_length print_json) bs))"

definition block_text :: "'j content_block \<Rightarrow> string option" where
  "block_text b = (case b of BText t _ \<Rightarrow> Some t | _ \<Rightarrow> None)"

definition text_content :: "'j message_content \<Rightarrow> string" where
  "text_content c =
     (case c of Text s \<Rightarrow> s | Blocks bs \<Rightarrow> concat (List.map_filter block_text bs))"

definition system_message :: "int \<Rightarrow> string \<Rightarrow> 'j message" where
  "system_message now s = \<lparr>role = System, content = Text s, pinned = False, timestamp = Some now\<rparr>"

definition user_message :: "int \<Rightarrow> string \<Rightarrow> 'j message" where
  "user_message now s = \<lparr>role = User, content = Text s, pinned = False, timestamp = Some now\<rparr>"

definition user_with_blocks :: "int \<Rightarrow> 'j content_block list \<Rightarrow> 'j message" where
  "user_with_blocks now bs =
     \<lparr>role = User, content = Blocks bs, pinned = False, timestamp = Some now\<rparr>"

definition assistant_message :: "int \<Rightarrow> string \<Rightarrow> 'j message" where
  "assistant_message now s =
     \<lparr>role = Assistant, content = Text s, pinned = False, timestamp = Some now\<rparr>"

section \<open>Silent replies\<close>

definition legacy_is_silent :: "string \<Rightarrow> bool" where
  "legacy_is_silent text =
     (let t = trim text
      in t = ''NO_REPLY'' \<or> ends_with ''NO_REPLY'' t
       \<or> t = ''[no reply needed]'' \<or> ends_with ''[no reply needed]'' t
       \<or> t = ''no reply needed'' \<or> ends_with ''no reply needed'' t)"

definition is_trailing_noise :: "char \<Rightarrow> bool" where
  "is_trailing_noise c \<longleftrightarrow>
     (of_char c :: nat) \<in> {9, 10, 12, 13, 32} \<or> c \<in> set ''.,;:!?'' \<or> 128 \<le> (of_char c :: nat)"

definition last_char_start :: "string \<Rightarrow> nat \<Rightarrow> nat" where
  "last_char_start s e =
     (case find (\<lambda>i. \<not> is_continuation (s ! i)) (rev [0..<e]) of Some i \<Rightarrow> i | None \<Rightarrow> 0)"

lemma last_char_start_less: "0 < e \<Longrightarrow> last_char_start s e < e"
  by (auto simp: last_char_start_def find_Some_iff rev_nth split: option.splits)

function noise_end :: "string \<Rightarrow> nat \<Rightarrow> nat" where
  "noise_end s e =
     (if e = 0 then 0
      else let ch_start = last_char_start s e
           in if is_trailing_noise (s ! ch_start) then noise_end s ch_start else e)"
  by pat_completeness auto

termination
  by (relation "measure snd") (auto intro: last_char_start_less)

declare noise_end.simps [simp del]

definition strip_trailing_noise :: "string \<Rightarrow> string" where
  "strip_trailing_noise s = take (noise_end s (length s)) s"

definition matches_canonical :: "string \<Rightarrow> bool" where
  "matches_canonical s \<longleftrightarrow>
     to_lowercase s \<in> {''no_reply'', ''[no reply needed]'', ''no reply needed''}"

definition is_word_char :: "char \<Rightarrow> bool" where
  "is_word_char c \<longleftrightarrow>
     (let n = of_char c :: nat
      in 48 \<le> n \<and> n \<le> 57 \<or> 65 \<le> n \<and> n \<le> 90 \<or> 97 \<le> n \<and> n \<le> 122 \<or> c = CHR ''_'')"

definition ends_with_needle :: "string \<Rightarrow> string \<Rightarrow> bool" where
  "ends_with_needle needle lower \<longleftrightarrow>
     ends_with needle lower \<and>
     (let cut = length lower - length needle
      in cut = 0 \<or> \<not> is_word_char (lower ! (cut - 1)))"

definition ends_with_canonical :: "string \<Rightarrow> bool" where
  "ends_with_canonical s \<longleftrightarrow>
     (let lower = to_lowercase s
      in list_ex (\<lambda>needle. ends_with_needle needle lower) [''no_reply'', ''[no reply needed]''])"

definition is_silent_response :: "bool \<Rightarrow> string \<Rightarrow> bool" where
  "is_silent_response v2_enabled text =
     (if text = [] then False
      else if trim text = [] then False
      else if \<not> v2_enabled then legacy_is_silent text
      else let stripped = strip_trailing_noise (trim text)
           in if matches_canonical stripped then True else ends_with_canonical stripped)"

section \<open>Properties\<close>

lemma strip_images_has_images [simp]: "\<not> has_images (fst (strip_images c))"
  by (cases c)
    (auto simp: strip_images_def has_images_def strip_image_block_def is_image_def
      image_placeholder_def list_ex_iff split: content_block.splits)

lemma strip_images_unchanged: "\<not> has_images c \<Longrightarrow> fst (strip_images c) = c"
  by (cases c)
    (auto simp: strip_images_def has_images_def strip_image_block_def is_image_def list_ex_iff
      intro!: map_idI split: content_block.splits)

lemma snd_strip_images: "snd (strip_images c) = has_images c"
  by (cases c) (auto simp: strip_images_def has_images_def)

lemma strip_images_length:
  "(case fst (strip_images c) of Blocks bs \<Rightarrow> length bs | Text s \<Rightarrow> length s) =
   (case c of Blocks bs \<Rightarrow> length bs | Text s \<Rightarrow> length s)"
  by (cases c) (auto simp: strip_images_def)

end
