(* ===== verification/SessionRepair.thy ===== *)
theory SessionRepair
  imports Message
begin

text \<open>
  Validation and repair of a message history before it is sent to a provider,
  \<open>crates/librefang-runtime/src/session_repair.rs\<close>: the phases of
  \<open>validate_and_repair_with_stats\<close> in their order, the loop of
  \<open>ensure_starts_with_user\<close>, the search for a safe trim point, the pruning of heartbeat
  turns and the sanitising of tool results.

  A vector of messages is a list; an index map built by a scan is the function that does the
  scan. Counters are natural numbers: they count blocks held in memory. Log lines are left out.
\<close>

section \<open>Blocks of a message\<close>

definition tool_use_id :: "'j content_block \<Rightarrow> string option" where
  "tool_use_id b = (case b of ToolUse i _ _ _ \<Rightarrow> Some i | _ \<Rightarrow> None)"

definition result_status :: "'j content_block \<Rightarrow> (string \<times> tool_execution_status) option" where
  "result_status b = (case b of ToolResult i _ _ _ st _ \<Rightarrow> Some (i, st) | _ \<Rightarrow> None)"

definition tool_result_id :: "'j content_block \<Rightarrow> string option" where
  "tool_result_id b = map_option fst (result_status b)"

definition is_tool_result :: "'j content_block \<Rightarrow> bool" where
  "is_tool_result b \<longleftrightarrow> result_status b \<noteq> None"

definition blocks_of :: "'j message \<Rightarrow> 'j content_block list" where
  "blocks_of m = (case content m of Text _ \<Rightarrow> [] | Blocks bs \<Rightarrow> bs)"

definition uses_of :: "'j message \<Rightarrow> string list" where
  "uses_of m = List.map_filter tool_use_id (blocks_of m)"

definition results_of :: "'j message \<Rightarrow> string list" where
  "results_of m = List.map_filter tool_result_id (blocks_of m)"

definition assistant_uses :: "'j message \<Rightarrow> string list" where
  "assistant_uses m = (if role m = Assistant then uses_of m else [])"

definition user_results :: "'j message \<Rightarrow> string list" where
  "user_results m = (if role m = User then results_of m else [])"

definition turn_count :: "'j message list \<Rightarrow> string \<Rightarrow> nat" where
  "turn_count ms i = count_list (concat (map assistant_uses ms)) i"

definition is_nonempty :: "'j message \<Rightarrow> bool" where
  "is_nonempty m = (case content m of Text s \<Rightarrow> s \<noteq> [] | Blocks bs \<Rightarrow> bs \<noteq> [])"

definition message_has_tool_use :: "'j message \<Rightarrow> bool" where
  "message_has_tool_use m =
     (case content m of Blocks bs \<Rightarrow> list_ex (\<lambda>b. tool_use_id b \<noteq> None) bs | _ \<Rightarrow> False)"

definition message_is_only_tool_results :: "'j message \<Rightarrow> bool" where
  "message_is_only_tool_results m =
     (case content m of Blocks bs \<Rightarrow> bs \<noteq> [] \<and> list_all is_tool_result bs | _ \<Rightarrow> False)"

definition content_to_blocks :: "'j message_content \<Rightarrow> 'j content_block list" where
  "content_to_blocks c = (case c of Text s \<Rightarrow> [BText s None] | Blocks bs \<Rightarrow> bs)"

definition merge_content :: "'j message_content \<Rightarrow> 'j message_content \<Rightarrow> 'j message_content" where
  "merge_content dst src = Blocks (content_to_blocks dst @ content_to_blocks src)"

definition content_char_len :: "'j message_content \<Rightarrow> nat" where
  "content_char_len c =
     (case c of Text s \<Rightarrow> chars_count s
      | Blocks bs \<Rightarrow> sum_list (map (\<lambda>b. case b of
            BText t _ \<Rightarrow> chars_count t
          | Thinking t _ \<Rightarrow> chars_count t
          | ToolResult _ _ r _ _ _ \<Rightarrow> chars_count r
          | ToolUse _ _ _ _ \<Rightarrow> 16
          | Image _ _ \<Rightarrow> 8
          | ImageFile _ _ \<Rightarrow> 8
          | Unknown \<Rightarrow> 0) bs))"

text \<open>
  Delivery of tool results at a position, the step the phases share: a user message there is
  extended (a text message becomes blocks first), otherwise a user message is inserted.
\<close>

definition results_message :: "'j content_block list \<Rightarrow> 'j message" where
  "results_message bs = \<lparr>role = User, content = Blocks bs, pinned = False, timestamp = None\<rparr>"

definition extend_message :: "'j content_block list \<Rightarrow> 'j message \<Rightarrow> 'j message" where
  "extend_message bs m = m\<lparr>content := Blocks (content_to_blocks (content m) @ bs)\<rparr>"

definition deliver_results ::
  "nat \<Rightarrow> 'j content_block list \<Rightarrow> 'j message list \<Rightarrow> 'j message list" where
  "deliver_results pos bs ms =
     (if pos < length ms \<and> role (ms ! pos) = User then ms[pos := extend_message bs (ms ! pos)]
      else take pos ms @ results_message bs # drop pos ms)"

definition synthetic_result :: "string \<Rightarrow> 'j content_block" where
  "synthetic_result i =
     ToolResult i [] ''[Tool execution was interrupted or lost]'' True Error None"

section \<open>Phases 1 and 2: orphaned results and empty messages\<close>

definition collect_tool_use_ids :: "'j message list \<Rightarrow> string list" where
  "collect_tool_use_ids ms = concat (map uses_of ms)"

definition keep_block :: "string list \<Rightarrow> 'j content_block \<Rightarrow> bool" where
  "keep_block ids b = (case tool_result_id b of Some i \<Rightarrow> i \<in> set ids | None \<Rightarrow> True)"

definition filter_message :: "string list \<Rightarrow> 'j message \<Rightarrow> 'j message option" where
  "filter_message ids m =
     (case content m of
        Text s \<Rightarrow> if s = [] then None else Some m
      | Blocks bs \<Rightarrow>
          let filtered = filter (keep_block ids) bs
          in if filtered = [] then None else Some (m\<lparr>content := Blocks filtered\<rparr>))"

definition filter_orphans :: "string list \<Rightarrow> 'j message list \<Rightarrow> 'j message list \<times> nat \<times> nat" where
  "filter_orphans ids ms =
     (List.map_filter (filter_message ids) ms,
      sum_list (map (\<lambda>m. length (filter (\<lambda>b. \<not> keep_block ids b) (blocks_of m))) ms),
      length (filter (\<lambda>m. filter_message ids m = None) ms))"

section \<open>Phase 2a: results in assistant messages\<close>

definition misplaced_in_assistant :: "'j message \<Rightarrow> 'j content_block list" where
  "misplaced_in_assistant m =
     (if role m \<noteq> Assistant then [] else filter is_tool_result (blocks_of m))"

definition to_rescue :: "'j message list \<Rightarrow> (nat \<times> 'j content_block list) list" where
  "to_rescue ms =
     filter (\<lambda>(_, bs). bs \<noteq> []) (map (\<lambda>(i, m). (i, misplaced_in_assistant m)) (List.enumerate 0 ms))"

definition drop_results :: "'j message \<Rightarrow> 'j message" where
  "drop_results m =
     (if misplaced_in_assistant m = [] then m
      else m\<lparr>content := Blocks (filter (\<lambda>b. \<not> is_tool_result b) (blocks_of m))\<rparr>)"

definition rescue_misplaced_tool_results :: "'j message list \<Rightarrow> 'j message list \<times> nat" where
  "rescue_misplaced_tool_results ms =
     (let rescue = to_rescue ms
      in if rescue = [] then (ms, 0)
         else (filter is_nonempty
                 (foldl (\<lambda>acc (i, bs). deliver_results (i + 1) bs acc) (map drop_results ms) (rev rescue)),
               sum_list (map (length \<circ> snd) rescue)))"

section \<open>Phase 2a1: adjacent pairing\<close>

definition missing_results :: "'j message \<Rightarrow> 'j message list \<Rightarrow> string list" where
  "missing_results m rest =
     (let adjacent = (case rest of n # _ \<Rightarrow> user_results n | [] \<Rightarrow> [])
      in filter (\<lambda>i. i \<notin> set adjacent) (assistant_uses m))"

fun enforce_adjacent_tool_result_pairs :: "'j message list \<Rightarrow> 'j message list \<times> nat" where
  "enforce_adjacent_tool_result_pairs [] = ([], 0)"
| "enforce_adjacent_tool_result_pairs [m] =
     (let missing = missing_results m []
      in if missing = [] then ([m], 0)
         else ([m, results_message (map synthetic_result missing)], length missing))"
| "enforce_adjacent_tool_result_pairs (m # n # ms) =
     (let missing = missing_results m (n # ms)
      in if missing = [] then
           (let (r, k) = enforce_adjacent_tool_result_pairs (n # ms) in (m # r, k))
         else if role n = User then
           (let (r, k) = enforce_adjacent_tool_result_pairs ms
            in (m # extend_message (map synthetic_result missing) n # r, length missing + k))
         else
           (let (r, k) = enforce_adjacent_tool_result_pairs (n # ms)
            in (m # results_message (map synthetic_result missing) # r, length missing + k)))"

section \<open>Phase 2b: results away from their call\<close>

definition first_index :: "'j message list \<Rightarrow> string \<Rightarrow> nat option" where
  "first_index ms i = find (\<lambda>k. i \<in> set (assistant_uses (ms ! k))) [0..<length ms]"

definition tool_use_index :: "'j message list \<Rightarrow> string \<Rightarrow> nat option" where
  "tool_use_index ms i = (if turn_count ms i = 1 then first_index ms i else None)"

type_synonym 'j misplaced = "nat \<times> string \<times> 'j content_block \<times> nat"

definition misplaced_block ::
  "(string \<Rightarrow> nat option) \<Rightarrow> nat \<Rightarrow> 'j content_block \<Rightarrow> 'j misplaced option" where
  "misplaced_block index k b =
     (case tool_result_id b of
        Some i \<Rightarrow>
          (case index i of
             Some a \<Rightarrow> if k \<noteq> a + 1 then Some (k, i, b, a) else None
           | None \<Rightarrow> None)
      | None \<Rightarrow> None)"

definition misplaced_results :: "(string \<Rightarrow> nat option) \<Rightarrow> 'j message list \<Rightarrow> 'j misplaced list" where
  "misplaced_results index ms =
     concat (map (\<lambda>(k, m). if role m \<noteq> User then []
                           else List.map_filter (misplaced_block index k) (blocks_of m))
       (List.enumerate 0 ms))"

definition remove_misplaced :: "(nat \<times> string) list \<Rightarrow> nat \<Rightarrow> 'j message \<Rightarrow> 'j message" where
  "remove_misplaced sources k m =
     (case content m of
        Blocks bs \<Rightarrow>
          if role m \<noteq> User then m
          else m\<lparr>content := Blocks (filter (\<lambda>b. case tool_result_id b of
                    Some i \<Rightarrow> (k, i) \<notin> set sources | None \<Rightarrow> True) bs)\<rparr>
      | Text _ \<Rightarrow> m)"

definition current_position ::
  "(string \<Rightarrow> nat option) \<Rightarrow> 'j message list \<Rightarrow> nat \<Rightarrow> nat option" where
  "current_position index ms orig =
     find (\<lambda>k. \<exists>i \<in> set (assistant_uses (ms ! k)). index i = Some orig) (rev [0..<length ms])"

definition grouped_insertions :: "'j misplaced list \<Rightarrow> (nat \<times> 'j content_block list) list" where
  "grouped_insertions mis =
     map (\<lambda>a. (a, map (\<lambda>(_, _, b, _). b) (filter (\<lambda>(_, _, _, a'). a' = a) mis)))
       (rev (sort (remdups (map (\<lambda>(_, _, _, a). a) mis))))"

definition insert_reordered ::
  "(nat \<Rightarrow> nat option) \<Rightarrow> 'j message list \<Rightarrow> nat \<times> 'j content_block list \<Rightarrow> 'j message list" where
  "insert_reordered position ms ins =
     (case position (fst ins) of
        Some cur \<Rightarrow> deliver_results (min (cur + 1) (length ms)) (snd ins) ms
      | None \<Rightarrow> ms)"

definition reorder_tool_results :: "'j message list \<Rightarrow> 'j message list \<times> nat" where
  "reorder_tool_results ms =
     (let index = tool_use_index ms;
          mis = misplaced_results index ms
      in if mis = [] then (ms, 0)
         else
           let sources = map (\<lambda>(k, i, _, _). (k, i)) mis;
               removed = map (\<lambda>(k, m). remove_misplaced sources k m) (List.enumerate 0 ms);
               kept = filter is_nonempty removed;
               position = current_position index kept
           in (foldl (insert_reordered position) kept (grouped_insertions mis), length mis))"

section \<open>Phase 2c: calls with no result\<close>

definition orphaned_uses :: "'j message list \<Rightarrow> (nat \<times> string) list" where
  "orphaned_uses ms =
     (let existing = concat (map user_results ms)
      in concat (map (\<lambda>(k, m). map (Pair k) (filter (\<lambda>i. i \<notin> set existing) (assistant_uses m)))
           (List.enumerate 0 ms)))"

definition grouped_synthetic :: "(nat \<times> string) list \<Rightarrow> (nat \<times> 'j content_block list) list" where
  "grouped_synthetic orphaned =
     map (\<lambda>k. (k, map synthetic_result (map snd (filter (\<lambda>(k', _). k' = k) orphaned))))
       (rev (sort (remdups (map fst orphaned))))"

definition insert_synthetic_results :: "'j message list \<Rightarrow> 'j message list \<times> nat" where
  "insert_synthetic_results ms =
     (let orphaned = orphaned_uses ms
      in if orphaned = [] then (ms, 0)
         else (foldl (\<lambda>acc (k, bs). deliver_results (k + 1) bs acc) ms (grouped_synthetic orphaned),
               length orphaned))"

section \<open>Phase 2d: duplicate results\<close>

definition should_replace_kept_tool_result ::
  "tool_execution_status \<Rightarrow> tool_execution_status \<Rightarrow> bool" where
  "should_replace_kept_tool_result kept candidate \<longleftrightarrow>
     kept = WaitingApproval \<and> candidate \<noteq> WaitingApproval"

definition record_kept ::
  "(string \<Rightarrow> bool) \<Rightarrow> (string \<rightharpoonup> tool_execution_status) \<Rightarrow> string \<times> tool_execution_status
     \<Rightarrow> (string \<rightharpoonup> tool_execution_status)" where
  "record_kept collision kept r =
     (if collision (fst r) then kept
      else case kept (fst r) of
             None \<Rightarrow> kept(fst r \<mapsto> snd r)
           | Some k \<Rightarrow>
               if should_replace_kept_tool_result k (snd r) then kept(fst r \<mapsto> snd r) else kept)"

fun dedup_blocks ::
  "(string \<Rightarrow> bool) \<Rightarrow> (string \<rightharpoonup> tool_execution_status) \<Rightarrow> string list \<Rightarrow> 'j content_block list
     \<Rightarrow> 'j content_block list \<times> string list" where
  "dedup_blocks collision kept seen [] = ([], seen)"
| "dedup_blocks collision kept seen (b # bs) =
     (case result_status b of
        None \<Rightarrow> (let (r, s) = dedup_blocks collision kept seen bs in (b # r, s))
      | Some (i, st) \<Rightarrow>
          if collision i then (let (r, s) = dedup_blocks collision kept seen bs in (b # r, s))
          else let keep_status = (case kept i of Some k \<Rightarrow> k | None \<Rightarrow> st)
               in if i \<in> set seen \<or> st \<noteq> keep_status then dedup_blocks collision kept seen bs
                  else (let (r, s) = dedup_blocks collision kept (i # seen) bs in (b # r, s)))"

fun dedup_messages ::
  "(string \<Rightarrow> bool) \<Rightarrow> (string \<rightharpoonup> tool_execution_status) \<Rightarrow> string list \<Rightarrow> 'j message list
     \<Rightarrow> 'j message list \<times> nat" where
  "dedup_messages collision kept seen [] = ([], 0)"
| "dedup_messages collision kept seen (m # ms) =
     (case content m of
        Text _ \<Rightarrow> (let (r, k) = dedup_messages collision kept seen ms in (m # r, k))
      | Blocks bs \<Rightarrow>
          (let (bs', seen') = dedup_blocks collision kept seen bs;
               (r, k) = dedup_messages collision kept seen' ms
           in (m\<lparr>content := Blocks bs'\<rparr> # r, length bs - length bs' + k)))"

definition deduplicate_tool_results :: "'j message list \<Rightarrow> 'j message list \<times> nat" where
  "deduplicate_tool_results ms =
     (let collision = (\<lambda>i. turn_count ms i > 1);
          kept = foldl (record_kept collision) Map.empty
                   (concat (map (List.map_filter result_status \<circ> blocks_of) ms));
          (r, removed) = dedup_messages collision kept [] ms
      in (filter is_nonempty r, removed))"

section \<open>Phase 2e: empty assistant messages\<close>

definition is_empty_or_blank_content :: "'j message_content \<Rightarrow> bool" where
  "is_empty_or_blank_content c =
     (case c of
        Text s \<Rightarrow> trim s = []
      | Blocks bs \<Rightarrow> bs = [] \<or>
          list_all (\<lambda>b. case b of BText t _ \<Rightarrow> trim t = [] | Unknown \<Rightarrow> True | _ \<Rightarrow> False) bs)"

definition remove_aborted_assistant_messages :: "'j message list \<Rightarrow> 'j message list" where
  "remove_aborted_assistant_messages ms =
     filter (\<lambda>m. \<not> (role m = Assistant \<and> is_empty_or_blank_content (content m))) ms"

section \<open>Phase 3: consecutive messages and text blocks\<close>

definition may_merge :: "'j message \<Rightarrow> 'j message \<Rightarrow> bool" where
  "may_merge l m \<longleftrightarrow>
     role l = role m \<and> \<not> message_has_tool_use l \<and> \<not> message_is_only_tool_results m
     \<and> \<not> message_has_tool_use m \<and> \<not> message_is_only_tool_results l"

definition merge_step :: "'j message list \<times> nat \<Rightarrow> 'j message \<Rightarrow> 'j message list \<times> nat" where
  "merge_step acc m =
     (let merged = fst acc
      in if merged \<noteq> [] \<and> may_merge (last merged) m then
           (butlast merged
              @ [(last merged)\<lparr>content := merge_content (content (last merged)) (content m)\<rparr>],
            snd acc + 1)
         else (merged @ [m], snd acc))"

definition merge_consecutive :: "'j message list \<Rightarrow> 'j message list \<times> nat" where
  "merge_consecutive ms = foldl merge_step ([], 0) ms"

definition coalesce_step :: "'j content_block list \<Rightarrow> 'j content_block \<Rightarrow> 'j content_block list" where
  "coalesce_step out b =
     (case b of
        BText t md \<Rightarrow>
          (if out = [] then out @ [b]
           else case last out of
                  BText e em \<Rightarrow>
                    butlast out
                      @ [BText (e @ [CHR 0x0A, CHR 0x0A] @ t) (if em = None then md else em)]
                | _ \<Rightarrow> out @ [b])
      | _ \<Rightarrow> out @ [b])"

definition coalesce_adjacent_text_blocks :: "'j content_block list \<Rightarrow> 'j content_block list \<times> nat" where
  "coalesce_adjacent_text_blocks bs =
     (if length bs < 2 then (bs, 0)
      else let out = foldl coalesce_step [] bs in (out, length bs - length out))"

definition coalesce_message :: "'j message \<Rightarrow> 'j message" where
  "coalesce_message m =
     (case content m of
        Blocks bs \<Rightarrow> m\<lparr>content := Blocks (fst (coalesce_adjacent_text_blocks bs))\<rparr>
      | Text _ \<Rightarrow> m)"

section \<open>The pipeline\<close>

record repair_stats =
  orphaned_results_removed :: nat
  empty_messages_removed :: nat
  messages_merged :: nat
  results_reordered :: nat
  synthetic_results_inserted :: nat
  duplicates_removed :: nat
  misplaced_results_rescued :: nat
  positional_synthetic_inserted :: nat

definition validate_and_repair_with_stats ::
  "'j message list \<Rightarrow> 'j message list \<times> repair_stats" where
  "validate_and_repair_with_stats messages =
     (let (c1, orphaned, empty) = filter_orphans (collect_tool_use_ids messages) messages;
          (c2, rescued) = rescue_misplaced_tool_results c1;
          (c3, positional) = enforce_adjacent_tool_result_pairs c2;
          (c4, reordered) = reorder_tool_results c3;
          (c5, synthetic) = insert_synthetic_results c4;
          (c6, duplicates) = deduplicate_tool_results c5;
          c7 = remove_aborted_assistant_messages c6;
          (merged, merges) = merge_consecutive c7
      in (map coalesce_message merged,
          \<lparr>orphaned_results_removed = orphaned,
           empty_messages_removed = empty + (length c6 - length c7),
           messages_merged = merges,
           results_reordered = reordered,
           synthetic_results_inserted = synthetic,
           duplicates_removed = duplicates,
           misplaced_results_rescued = rescued,
           positional_synthetic_inserted = positional\<rparr>))"

definition validate_and_repair :: "'j message list \<Rightarrow> 'j message list" where
  "validate_and_repair messages = fst (validate_and_repair_with_stats messages)"

section \<open>Safe trimming and heartbeat turns\<close>

definition is_safe_boundary :: "'j message list \<Rightarrow> nat \<Rightarrow> bool" where
  "is_safe_boundary ms i =
     (let m = ms ! i
      in if role m \<noteq> User \<or> message_is_only_tool_results m then False
         else if i > 0 \<and> role (ms ! (i - 1)) = Assistant \<and> message_has_tool_use (ms ! (i - 1))
         then False
         else True)"

definition find_safe_trim_point :: "'j message list \<Rightarrow> nat \<Rightarrow> nat option" where
  "find_safe_trim_point ms min_trim =
     (let len = length ms
      in if min_trim \<ge> len then None
         else let upper = (if len > 2 then len - 1 else len)
              in case find (is_safe_boundary ms) [min_trim..<upper] of
                   Some i \<Rightarrow> Some i
                 | None \<Rightarrow> find (is_safe_boundary ms) (rev [0..<min_trim]))"

definition is_no_reply :: "bool \<Rightarrow> 'j message \<Rightarrow> bool" where
  "is_no_reply v2 m =
     (case content m of
        Text t \<Rightarrow> is_silent_response v2 t
      | Blocks [BText t _] \<Rightarrow> is_silent_response v2 t
      | Blocks _ \<Rightarrow> False)"

definition prune_heartbeat_turns :: "bool \<Rightarrow> 'j message list \<Rightarrow> nat \<Rightarrow> 'j message list" where
  "prune_heartbeat_turns v2 ms keep_recent =
     (if length ms \<le> keep_recent then ms
      else let prune_end = length ms - keep_recent
           in filter (\<lambda>m. \<not> (role m = Assistant \<and> is_no_reply v2 m)) (take prune_end ms)
                @ drop prune_end ms)"

end
