(* ===== verification/RepairKeeps.thy ===== *)
theory RepairKeeps
  imports SessionRepair
begin

text \<open>
  Laws of the first phases of the repair: what an update does to the calls and results of a
  message, the pairing of calls and results (\<open>paired\<close>), the relation \<open>keeps\<close> between
  a history and a repaired one, and phases 1, 2, 2a and 2a1.
\<close>

section \<open>Blocks under the message updates\<close>

named_theorems blocks_simps \<open>calls and results of an updated message\<close>

lemma map_filter_Nil_iff: "List.map_filter f xs = [] \<longleftrightarrow> (\<forall>x \<in> set xs. f x = None)"
  by (induction xs) (auto simp: map_filter_simps split: option.splits)

lemma set_map_filter_iff: "y \<in> set (List.map_filter f xs) \<longleftrightarrow> (\<exists>x \<in> set xs. f x = Some y)"
  by (induction xs) (auto simp: map_filter_simps split: option.splits)

lemma map_filter_filter_same:
  "(\<And>x. x \<in> set xs \<Longrightarrow> f x \<noteq> None \<Longrightarrow> P x) \<Longrightarrow> List.map_filter f (filter P xs) = List.map_filter f xs"
  by (induction xs) (auto simp: map_filter_simps split: option.splits)

lemma blocks_of_content [blocks_simps]:
  "blocks_of (m\<lparr>content := Blocks bs\<rparr>) = bs"
  "blocks_of (results_message bs) = bs"
  by (simp_all add: blocks_of_def results_message_def)

lemma role_results_message [simp]: "role (results_message bs) = User"
  by (simp add: results_message_def)

lemma role_extend_message [simp]: "role (extend_message bs m) = role m"
  by (simp add: extend_message_def)

lemma map_filter_content_to_blocks:
  "(\<And>t md. f (BText t md) = None) \<Longrightarrow>
   List.map_filter f (content_to_blocks (content m)) = List.map_filter f (blocks_of m)"
  by (cases "content m") (auto simp: content_to_blocks_def blocks_of_def map_filter_simps)

lemma block_id_simps [simp]:
  "tool_use_id (BText t md) = None" "result_status (BText t md) = None"
  "tool_result_id (BText t md) = None"
  "tool_use_id (synthetic_result i) = None" "result_status (synthetic_result i) = Some (i, Error)"
  "tool_result_id (synthetic_result i) = Some i"
  by (simp_all add: tool_use_id_def result_status_def tool_result_id_def synthetic_result_def)

lemma use_not_result: "tool_use_id b \<noteq> None \<Longrightarrow> tool_result_id b = None \<and> result_status b = None"
  by (cases b) (auto simp: tool_use_id_def tool_result_id_def result_status_def)

lemma is_tool_result_iff: "is_tool_result b \<longleftrightarrow> tool_result_id b \<noteq> None"
  by (simp add: is_tool_result_def tool_result_id_def)

lemma tool_result_id_status: "tool_result_id b = Some i \<longleftrightarrow> (\<exists>st. result_status b = Some (i, st))"
  by (auto simp: tool_result_id_def)

lemma uses_of_extend [blocks_simps]:
  "uses_of (extend_message bs m) = uses_of m @ List.map_filter tool_use_id bs"
  by (simp add: uses_of_def extend_message_def blocks_simps map_filter_append
      map_filter_content_to_blocks)

lemma results_of_extend [blocks_simps]:
  "results_of (extend_message bs m) = results_of m @ List.map_filter tool_result_id bs"
  by (simp add: results_of_def extend_message_def blocks_simps map_filter_append
      map_filter_content_to_blocks)

lemma uses_of_results_message [blocks_simps]:
  "uses_of (results_message bs) = List.map_filter tool_use_id bs"
  "results_of (results_message bs) = List.map_filter tool_result_id bs"
  by (simp_all add: uses_of_def results_of_def blocks_simps)

lemma assistant_uses_results_message [simp]: "assistant_uses (results_message bs) = []"
  by (simp add: assistant_uses_def)

lemma assistant_uses_role:
  "role m \<noteq> Assistant \<Longrightarrow> assistant_uses m = []"
  by (simp add: assistant_uses_def)

lemma user_results_role: "role m \<noteq> User \<Longrightarrow> user_results m = []"
  by (simp add: user_results_def)

definition only_results :: "'j content_block list \<Rightarrow> bool" where
  "only_results bs \<longleftrightarrow> (\<forall>b \<in> set bs. tool_result_id b \<noteq> None)"

lemma only_results_uses [simp]: "only_results bs \<Longrightarrow> List.map_filter tool_use_id bs = []"
  using use_not_result by (fastforce simp: only_results_def map_filter_Nil_iff)

lemma only_results_synthetic [simp]: "only_results (map synthetic_result is)"
  by (auto simp: only_results_def)

lemma map_filter_synthetic [simp]:
  "List.map_filter tool_result_id (map synthetic_result is) = is"
  by (induction "is") (auto simp: map_filter_simps)

lemma empty_message_lists: "\<not> is_nonempty m \<Longrightarrow> uses_of m = [] \<and> results_of m = []"
  by (cases "content m") (auto simp: is_nonempty_def uses_of_def results_of_def blocks_of_def map_filter_simps)

lemma nonempty_if_results: "i \<in> set (results_of m) \<Longrightarrow> is_nonempty m"
  using empty_message_lists by fastforce

lemma nonempty_extend: "is_nonempty m \<Longrightarrow> is_nonempty (extend_message bs m)"
  by (cases "content m") (auto simp: is_nonempty_def extend_message_def content_to_blocks_def)

section \<open>Pairing\<close>

text \<open>
  The wire contract: every call of an assistant message is answered in the user message right
  after it.
\<close>

definition answered :: "'j message \<Rightarrow> 'j message list \<Rightarrow> bool" where
  "answered m rest \<longleftrightarrow>
     (\<forall>i \<in> set (assistant_uses m). case rest of n # _ \<Rightarrow> i \<in> set (user_results n) | [] \<Rightarrow> False)"

fun paired :: "'j message list \<Rightarrow> bool" where
  "paired [] \<longleftrightarrow> True"
| "paired (m # ms) \<longleftrightarrow> answered m ms \<and> paired ms"

lemma answered_no_uses [simp]: "assistant_uses m = [] \<Longrightarrow> answered m rest"
  by (simp add: answered_def)

lemma answered_head:
  "user_results n = user_results n' \<Longrightarrow> answered m (n # ms) = answered m (n' # ms')"
  by (simp add: answered_def)

lemma answered_mono:
  "answered m (n # ms) \<Longrightarrow> set (user_results n) \<subseteq> set (user_results n') \<Longrightarrow> answered m (n' # ms')"
  by (auto simp: answered_def)

lemma answered_uses_mono:
  "answered m rest \<Longrightarrow> set (assistant_uses m') \<subseteq> set (assistant_uses m) \<Longrightarrow> answered m' rest"
  by (auto simp: answered_def)

lemma missing_Nil_iff: "missing_results m rest = [] \<longleftrightarrow> answered m rest"
  by (cases rest) (auto simp: missing_results_def answered_def filter_empty_conv)

lemma paired_nth:
  "paired ms \<longleftrightarrow>
   (\<forall>k < length ms. \<forall>i \<in> set (assistant_uses (ms ! k)).
      Suc k < length ms \<and> i \<in> set (user_results (ms ! Suc k)))"
proof (induction ms)
  case Nil
  then show ?case by simp
next
  case (Cons m ms)
  have "answered m ms \<longleftrightarrow>
      (\<forall>i \<in> set (assistant_uses m). 0 < length ms \<and> i \<in> set (user_results (ms ! 0)))"
    by (cases ms) (auto simp: answered_def)
  with Cons.IH show ?case
    by (auto simp: All_less_Suc2)
qed

lemma paired_append_left:
  "paired (xs @ y # ys) \<Longrightarrow> set (user_results y) \<subseteq> set (user_results y') \<Longrightarrow> paired (y' # zs) \<Longrightarrow>
   paired (xs @ y' # zs)"
proof (induction xs)
  case Nil
  then show ?case by simp
next
  case (Cons x xs)
  then show ?case
    by (cases xs) (auto intro: answered_mono elim: answered_mono)
qed

text \<open>Dropping messages that neither call nor answer keeps the pairing.\<close>

lemma paired_filter:
  assumes "paired ms" "\<And>m. m \<in> set ms \<Longrightarrow> \<not> P m \<Longrightarrow> user_results m = []"
  shows "paired (filter P ms)"
  using assms
proof (induction ms)
  case Nil
  then show ?case by simp
next
  case (Cons m ms)
  then have IH: "paired (filter P ms)"
    by simp
  show ?case
  proof (cases "P m \<and> assistant_uses m \<noteq> []")
    case True
    then obtain i where "i \<in> set (assistant_uses m)"
      by (metis list.set_intros(1) neq_Nil_conv)
    with Cons.prems(1) obtain n ns where ms: "ms = n # ns" and "i \<in> set (user_results n)"
      by (cases ms) (auto simp: answered_def)
    with Cons.prems(2)[of n] have "P n"
      by (cases "P n") auto
    with Cons.prems(1) ms IH True show ?thesis
      by (simp add: answered_def)
  next
    case False
    with IH show ?thesis by auto
  qed
qed

lemma paired_filter_nonempty: "paired ms \<Longrightarrow> paired (filter is_nonempty ms)"
  by (rule paired_filter) (auto simp: user_results_def dest: empty_message_lists)

lemma user_results_extend [blocks_simps]:
  "role n = User \<Longrightarrow>
   user_results (extend_message bs n) = user_results n @ List.map_filter tool_result_id bs"
  by (simp add: user_results_def blocks_simps)

lemma missing_answered:
  "answered m (results_message (map synthetic_result (missing_results m (n # ms))) # rest)
     \<longleftrightarrow> (\<forall>i \<in> set (assistant_uses m). i \<notin> set (user_results n))"
  by (auto simp: answered_def missing_results_def user_results_def blocks_simps)

lemma enforce_keeps_head:
  "ms \<noteq> [] \<Longrightarrow> \<exists>r. fst (enforce_adjacent_tool_result_pairs ms) = hd ms # r"
  by (cases ms rule: enforce_adjacent_tool_result_pairs.cases)
    (auto simp: Let_def split: prod.splits)

lemma paired_enforce: "paired (fst (enforce_adjacent_tool_result_pairs ms))"
proof (induction ms rule: enforce_adjacent_tool_result_pairs.induct)
  case 1
  then show ?case by simp
next
  case (2 m)
  show ?case
    by (auto simp: Let_def answered_def missing_results_def user_results_def assistant_uses_def
        blocks_simps)
next
  case (3 m n ms)
  let ?miss = "missing_results m (n # ms)"
  obtain r where r: "fst (enforce_adjacent_tool_result_pairs (n # ms)) = n # r"
    using enforce_keeps_head[of "n # ms"] by auto
  show ?case
  proof (cases "?miss = []")
    case True
    then have "answered m (n # r)"
      by (simp add: missing_Nil_iff answered_def)
    with True "3.IH"(1)[of ?miss] r show ?thesis
      by (cases "enforce_adjacent_tool_result_pairs (n # ms)") simp
  next
    case False
    show ?thesis
    proof (cases "role n = User")
      case True
      then have "answered m (extend_message (map synthetic_result ?miss) n # rest)"
        and "assistant_uses (extend_message (map synthetic_result ?miss) n) = []" for rest
        by (auto simp: answered_def missing_results_def blocks_simps assistant_uses_def)
      with False True "3.IH"(2)[of ?miss] show ?thesis
        by (auto simp: Let_def split: prod.splits)
    next
      case nu: False
      then have "answered m (results_message (map synthetic_result ?miss) # rest)" for rest
        by (auto simp: missing_answered user_results_def)
      with False nu "3.IH"(3)[of ?miss] show ?thesis
        by (auto simp: Let_def split: prod.splits)
    qed
  qed
qed

section \<open>What every phase keeps\<close>

definition non_user :: "'j message list \<Rightarrow> nat" where
  "non_user ms = length (filter (\<lambda>m. role m \<noteq> User) ms)"

definition results_in :: "role \<Rightarrow> 'j message list \<Rightarrow> string set" where
  "results_in r ms = (\<Union>m \<in> set ms. if role m = r then set (results_of m) else {})"

definition all_results :: "'j message list \<Rightarrow> string set" where
  "all_results ms = (\<Union>m \<in> set ms. set (results_of m))"

text \<open>
  \<open>keeps I ms ms'\<close>: the calls are the same and in the same order, no message of another role
  than user appears, results stay in user messages, and only results for ids in \<open>I\<close> appear.
\<close>

definition keeps :: "string set \<Rightarrow> 'j message list \<Rightarrow> 'j message list \<Rightarrow> bool" where
  "keeps I ms ms' \<longleftrightarrow>
     collect_tool_use_ids ms' = collect_tool_use_ids ms
     \<and> concat (map assistant_uses ms') = concat (map assistant_uses ms)
     \<and> non_user ms' \<le> non_user ms
     \<and> (\<forall>r. r \<noteq> User \<longrightarrow> results_in r ms' \<subseteq> results_in r ms)
     \<and> results_in User ms' \<subseteq> all_results ms \<union> I"

lemma results_in_simps [simp]:
  "results_in r [] = {}"
  "results_in r (m # ms) = (if role m = r then set (results_of m) else {}) \<union> results_in r ms"
  "results_in r (ms @ ns) = results_in r ms \<union> results_in r ns"
  by (auto simp: results_in_def split: if_splits)

lemma all_results_simps [simp]:
  "all_results [] = {}"
  "all_results (m # ms) = set (results_of m) \<union> all_results ms"
  "all_results (ms @ ns) = all_results ms \<union> all_results ns"
  by (auto simp: all_results_def)

lemma results_in_all: "results_in r ms \<subseteq> all_results ms"
  by (auto simp: results_in_def all_results_def split: if_splits)

lemma all_results_split: "all_results ms = results_in System ms \<union> results_in User ms \<union> results_in Assistant ms"
proof -
  have "set (results_of m) \<subseteq> results_in (role m) ms" if "m \<in> set ms" for m
    using that by (auto simp: results_in_def)
  moreover have "role m = System \<or> role m = User \<or> role m = Assistant" for m :: "'a message"
    by (cases "role m") auto
  ultimately have "all_results ms \<subseteq> results_in System ms \<union> results_in User ms \<union> results_in Assistant ms"
    unfolding all_results_def by (smt (verit) UN_least UnI1 UnI2 subset_iff)
  then show ?thesis
    using results_in_all by blast
qed

lemma keeps_all_results: "keeps I ms ms' \<Longrightarrow> all_results ms' \<subseteq> all_results ms \<union> I"
  unfolding keeps_def all_results_split[of ms'] using results_in_all[of _ ms] by blast

lemma keeps_refl [simp]: "keeps I ms ms"
  using results_in_all by (auto simp: keeps_def)

lemma keeps_trans: "keeps I a b \<Longrightarrow> keeps I b c \<Longrightarrow> keeps I a c"
  using keeps_all_results[of I a b] unfolding keeps_def by (simp, blast intro: order_trans)

lemma keeps_weaken: "keeps I a b \<Longrightarrow> I \<subseteq> all_results a \<union> J \<Longrightarrow> keeps J a b"
  unfolding keeps_def by blast

lemma keeps_turn_count: "keeps I a b \<Longrightarrow> turn_count b = turn_count a"
  by (simp add: keeps_def turn_count_def fun_eq_iff)

lemma keeps_filter:
  assumes "\<And>m. m \<in> set ms \<Longrightarrow> \<not> P m \<Longrightarrow> uses_of m = []"
  shows "keeps I ms (filter P ms)"
proof -
  have "collect_tool_use_ids (filter P ms) = collect_tool_use_ids ms
      \<and> concat (map assistant_uses (filter P ms)) = concat (map assistant_uses ms)
      \<and> non_user (filter P ms) \<le> non_user ms"
    using assms
    by (induction ms) (auto simp: collect_tool_use_ids_def assistant_uses_def non_user_def le_SucI)
  then show ?thesis
    by (auto simp: keeps_def results_in_def all_results_def split: if_splits)
qed

lemma keeps_filter_nonempty [simp]: "keeps I ms (filter is_nonempty ms)"
  by (rule keeps_filter) (auto dest: empty_message_lists)

definition same_but_results :: "string set \<Rightarrow> 'j message \<Rightarrow> 'j message \<Rightarrow> bool" where
  "same_but_results I m m' \<longleftrightarrow>
     role m' = role m \<and> uses_of m' = uses_of m
     \<and> set (results_of m') \<subseteq> set (results_of m) \<union> (if role m = User then I else {})"

lemma keeps_pointwise:
  assumes "list_all2 (same_but_results I) ms ms'"
  shows "keeps I ms ms'"
  using assms
proof (induction rule: list_all2_induct)
  case Nil
  then show ?case by simp
next
  case (Cons m ms m' ms')
  then show ?case
    by (auto simp: keeps_def same_but_results_def collect_tool_use_ids_def assistant_uses_def
        non_user_def split: if_splits)
qed

lemma same_but_results_refl [simp]: "same_but_results I m m"
  by (simp add: same_but_results_def)

lemma keeps_deliver:
  assumes "only_results bs" "set (List.map_filter tool_result_id bs) \<subseteq> I"
  shows "keeps I ms (deliver_results pos bs ms)"
proof (cases "pos < length ms \<and> role (ms ! pos) = User")
  case True
  with assms have "same_but_results I (ms ! pos) (extend_message bs (ms ! pos))"
    by (auto simp: same_but_results_def blocks_simps)
  then have "list_all2 (same_but_results I) ms (ms[pos := extend_message bs (ms ! pos)])"
    using True by (simp add: list_all2_conv_all_nth nth_list_update)
  then show ?thesis
    using True by (simp add: deliver_results_def keeps_pointwise)
next
  case False
  have "keeps I (xs @ ys) (xs @ results_message bs # ys)" for xs ys :: "'a message list"
    using assms results_in_all[of User]
    by (auto simp: keeps_def collect_tool_use_ids_def non_user_def blocks_simps)
  from this[of "take pos ms" "drop pos ms"] False show ?thesis
    by (auto simp: deliver_results_def)
qed

lemma keeps_foldl:
  assumes "\<And>acc x. x \<in> set xs \<Longrightarrow> keeps I acc (f acc x)"
  shows "keeps I ms (foldl f ms xs)"
  using assms
proof (induction xs arbitrary: ms)
  case (Cons x xs)
  then have "keeps I ms (f ms x)" "keeps I (f ms x) (foldl f (f ms x) xs)"
    by auto
  then show ?case
    by (auto intro: keeps_trans)
qed simp

lemma keeps_Cons: "keeps I ms ms' \<Longrightarrow> same_but_results I m m' \<Longrightarrow> keeps I (m # ms) (m' # ms')"
  by (auto simp: keeps_def same_but_results_def collect_tool_use_ids_def assistant_uses_def
      non_user_def split: if_splits)

lemma keeps_drop_head: "keeps I ms ms' \<Longrightarrow> uses_of m = [] \<Longrightarrow> keeps I (m # ms) ms'"
  by (auto simp: keeps_def collect_tool_use_ids_def assistant_uses_def non_user_def)

lemma keeps_insert_head:
  assumes "keeps I ms ms'" "only_results bs" "set (List.map_filter tool_result_id bs) \<subseteq> I"
  shows "keeps I ms (results_message bs # ms')"
  using assms by (auto simp: keeps_def collect_tool_use_ids_def non_user_def blocks_simps)

lemma keep_block_use: "tool_use_id b \<noteq> None \<Longrightarrow> keep_block ids b"
  using use_not_result[of b] by (simp add: keep_block_def)

lemma filter_message_None: "filter_message ids m = None \<Longrightarrow> uses_of m = []"
  by (auto simp: filter_message_def uses_of_def blocks_of_def Let_def map_filter_Nil_iff
      filter_empty_conv split: message_content.splits if_splits)
    (metis keep_block_use)

lemma filter_message_Some:
  assumes "filter_message ids m = Some m'"
  shows "same_but_results {} m m'" "is_nonempty m'" "set (results_of m') \<subseteq> set ids"
proof -
  have "role m' = role m \<and> is_nonempty m' \<and> blocks_of m' = filter (keep_block ids) (blocks_of m)"
    using assms
    by (auto simp: filter_message_def blocks_of_def is_nonempty_def Let_def
        split: message_content.splits if_splits)
  moreover have "List.map_filter tool_use_id (filter (keep_block ids) (blocks_of m)) = uses_of m"
    unfolding uses_of_def by (rule map_filter_filter_same) (auto intro: keep_block_use)
  ultimately show "same_but_results {} m m'" "is_nonempty m'" "set (results_of m') \<subseteq> set ids"
    by (auto simp: same_but_results_def results_of_def uses_of_def set_map_filter_iff keep_block_def)
qed

lemma keeps_filter_orphans: "keeps {} ms (fst (filter_orphans ids ms))"
proof (induction ms)
  case Nil
  then show ?case by (simp add: filter_orphans_def map_filter_simps)
next
  case (Cons m ms)
  show ?case
  proof (cases "filter_message ids m")
    case None
    with Cons show ?thesis
      by (simp add: filter_orphans_def map_filter_simps keeps_drop_head filter_message_None)
  next
    case (Some m')
    with Cons show ?thesis
      by (simp add: filter_orphans_def map_filter_simps keeps_Cons filter_message_Some)
  qed
qed

lemma filter_orphans_clean:
  "m \<in> set (fst (filter_orphans ids ms)) \<Longrightarrow> is_nonempty m \<and> set (results_of m) \<subseteq> set ids"
  by (auto simp: filter_orphans_def set_map_filter_iff dest: filter_message_Some)

section \<open>Phase 2a\<close>

lemma drop_results_lists:
  "role (drop_results m) = role m \<and> uses_of (drop_results m) = uses_of m
   \<and> set (results_of (drop_results m)) \<subseteq> set (results_of m)"
proof -
  have "List.map_filter tool_use_id (filter (\<lambda>b. \<not> is_tool_result b) (blocks_of m)) =
      List.map_filter tool_use_id (blocks_of m)"
    by (rule map_filter_filter_same) (use use_not_result in \<open>auto simp: is_tool_result_iff\<close>)
  then show ?thesis
    by (auto simp: drop_results_def uses_of_def results_of_def blocks_simps set_map_filter_iff)
qed

lemma drop_results_assistant: "role m = Assistant \<Longrightarrow> results_of (drop_results m) = []"
  by (auto simp: drop_results_def misplaced_in_assistant_def results_of_def blocks_simps
      map_filter_Nil_iff filter_empty_conv is_tool_result_iff)

lemma to_rescue_blocks:
  "(k, bs) \<in> set (to_rescue ms) \<Longrightarrow>
   only_results bs \<and> set (List.map_filter tool_result_id bs) \<subseteq> all_results ms"
  by (auto simp: to_rescue_def misplaced_in_assistant_def only_results_def is_tool_result_iff
      all_results_def results_of_def set_map_filter_iff in_set_enumerate_eq split: if_splits)
    (metis nth_mem)

lemma keeps_drop_results: "keeps {} ms (map drop_results ms)"
  using drop_results_lists[of "ms ! _"]
  by (auto simp: list_all2_conv_all_nth same_but_results_def intro!: keeps_pointwise)

lemma rescue_laws:
  shows keeps_rescue: "keeps {} ms (fst (rescue_misplaced_tool_results ms))"
    and rescue_no_assistant: "results_in Assistant (fst (rescue_misplaced_tool_results ms)) = {}"
proof -
  let ?f = "\<lambda>acc (i, bs). deliver_results (i + 1) bs acc"
  let ?ms1 = "map drop_results ms"
  let ?ms2 = "foldl ?f ?ms1 (rev (to_rescue ms))"
  have no: "results_in Assistant ?ms1 = {}"
    using drop_results_assistant drop_results_lists by (fastforce simp: results_in_def)
  have 2: "keeps (all_results ms) ?ms1 ?ms2"
    by (rule keeps_foldl) (auto split: prod.splits dest: to_rescue_blocks intro!: keeps_deliver)
  have 3: "keeps (all_results ms) ?ms1 (filter is_nonempty ?ms2)"
    using keeps_trans[OF 2 keeps_filter_nonempty] .
  have "keeps (all_results ms) ms ?ms1"
    using keeps_drop_results[of ms] by (rule keeps_weaken) simp
  from keeps_trans[OF this 3] have "keeps (all_results ms) ms (filter is_nonempty ?ms2)" .
  then have k: "keeps {} ms (filter is_nonempty ?ms2)"
    by (rule keeps_weaken) simp
  then show "keeps {} ms (fst (rescue_misplaced_tool_results ms))"
    by (simp add: rescue_misplaced_tool_results_def Let_def)
  show "results_in Assistant (fst (rescue_misplaced_tool_results ms)) = {}"
  proof (cases "to_rescue ms = []")
    case True
    have "results_of m = []" if m: "m \<in> set ms" "role m = Assistant" for m
    proof -
      from m obtain k where "k < length ms" "ms ! k = m"
        by (auto simp: in_set_conv_nth)
      then have "(k, m) \<in> set (List.enumerate 0 ms)"
        by (simp add: in_set_enumerate_eq)
      with True have "misplaced_in_assistant m = []"
        by (fastforce simp: to_rescue_def filter_empty_conv)
      with m show ?thesis
        by (simp add: misplaced_in_assistant_def results_of_def map_filter_Nil_iff
            filter_empty_conv is_tool_result_iff)
    qed
    then show ?thesis
      using True by (auto simp: rescue_misplaced_tool_results_def results_in_def)
  next
    case False
    from 3 no have "results_in Assistant (filter is_nonempty ?ms2) = {}"
      unfolding keeps_def by blast
    with False show ?thesis
      by (simp add: rescue_misplaced_tool_results_def Let_def)
  qed
qed

lemma rescue_nonempty:
  "list_all is_nonempty ms \<Longrightarrow> list_all is_nonempty (fst (rescue_misplaced_tool_results ms))"
  by (auto simp: rescue_misplaced_tool_results_def Let_def list_all_iff)

section \<open>Phase 2a1\<close>

lemma set_missing: "set (missing_results m rest) \<subseteq> set (assistant_uses m)"
  by (auto simp: missing_results_def Let_def)

lemma set_assistant_uses: "set (assistant_uses m) \<subseteq> set (uses_of m)"
  by (auto simp: assistant_uses_def)

lemma same_but_results_synthetic:
  "role n = User \<Longrightarrow> set is \<subseteq> I \<Longrightarrow>
   same_but_results I n (extend_message (map synthetic_result is) n)"
  by (auto simp: same_but_results_def blocks_simps)

lemma keeps_enforce:
  "set (collect_tool_use_ids ms) \<subseteq> I \<Longrightarrow> keeps I ms (fst (enforce_adjacent_tool_result_pairs ms))"
proof (induction ms rule: enforce_adjacent_tool_result_pairs.induct)
  case 1
  then show ?case by simp
next
  case (2 m)
  let ?miss = "missing_results m []"
  have "set ?miss \<subseteq> I"
    using 2 set_missing[of m "[]"] set_assistant_uses[of m] by (auto simp: collect_tool_use_ids_def)
  then have "keeps I [m] [m, results_message (map synthetic_result ?miss)]"
    by (intro keeps_Cons keeps_insert_head) auto
  then show ?case
    by (simp add: Let_def)
next
  case (3 m n ms)
  let ?miss = "missing_results m (n # ms)"
  have I: "set ?miss \<subseteq> I"
    using 3 set_missing[of m "n # ms"] set_assistant_uses[of m]
    by (auto simp: collect_tool_use_ids_def)
  have sub: "set (collect_tool_use_ids (n # ms)) \<subseteq> I" "set (collect_tool_use_ids ms) \<subseteq> I"
    using "3.prems" by (auto simp: collect_tool_use_ids_def)
  consider "?miss = []" | "?miss \<noteq> []" "role n = User" | "?miss \<noteq> []" "role n \<noteq> User"
    by blast
  then show ?case
  proof cases
    case 1
    with "3.IH"(1)[of ?miss] sub show ?thesis
      by (auto simp: Let_def split: prod.splits intro: keeps_Cons)
  next
    case 2
    with "3.IH"(2)[of ?miss] sub I show ?thesis
      by (auto simp: Let_def split: prod.splits intro!: keeps_Cons same_but_results_synthetic)
  next
    case 3
    with "3.IH"(3)[of ?miss] sub I show ?thesis
      by (auto simp: Let_def split: prod.splits
          intro!: keeps_Cons[where m = m] keeps_insert_head)
  qed
qed

lemma nonempty_results_message [simp]: "is_nonempty (results_message bs) \<longleftrightarrow> bs \<noteq> []"
  by (simp add: is_nonempty_def results_message_def)

lemma enforce_nonempty:
  "list_all is_nonempty ms \<Longrightarrow> list_all is_nonempty (fst (enforce_adjacent_tool_result_pairs ms))"
  by (induction ms rule: enforce_adjacent_tool_result_pairs.induct)
    (auto simp: Let_def nonempty_extend split: prod.splits, metis)

end
