(* ===== verification/RepairPlacement.thy ===== *)
theory RepairPlacement
  imports RepairKeeps
begin

text \<open>
  Laws of the later phases of the repair: where the results stand (\<open>located\<close>) and that
  reordering, deduplication, the removal of empty messages, merging and coalescing keep the
  pairing.
\<close>

section \<open>Phase 2b\<close>

text \<open>
  \<open>located U p ms\<close>: a result whose id satisfies \<open>U\<close> stands right after the assistant message
  that makes the call; \<open>p\<close> are the calls of the message before \<open>ms\<close>.
\<close>

fun located :: "(string \<Rightarrow> bool) \<Rightarrow> string list \<Rightarrow> 'j message list \<Rightarrow> bool" where
  "located U p [] \<longleftrightarrow> True"
| "located U p (m # ms) \<longleftrightarrow>
     (\<forall>i \<in> set (results_of m). U i \<longrightarrow> i \<in> set p) \<and> located U (assistant_uses m) ms"

lemma located_Nil_mono: "located U [] ms \<Longrightarrow> located U p ms"
  by (cases ms) auto

lemma located_nth:
  "located U p ms \<longleftrightarrow>
   (\<forall>k < length ms. \<forall>i \<in> set (results_of (ms ! k)). U i \<longrightarrow>
      i \<in> set (case k of 0 \<Rightarrow> p | Suc j \<Rightarrow> assistant_uses (ms ! j)))"
proof (induction ms arbitrary: p)
  case Nil
  then show ?case by simp
next
  case (Cons m ms)
  have "(case k of 0 \<Rightarrow> assistant_uses m | Suc j \<Rightarrow> assistant_uses (ms ! j))
      = assistant_uses ((m # ms) ! k)" for k
    by (cases k) auto
  with Cons.IH[of "assistant_uses m"] show ?case
    by (simp add: All_less_Suc2)
qed

lemma located_filter:
  "located U p ms \<Longrightarrow> (\<And>m. m \<in> set ms \<Longrightarrow> \<not> P m \<Longrightarrow> assistant_uses m = []) \<Longrightarrow>
   located U p (filter P ms)"
proof (induction ms arbitrary: p)
  case (Cons m ms)
  then show ?case
    by (cases "P m") (auto intro: located_Nil_mono)
qed simp

lemma located_pointwise:
  assumes "list_all2 (same_but_results {}) ms ms'" "located U p ms"
  shows "located U p ms'"
  using assms
proof (induction arbitrary: p rule: list_all2_induct)
  case (Cons m ms m' ms')
  then have "assistant_uses m' = assistant_uses m" "set (results_of m') \<subseteq> set (results_of m)"
    by (auto simp: same_but_results_def assistant_uses_def)
  with Cons show ?case by auto
qed simp

lemma no_uses_if_empty: "\<not> is_nonempty m \<Longrightarrow> assistant_uses m = []"
  by (auto simp: assistant_uses_def dest: empty_message_lists)

lemma count_list_concat_ge:
  "j < length xss \<Longrightarrow> x \<in> set (xss ! j) \<Longrightarrow> 1 \<le> count_list (concat xss) x"
  by (metis One_nat_def Suc_leI count_list_0_iff gr0I nth_mem set_concat UN_I)

lemma count_list_concat_ge2:
  "j < k \<Longrightarrow> k < length xss \<Longrightarrow> x \<in> set (xss ! j) \<Longrightarrow> x \<in> set (xss ! k) \<Longrightarrow>
   2 \<le> count_list (concat xss) x"
proof (induction xss arbitrary: j k)
  case (Cons xs xss)
  show ?case
  proof (cases j)
    case 0
    with Cons.prems obtain k' where "k = Suc k'" "k' < length xss"
      by (cases k) auto
    with Cons.prems 0 have "1 \<le> count_list xs x" "1 \<le> count_list (concat xss) x"
      using count_list_concat_ge[of 0 "[xs]" x] count_list_concat_ge[of k' xss x] by auto
    then show ?thesis by simp
  next
    case (Suc j')
    with Cons.prems obtain k' where "k = Suc k'"
      by (cases k) auto
    with Suc Cons.IH[of j' k'] Cons.prems show ?thesis by auto
  qed
qed simp

lemma unique_call:
  assumes "turn_count ms i = 1" "j < length ms" "k < length ms"
    "i \<in> set (assistant_uses (ms ! j))" "i \<in> set (assistant_uses (ms ! k))"
  shows "j = k"
  using assms count_list_concat_ge2[of j k "map assistant_uses ms" i]
    count_list_concat_ge2[of k j "map assistant_uses ms" i]
  by (fastforce simp: turn_count_def)

lemma tool_use_index_Some:
  assumes "tool_use_index ms i = Some a"
  shows "turn_count ms i = 1" "a < length ms" "i \<in> set (assistant_uses (ms ! a))"
  using assms
  by (auto simp: tool_use_index_def first_index_def find_Some_iff split: if_splits)

lemma tool_use_index_unique:
  assumes "turn_count ms i = 1" "k < length ms" "i \<in> set (assistant_uses (ms ! k))"
  shows "tool_use_index ms i = Some k"
proof -
  have "first_index ms i \<noteq> None"
    using assms by (auto simp: first_index_def find_None_iff)
  then obtain a where a: "tool_use_index ms i = Some a"
    using assms(1) by (auto simp: tool_use_index_def)
  with tool_use_index_Some[OF a] unique_call[of ms i a k] assms show ?thesis
    by simp
qed

lemma unique_has_index:
  assumes "turn_count ms i = 1"
  obtains a where "tool_use_index ms i = Some a"
proof -
  have "i \<in> set (concat (map assistant_uses ms))"
    using assms by (metis count_list_0_iff turn_count_def zero_neq_one)
  then obtain m where "m \<in> set ms" "i \<in> set (assistant_uses m)"
    by auto
  then obtain k where "k < length ms" "i \<in> set (assistant_uses (ms ! k))"
    by (metis in_set_conv_nth)
  with assms that tool_use_index_unique show ?thesis by blast
qed

lemma set_enumerate0: "set (List.enumerate 0 ms) = (\<lambda>k. (k, ms ! k)) ` {..<length ms}"
  by (auto simp: in_set_enumerate_eq image_iff)

lemma misplaced_block_iff:
  "misplaced_block index k b = Some (k', i, b', a) \<longleftrightarrow>
   k' = k \<and> b' = b \<and> tool_result_id b = Some i \<and> index i = Some a \<and> k \<noteq> a + 1"
  by (auto simp: misplaced_block_def split: option.splits)

lemma misplaced_results_iff:
  "(k, i, b, a) \<in> set (misplaced_results index ms) \<longleftrightarrow>
   k < length ms \<and> role (ms ! k) = User \<and> b \<in> set (blocks_of (ms ! k))
   \<and> tool_result_id b = Some i \<and> index i = Some a \<and> k \<noteq> a + 1"
proof -
  have "x \<in> set (misplaced_results index ms) \<longleftrightarrow>
      (\<exists>k' < length ms. role (ms ! k') = User
         \<and> (\<exists>b' \<in> set (blocks_of (ms ! k')). misplaced_block index k' b' = Some x))" for x
    unfolding misplaced_results_def
    by (auto simp: set_map_filter_iff set_enumerate0 split: if_splits)
  then show ?thesis
    by (auto simp: misplaced_block_iff)
qed

lemma remove_misplaced_lists:
  "role (remove_misplaced S k m) = role m \<and> uses_of (remove_misplaced S k m) = uses_of m
   \<and> set (results_of (remove_misplaced S k m)) =
       (if role m = User then {i \<in> set (results_of m). (k, i) \<notin> set S} else set (results_of m))"
proof (cases "content m")
  case (Text s)
  then show ?thesis
    by (simp add: remove_misplaced_def results_of_def blocks_of_def map_filter_simps)
next
  case (Blocks bs)
  let ?P = "\<lambda>b. case tool_result_id b of Some i \<Rightarrow> (k, i) \<notin> set S | None \<Rightarrow> True"
  have "List.map_filter tool_use_id (filter ?P bs) = List.map_filter tool_use_id bs"
    by (rule map_filter_filter_same) (simp add: use_not_result)
  with Blocks show ?thesis
    by (auto simp: remove_misplaced_def uses_of_def results_of_def blocks_of_def set_map_filter_iff)
      force
qed


lemma current_position_Some:
  assumes "current_position index ms a = Some c"
  obtains i where "c < length ms" "i \<in> set (assistant_uses (ms ! c))" "index i = Some a"
  using assms by (auto simp: current_position_def find_Some_iff rev_nth)

lemma grouped_insertions_blocks:
  assumes "(a, bs) \<in> set (grouped_insertions (misplaced_results (tool_use_index ms) ms))"
  shows "only_results bs" "bs \<noteq> []"
    "set (List.map_filter tool_result_id bs) \<subseteq> set (assistant_uses (ms ! a)) \<inter> all_results ms"
proof -
  let ?mis = "misplaced_results (tool_use_index ms) ms"
  from assms have bs: "bs = map (\<lambda>(_, _, b, _). b) (filter (\<lambda>(_, _, _, a'). a' = a) ?mis)"
    and a: "\<exists>k i b. (k, i, b, a) \<in> set ?mis"
    by (auto simp: grouped_insertions_def)
  have b: "\<exists>i. tool_result_id b = Some i \<and> i \<in> set (assistant_uses (ms ! a)) \<and> i \<in> all_results ms"
    if b_in: "b \<in> set bs" for b
  proof -
    from b_in bs obtain k i where "(k, i, b, a) \<in> set ?mis"
      by auto
    then have "k < length ms" "b \<in> set (blocks_of (ms ! k))" "tool_result_id b = Some i"
        "tool_use_index ms i = Some a"
      by (auto simp: misplaced_results_iff)
    moreover from this have "i \<in> set (results_of (ms ! k))"
      by (auto simp: results_of_def set_map_filter_iff)
    ultimately show ?thesis
      using tool_use_index_Some(3) by (fastforce simp: all_results_def)
  qed
  from b show "only_results bs"
    by (auto simp: only_results_def)
  from a bs show "bs \<noteq> []"
    by (auto simp: filter_empty_conv)
  from b show "set (List.map_filter tool_result_id bs) \<subseteq> set (assistant_uses (ms ! a)) \<inter> all_results ms"
    by (fastforce simp: set_map_filter_iff)
qed


text \<open>An extension of the user message after a call keeps the calls, the pairing and the places.\<close>

lemma extend_after_call:
  assumes "paired ms" "located U p ms" "c < length ms" "assistant_uses (ms ! c) \<noteq> []"
    "only_results bs" "set (List.map_filter tool_result_id bs) \<subseteq> set (assistant_uses (ms ! c))"
    "list_all is_nonempty ms"
  defines "ms' \<equiv> deliver_results (min (c + 1) (length ms)) bs ms"
  shows "paired ms'" "located U p ms'" "map assistant_uses ms' = map assistant_uses ms"
    "list_all is_nonempty ms'"
proof -
  obtain i where "i \<in> set (assistant_uses (ms ! c))"
    using assms(4) by (metis list.set_intros(1) neq_Nil_conv)
  with assms have next_: "Suc c < length ms" "i \<in> set (user_results (ms ! Suc c))"
    by (auto simp: paired_nth)
  then have user: "role (ms ! Suc c) = User"
    by (metis empty_iff empty_set user_results_role)
  have ms': "ms' = ms[Suc c := extend_message bs (ms ! Suc c)]"
    using next_ user by (simp add: ms'_def deliver_results_def min_def)
  have nth: "ms' ! k = (if k = Suc c then extend_message bs (ms ! Suc c) else ms ! k)"
    if "k < length ms" for k
    using that by (simp add: ms' nth_list_update)
  have uses: "assistant_uses (ms' ! k) = assistant_uses (ms ! k)" if "k < length ms" for k
    using that user by (auto simp: nth assistant_uses_def)
  then show "map assistant_uses ms' = map assistant_uses ms"
    by (auto simp: list_eq_iff_nth_eq ms')
  show "paired ms'"
    using assms(1) user uses
    by (fastforce simp: paired_nth ms' nth[unfolded ms'] blocks_simps)
  have "i \<in> set (case k of 0 \<Rightarrow> p | Suc j \<Rightarrow> assistant_uses (ms' ! j))"
    if k: "k < length ms" "i \<in> set (results_of (ms' ! k))" "U i" for k i
  proof (cases "k = Suc c \<and> i \<in> set (List.map_filter tool_result_id bs)")
    case True
    with assms uses[of c] show ?thesis by auto
  next
    case False
    with k have "i \<in> set (results_of (ms ! k))"
      by (auto simp: nth blocks_simps split: if_splits)
    with assms(2) k uses show ?thesis
      by (fastforce simp: located_nth split: nat.splits)
  qed
  moreover have "length ms' = length ms"
    by (simp add: ms')
  ultimately show "located U p ms'"
    by (simp add: located_nth)
  show "list_all is_nonempty ms'"
    using assms(7) next_ by (auto simp: ms' list_all_length nth_list_update nonempty_extend)
qed

lemma foldl_invariant:
  assumes "\<And>acc x. P acc \<Longrightarrow> x \<in> set xs \<Longrightarrow> P (f acc x)" "P s"
  shows "P (foldl f s xs)"
  using assms by (induction xs arbitrary: s) auto


definition removed_misplaced :: "'j message list \<Rightarrow> 'j message list" where
  "removed_misplaced ms =
     map (\<lambda>(k, m). remove_misplaced
            (map (\<lambda>(k, i, _, _). (k, i)) (misplaced_results (tool_use_index ms) ms)) k m)
       (List.enumerate 0 ms)"

lemma length_removed [simp]: "length (removed_misplaced ms) = length ms"
  by (simp add: removed_misplaced_def)

lemma removed_nth:
  assumes "k < length ms"
  shows "role (removed_misplaced ms ! k) = role (ms ! k)"
    "uses_of (removed_misplaced ms ! k) = uses_of (ms ! k)"
    "assistant_uses (removed_misplaced ms ! k) = assistant_uses (ms ! k)"
    "i \<in> set (results_of (removed_misplaced ms ! k)) \<longleftrightarrow>
       i \<in> set (results_of (ms ! k)) \<and>
       (role (ms ! k) = User \<longrightarrow> (\<forall>a. tool_use_index ms i = Some a \<longrightarrow> k = a + 1))"
proof -
  let ?mis = "misplaced_results (tool_use_index ms) ms"
  let ?S = "map (\<lambda>(k, i, _, _). (k, i)) ?mis"
  have m: "removed_misplaced ms ! k = remove_misplaced ?S k (ms ! k)"
    using assms by (simp add: removed_misplaced_def nth_enumerate_eq)
  show 1: "role (removed_misplaced ms ! k) = role (ms ! k)"
    "uses_of (removed_misplaced ms ! k) = uses_of (ms ! k)"
    using remove_misplaced_lists[of ?S k "ms ! k"] by (simp_all add: m)
  then show "assistant_uses (removed_misplaced ms ! k) = assistant_uses (ms ! k)"
    by (simp add: assistant_uses_def)
  have "(k, i) \<in> set ?S \<longleftrightarrow> (\<exists>b a. (k, i, b, a) \<in> set ?mis)"
    by force
  also have "\<dots> \<longleftrightarrow> role (ms ! k) = User \<and> i \<in> set (results_of (ms ! k))
      \<and> (\<exists>a. tool_use_index ms i = Some a \<and> k \<noteq> a + 1)"
    using assms by (auto simp: misplaced_results_iff results_of_def set_map_filter_iff)
  finally show "i \<in> set (results_of (removed_misplaced ms ! k)) \<longleftrightarrow>
       i \<in> set (results_of (ms ! k)) \<and>
       (role (ms ! k) = User \<longrightarrow> (\<forall>a. tool_use_index ms i = Some a \<longrightarrow> k = a + 1))"
    using remove_misplaced_lists[of ?S k "ms ! k"] by (auto simp: m)
qed

lemma keeps_removed: "keeps {} ms (removed_misplaced ms)"
  by (rule keeps_pointwise)
    (auto simp: list_all2_conv_all_nth same_but_results_def removed_nth)

lemma paired_removed:
  assumes "paired ms"
  shows "paired (removed_misplaced ms)"
  unfolding paired_nth
proof (intro allI impI ballI)
  fix k i
  assume k: "k < length (removed_misplaced ms)" "i \<in> set (assistant_uses (removed_misplaced ms ! k))"
  with assms have s: "Suc k < length ms" "i \<in> set (user_results (ms ! Suc k))"
    and i: "i \<in> set (assistant_uses (ms ! k))"
    by (auto simp: paired_nth removed_nth)
  have "k = a" if "tool_use_index ms i = Some a" for a
    using tool_use_index_Some[OF that] unique_call[of ms i k a] k(1) i by simp
  with s show "Suc k < length (removed_misplaced ms)
      \<and> i \<in> set (user_results (removed_misplaced ms ! Suc k))"
    by (auto simp: user_results_def removed_nth split: if_splits)
qed

lemma located_removed:
  assumes "results_in System ms = {}" "results_in Assistant ms = {}"
  shows "located (\<lambda>i. turn_count ms i = 1) [] (removed_misplaced ms)"
  unfolding located_nth
proof (intro allI impI ballI)
  fix k i
  assume k: "k < length (removed_misplaced ms)" "i \<in> set (results_of (removed_misplaced ms ! k))"
    and u: "turn_count ms i = 1"
  then have r: "i \<in> set (results_of (ms ! k))"
    by (simp add: removed_nth)
  with k(1) have "i \<in> results_in (role (ms ! k)) ms"
    by (auto simp: results_in_def)
  with assms have "role (ms ! k) = User"
    by (cases "role (ms ! k)") auto
  moreover obtain a where a: "tool_use_index ms i = Some a"
    using u by (rule unique_has_index)
  ultimately have "k = a + 1"
    using k by (simp add: removed_nth)
  with tool_use_index_Some[OF a] k show
    "i \<in> set (case k of 0 \<Rightarrow> [] | Suc j \<Rightarrow> assistant_uses (removed_misplaced ms ! j))"
    by (simp add: removed_nth)
qed

lemma kept_position:
  assumes "current_position (tool_use_index ms) (filter is_nonempty (removed_misplaced ms)) a = Some c"
  shows "c < length (filter is_nonempty (removed_misplaced ms))"
    "assistant_uses (filter is_nonempty (removed_misplaced ms) ! c) = assistant_uses (ms ! a)"
    "assistant_uses (ms ! a) \<noteq> []"
proof -
  let ?kept = "filter is_nonempty (removed_misplaced ms)"
  obtain i where c: "c < length ?kept" "i \<in> set (assistant_uses (?kept ! c))"
    "tool_use_index ms i = Some a"
    using current_position_Some[OF assms] .
  then have "?kept ! c \<in> set (removed_misplaced ms)"
    by (metis filter_is_subset nth_mem subsetD)
  then obtain k where k: "k < length ms" "removed_misplaced ms ! k = ?kept ! c"
    by (metis in_set_conv_nth length_removed)
  with c have "i \<in> set (assistant_uses (ms ! k))"
    by (metis removed_nth(3))
  with tool_use_index_Some[OF c(3)] k(1) have "k = a"
    using unique_call by blast
  with k have uses: "assistant_uses (?kept ! c) = assistant_uses (ms ! a)"
    by (metis removed_nth(3))
  show "c < length ?kept"
    by (rule c(1))
  show "assistant_uses (?kept ! c) = assistant_uses (ms ! a)"
    by (rule uses)
  show "assistant_uses (ms ! a) \<noteq> []"
    using c(2) unfolding uses by (metis empty_iff empty_set)
qed

lemma reorder_alt:
  "fst (reorder_tool_results ms) =
     (if misplaced_results (tool_use_index ms) ms = [] then ms
      else foldl (insert_reordered
                    (current_position (tool_use_index ms) (filter is_nonempty (removed_misplaced ms))))
             (filter is_nonempty (removed_misplaced ms))
             (grouped_insertions (misplaced_results (tool_use_index ms) ms)))"
  by (simp add: reorder_tool_results_def removed_misplaced_def Let_def)

lemma keeps_reorder: "keeps {} ms (fst (reorder_tool_results ms))"
proof -
  let ?kept = "filter is_nonempty (removed_misplaced ms)"
  let ?pos = "current_position (tool_use_index ms) ?kept"
  let ?ins = "grouped_insertions (misplaced_results (tool_use_index ms) ms)"
  have "keeps (all_results ms) ms ?kept"
    using keeps_trans[OF keeps_removed keeps_filter_nonempty] by (rule keeps_weaken) simp
  moreover have "keeps (all_results ms) ?kept (foldl (insert_reordered ?pos) ?kept ?ins)"
  proof (rule keeps_foldl)
    fix acc x
    assume "x \<in> set ?ins"
    then show "keeps (all_results ms) acc (insert_reordered ?pos acc x)"
      using grouped_insertions_blocks[of "fst x" "snd x" ms]
      by (auto simp: insert_reordered_def split: option.splits intro!: keeps_deliver)
  qed
  ultimately have "keeps (all_results ms) ms (foldl (insert_reordered ?pos) ?kept ?ins)"
    by (rule keeps_trans)
  then have "keeps {} ms (foldl (insert_reordered ?pos) ?kept ?ins)"
    by (rule keeps_weaken) simp
  then show ?thesis
    by (simp add: reorder_alt)
qed

lemma reorder_laws:
  assumes "paired ms" "located U [] (removed_misplaced ms)" "list_all is_nonempty ms"
  defines "ms' \<equiv> fst (reorder_tool_results ms)"
  shows "paired ms'" "located U [] ms'"
proof -
  let ?kept = "filter is_nonempty (removed_misplaced ms)"
  let ?pos = "current_position (tool_use_index ms) ?kept"
  let ?mis = "misplaced_results (tool_use_index ms) ms"
  let ?inv = "\<lambda>acc. paired acc \<and> located U [] acc \<and> list_all is_nonempty acc
                \<and> map assistant_uses acc = map assistant_uses ?kept"
  have "?inv ?kept"
    using assms paired_removed no_uses_if_empty
    by (auto simp: list_all_iff intro!: paired_filter_nonempty located_filter)
  moreover have "?inv (insert_reordered ?pos acc x)"
    if inv: "?inv acc" and x: "x \<in> set (grouped_insertions ?mis)" for acc x
  proof (cases "?pos (fst x)")
    case None
    with inv show ?thesis by (simp add: insert_reordered_def)
  next
    case (Some c)
    note pos = kept_position[OF Some]
    have len: "length acc = length ?kept" and
      uses: "assistant_uses (acc ! c) = assistant_uses (ms ! fst x)"
      using inv pos by (metis length_map, metis length_map nth_map)
    note blocks = grouped_insertions_blocks[of "fst x" "snd x" ms]
    show ?thesis
      using extend_after_call[of acc U "[]" c "snd x"] inv Some pos len uses blocks x
      by (auto simp: insert_reordered_def)
  qed
  ultimately have fold: "?inv (foldl (insert_reordered ?pos) ?kept (grouped_insertions ?mis))"
    using foldl_invariant[of ?inv "grouped_insertions ?mis" "insert_reordered ?pos" ?kept] by blast
  have "located U [] ms" if "?mis = []"
  proof -
    have "removed_misplaced ms ! k = ms ! k" if "k < length ms" for k
      using that \<open>?mis = []\<close>
      by (auto simp: removed_misplaced_def nth_enumerate_eq remove_misplaced_def
          split: message_content.splits option.splits)
    then have "removed_misplaced ms = ms"
      by (simp add: list_eq_iff_nth_eq)
    with assms(2) show ?thesis by simp
  qed
  with fold assms(1) show "paired ms'" "located U [] ms'"
    by (auto simp: ms'_def reorder_alt)
qed

lemma located_never: "located (\<lambda>_. False) p ms"
  by (induction ms arbitrary: p) auto

lemmas paired_reorder = reorder_laws(1)[OF _ located_never]

section \<open>Phase 2c\<close>

text \<open>After phase 2a1 every call has an answer, so phase 2c finds nothing to do.\<close>

lemma synthetic_identity:
  assumes "paired ms"
  shows "insert_synthetic_results ms = (ms, 0)"
proof -
  have "i \<in> set (concat (map user_results ms))" if "m \<in> set ms" "i \<in> set (assistant_uses m)" for m i
  proof -
    from that obtain k where "k < length ms" "m = ms ! k"
      by (auto simp: in_set_conv_nth)
    with assms that have "Suc k < length ms" "i \<in> set (user_results (ms ! Suc k))"
      by (auto simp: paired_nth)
    then show ?thesis by (auto intro: nth_mem)
  qed
  then have "orphaned_uses ms = []"
    by (auto simp: orphaned_uses_def Let_def set_enumerate0 filter_empty_conv dest!: nth_mem)
  then show ?thesis
    by (simp add: insert_synthetic_results_def)
qed

section \<open>Phase 2d\<close>

lemma dedup_blocks_laws:
  shows dedup_blocks_uses:
      "List.map_filter tool_use_id (fst (dedup_blocks C kept seen bs)) = List.map_filter tool_use_id bs"
    and dedup_blocks_subset: "set (fst (dedup_blocks C kept seen bs)) \<subseteq> set bs"
proof -
  have "List.map_filter tool_use_id (fst (dedup_blocks C kept seen bs)) = List.map_filter tool_use_id bs
      \<and> set (fst (dedup_blocks C kept seen bs)) \<subseteq> set bs"
  proof (induction bs arbitrary: seen)
    case (Cons b bs)
    have "tool_use_id b = None" if "result_status b = Some (i, st)" for i st
      using that use_not_result[of b] by (cases "tool_use_id b") auto
    with Cons.IH[of seen] Cons.IH[of "_ # seen"] show ?case
      by (auto simp: map_filter_simps Let_def split: option.splits prod.splits)
        (metis fst_conv subsetD)+
  qed simp
  then show "List.map_filter tool_use_id (fst (dedup_blocks C kept seen bs)) = List.map_filter tool_use_id bs"
    "set (fst (dedup_blocks C kept seen bs)) \<subseteq> set bs"
    by auto
qed

text \<open>
  For an id whose kept status \<open>st\<close> is known: the first result with that status survives, and
  nothing else for that id does.
\<close>

lemma dedup_blocks_survivor:
  assumes "\<not> C i" "kept i = Some st"
  shows "count_list (List.map_filter tool_result_id (fst (dedup_blocks C kept seen bs))) i =
           (if i \<notin> set seen \<and> (i, st) \<in> set (List.map_filter result_status bs) then 1 else 0)
      \<and> (i \<in> set (snd (dedup_blocks C kept seen bs)) \<longleftrightarrow>
           i \<in> set seen \<or> (i, st) \<in> set (List.map_filter result_status bs))"
  using assms
proof (induction bs arbitrary: seen)
  case (Cons b bs)
  show ?case
  proof (cases "result_status b")
    case None
    with Cons.IH[of seen] Cons.prems show ?thesis
      by (auto simp: map_filter_simps tool_result_id_def split: prod.splits)
  next
    case (Some p)
    obtain j s where "p = (j, s)"
      by (cases p)
    with Some Cons.IH[of seen] Cons.IH[of "j # seen"] Cons.prems show ?thesis
      by (cases "j = i")
        (auto simp: map_filter_simps tool_result_id_def Let_def split: prod.splits option.splits)
  qed
qed (simp add: map_filter_simps)

definition statuses :: "'j message list \<Rightarrow> (string \<times> tool_execution_status) list" where
  "statuses ms = concat (map (List.map_filter result_status \<circ> blocks_of) ms)"

lemma dedup_messages_Blocks:
  "content m = Blocks bs \<Longrightarrow>
   fst (dedup_messages C kept seen (m # ms)) =
     m\<lparr>content := Blocks (fst (dedup_blocks C kept seen bs))\<rparr>
       # fst (dedup_messages C kept (snd (dedup_blocks C kept seen bs)) ms)"
  by (simp split: prod.splits)

lemma dedup_messages_Text:
  "content m = Text s \<Longrightarrow>
   fst (dedup_messages C kept seen (m # ms)) = m # fst (dedup_messages C kept seen ms)"
  by (simp split: prod.splits)

lemma dedup_messages_pointwise:
  "list_all2 (same_but_results {}) ms (fst (dedup_messages C kept seen ms))"
proof (induction ms arbitrary: seen)
  case (Cons m ms)
  show ?case
  proof (cases "content m")
    case (Text s)
    with Cons.IH show ?thesis by (simp add: dedup_messages_Text del: dedup_messages.simps)
  next
    case (Blocks bs)
    let ?bs = "fst (dedup_blocks C kept seen bs)"
    have "same_but_results {} m (m\<lparr>content := Blocks ?bs\<rparr>)"
      using dedup_blocks_uses[of C kept seen bs] dedup_blocks_subset[of C kept seen bs] Blocks
      by (fastforce simp: same_but_results_def uses_of_def results_of_def blocks_of_def
          set_map_filter_iff)
    with Cons.IH Blocks show ?thesis
      by (simp add: dedup_messages_Blocks del: dedup_messages.simps)
  qed
qed simp

lemma dedup_messages_survivor:
  assumes "\<not> C i" "kept i = Some st"
  shows "count_list (concat (map results_of (fst (dedup_messages C kept seen ms)))) i =
           (if i \<notin> set seen \<and> (i, st) \<in> set (statuses ms) then 1 else 0)"
proof (induction ms arbitrary: seen)
  case Nil
  then show ?case by (simp add: statuses_def)
next
  case (Cons m ms)
  show ?case
  proof (cases "content m")
    case (Text s)
    then have "results_of m = []" "statuses (m # ms) = statuses ms"
      by (simp_all add: statuses_def results_of_def blocks_of_def map_filter_simps)
    with Cons.IH Text show ?thesis
      by (simp add: dedup_messages_Text del: dedup_messages.simps)
  next
    case (Blocks bs)
    have "results_of (m\<lparr>content := Blocks bs'\<rparr>) = List.map_filter tool_result_id bs'" for bs'
      by (simp add: results_of_def blocks_of_def)
    moreover have "statuses (m # ms) = List.map_filter result_status bs @ statuses ms"
      using Blocks by (simp add: statuses_def blocks_of_def)
    ultimately show ?thesis
      using dedup_blocks_survivor[of C i kept st seen bs, OF assms] Cons.IH Blocks
      by (simp add: dedup_messages_Blocks del: dedup_messages.simps)
  qed
qed

lemma kept_status:
  assumes "\<not> C i"
  shows "case foldl (record_kept C) Map.empty rs i of
           Some st \<Rightarrow> (i, st) \<in> set rs | None \<Rightarrow> i \<notin> fst ` set rs"
proof (induction rs rule: rev_induct)
  case (snoc r rs)
  with assms show ?case
    by (cases r) (auto simp: record_kept_def split: option.splits if_splits)
qed simp

lemma set_statuses: "fst ` set (statuses ms) = all_results ms"
  by (force simp: statuses_def all_results_def results_of_def set_map_filter_iff tool_result_id_def)

text \<open>One result survives for every id with a result that is not used by several calls.\<close>

lemma dedup_counts:
  assumes "turn_count ms i \<le> 1"
  shows "count_list (concat (map results_of (fst (deduplicate_tool_results ms)))) i =
           (if i \<in> all_results ms then 1 else 0)"
proof -
  let ?C = "\<lambda>i. turn_count ms i > 1"
  let ?kept = "foldl (record_kept ?C) Map.empty (statuses ms)"
  let ?r = "fst (dedup_messages ?C ?kept [] ms)"
  have "concat (map results_of (filter is_nonempty ms')) = concat (map results_of ms')"
    for ms' :: "'a message list"
    by (induction ms') (auto dest: empty_message_lists)
  then have "concat (map results_of (fst (deduplicate_tool_results ms))) = concat (map results_of ?r)"
    by (simp add: deduplicate_tool_results_def statuses_def Let_def split: prod.splits)
  moreover have "count_list (concat (map results_of ?r)) i = (if i \<in> all_results ms then 1 else 0)"
  proof (cases "?kept i")
    case None
    with kept_status[of ?C i "statuses ms"] assms have i: "i \<notin> all_results ms"
      by (simp add: set_statuses)
    have "i \<notin> all_results ?r"
      using keeps_all_results[OF keeps_pointwise[OF dedup_messages_pointwise[of ms ?C ?kept "[]"]]] i
      by auto
    with i show ?thesis
      by (simp add: all_results_def count_list_0_iff)
  next
    case (Some st)
    with kept_status[of ?C i "statuses ms"] assms have "(i, st) \<in> set (statuses ms)"
      by simp
    moreover from this have "i \<in> all_results ms"
      using set_statuses by force
    ultimately show ?thesis
      using dedup_messages_survivor[of ?C i ?kept st "[]" ms] Some assms by simp
  qed
  ultimately show ?thesis by simp
qed

lemma dedup_alt:
  "fst (deduplicate_tool_results ms) =
     filter is_nonempty
       (fst (dedup_messages (\<lambda>i. turn_count ms i > 1)
               (foldl (record_kept (\<lambda>i. turn_count ms i > 1)) Map.empty (statuses ms)) [] ms))"
  by (simp add: deduplicate_tool_results_def statuses_def Let_def split: prod.splits)

lemma keeps_dedup: "keeps {} ms (fst (deduplicate_tool_results ms))"
  unfolding dedup_alt
  by (rule keeps_trans[OF keeps_pointwise[OF dedup_messages_pointwise] keeps_filter_nonempty])

lemma dedup_nonempty: "list_all is_nonempty (fst (deduplicate_tool_results ms))"
  by (simp add: dedup_alt list_all_iff)

lemma located_dedup:
  assumes "located U p ms"
  shows "located U p (fst (deduplicate_tool_results ms))"
  unfolding dedup_alt
  using located_pointwise[OF dedup_messages_pointwise assms]
  by (rule located_filter) (auto intro: no_uses_if_empty)

lemma dedup_collision:
  assumes "C i"
  shows "i \<in> set (List.map_filter tool_result_id (fst (dedup_blocks C kept seen bs)))
     \<longleftrightarrow> i \<in> set (List.map_filter tool_result_id bs)"
  using assms
  by (induction bs arbitrary: seen)
    (auto simp: map_filter_simps tool_result_id_def Let_def split: option.splits prod.splits,
     (metis fst_conv)+)

lemma dedup_messages_collision:
  assumes "C i" "k < length ms"
  shows "i \<in> set (results_of (fst (dedup_messages C kept seen ms) ! k))
     \<longleftrightarrow> i \<in> set (results_of (ms ! k))"
  using assms(2)
proof (induction ms arbitrary: seen k)
  case (Cons m ms)
  show ?case
  proof (cases "content m")
    case (Text s)
    with Cons show ?thesis
      by (cases k) (simp_all add: dedup_messages_Text del: dedup_messages.simps)
  next
    case (Blocks bs)
    with Cons dedup_collision[of C i kept seen bs] assms(1) show ?thesis
      by (cases k)
        (simp_all add: dedup_messages_Blocks results_of_def blocks_of_def del: dedup_messages.simps)
  qed
qed simp

lemma paired_dedup:
  assumes "paired ms" and loc: "located (\<lambda>i. turn_count ms i = 1) [] ms"
  shows "paired (fst (deduplicate_tool_results ms))"
proof -
  let ?C = "\<lambda>i. turn_count ms i > 1"
  let ?kept = "foldl (record_kept ?C) Map.empty (statuses ms)"
  let ?r = "fst (dedup_messages ?C ?kept [] ms)"
  have all2: "list_all2 (same_but_results {}) ms ?r"
    by (rule dedup_messages_pointwise)
  then have len: "length ?r = length ms" and same: "\<And>k. k < length ms \<Longrightarrow> same_but_results {} (ms ! k) (?r ! k)"
    by (auto simp: list_all2_conv_all_nth)
  have "paired ?r"
    unfolding paired_nth len
  proof (intro allI impI ballI)
    fix k i
    assume k: "k < length ms" "i \<in> set (assistant_uses (?r ! k))"
    then have i: "i \<in> set (assistant_uses (ms ! k))"
      using same[of k] by (simp add: same_but_results_def assistant_uses_def split: if_splits)
    with assms(1) k(1) have s: "Suc k < length ms" "i \<in> set (user_results (ms ! Suc k))"
      by (auto simp: paired_nth)
    then have user: "role (ms ! Suc k) = User" and r: "i \<in> set (results_of (ms ! Suc k))"
      by (auto simp: user_results_def split: if_splits)
    have "i \<in> set (results_of (?r ! Suc k))"
    proof (cases "?C i")
      case True
      then show ?thesis
        using dedup_messages_collision[of ?C i "Suc k" ms ?kept "[]"] s r by simp
    next
      case False
      moreover have "turn_count ms i \<ge> 1"
        using i k(1) count_list_concat_ge[of k "map assistant_uses ms" i]
        by (simp add: turn_count_def)
      ultimately have one: "turn_count ms i = 1"
        by simp
      from r s(1) have "i \<in> all_results ms"
        by (auto simp: all_results_def)
      then obtain st where "?kept i = Some st" "(i, st) \<in> set (statuses ms)"
        using kept_status[of ?C i "statuses ms"] False set_statuses[of ms]
        by (cases "?kept i") auto
      with dedup_messages_survivor[of ?C i ?kept st "[]" ms] False
      have "count_list (concat (map results_of ?r)) i = 1"
        by simp
      then have "i \<in> set (concat (map results_of ?r))"
        by (metis count_list_0_iff zero_neq_one)
      then obtain m where "m \<in> set ?r" "i \<in> set (results_of m)"
        by auto
      then obtain j where j: "j < length ms" "i \<in> set (results_of (?r ! j))"
        by (metis in_set_conv_nth len)
      then have "i \<in> set (results_of (ms ! j))"
        using same[of j] by (auto simp: same_but_results_def)
      with loc j(1) one obtain j' where "j = Suc j'" "i \<in> set (assistant_uses (ms ! j'))"
        by (fastforce simp: located_nth split: nat.splits)
      with unique_call[OF one] j k(1) i have "j = Suc k"
        by simp
      with j show ?thesis by simp
    qed
    with s user same[of "Suc k"] show "Suc k < length ms \<and> i \<in> set (user_results (?r ! Suc k))"
      by (simp add: user_results_def same_but_results_def)
  qed
  then show ?thesis
    unfolding dedup_alt by (rule paired_filter_nonempty)
qed

section \<open>Phases 2e and 3\<close>

lemma blank_lists:
  "is_empty_or_blank_content (content m) \<Longrightarrow> uses_of m = [] \<and> results_of m = []"
  by (cases "content m")
    (auto simp: is_empty_or_blank_content_def uses_of_def results_of_def blocks_of_def
      map_filter_Nil_iff list_all_iff tool_use_id_def tool_result_id_def result_status_def
      map_filter_simps split: content_block.splits)

lemma keeps_remove_aborted: "keeps I ms (remove_aborted_assistant_messages ms)"
  unfolding remove_aborted_assistant_messages_def
  by (rule keeps_filter) (auto dest: blank_lists)

lemma paired_remove_aborted: "paired ms \<Longrightarrow> paired (remove_aborted_assistant_messages ms)"
  unfolding remove_aborted_assistant_messages_def
  by (rule paired_filter) (auto simp: user_results_def dest: blank_lists)

lemma located_remove_aborted:
  "located U p ms \<Longrightarrow> located U p (remove_aborted_assistant_messages ms)"
  unfolding remove_aborted_assistant_messages_def
  by (rule located_filter) (auto simp: assistant_uses_def dest: blank_lists)

lemma results_remove_aborted:
  "concat (map results_of (remove_aborted_assistant_messages ms)) = concat (map results_of ms)"
  unfolding remove_aborted_assistant_messages_def
  by (induction ms) (auto dest: blank_lists)

lemma has_tool_use_iff: "message_has_tool_use m \<longleftrightarrow> uses_of m \<noteq> []"
  by (cases "content m")
    (auto simp: message_has_tool_use_def uses_of_def blocks_of_def list_ex_iff map_filter_Nil_iff
      map_filter_simps)

definition merged_message :: "'j message \<Rightarrow> 'j message \<Rightarrow> 'j message" where
  "merged_message l m = l\<lparr>content := merge_content (content l) (content m)\<rparr>"

lemma merged_message_lists:
  "role (merged_message l m) = role l"
  "uses_of (merged_message l m) = uses_of l @ uses_of m"
  "results_of (merged_message l m) = results_of l @ results_of m"
  by (simp_all add: merged_message_def merge_content_def uses_of_def results_of_def
      blocks_of_content map_filter_append map_filter_content_to_blocks)

text \<open>
  A law of the merge is an invariant of the processed prefix followed by the rest, kept when two
  mergeable neighbours become one.
\<close>

lemma merge_invariant:
  assumes "P ms"
    and "\<And>xs l m ys. may_merge l m \<Longrightarrow> P (xs @ l # m # ys) \<Longrightarrow> P (xs @ merged_message l m # ys)"
  shows "P (fst (merge_consecutive ms))"
proof -
  have "P (fst (foldl merge_step acc rest))" if "P (fst acc @ rest)" for acc rest
    using that
  proof (induction rest arbitrary: acc)
    case (Cons m rest)
    have "P (fst (merge_step acc m) @ rest)"
    proof (cases "fst acc \<noteq> [] \<and> may_merge (last (fst acc)) m")
      case True
      with Cons.prems have "P (butlast (fst acc) @ last (fst acc) # m # rest)"
        by (metis append.assoc append_Cons append_Nil append_butlast_last_id)
      from assms(2)[OF conjunct2[OF True] this] True show ?thesis
        by (simp add: merge_step_def merged_message_def Let_def)
    next
      case False
      with Cons.prems show ?thesis by (auto simp: merge_step_def Let_def)
    qed
    then show ?case using Cons.IH by simp
  qed simp
  from this[of "([], 0)" ms] assms(1) show ?thesis
    by (simp add: merge_consecutive_def)
qed

lemma may_merge_lists:
  "may_merge l m \<Longrightarrow> role m = role l \<and> uses_of l = [] \<and> uses_of m = []"
  by (simp add: may_merge_def has_tool_use_iff)

lemma keeps_merge: "keeps I ms (fst (merge_consecutive ms))"
proof (rule merge_invariant)
  fix xs ys :: "'a message list" and l m
  assume "may_merge l m" and k: "keeps I ms (xs @ l # m # ys)"
  then have lm: "role m = role l" "uses_of l = []" "uses_of m = []"
    by (auto dest: may_merge_lists)
  have "keeps I (xs @ l # m # ys) (xs @ merged_message l m # ys)"
    using lm results_in_all[of User xs] results_in_all[of User ys]
    by (auto simp: keeps_def merged_message_lists collect_tool_use_ids_def assistant_uses_def
        non_user_def)
  with k show "keeps I ms (xs @ merged_message l m # ys)"
    by (rule keeps_trans)
qed simp

lemma paired_merge: "paired ms \<Longrightarrow> paired (fst (merge_consecutive ms))"
proof (rule merge_invariant)
  fix xs ys :: "'a message list" and l m
  assume "may_merge l m" and p: "paired (xs @ l # m # ys)"
  then have lm: "role m = role l" "uses_of l = []" "uses_of m = []"
    by (auto dest: may_merge_lists)
  have "paired ys"
    using p by (induction xs) auto
  then have "paired (merged_message l m # ys)"
    using lm by (simp add: assistant_uses_def merged_message_lists)
  from paired_append_left[OF p _ this] show "paired (xs @ merged_message l m # ys)"
    by (auto simp: user_results_def merged_message_lists)
qed

lemma located_append:
  "located U p (xs @ ys) \<longleftrightarrow>
   located U p xs \<and> located U (if xs = [] then p else assistant_uses (last xs)) ys"
  by (induction xs arbitrary: p) auto

lemma located_merge: "located U p ms \<Longrightarrow> located U p (fst (merge_consecutive ms))"
proof (rule merge_invariant)
  fix xs ys :: "'a message list" and l m
  assume "may_merge l m" and "located U p (xs @ l # m # ys)"
  then show "located U p (xs @ merged_message l m # ys)"
    by (auto simp: located_append merged_message_lists assistant_uses_def dest!: may_merge_lists)
qed

lemma results_merge:
  "concat (map results_of (fst (merge_consecutive ms))) = concat (map results_of ms)"
  by (rule merge_invariant) (auto simp: merged_message_lists)

lemma nonempty_merge:
  "list_all is_nonempty ms \<Longrightarrow> list_all is_nonempty (fst (merge_consecutive ms))"
proof (rule merge_invariant)
  fix xs ys :: "'a message list" and l m
  assume "list_all is_nonempty (xs @ l # m # ys)"
  then show "list_all is_nonempty (xs @ merged_message l m # ys)"
    by (cases "content l")
      (auto simp: is_nonempty_def merged_message_def merge_content_def content_to_blocks_def)
qed

lemma map_filter_coalesce_step:
  assumes "\<And>t md. f (BText t md) = None"
  shows "List.map_filter f (coalesce_step out b) = List.map_filter f (out @ [b])"
proof (cases "\<exists>t md e em. b = BText t md \<and> out \<noteq> [] \<and> last out = BText e em")
  case True
  then obtain t md e em where b: "b = BText t md" "out \<noteq> []" "last out = BText e em"
    by blast
  then have "List.map_filter f out = List.map_filter f (butlast out)"
    by (metis append_butlast_last_id assms map_filter_append map_filter_simps append_Nil2 option.simps(4))
  with b assms show ?thesis
    by (simp add: coalesce_step_def map_filter_append map_filter_simps)
next
  case False
  then show ?thesis
    by (auto simp: coalesce_step_def split: content_block.splits)
qed

lemma coalesce_step_not_Nil [simp]: "coalesce_step out b \<noteq> []"
  by (auto simp: coalesce_step_def split: content_block.splits)

lemma map_filter_coalesce:
  assumes "\<And>t md. f (BText t md) = None"
  shows "List.map_filter f (fst (coalesce_adjacent_text_blocks bs)) = List.map_filter f bs"
proof -
  have "List.map_filter f (foldl coalesce_step out bs) = List.map_filter f (out @ bs)" for out
    using assms
    by (induction bs arbitrary: out)
      (auto simp: map_filter_coalesce_step map_filter_append map_filter_simps split: option.splits)
  from this[of "[]"] show ?thesis
    by (simp add: coalesce_adjacent_text_blocks_def Let_def)
qed

lemma foldl_coalesce_Nil: "foldl coalesce_step out bs = [] \<longleftrightarrow> out = [] \<and> bs = []"
  by (induction bs arbitrary: out) auto

lemma coalesce_message_lists [simp]:
  "role (coalesce_message m) = role m" "uses_of (coalesce_message m) = uses_of m"
  "results_of (coalesce_message m) = results_of m"
  "is_nonempty (coalesce_message m) = is_nonempty m"
proof -
  have c: "fst (coalesce_adjacent_text_blocks bs) = [] \<longleftrightarrow> bs = []" for bs :: "'a content_block list"
    by (simp add: coalesce_adjacent_text_blocks_def Let_def foldl_coalesce_Nil)
  show "role (coalesce_message m) = role m"
    by (simp add: coalesce_message_def split: message_content.split)
  show "uses_of (coalesce_message m) = uses_of m" "results_of (coalesce_message m) = results_of m"
    by (cases "content m";
        simp add: coalesce_message_def uses_of_def results_of_def blocks_of_def map_filter_coalesce)+
  show "is_nonempty (coalesce_message m) = is_nonempty m"
    by (cases "content m") (simp_all add: coalesce_message_def is_nonempty_def c)
qed

lemma coalesce_message_roles [simp]:
  "assistant_uses (coalesce_message m) = assistant_uses m"
  "user_results (coalesce_message m) = user_results m"
  by (simp_all add: assistant_uses_def user_results_def)

lemma keeps_coalesce: "keeps I ms (map coalesce_message ms)"
  by (rule keeps_pointwise) (simp add: list_all2_conv_all_nth same_but_results_def)

lemma paired_coalesce [simp]: "paired (map coalesce_message ms) = paired ms"
  by (induction ms) (auto simp: answered_def split: list.splits)

lemma located_coalesce: "located U p ms \<Longrightarrow> located U p (map coalesce_message ms)"
  by (rule located_pointwise) (auto simp: list_all2_conv_all_nth same_but_results_def)

end
