(* ===== verification/SessionHistory.thy ===== *)
theory SessionHistory
  imports RepairPlacement
begin

text \<open>
  The repair pipeline as a composition of passes with one contract (locale
  \<open>repair_pass\<close>), the loop \<open>ensure_starts_with_user\<close>, the trimming of a history
  (\<open>safe_trim_messages\<close> of \<open>crates/librefang-runtime/src/agent_loop.rs\<close>), and the
  properties of repaired histories.
\<close>

section \<open>The contract of a phase and of the pipeline\<close>

text \<open>
  Every phase is a repair pass: it keeps the calls, adds no message of another role than user,
  adds results only for calls of the history, and leaves no message empty.
\<close>

locale repair_pass =
  fixes pass :: "'j message list \<Rightarrow> 'j message list"
  assumes pass_keeps: "keeps (set (collect_tool_use_ids ms)) ms (pass ms)"
    and pass_nonempty: "list_all is_nonempty ms \<Longrightarrow> list_all is_nonempty (pass ms)"
begin

lemma pass_uses: "collect_tool_use_ids (pass ms) = collect_tool_use_ids ms"
  using pass_keeps by (simp add: keeps_def)

lemma pass_turn_count: "turn_count (pass ms) = turn_count ms"
  using pass_keeps by (rule keeps_turn_count)

lemma pass_non_user: "non_user (pass ms) \<le> non_user ms"
  using pass_keeps by (simp add: keeps_def)

lemma pass_results: "r \<noteq> User \<Longrightarrow> results_in r ms = {} \<Longrightarrow> results_in r (pass ms) = {}"
  using pass_keeps[of ms] unfolding keeps_def by blast

lemma pass_no_orphans:
  "all_results ms \<subseteq> set (collect_tool_use_ids ms) \<Longrightarrow>
   all_results (pass ms) \<subseteq> set (collect_tool_use_ids (pass ms))"
  using keeps_all_results[OF pass_keeps[of ms]] by (auto simp: pass_uses)

end

lemma repair_pass_comp:
  assumes "repair_pass f" "repair_pass g"
  shows "repair_pass (g \<circ> f)"
proof
  fix ms :: "'a message list"
  show "keeps (set (collect_tool_use_ids ms)) ms ((g \<circ> f) ms)"
    using repair_pass.pass_keeps[OF assms(1), of ms] repair_pass.pass_keeps[OF assms(2), of "f ms"]
    by (simp add: repair_pass.pass_uses[OF assms(1)] keeps_trans)
  show "list_all is_nonempty ((g \<circ> f) ms)" if "list_all is_nonempty ms"
    using that assms by (simp add: repair_pass.pass_nonempty)
qed

definition filter_pass :: "'j message list \<Rightarrow> 'j message list" where
  "filter_pass ms = fst (filter_orphans (collect_tool_use_ids ms) ms)"

interpretation orphan_pass: repair_pass filter_pass
  by unfold_locales
    (auto simp: filter_pass_def list_all_iff
      dest: filter_orphans_clean intro: keeps_weaken[OF keeps_filter_orphans])

interpretation rescue_pass: repair_pass "\<lambda>ms. fst (rescue_misplaced_tool_results ms)"
  by unfold_locales (auto intro: keeps_weaken[OF keeps_rescue] rescue_nonempty)

interpretation pairing_pass: repair_pass "\<lambda>ms. fst (enforce_adjacent_tool_result_pairs ms)"
  by unfold_locales (auto intro: keeps_enforce enforce_nonempty)

lemma deliver_nonempty:
  "list_all is_nonempty ms \<Longrightarrow> bs \<noteq> [] \<Longrightarrow> list_all is_nonempty (deliver_results pos bs ms)"
  by (auto simp: deliver_results_def list_all_length nth_list_update nonempty_extend
      nth_append nth_Cons' min_def)

lemma reorder_nonempty:
  assumes "list_all is_nonempty ms"
  shows "list_all is_nonempty (fst (reorder_tool_results ms))"
proof -
  let ?pos = "current_position (tool_use_index ms) (filter is_nonempty (removed_misplaced ms))"
  have "list_all is_nonempty (insert_reordered ?pos acc x)"
    if "list_all is_nonempty acc" "x \<in> set (grouped_insertions (misplaced_results (tool_use_index ms) ms))"
    for acc x
    using that grouped_insertions_blocks(2)[of "fst x" "snd x" ms]
    by (auto simp: insert_reordered_def deliver_nonempty split: option.splits)
  then have "list_all is_nonempty (foldl (insert_reordered ?pos) (filter is_nonempty (removed_misplaced ms))
      (grouped_insertions (misplaced_results (tool_use_index ms) ms)))"
    by (rule foldl_invariant) (simp_all add: list_all_iff)
  with assms show ?thesis
    by (simp add: reorder_alt)
qed

lemma synthetic_blocks:
  assumes "(k, bs) \<in> set (grouped_synthetic (orphaned_uses ms))"
  shows "only_results bs" "bs \<noteq> []"
    "set (List.map_filter tool_result_id bs) \<subseteq> set (collect_tool_use_ids ms)"
proof -
  let ?os = "filter (\<lambda>(k', _). k' = k) (orphaned_uses ms)"
  have bs: "bs = map synthetic_result (map snd ?os)" and k: "k \<in> fst ` set (orphaned_uses ms)"
    using assms by (auto simp: grouped_synthetic_def)
  show "only_results bs"
    by (simp only: bs only_results_synthetic)
  show "bs \<noteq> []"
    using k by (auto simp: bs filter_empty_conv)
  have "set (map snd ?os) \<subseteq> (\<Union>m \<in> set ms. set (assistant_uses m))"
    by (auto simp: orphaned_uses_def Let_def set_enumerate0 dest!: nth_mem)
  also have "\<dots> \<subseteq> set (collect_tool_use_ids ms)"
    using set_assistant_uses by (fastforce simp: collect_tool_use_ids_def)
  finally have "set (map snd ?os) \<subseteq> set (collect_tool_use_ids ms)" .
  then show "set (List.map_filter tool_result_id bs) \<subseteq> set (collect_tool_use_ids ms)"
    by (simp only: bs map_filter_synthetic)
qed

interpretation synthetic_pass: repair_pass "\<lambda>ms. fst (insert_synthetic_results ms)"
proof
  fix ms :: "'a message list"
  let ?groups = "grouped_synthetic (orphaned_uses ms)"
  let ?f = "\<lambda>acc (k, bs). deliver_results (k + 1) bs acc"
  have "keeps (set (collect_tool_use_ids ms)) ms (foldl ?f ms ?groups)"
    by (rule keeps_foldl) (auto split: prod.splits intro!: keeps_deliver dest: synthetic_blocks)
  then show "keeps (set (collect_tool_use_ids ms)) ms (fst (insert_synthetic_results ms))"
    by (simp add: insert_synthetic_results_def Let_def)
  assume "list_all is_nonempty ms"
  moreover have "list_all is_nonempty (foldl ?f ms ?groups)" if "list_all is_nonempty ms"
    by (rule foldl_invariant[where P = "list_all is_nonempty", OF _ that])
      (auto split: prod.splits intro!: deliver_nonempty dest: synthetic_blocks(2))
  ultimately show "list_all is_nonempty (fst (insert_synthetic_results ms))"
    by (simp add: insert_synthetic_results_def Let_def)
qed

interpretation reorder_pass: repair_pass "\<lambda>ms. fst (reorder_tool_results ms)"
  by unfold_locales (auto intro: keeps_weaken[OF keeps_reorder] reorder_nonempty)

interpretation dedup_pass: repair_pass "\<lambda>ms. fst (deduplicate_tool_results ms)"
  by unfold_locales (auto intro: keeps_weaken[OF keeps_dedup] dedup_nonempty)

interpretation aborted_pass: repair_pass remove_aborted_assistant_messages
  by unfold_locales
    (simp add: keeps_remove_aborted, simp add: remove_aborted_assistant_messages_def list_all_iff)

interpretation merge_pass: repair_pass "\<lambda>ms. fst (merge_consecutive ms)"
  by unfold_locales (auto simp: keeps_merge nonempty_merge)

interpretation coalesce_pass: repair_pass "map coalesce_message"
  by unfold_locales (auto simp: keeps_coalesce list_all_iff)

text \<open>The pipeline without its counters; phase 2c is the identity on what phase 2b leaves.\<close>

definition placed :: "'j message list \<Rightarrow> 'j message list" where
  "placed ms = fst (enforce_adjacent_tool_result_pairs
                 (fst (rescue_misplaced_tool_results (filter_pass ms))))"


definition finish :: "'j message list \<Rightarrow> 'j message list" where
  "finish ms = map coalesce_message (fst (merge_consecutive (remove_aborted_assistant_messages ms)))"

lemma validate_and_repair_alt:
  "validate_and_repair ms =
     finish (fst (deduplicate_tool_results (fst (insert_synthetic_results
       (fst (reorder_tool_results (placed ms)))))))"
  by (simp add: validate_and_repair_def validate_and_repair_with_stats_def placed_def finish_def
      filter_pass_def Let_def split: prod.splits)

lemma placed_pass: "repair_pass placed"
proof -
  have "repair_pass ((\<lambda>ms. fst (enforce_adjacent_tool_result_pairs ms))
      \<circ> ((\<lambda>ms. fst (rescue_misplaced_tool_results ms)) \<circ> filter_pass))"
    by (rule repair_pass_comp[OF repair_pass_comp[OF orphan_pass.repair_pass_axioms
          rescue_pass.repair_pass_axioms] pairing_pass.repair_pass_axioms])
  then show ?thesis by (simp only: placed_def[abs_def] comp_def)
qed

lemma finish_pass: "repair_pass finish"
proof -
  have "repair_pass (map coalesce_message
      \<circ> ((\<lambda>ms. fst (merge_consecutive ms)) \<circ> remove_aborted_assistant_messages))"
    by (rule repair_pass_comp[OF repair_pass_comp[OF aborted_pass.repair_pass_axioms
          merge_pass.repair_pass_axioms] coalesce_pass.repair_pass_axioms])
  then show ?thesis by (simp only: finish_def[abs_def] comp_def)
qed

interpretation placing: repair_pass placed
  by (rule placed_pass)

interpretation finishing: repair_pass finish
  by (rule finish_pass)

interpretation repair: repair_pass validate_and_repair
proof -
  have "repair_pass (finish \<circ> ((\<lambda>ms. fst (deduplicate_tool_results ms))
      \<circ> ((\<lambda>ms. fst (insert_synthetic_results ms))
      \<circ> ((\<lambda>ms. fst (reorder_tool_results ms)) \<circ> placed))))"
    by (rule repair_pass_comp[OF repair_pass_comp[OF repair_pass_comp[OF repair_pass_comp[OF
          placed_pass reorder_pass.repair_pass_axioms] synthetic_pass.repair_pass_axioms]
          dedup_pass.repair_pass_axioms] finish_pass])
  then show "repair_pass validate_and_repair"
    by (simp only: validate_and_repair_alt[abs_def] comp_def)
qed

lemma placed_laws:
  shows "paired (placed ms)" "list_all is_nonempty (placed ms)" "results_in Assistant (placed ms) = {}"
    and "results_in System ms = {} \<Longrightarrow> results_in System (placed ms) = {}"
proof -
  have "list_all is_nonempty (filter_pass ms)"
    by (auto simp: filter_pass_def list_all_iff dest: filter_orphans_clean)
  then show "list_all is_nonempty (placed ms)"
    by (simp add: placed_def rescue_pass.pass_nonempty pairing_pass.pass_nonempty)
  show "paired (placed ms)"
    by (simp add: placed_def paired_enforce)
  show "results_in Assistant (placed ms) = {}"
    by (simp add: placed_def pairing_pass.pass_results rescue_no_assistant)
  show "results_in System ms = {} \<Longrightarrow> results_in System (placed ms) = {}"
    by (simp add: placing.pass_results)
qed

lemma synthetic_nothing:
  "insert_synthetic_results (fst (reorder_tool_results (placed ms))) =
     (fst (reorder_tool_results (placed ms)), 0)"
  by (intro synthetic_identity paired_reorder placed_laws)

lemma finish_laws:
  shows "paired ms \<Longrightarrow> paired (finish ms)" "located U p ms \<Longrightarrow> located U p (finish ms)"
    and finish_results: "concat (map results_of (finish ms)) = concat (map results_of ms)"
  by (simp_all add: finish_def paired_merge paired_remove_aborted located_coalesce located_merge
      located_remove_aborted comp_def results_merge results_remove_aborted)

lemma repair_placement:
  assumes "results_in System ms = {}"
  shows "paired (validate_and_repair ms)"
    "located (\<lambda>i. turn_count ms i = 1) [] (validate_and_repair ms)"
proof -
  let ?c3 = "placed ms"
  let ?c4 = "fst (reorder_tool_results ?c3)"
  have count: "turn_count ?c3 = turn_count ms" "turn_count ?c4 = turn_count ms"
    by (simp_all add: placing.pass_turn_count reorder_pass.pass_turn_count)
  have "located (\<lambda>i. turn_count ?c3 i = 1) [] (removed_misplaced ?c3)"
    using assms by (intro located_removed placed_laws)
  then have c4: "paired ?c4" "located (\<lambda>i. turn_count ms i = 1) [] ?c4"
    using reorder_laws[of ?c3 "\<lambda>i. turn_count ms i = 1"] placed_laws(1,2)[of ms] by (simp_all add: count)
  then have "paired (fst (deduplicate_tool_results ?c4))"
    by (intro paired_dedup) (simp_all add: count)
  moreover have "located (\<lambda>i. turn_count ms i = 1) [] (fst (deduplicate_tool_results ?c4))"
    using c4(2) by (rule located_dedup)
  ultimately show "paired (validate_and_repair ms)"
    "located (\<lambda>i. turn_count ms i = 1) [] (validate_and_repair ms)"
    by (simp_all add: validate_and_repair_alt synthetic_nothing finish_laws)
qed

section \<open>Merging is complete\<close>

definition no_mergeable :: "'j message list \<Rightarrow> bool" where
  "no_mergeable ms \<longleftrightarrow> (\<forall>k. Suc k < length ms \<longrightarrow> \<not> may_merge (ms ! k) (ms ! Suc k))"

lemma no_mergeable_snoc:
  "no_mergeable (ms @ [m]) \<longleftrightarrow> no_mergeable ms \<and> (ms \<noteq> [] \<longrightarrow> \<not> may_merge (last ms) m)"
proof (cases ms rule: rev_cases)
  case Nil
  then show ?thesis by (simp add: no_mergeable_def)
next
  case (snoc xs x)
  have "Suc k < Suc (Suc (length xs)) \<longleftrightarrow> Suc k < Suc (length xs) \<or> k = length xs" for k
    by auto
  then show ?thesis
    unfolding no_mergeable_def snoc
    by (auto simp: nth_append less_Suc_eq)
qed

lemma only_results_merged:
  assumes "\<not> message_is_only_tool_results l" "\<not> message_is_only_tool_results m" "is_nonempty l"
  shows "\<not> message_is_only_tool_results (merged_message l m)"
  using assms
  by (cases "content l")
    (auto simp: message_is_only_tool_results_def merged_message_def merge_content_def
      content_to_blocks_def is_nonempty_def is_tool_result_def result_status_def)

lemma merge_no_mergeable:
  assumes "list_all is_nonempty ms"
  shows "no_mergeable (fst (merge_consecutive ms))"
proof -
  have "no_mergeable (fst (foldl merge_step acc rest)) \<and> list_all is_nonempty (fst (foldl merge_step acc rest))"
    if "no_mergeable (fst acc)" "list_all is_nonempty (fst acc)" "list_all is_nonempty rest" for acc rest
    using that
  proof (induction rest arbitrary: acc)
    case (Cons m rest)
    have "no_mergeable (fst (merge_step acc m)) \<and> list_all is_nonempty (fst (merge_step acc m))"
    proof (cases "fst acc \<noteq> [] \<and> may_merge (last (fst acc)) m")
      case True
      then obtain xs l where acc: "fst acc = xs @ [l]"
        by (metis append_butlast_last_id)
      have step: "fst (merge_step acc m) = xs @ [merged_message l m]"
        using True acc by (simp add: merge_step_def merged_message_def Let_def)
      have lm: "may_merge l m" "is_nonempty l"
        using True acc Cons.prems by auto
      have "is_nonempty (merged_message l m)"
        using lm(2) by (cases "content l")
          (auto simp: is_nonempty_def merged_message_def merge_content_def content_to_blocks_def)
      moreover have "may_merge x l" if "may_merge x (merged_message l m)" for x
        using that lm by (simp add: may_merge_def merged_message_lists has_tool_use_iff)
      ultimately show ?thesis
        using Cons.prems acc by (auto simp: step no_mergeable_snoc)
    next
      case False
      then show ?thesis
        using Cons.prems by (auto simp: merge_step_def Let_def no_mergeable_snoc)
    qed
    with Cons show ?case by simp
  qed simp
  from this[of "([], 0)" ms] assms show ?thesis
    by (simp add: merge_consecutive_def no_mergeable_def)
qed

lemma coalesce_only_results:
  "message_is_only_tool_results (coalesce_message m) = message_is_only_tool_results m"
proof (cases "content m")
  case (Blocks bs)
  have step: "list_all is_tool_result (coalesce_step out b) \<longleftrightarrow> list_all is_tool_result (out @ [b])"
    for out :: "'a content_block list" and b
  proof (cases "\<exists>t md. b = BText t md")
    case True
    then have "\<not> is_tool_result b"
      by (auto simp: is_tool_result_def)
    moreover have "\<not> list_all is_tool_result (coalesce_step out b)"
      using True by (auto simp: coalesce_step_def is_tool_result_def split: content_block.splits)
    ultimately show ?thesis by simp
  next
    case False
    then show ?thesis by (auto simp: coalesce_step_def split: content_block.splits)
  qed
  have "list_all is_tool_result (foldl coalesce_step out bs) \<longleftrightarrow> list_all is_tool_result (out @ bs)" for out
    by (induction bs arbitrary: out) (auto simp: step)
  from this[of "[]"] Blocks show ?thesis
    by (auto simp: message_is_only_tool_results_def coalesce_message_def
        coalesce_adjacent_text_blocks_def Let_def foldl_coalesce_Nil)
qed (simp add: coalesce_message_def message_is_only_tool_results_def)

lemma repair_no_mergeable: "no_mergeable (validate_and_repair ms)"
proof -
  let ?c6 = "fst (deduplicate_tool_results (fst (insert_synthetic_results
       (fst (reorder_tool_results (placed ms))))))"
  have "no_mergeable (fst (merge_consecutive (remove_aborted_assistant_messages ?c6)))"
    by (intro merge_no_mergeable aborted_pass.pass_nonempty dedup_nonempty)
  moreover have "may_merge (coalesce_message l) (coalesce_message m) = may_merge l m" for l m :: "'a message"
    by (simp add: may_merge_def coalesce_only_results has_tool_use_iff)
  ultimately show ?thesis
    by (simp add: validate_and_repair_alt finish_def no_mergeable_def)
qed

section \<open>Histories that start with a user turn\<close>

definition first_user :: "'j message list \<Rightarrow> nat option" where
  "first_user ms = find (\<lambda>k. role (ms ! k) = User) [0..<length ms]"

lemma first_user_Some:
  "first_user ms = Some k \<longleftrightarrow>
   k < length ms \<and> role (ms ! k) = User \<and> (\<forall>j < k. role (ms ! j) \<noteq> User)"
  by (auto simp: first_user_def find_Some_iff)

lemma first_user_None: "first_user ms = None \<longleftrightarrow> (\<forall>m \<in> set ms. role m \<noteq> User)"
  by (auto simp: first_user_def find_None_iff all_set_conv_all_nth)

lemma non_user_drop: "0 < i \<Longrightarrow> first_user ms = Some i \<Longrightarrow> non_user (drop i ms) < non_user ms"
proof -
  assume "0 < i" "first_user ms = Some i"
  then have "0 < non_user (take i ms)"
    by (cases ms) (auto simp: first_user_Some non_user_def take_Cons' filter_empty_conv)
  moreover have "non_user ms = non_user (take i ms) + non_user (drop i ms)"
    by (metis append_take_drop_id filter_append length_append non_user_def)
  ultimately show ?thesis by simp
qed

function ensure_starts_with_user :: "'j message list \<Rightarrow> 'j message list" where
  "ensure_starts_with_user ms =
     (case first_user ms of
        None \<Rightarrow> ms
      | Some i \<Rightarrow> if i = 0 then ms else ensure_starts_with_user (validate_and_repair (drop i ms)))"
  by pat_completeness auto

termination
  by (relation "measure non_user")
    (auto intro: le_less_trans[OF repair.pass_non_user] non_user_drop)

declare ensure_starts_with_user.simps [simp del]

text \<open>One round of the loop, and the rounds that it runs.\<close>

definition drop_round :: "'j message list \<Rightarrow> 'j message list" where
  "drop_round ms =
     (case first_user ms of None \<Rightarrow> ms | Some i \<Rightarrow> validate_and_repair (drop i ms))"

lemma ensure_rounds:
  "\<exists>k \<le> non_user ms.
     ensure_starts_with_user ms = (drop_round ^^ k) ms
     \<and> (\<forall>j < k. \<exists>i > 0. first_user ((drop_round ^^ j) ms) = Some i)
     \<and> first_user (ensure_starts_with_user ms) \<in> {None, Some 0}"
proof (induction ms rule: ensure_starts_with_user.induct)
  case (1 ms)
  show ?case
  proof (cases "first_user ms")
    case (Some i)
    show ?thesis
    proof (cases "i = 0")
      case False
      let ?ms = "validate_and_repair (drop i ms)"
      have d: "drop_round ms = ?ms" "ensure_starts_with_user ms = ensure_starts_with_user ?ms"
        using Some False by (simp_all add: drop_round_def ensure_starts_with_user.simps[of ms])
      obtain k where k: "k \<le> non_user ?ms" "ensure_starts_with_user ?ms = (drop_round ^^ k) ?ms"
        "\<forall>j < k. \<exists>i > 0. first_user ((drop_round ^^ j) ?ms) = Some i"
        "first_user (ensure_starts_with_user ?ms) \<in> {None, Some 0}"
        using "1.IH"[OF Some False] by blast
      have "non_user ?ms < non_user ms"
        using False Some by (blast intro: le_less_trans[OF repair.pass_non_user] non_user_drop)
      moreover have "(drop_round ^^ Suc j) ms = (drop_round ^^ j) ?ms" for j
        by (simp add: funpow_swap1 d(1))
      moreover have "\<exists>l > 0. first_user ((drop_round ^^ j) ms) = Some l" if "j < Suc k" for j
        using that k(3) Some False calculation(2) by (cases j) auto
      ultimately show ?thesis
        using k d(2) by (intro exI[of _ "Suc k"]) (simp del: funpow.simps)
    qed (use Some in \<open>auto simp: ensure_starts_with_user.simps[of ms] intro!: exI[of _ 0]\<close>)
  qed (auto simp: ensure_starts_with_user.simps[of ms] intro!: exI[of _ 0])
qed

lemma paired_drop: "paired ms \<Longrightarrow> paired (drop i ms)"
proof (induction ms arbitrary: i)
  case (Cons m ms)
  then show ?case by (cases i) auto
qed simp

lemma results_in_drop: "results_in r ms = {} \<Longrightarrow> results_in r (drop i ms) = {}"
  by (auto simp: results_in_def split: if_splits dest!: in_set_dropD)

lemma ensure_keeps:
  "paired ms \<Longrightarrow> results_in System ms = {} \<Longrightarrow>
   paired (ensure_starts_with_user ms) \<and> results_in System (ensure_starts_with_user ms) = {}"
proof (induction ms rule: ensure_starts_with_user.induct)
  case (1 ms)
  then show ?case
    by (subst (1 2) ensure_starts_with_user.simps)
      (auto split: option.splits
        simp: repair_placement results_in_drop repair.pass_results)
qed

section \<open>Trimming\<close>

lemma safe_boundary_iff:
  "is_safe_boundary ms i \<longleftrightarrow>
   role (ms ! i) = User \<and> \<not> message_is_only_tool_results (ms ! i)
   \<and> (i > 0 \<longrightarrow> assistant_uses (ms ! (i - 1)) = [])"
  by (auto simp: is_safe_boundary_def Let_def has_tool_use_iff assistant_uses_def)

lemma trim_point_Some:
  assumes "find_safe_trim_point ms n = Some i"
  shows "i < length ms" "is_safe_boundary ms i"
  using assms
  by (auto simp: find_safe_trim_point_def Let_def find_Some_iff rev_nth
      split: option.splits if_splits)

lemma located_drop_safe:
  assumes "located U [] ms" "is_safe_boundary ms i" "i < length ms"
  shows "located U [] (drop i ms)"
proof (cases "i = 0")
  case False
  with assms(3) have ne: "take i ms \<noteq> []"
    by (cases ms) auto
  with assms(3) have "last (take i ms) = ms ! (i - 1)"
    by (simp add: last_conv_nth min_def)
  with ne assms(1,2) False show ?thesis
    using located_append[of U "[]" "take i ms" "drop i ms"] by (simp add: safe_boundary_iff)
qed (use assms in simp)

lemma located_has_use:
  "located U [] ms \<Longrightarrow> i \<in> all_results ms \<Longrightarrow> U i \<Longrightarrow> i \<in> set (concat (map assistant_uses ms))"
proof -
  have "located U p ms \<Longrightarrow> i \<in> all_results ms \<Longrightarrow> U i \<Longrightarrow>
      i \<in> set p \<union> set (concat (map assistant_uses ms))" for p
    by (induction ms arbitrary: p) fastforce+
  from this[of "[]"] show "located U [] ms \<Longrightarrow> i \<in> all_results ms \<Longrightarrow> U i \<Longrightarrow>
      i \<in> set (concat (map assistant_uses ms))"
    by simp
qed

text \<open>\<open>crates/librefang-runtime/src/agent_loop.rs\<close>: the trimming that uses both.\<close>

definition trim_at :: "'j message list \<Rightarrow> nat \<Rightarrow> nat" where
  "trim_at ms max_history =
     (let desired = length ms - max_history
      in case find_safe_trim_point ms desired of
           Some p \<Rightarrow> if p > 0 then p else desired
         | None \<Rightarrow> desired)"

definition safe_trim_messages ::
  "int \<Rightarrow> 'j message list \<Rightarrow> 'j message list \<Rightarrow> string \<Rightarrow> nat \<Rightarrow> 'j message list \<times> 'j message list" where
  "safe_trim_messages now messages session_messages um max_history =
     (let session' = (if length session_messages > max_history
                      then drop (trim_at session_messages max_history) session_messages
                      else session_messages)
      in if length messages \<le> max_history then (messages, session')
         else
           let ms = ensure_starts_with_user
                      (validate_and_repair (drop (trim_at messages max_history) messages))
           in if length ms < 2 \<or> \<not> list_ex (\<lambda>m. role m = User) ms
              then (filter (\<lambda>m. role m = System) ms @ [user_message now um], session')
              else (ms, session'))"

lemma trim_at_pos: "max_history < length ms \<Longrightarrow> 0 < trim_at ms max_history \<and> trim_at ms max_history \<le> length ms"
  by (auto simp: trim_at_def Let_def dest: trim_point_Some split: option.splits)

lemma no_system_results_iff:
  "results_in r ms = {} \<longleftrightarrow> (\<forall>m \<in> set ms. role m = r \<longrightarrow> results_of m = [])"
  by (auto simp: results_in_def split: if_splits)

lemma user_results_iff: "i \<in> set (user_results m) \<longleftrightarrow> role m = User \<and> i \<in> set (results_of m)"
  by (simp add: user_results_def)

lemma filter_pass_no_orphans: "all_results (filter_pass ms) \<subseteq> set (collect_tool_use_ids (filter_pass ms))"
  unfolding orphan_pass.pass_uses
  by (auto simp: filter_pass_def all_results_def dest: filter_orphans_clean)

lemma paired_no_uses: "(\<And>m. m \<in> set ms \<Longrightarrow> assistant_uses m = []) \<Longrightarrow> paired ms"
  by (induction ms) auto

section \<open>Properties\<close>

text \<open>
  C1: The wire contract of the repaired history. When no system message of the input carries a
  tool result, every call of an assistant message of \<open>validate_and_repair ms\<close> is answered by
  a tool result in the message right after it, and that message is a user message.
\<close>
theorem repair_answers_every_call:
  assumes "\<forall>m \<in> set ms. role m = System \<longrightarrow> results_of m = []"
    and "k < length (validate_and_repair ms)"
    and "i \<in> set (assistant_uses (validate_and_repair ms ! k))"
  shows "Suc k < length (validate_and_repair ms)
       \<and> role (validate_and_repair ms ! Suc k) = User
       \<and> i \<in> set (results_of (validate_and_repair ms ! Suc k))"
  using repair_placement(1)[of ms] assms by (auto simp: paired_nth no_system_results_iff user_results_iff)

definition sample_call :: "string \<Rightarrow> string message" where
  "sample_call i = \<lparr>role = Assistant, content = Blocks [BText ''on it'' None, ToolUse i ''shell'' ''{}'' None],
     pinned = False, timestamp = None\<rparr>"

definition sample_user :: "string message" where
  "sample_user = \<lparr>role = User, content = Text ''hello'', pinned = False, timestamp = None\<rparr>"

definition sample_result :: "role \<Rightarrow> string \<Rightarrow> string message" where
  "sample_result r i = \<lparr>role = r, content = Blocks [ToolResult i ''shell'' ''ok'' False Completed None],
     pinned = False, timestamp = None\<rparr>"

lemmas sample_defs = sample_call_def sample_user_def sample_result_def

theorem repair_answers_every_call_witness:
  "let out = validate_and_repair [sample_user, sample_call ''a'', sample_user, sample_result User ''a''] in
     Suc 1 < length out \<and> role (out ! Suc 1) = User \<and> ''a'' \<in> set (results_of (out ! Suc 1))"
proof -
  let ?ms = "[sample_user, sample_call ''a'', sample_user, sample_result User ''a'']"
  have "1 < length (validate_and_repair ?ms)" "''a'' \<in> set (assistant_uses (validate_and_repair ?ms ! 1))"
    by code_simp+
  moreover have "\<forall>m \<in> set ?ms. role m = System \<longrightarrow> results_of m = []"
    by (simp add: sample_defs)
  ultimately show ?thesis
    using repair_answers_every_call[of ?ms 1 "''a''"] by (simp add: Let_def)
qed

text \<open>
  C28: Repair neither loses, invents nor reorders a call: the ids of the tool calls, in order, are
  those of the input. No result without a call is left, no assistant message carries a result and
  no message is empty.
\<close>
theorem repair_history_clean:
  "collect_tool_use_ids (validate_and_repair ms) = collect_tool_use_ids ms
   \<and> list_all is_nonempty (validate_and_repair ms)
   \<and> all_results (validate_and_repair ms) \<subseteq> set (collect_tool_use_ids ms)
   \<and> results_in Assistant (validate_and_repair ms) = {}"
proof (intro conjI)
  show "collect_tool_use_ids (validate_and_repair ms) = collect_tool_use_ids ms"
    by (rule repair.pass_uses)
  show "list_all is_nonempty (validate_and_repair ms)"
    by (simp add: validate_and_repair_alt finishing.pass_nonempty dedup_nonempty)
  have "all_results (placed ms) \<subseteq> set (collect_tool_use_ids (placed ms))"
    unfolding placed_def
    by (intro pairing_pass.pass_no_orphans rescue_pass.pass_no_orphans filter_pass_no_orphans)
  then show "all_results (validate_and_repair ms) \<subseteq> set (collect_tool_use_ids ms)"
    unfolding repair.pass_uses[symmetric, of ms] validate_and_repair_alt
    by (intro finishing.pass_no_orphans dedup_pass.pass_no_orphans synthetic_pass.pass_no_orphans
        reorder_pass.pass_no_orphans)
  show "results_in Assistant (validate_and_repair ms) = {}"
    by (simp add: validate_and_repair_alt finishing.pass_results dedup_pass.pass_results
        synthetic_pass.pass_results reorder_pass.pass_results placed_laws)
qed

text \<open>
  A call id used once has exactly one result in the repaired history, whatever the number of
  results (none, or several with different statuses) it had.
\<close>
theorem repair_single_result:
  assumes "turn_count ms i = 1"
  shows "count_list (concat (map results_of (validate_and_repair ms))) i = 1"
proof -
  let ?c4 = "fst (reorder_tool_results (placed ms))"
  have count: "turn_count ?c4 i = 1"
    using assms by (simp add: placing.pass_turn_count reorder_pass.pass_turn_count)
  then obtain a where a: "tool_use_index ?c4 i = Some a"
    by (rule unique_has_index)
  have "paired ?c4"
    by (intro paired_reorder placed_laws)
  with tool_use_index_Some[OF a] have "Suc a < length ?c4" "i \<in> set (results_of (?c4 ! Suc a))"
    by (auto simp: paired_nth user_results_iff)
  then have "i \<in> all_results ?c4"
    by (auto simp: all_results_def)
  with dedup_counts[of ?c4 i] count show ?thesis
    by (simp add: validate_and_repair_alt synthetic_nothing finish_results)
qed

theorem repair_single_result_witness:
  "count_list (concat (map results_of (validate_and_repair
     [sample_user, sample_call ''a'', sample_result User ''a'', sample_result User ''a'']))) ''a'' = 1"
  by (rule repair_single_result) code_simp

text \<open>
  Two adjacent messages of the repaired history with the same role are kept apart for a reason:
  one of them carries a call or is a pure delivery of results.
\<close>
theorem repair_alternates:
  assumes "Suc k < length (validate_and_repair ms)"
    and "role (validate_and_repair ms ! k) = role (validate_and_repair ms ! Suc k)"
  shows "\<exists>j \<in> {k, Suc k}. message_has_tool_use (validate_and_repair ms ! j)
           \<or> message_is_only_tool_results (validate_and_repair ms ! j)"
  using repair_no_mergeable[of ms] assms by (auto simp: no_mergeable_def may_merge_def)

theorem repair_alternates_witness:
  "\<exists>j \<in> {2, Suc 2}. message_has_tool_use (validate_and_repair
       [sample_user, sample_call ''a'', sample_result User ''a'', sample_user] ! j)
     \<or> message_is_only_tool_results (validate_and_repair
       [sample_user, sample_call ''a'', sample_result User ''a'', sample_user] ! j)"
  by (rule repair_alternates) code_simp+

text \<open>
  Phase 2c never inserts a result: after the positional phase every call already has one, so
  \<open>synthetic_results_inserted\<close> is always zero.
\<close>
theorem phase_2c_never_inserts:
  "synthetic_results_inserted (snd (validate_and_repair_with_stats ms)) = 0"
  using synthetic_nothing[of ms]
  by (simp add: validate_and_repair_with_stats_def placed_def filter_pass_def Let_def
      case_prod_unfold)

text \<open>
  The hypothesis of the wire contract, that system messages carry no result, is needed. A result in
  a system message is neither rescued nor moved, but counts as the result to keep: the one delivered
  after the call is then dropped as a duplicate and the call is left unanswered.
\<close>
theorem system_result_leaves_call_unanswered:
  "let out = validate_and_repair [sample_result System ''a'', sample_user, sample_call ''a'']
   in role (out ! 2) = Assistant \<and> ''a'' \<in> set (assistant_uses (out ! 2)) \<and> length out = 3"
  by code_simp

text \<open>
  C37: \<open>ensure_starts_with_user\<close> returns, on every history, what a number of rounds gives
  that is at most the number of messages other than the user's. A round drops everything before the
  first user message and repairs the rest; every round that ran found a user message behind other
  messages, so none runs on a history that has no user message or starts with one; and the rounds
  stop with the first user message of the result, if there is one, at position 0.
\<close>
theorem ensure_starts_with_user_correct:
  "\<exists>k \<le> non_user ms.
     ensure_starts_with_user ms = (drop_round ^^ k) ms
     \<and> (\<forall>j < k. \<exists>i > 0. first_user ((drop_round ^^ j) ms) = Some i)
     \<and> first_user (ensure_starts_with_user ms) \<in> {None, Some 0}"
  using ensure_rounds[of ms] by blast

theorem ensure_starts_with_user_correct_witness:
  "\<exists>k \<le> non_user [sample_call ''a'', sample_result User ''b'', sample_user].
     ensure_starts_with_user [sample_call ''a'', sample_result User ''b'', sample_user]
       = (drop_round ^^ k) [sample_call ''a'', sample_result User ''b'', sample_user]
     \<and> first_user (ensure_starts_with_user [sample_call ''a'', sample_result User ''b'', sample_user])
         \<in> {None, Some 0}"
  using ensure_starts_with_user_correct[of "[sample_call ''a'', sample_result User ''b'', sample_user]"]
  by blast

text \<open>
  C36: Trimming at a safe point orphans nothing. In a history whose system messages carry no tool
  result, where \<open>find_safe_trim_point\<close> returns a point of the repaired history, every result
  after the cut whose call id is used once in the history still has its call after the cut.
\<close>
theorem safe_trim_orphans_nothing:
  assumes "\<forall>m \<in> set ms. role m = System \<longrightarrow> results_of m = []"
    and "find_safe_trim_point (validate_and_repair ms) n = Some p"
    and "i \<in> all_results (drop p (validate_and_repair ms))" "turn_count ms i = 1"
  shows "i \<in> set (concat (map assistant_uses (drop p (validate_and_repair ms))))"
proof -
  have "located (\<lambda>i. turn_count ms i = 1) [] (drop p (validate_and_repair ms))"
    using assms(1,2)
    by (intro located_drop_safe repair_placement trim_point_Some) (auto simp: no_system_results_iff)
  then show ?thesis
    using assms(3,4) by (rule located_has_use)
qed

definition sample_history :: "string message list" where
  "sample_history = [sample_user, sample_call ''a'', sample_result User ''a'', sample_user,
     sample_call ''b'', sample_result User ''b'', sample_user]"

theorem safe_trim_orphans_nothing_witness:
  "''b'' \<in> set (concat (map assistant_uses (drop 3 (validate_and_repair sample_history))))"
proof (rule safe_trim_orphans_nothing)
  show "\<forall>m \<in> set sample_history. role m = System \<longrightarrow> results_of m = []"
    by code_simp
  show "find_safe_trim_point (validate_and_repair sample_history) 1 = Some 3"
    by code_simp
  show "''b'' \<in> all_results (drop 3 (validate_and_repair sample_history))"
    by code_simp
  show "turn_count sample_history ''b'' = 1"
    by code_simp
qed

text \<open>
  The history that \<open>safe_trim_messages\<close> leaves for the provider is usable: when it
  trims, the result has a user message and every call in it is answered by the message after it;
  the persistent history gets shorter whenever it was over the limit.
\<close>
theorem safe_trim_messages_usable:
  assumes "max_history < length messages" "max_history < length session_messages"
    and "\<forall>m \<in> set messages. role m = System \<longrightarrow> results_of m = []"
  shows "paired (fst (safe_trim_messages now messages session_messages um max_history))
       \<and> (\<exists>m \<in> set (fst (safe_trim_messages now messages session_messages um max_history)). role m = User)
       \<and> length (snd (safe_trim_messages now messages session_messages um max_history))
           < length session_messages"
proof -
  let ?ms = "ensure_starts_with_user (validate_and_repair (drop (trim_at messages max_history) messages))"
  have sys: "results_in System (drop (trim_at messages max_history) messages) = {}"
    using assms(3) by (intro results_in_drop) (simp add: no_system_results_iff)
  then have p: "paired ?ms"
    using ensure_keeps repair_placement(1) repair.pass_results by blast
  have small: "paired (filter (\<lambda>m. role m = System) ?ms @ [user_message now um])"
    by (intro paired_no_uses) (auto simp: assistant_uses_def user_message_def)
  have "length (drop (trim_at session_messages max_history) session_messages) < length session_messages"
    using trim_at_pos[OF assms(2)] by auto
  with p small assms(1,2) show ?thesis
    by (auto simp: safe_trim_messages_def Let_def list_ex_iff user_message_def)
qed

theorem safe_trim_messages_usable_witness:
  "paired (fst (safe_trim_messages 0 sample_history sample_history ''next'' 4))
   \<and> (\<exists>m \<in> set (fst (safe_trim_messages 0 sample_history sample_history ''next'' 4)). role m = User)
   \<and> length (snd (safe_trim_messages 0 sample_history sample_history ''next'' 4)) < length sample_history"
  by (rule safe_trim_messages_usable) code_simp+

end
