(* ===== verification/ToolSanitize.thy ===== *)
theory ToolSanitize
  imports Prelude
begin

text \<open>
  Sanitising of tool results before they reach the model,
  \<open>crates/librefang-runtime/src/session_repair.rs\<close>: base64 blobs, injection markers and
  truncation.

  Slicing a string off a character boundary panics in Rust; here it is \<open>None\<close>.
  \<open>str::to_lowercase\<close>, whose Unicode tables the model does not carry, is the argument
  \<open>lower\<close>; \<open>Prelude.to_lowercase\<close> is what it does on ASCII text.
\<close>

section \<open>Operations\<close>

fun show_nat_acc :: "nat \<Rightarrow> string \<Rightarrow> string" where
  "show_nat_acc n acc =
     (let acc' = char_of (48 + n mod 10) # acc
      in if n < 10 then acc' else show_nat_acc (n div 10) acc')"

declare show_nat_acc.simps [simp del]

definition show_nat :: "nat \<Rightarrow> string" where
  "show_nat n = show_nat_acc n []"

definition is_base64_char :: "char \<Rightarrow> bool" where
  "is_base64_char c \<longleftrightarrow>
     (let n = of_char c :: nat
      in 48 \<le> n \<and> n \<le> 57 \<or> 65 \<le> n \<and> n \<le> 90 \<or> 97 \<le> n \<and> n \<le> 122)
     \<or> c \<in> {CHR ''+'', CHR ''/'', CHR ''=''}"

definition BASE64_THRESHOLD :: nat where
  "BASE64_THRESHOLD = 1000"

function strip_base64_blobs :: "string \<Rightarrow> string" where
  "strip_base64_blobs [] = []"
| "strip_base64_blobs (c # cs) =
     (if is_base64_char c then
        let blob = takeWhile is_base64_char (c # cs);
            rest = dropWhile is_base64_char (c # cs)
        in (if length blob > BASE64_THRESHOLD
            then ''[base64 blob, '' @ show_nat (length blob) @ '' chars removed]''
            else blob) @ strip_base64_blobs rest
      else c # strip_base64_blobs cs)"
  by pat_completeness auto

termination
  by (relation "measure length") (auto simp: le_imp_less_Suc length_dropWhile_le)

definition INJECTION_MARKERS :: "string list" where
  "INJECTION_MARKERS =
     [''<|system|>'', ''<|im_start|>'', ''<|im_end|>'', ''### SYSTEM:'', ''### System Prompt:'',
      ''[SYSTEM]'', ''<<SYS>>'', ''<</SYS>>'', ''IGNORE PREVIOUS INSTRUCTIONS'',
      ''Ignore all previous instructions'', ''ignore the above'', ''disregard previous'']"

definition REMOVED :: string where
  "REMOVED = ''[injection marker removed]''"

definition slice :: "string \<Rightarrow> nat \<Rightarrow> nat \<Rightarrow> string option" where
  "slice s a b =
     (if a \<le> b \<and> b \<le> length s \<and> is_char_boundary s a \<and> is_char_boundary s b
      then Some (take (b - a) (drop a s)) else None)"

partial_function (option) strip_marker ::
  "string \<Rightarrow> string \<Rightarrow> string \<Rightarrow> nat \<Rightarrow> nat \<Rightarrow> string \<Rightarrow> string option" where
  "strip_marker result result_lower marker_lower marker_len search_pos new_result =
     Option.bind (slice result_lower search_pos (length result_lower)) (\<lambda>tail.
       case find_str marker_lower tail of
         None \<Rightarrow>
           Option.bind (slice result search_pos (length result)) (\<lambda>rest. Some (new_result @ rest))
       | Some found \<Rightarrow>
           Option.bind (slice result search_pos (search_pos + found)) (\<lambda>seg.
             strip_marker result result_lower marker_lower marker_len
               (search_pos + found + marker_len) (new_result @ seg @ REMOVED)))"

fun strip_markers :: "(string \<Rightarrow> string) \<Rightarrow> string \<Rightarrow> string list \<Rightarrow> string \<Rightarrow> string option" where
  "strip_markers lower orig_lower [] result = Some result"
| "strip_markers lower orig_lower (marker # markers) result =
     (let marker_lower = lower marker
      in if contains_str marker_lower orig_lower then
           Option.bind (strip_marker result (lower result) marker_lower (length marker) 0 [])
             (strip_markers lower orig_lower markers)
         else strip_markers lower orig_lower markers result)"

definition strip_injection_markers :: "(string \<Rightarrow> string) \<Rightarrow> string \<Rightarrow> string option" where
  "strip_injection_markers lower content =
     strip_markers lower (lower content) INJECTION_MARKERS content"

definition strip_tool_result_details :: "(string \<Rightarrow> string) \<Rightarrow> string \<Rightarrow> string option" where
  "strip_tool_result_details lower content =
     (let max_len = 10000
      in Option.bind (strip_injection_markers lower (strip_base64_blobs content)) (\<lambda>cleaned.
           Some (if length cleaned \<le> max_len then cleaned
                 else safe_truncate_str cleaned max_len
                        @ ''...[truncated from '' @ show_nat (length cleaned) @ '' chars]'')))"

section \<open>Occurrences\<close>

text \<open>A needle that does not overlap the inserted text occurs only beside it.\<close>

definition no_overlap :: "string \<Rightarrow> string \<Rightarrow> bool" where
  "no_overlap m r \<longleftrightarrow>
     list_all (\<lambda>k. \<not> starts_with (drop k m) r \<and> \<not> starts_with r (drop k m)) [0..<length m]
     \<and> list_all (\<lambda>k. \<not> starts_with (drop k r) m \<and> \<not> starts_with m (drop k r)) [0..<length r]"

lemma starts_with_comparable: "xs @ b = ys @ v \<Longrightarrow> starts_with xs ys \<or> starts_with ys xs"
  by (auto simp: append_eq_append_conv2 starts_with_iff)

lemma contains_beside:
  assumes "no_overlap m r" "contains_str m (u @ r @ v)"
  shows "contains_str m u \<or> contains_str m v"
proof -
  obtain a b where eq: "u @ r @ v = a @ m @ b"
    using assms(2) by (auto simp: contains_str_iff)
  consider "length a + length m \<le> length u" | "length u + length r \<le> length a"
    | k where "length u = length a + k" "k < length m"
    | k where "length a = length u + k" "k < length r"
  proof -
    have "length u = length a + (length u - length a) \<or> length a = length u + (length a - length u)"
      by auto
    then show thesis
      using that by (metis add_less_cancel_left not_less)
  qed
  then show ?thesis
  proof cases
    case 1
    from eq have "u = take (length u) (a @ m @ b)"
      by (metis append_eq_conv_conj)
    with 1 have "u = a @ m @ take (length u - length a - length m) b"
      by simp
    then show ?thesis by (auto simp: contains_str_iff)
  next
    case 2
    from eq have "v = drop (length u + length r) (a @ m @ b)"
      by (metis append.assoc append_eq_conv_conj length_append)
    then have "v = drop (length u + length r) a @ m @ b"
      using 2 by simp
    then show ?thesis by (auto simp: contains_str_iff)
  next
    case (3 k)
    from eq have "r @ v = drop (length u) (a @ m @ b)"
      by (metis append_eq_conv_conj)
    with 3 have "drop k m @ b = r @ v"
      by simp
    with assms(1) 3 show ?thesis
      by (auto simp: no_overlap_def list_all_iff dest!: starts_with_comparable)
  next
    case (4 k)
    from eq have "m @ b = drop (length a) (u @ r @ v)"
      by (metis append_eq_conv_conj)
    with 4 have "drop k r @ v = m @ b"
      by simp
    with assms(1) 4 show ?thesis
      by (auto simp: no_overlap_def list_all_iff dest!: starts_with_comparable)
  qed
qed

section \<open>ASCII text\<close>

definition is_ascii :: "string \<Rightarrow> bool" where
  "is_ascii s \<longleftrightarrow> list_all (\<lambda>c. (of_char c :: nat) < 128) s"

lemma is_ascii_simps [simp]:
  "is_ascii []" "is_ascii (a @ b) \<longleftrightarrow> is_ascii a \<and> is_ascii b"
  by (auto simp: is_ascii_def)

lemma is_ascii_take [simp]: "is_ascii s \<Longrightarrow> is_ascii (take n s)"
  and is_ascii_drop [simp]: "is_ascii s \<Longrightarrow> is_ascii (drop n s)"
  by (auto simp: is_ascii_def list_all_iff dest: in_set_takeD in_set_dropD)

lemma ascii_lower_less: "(of_char (ascii_lower c) :: nat) < 128 \<longleftrightarrow> (of_char c :: nat) < 128"
  by (auto simp: ascii_lower_def Let_def)

lemma is_ascii_lower [simp]: "is_ascii (to_lowercase s) = is_ascii s"
  by (simp add: is_ascii_def to_lowercase_def list_all_iff ascii_lower_less)

lemma lower_append [simp]: "to_lowercase (a @ b) = to_lowercase a @ to_lowercase b"
  and lower_length [simp]: "length (to_lowercase s) = length s"
  and lower_take: "to_lowercase (take n s) = take n (to_lowercase s)"
  and lower_drop: "to_lowercase (drop n s) = drop n (to_lowercase s)"
  by (simp_all add: to_lowercase_def take_map drop_map)

lemma ascii_boundary: "is_ascii s \<Longrightarrow> i \<le> length s \<Longrightarrow> is_char_boundary s i"
  by (auto simp: is_ascii_def list_all_length is_char_boundary_def le_less leD)

lemma slice_ascii: "is_ascii s \<Longrightarrow> a \<le> b \<Longrightarrow> b \<le> length s \<Longrightarrow> slice s a b = Some (take (b - a) (drop a s))"
  by (simp add: slice_def ascii_boundary)

text \<open>The loop of one marker, as a replacement on the rest of the text.\<close>

function replace_marker :: "string \<Rightarrow> string \<Rightarrow> string" where
  "replace_marker m s =
     (case find_str m (to_lowercase s) of
        None \<Rightarrow> s
      | Some k \<Rightarrow>
          if m = [] then s
          else take k s @ REMOVED @ replace_marker m (drop (k + length m) s))"
  by pat_completeness auto

termination
proof (relation "measure (\<lambda>(m, s). length s)")
  fix m s k
  assume "find_str m (to_lowercase s) = Some k" "m \<noteq> []"
  then show "((m, drop (k + length m) s), m, s) \<in> measure (\<lambda>(m, s). length s)"
    using found_length[of m "to_lowercase s" k] by (cases m) auto
qed simp

declare replace_marker.simps [simp del]

lemma ascii_REMOVED [simp]: "is_ascii REMOVED"
  by code_simp

lemma strip_marker_ascii:
  assumes "is_ascii s" "m \<noteq> []" "pos \<le> length s"
  shows "strip_marker s (to_lowercase s) m (length m) pos acc = Some (acc @ replace_marker m (drop pos s))"
  using assms(3)
proof (induction "length s - pos" arbitrary: pos acc rule: less_induct)
  case less
  have tail: "slice (to_lowercase s) pos (length (to_lowercase s)) = Some (to_lowercase (drop pos s))"
    using assms(1) less.prems by (simp add: slice_ascii lower_drop)
  show ?case
  proof (cases "find_str m (to_lowercase (drop pos s))")
    case None
    then show ?thesis
      using assms less.prems tail
      by (subst strip_marker.simps) (simp add: slice_ascii replace_marker.simps)
  next
    case (Some k)
    have k: "pos + k + length m \<le> length s" "0 < length m"
      using found_length[OF Some] less.prems assms(2) by auto
    have "strip_marker s (to_lowercase s) m (length m) (pos + k + length m) (acc @ take k (drop pos s) @ REMOVED)
        = Some ((acc @ take k (drop pos s) @ REMOVED) @ replace_marker m (drop (pos + k + length m) s))"
      by (rule less.hyps) (use k in linarith)+
    moreover have "replace_marker m (drop pos s) =
        take k (drop pos s) @ REMOVED @ replace_marker m (drop (pos + k + length m) s)"
      using Some assms(2) by (subst replace_marker.simps) (simp add: add.commute add.left_commute)
    ultimately show ?thesis
      using assms k tail Some by (subst strip_marker.simps) (simp add: slice_ascii)
  qed
qed

lemma replace_marker_ascii: "is_ascii s \<Longrightarrow> is_ascii (replace_marker m s)"
proof (induction m s rule: replace_marker.induct)
  case (1 m s)
  then show ?case
    by (subst replace_marker.simps) (auto split: option.splits)
qed

lemma replace_marker_contains:
  assumes "no_overlap x REMOVED" "contains_str x (to_lowercase (replace_marker m s))"
  shows "contains_str x (to_lowercase s)"
  using assms(2)
proof (induction m s rule: replace_marker.induct)
  case (1 m s)
  show ?case
  proof (cases "find_str m (to_lowercase s)")
    case None
    with "1.prems" show ?thesis by (simp add: replace_marker.simps)
  next
    case (Some k)
    have low: "to_lowercase REMOVED = REMOVED"
      by code_simp
    show ?thesis
    proof (cases "m = []")
      case True
      with "1.prems" Some show ?thesis by (subst (asm) replace_marker.simps) simp
    next
      case False
      with "1.prems" Some have
        "contains_str x (to_lowercase (take k s) @ REMOVED @ to_lowercase (replace_marker m (drop (k + length m) s)))"
        by (subst (asm) replace_marker.simps) (simp add: low)
      then have "contains_str x (to_lowercase (take k s)) \<or> contains_str x (to_lowercase (drop (k + length m) s))"
        using contains_beside[OF assms(1)] "1.IH"[OF Some False] by blast
      then show ?thesis
        by (auto simp: contains_str_iff lower_take lower_drop)
          (metis append.assoc append_take_drop_id)+
    qed
  qed
qed

lemma replace_marker_removes:
  assumes "no_overlap m REMOVED" "m \<noteq> []"
  shows "\<not> contains_str m (to_lowercase (replace_marker m s))"
  using assms
proof (induction m s rule: replace_marker.induct)
  case (1 m s)
  show ?case
  proof (cases "find_str m (to_lowercase s)")
    case None
    then show ?thesis by (subst replace_marker.simps) (simp, simp add: find_str_None)
  next
    case (Some k)
    have low: "to_lowercase REMOVED = REMOVED"
      by code_simp
    have "\<not> contains_str m (to_lowercase (take k s))"
      using find_str_prefix_free[OF Some "1.prems"(2)] by (simp add: lower_take)
    moreover have "\<not> contains_str m (to_lowercase (replace_marker m (drop (k + length m) s)))"
      using "1.IH"[OF Some] "1.prems" by blast
    ultimately show ?thesis
      using contains_beside[OF "1.prems"(1)] Some "1.prems"(2)
      by (subst replace_marker.simps) (auto simp: low)
  qed
qed

text \<open>
  After the markers of \<open>ms\<close>, none of them occurs, and a marker that did not occur in the
  lower-cased original still does not occur.
\<close>

lemma strip_markers_ascii:
  assumes "is_ascii s" "\<And>m. m \<in> set all \<Longrightarrow> m \<noteq> [] \<and> no_overlap (to_lowercase m) REMOVED"
    and "\<And>m. m \<in> set all \<Longrightarrow> m \<notin> set ms \<or> \<not> contains_str (to_lowercase m) orig \<Longrightarrow>
           \<not> contains_str (to_lowercase m) (to_lowercase s)"
    and "set ms \<subseteq> set all"
  shows "\<exists>r. strip_markers to_lowercase orig ms s = Some r \<and> is_ascii r
           \<and> (\<forall>m \<in> set all. \<not> contains_str (to_lowercase m) (to_lowercase r))"
  using assms
proof (induction ms arbitrary: s)
  case (Cons m ms)
  let ?l = "to_lowercase m"
  have m: "m \<in> set all" "?l \<noteq> []" "no_overlap ?l REMOVED"
    using Cons.prems(2)[of m] Cons.prems(4) by (auto simp: to_lowercase_def)
  show ?case
  proof (cases "contains_str ?l orig")
    case False
    have "\<exists>r. strip_markers to_lowercase orig ms s = Some r \<and> is_ascii r
           \<and> (\<forall>m \<in> set all. \<not> contains_str (to_lowercase m) (to_lowercase r))"
      using Cons.prems False by (intro Cons.IH) auto
    with False show ?thesis by simp
  next
    case True
    let ?s = "replace_marker ?l s"
    have "\<exists>r. strip_markers to_lowercase orig ms ?s = Some r \<and> is_ascii r
           \<and> (\<forall>m \<in> set all. \<not> contains_str (to_lowercase m) (to_lowercase r))"
    proof (rule Cons.IH)
      show "is_ascii ?s"
        using Cons.prems(1) by (rule replace_marker_ascii)
      show "\<not> contains_str (to_lowercase x) (to_lowercase ?s)"
        if "x \<in> set all" "x \<notin> set ms \<or> \<not> contains_str (to_lowercase x) orig" for x
        using that Cons.prems(2,3)[of x] replace_marker_contains[of "to_lowercase x" ?l s]
          replace_marker_removes[OF m(3,2), of s] by (cases "x = m") auto
    qed (use Cons.prems in auto)
    moreover have "strip_marker s (to_lowercase s) ?l (length m) 0 [] = Some ?s"
      using strip_marker_ascii[OF Cons.prems(1) m(2), of 0 "[]"] by simp
    ultimately show ?thesis
      using True by simp
  qed
qed auto

lemma markers_no_overlap:
  "m \<in> set INJECTION_MARKERS \<Longrightarrow> m \<noteq> [] \<and> no_overlap (to_lowercase m) REMOVED"
proof -
  have "list_all (\<lambda>m. m \<noteq> [] \<and> no_overlap (to_lowercase m) REMOVED) INJECTION_MARKERS"
    by code_simp
  then show "m \<in> set INJECTION_MARKERS \<Longrightarrow> ?thesis"
    by (simp add: list_all_iff)
qed

lemma show_nat_ascii: "is_ascii (show_nat n)"
proof -
  have "is_ascii acc \<Longrightarrow> is_ascii (show_nat_acc n acc)" for acc
    by (induction n acc rule: show_nat_acc.induct)
      (subst show_nat_acc.simps, auto simp: Let_def is_ascii_def)
  then show ?thesis by (simp add: show_nat_def)
qed

lemma strip_base64_ascii: "is_ascii s \<Longrightarrow> is_ascii (strip_base64_blobs s)"
proof (induction s rule: strip_base64_blobs.induct)
  case (2 c cs)
  have "is_ascii (takeWhile is_base64_char (c # cs))" "is_ascii (dropWhile is_base64_char (c # cs))"
    using "2.prems" by (auto simp: is_ascii_def list_all_iff dest: set_takeWhileD set_dropWhileD)
  moreover have "is_ascii ''[base64 blob, ''" "is_ascii '' chars removed]''"
    by code_simp+
  ultimately show ?case
    using 2 show_nat_ascii by (auto simp: Let_def is_ascii_def list_all_iff)
qed simp

section \<open>Properties\<close>

text \<open>
  On ASCII content the sanitiser returns, and no injection marker is left: none of the twelve
  markers occurs in the result, whatever the case of its letters, and neither nesting nor adjacency
  of markers lets one reappear.
\<close>
theorem no_marker_survives:
  assumes "is_ascii content"
  shows "\<exists>r. strip_injection_markers to_lowercase content = Some r
           \<and> (\<forall>m \<in> set INJECTION_MARKERS. \<not> contains_str (to_lowercase m) (to_lowercase r))
           \<and> strip_tool_result_details to_lowercase content \<noteq> None"
proof -
  have strip: "\<exists>r. strip_injection_markers to_lowercase s = Some r
      \<and> (\<forall>m \<in> set INJECTION_MARKERS. \<not> contains_str (to_lowercase m) (to_lowercase r))"
    if "is_ascii s" for s
    using strip_markers_ascii[OF that, of INJECTION_MARKERS INJECTION_MARKERS "to_lowercase s"]
      markers_no_overlap by (auto simp: strip_injection_markers_def)
  from strip[OF strip_base64_ascii[OF assms]] have "strip_tool_result_details to_lowercase content \<noteq> None"
    by (auto simp: strip_tool_result_details_def Let_def)
  with strip[OF assms] show ?thesis by blast
qed

theorem no_marker_survives_witness:
  "\<exists>r. strip_injection_markers to_lowercase ''a<|im_<|IM_END|>end|>'' = Some r
     \<and> (\<forall>m \<in> set INJECTION_MARKERS. \<not> contains_str (to_lowercase m) (to_lowercase r))
     \<and> strip_tool_result_details to_lowercase ''a<|im_<|IM_END|>end|>'' \<noteq> None"
  by (rule no_marker_survives) code_simp

definition KELVIN_SIGN :: string where
  "KELVIN_SIGN = [CHR 0xE2, CHR 0x84, CHR 0xAA]"

text \<open>
  Offsets found in the lower-cased text are used to slice the original. Lower-casing the Kelvin
  sign (U+212A, three bytes) gives the letter k (one byte), so a tool result with that sign before a
  marker makes the sanitiser slice inside a character, which panics.
\<close>
theorem kelvin_sign_panics:
  assumes "\<forall>m \<in> set INJECTION_MARKERS. lower m = to_lowercase m"
    and "lower (KELVIN_SIGN @ ''<|im_end|>'') = ''k<|im_end|>''"
  shows "strip_tool_result_details lower (KELVIN_SIGN @ ''<|im_end|>'') = None"
proof -
  let ?s = "KELVIN_SIGN @ ''<|im_end|>''"
  have base: "strip_base64_blobs ?s = ?s"
    by code_simp
  have contains: "\<not> contains_str (to_lowercase ''<|system|>'') ''k<|im_end|>''"
    "\<not> contains_str (to_lowercase ''<|im_start|>'') ''k<|im_end|>''"
    "contains_str (to_lowercase ''<|im_end|>'') ''k<|im_end|>''"
    by code_simp+
  have slices: "slice ''k<|im_end|>'' 0 (length ''k<|im_end|>'') = Some ''k<|im_end|>''"
    "find_str (to_lowercase ''<|im_end|>'') ''k<|im_end|>'' = Some 1" "slice ?s 0 (0 + 1) = None"
    by code_simp+
  have "strip_marker ?s ''k<|im_end|>'' (to_lowercase ''<|im_end|>'') n 0 [] = None" for n
    by (subst strip_marker.simps) (simp only: slices Option.bind.simps option.case)
  then have "strip_injection_markers lower ?s = None"
    using assms contains
    by (simp add: strip_injection_markers_def INJECTION_MARKERS_def Let_def)
  then show ?thesis
    by (simp add: strip_tool_result_details_def base)
qed

fun kelvin_lower :: "string \<Rightarrow> string" where
  "kelvin_lower (a # b # c # s) =
     (if [a, b, c] = KELVIN_SIGN then CHR ''k'' # kelvin_lower s
      else ascii_lower a # kelvin_lower (b # c # s))"
| "kelvin_lower s = to_lowercase s"

theorem kelvin_sign_panics_witness:
  "strip_tool_result_details kelvin_lower (KELVIN_SIGN @ ''<|im_end|>'') = None"
  by (rule kelvin_sign_panics) code_simp+

end
