(* ===== verification/AuthCooldown.thy ===== *)
theory AuthCooldown
  imports Prelude "HOL-Library.AList"
begin

text \<open>
  The provider circuit breaker, \<open>crates/librefang-runtime/src/auth_cooldown.rs\<close>, and its
  calls from \<open>crates/librefang-runtime/src/agent_loop.rs\<close>.

  The map of provider states is an association list, whose order stands for the iteration order
  of the \<open>DashMap\<close>. Durations are nanoseconds; \<open>Instant::elapsed\<close> saturates at zero.
  The floating-point product \<open>(base as f64 * multiplier.powi(exponent)) as u64\<close> is the
  argument \<open>scale\<close>.
\<close>

section \<open>Data\<close>

record cooldown_config =
  base_cooldown_secs :: u64
  max_cooldown_secs :: u64
  backoff_multiplier :: f64
  max_exponent :: u32
  billing_base_cooldown_secs :: u64
  billing_max_cooldown_secs :: u64
  billing_multiplier :: f64
  failure_window_secs :: u64
  probe_enabled :: bool
  probe_interval_secs :: u64

definition default_cooldown_config :: cooldown_config where
  "default_cooldown_config = \<lparr>base_cooldown_secs = 60, max_cooldown_secs = 3600,
     backoff_multiplier = Finite 5, max_exponent = 3, billing_base_cooldown_secs = 18000,
     billing_max_cooldown_secs = 86400, billing_multiplier = Finite 2, failure_window_secs = 86400,
     probe_enabled = True, probe_interval_secs = 30\<rparr>"

datatype circuit_state = Closed | Open | HalfOpen

record provider_state =
  error_count :: u32
  is_billing :: bool
  cooldown_start :: "instant option"
  cooldown_duration :: int
  last_probe :: "instant option"
  total_errors_in_window :: u32
  window_start :: "instant option"

definition new_provider_state :: provider_state where
  "new_provider_state = \<lparr>error_count = 0, is_billing = False, cooldown_start = None,
     cooldown_duration = 0, last_probe = None, total_errors_in_window = 0, window_start = None\<rparr>"

datatype cooldown_reason = BillingCooldown u32 | ErrorCooldown u32

datatype cooldown_verdict = Allow | AllowProbe | Reject cooldown_reason u64

record provider_snapshot =
  snap_provider :: string
  snap_state :: circuit_state
  snap_error_count :: u32
  snap_is_billing :: bool
  cooldown_remaining_secs :: "u64 option"

record auth_profile =
  profile_name :: string
  api_key_env :: string
  priority :: u32

record provider_cooldown =
  cd_config :: cooldown_config
  states :: "(string \<times> provider_state) list"

type_synonym scale = "u64 \<Rightarrow> f64 \<Rightarrow> u32 \<Rightarrow> u64"

section \<open>Operations\<close>

definition from_secs :: "u64 \<Rightarrow> int" where
  "from_secs s = uint s * 1000000000"

definition as_secs :: "int \<Rightarrow> u64" where
  "as_secs d = word_of_int (d div 1000000000)"

definition elapsed :: "instant \<Rightarrow> instant \<Rightarrow> int" where
  "elapsed now start = max 0 (now - start)"

definition calculate_cooldown :: "scale \<Rightarrow> cooldown_config \<Rightarrow> u32 \<Rightarrow> bool \<Rightarrow> int" where
  "calculate_cooldown scale cfg errors billing =
     (if billing then
        let exponent = min (sat_sub errors 1) 10;
            secs = scale (billing_base_cooldown_secs cfg) (billing_multiplier cfg) exponent
        in from_secs (min secs (billing_max_cooldown_secs cfg))
      else
        let exponent = min (sat_sub errors 1) (max_exponent cfg);
            secs = scale (base_cooldown_secs cfg) (backoff_multiplier cfg) exponent
        in from_secs (min secs (max_cooldown_secs cfg)))"

definition new_cooldown :: "cooldown_config \<Rightarrow> provider_cooldown" where
  "new_cooldown cfg = \<lparr>cd_config = cfg, states = []\<rparr>"

definition check_cooldown :: "provider_cooldown \<Rightarrow> instant \<Rightarrow> string \<Rightarrow> cooldown_verdict" where
  "check_cooldown cb now provider =
     (case map_of (states cb) provider of
        None \<Rightarrow> Allow
      | Some st \<Rightarrow>
          (case cooldown_start st of
             None \<Rightarrow> Allow
           | Some start \<Rightarrow>
               if elapsed now start < cooldown_duration st then
                 let remaining = cooldown_duration st - elapsed now start;
                     probe_ok = (case last_probe st of
                         Some l \<Rightarrow> elapsed now l \<ge> from_secs (probe_interval_secs (cd_config cb))
                       | None \<Rightarrow> True)
                 in if probe_enabled (cd_config cb) \<and> probe_ok then AllowProbe
                    else Reject (if is_billing st then BillingCooldown (error_count st)
                                 else ErrorCooldown (error_count st))
                           (as_secs remaining)
               else AllowProbe))"

definition put_state :: "string \<Rightarrow> provider_state \<Rightarrow> provider_cooldown \<Rightarrow> provider_cooldown" where
  "put_state p st cb = cb\<lparr>states := AList.update p st (states cb)\<rparr>"

definition record_success :: "provider_cooldown \<Rightarrow> string \<Rightarrow> provider_cooldown" where
  "record_success cb provider =
     (case map_of (states cb) provider of
        Some st \<Rightarrow> put_state provider
          (st\<lparr>error_count := 0, is_billing := False, cooldown_start := None,
              cooldown_duration := 0, last_probe := None\<rparr>) cb
      | None \<Rightarrow> cb)"

definition open_circuit :: "scale \<Rightarrow> cooldown_config \<Rightarrow> instant \<Rightarrow> bool \<Rightarrow> provider_state \<Rightarrow> provider_state" where
  "open_circuit scale cfg now billing st =
     (let n = sat_add (error_count st) 1
      in st\<lparr>error_count := n, is_billing := billing, cooldown_start := Some now,
            cooldown_duration := calculate_cooldown scale cfg n billing\<rparr>)"

definition roll_window :: "cooldown_config \<Rightarrow> instant \<Rightarrow> provider_state \<Rightarrow> provider_state" where
  "roll_window cfg now st =
     (case window_start st of
        Some ws \<Rightarrow>
          if elapsed now ws \<ge> from_secs (failure_window_secs cfg)
          then st\<lparr>total_errors_in_window := 0, window_start := Some now\<rparr> else st
      | None \<Rightarrow> st\<lparr>window_start := Some now\<rparr>)"

definition state_or_new :: "provider_cooldown \<Rightarrow> string \<Rightarrow> provider_state" where
  "state_or_new cb p = (case map_of (states cb) p of Some st \<Rightarrow> st | None \<Rightarrow> new_provider_state)"

definition record_failure ::
  "scale \<Rightarrow> provider_cooldown \<Rightarrow> instant \<Rightarrow> string \<Rightarrow> bool \<Rightarrow> provider_cooldown" where
  "record_failure scale cb now provider billing =
     (let st = roll_window (cd_config cb) now (state_or_new cb provider);
          st' = st\<lparr>total_errors_in_window := sat_add (total_errors_in_window st) 1\<rparr>
      in put_state provider (open_circuit scale (cd_config cb) now billing st') cb)"

definition record_probe_result ::
  "scale \<Rightarrow> provider_cooldown \<Rightarrow> instant \<Rightarrow> string \<Rightarrow> bool \<Rightarrow> provider_cooldown" where
  "record_probe_result scale cb now provider success =
     (if success then record_success cb provider
      else case map_of (states cb) provider of
             Some st \<Rightarrow> put_state provider
               (open_circuit scale (cd_config cb) now (is_billing st) (st\<lparr>last_probe := Some now\<rparr>)) cb
           | None \<Rightarrow> cb)"

definition circuit_of :: "instant \<Rightarrow> provider_state \<Rightarrow> circuit_state" where
  "circuit_of now st =
     (case cooldown_start st of
        None \<Rightarrow> Closed
      | Some start \<Rightarrow>
          if elapsed now start < cooldown_duration st then Open
          else if error_count st > 0 then HalfOpen else Closed)"

definition get_state :: "provider_cooldown \<Rightarrow> instant \<Rightarrow> string \<Rightarrow> circuit_state" where
  "get_state cb now provider =
     (case map_of (states cb) provider of None \<Rightarrow> Closed | Some st \<Rightarrow> circuit_of now st)"

definition snapshot :: "provider_cooldown \<Rightarrow> instant \<Rightarrow> provider_snapshot list" where
  "snapshot cb now =
     map (\<lambda>(p, st).
       \<lparr>snap_provider = p, snap_state = circuit_of now st, snap_error_count = error_count st,
        snap_is_billing = is_billing st,
        cooldown_remaining_secs =
          (case cooldown_start st of
             Some start \<Rightarrow>
               if elapsed now start < cooldown_duration st
               then Some (as_secs (cooldown_duration st - elapsed now start)) else None
           | None \<Rightarrow> None)\<rparr>) (states cb)"

definition is_expired :: "instant \<Rightarrow> provider_state \<Rightarrow> bool" where
  "is_expired now st =
     (case cooldown_start st of
        Some start \<Rightarrow> elapsed now start \<ge> cooldown_duration st \<and> error_count st = 0
      | None \<Rightarrow> False)"

definition clear_expired :: "provider_cooldown \<Rightarrow> instant \<Rightarrow> provider_cooldown" where
  "clear_expired cb now = cb\<lparr>states := filter (\<lambda>(_, st). \<not> is_expired now st) (states cb)\<rparr>"

definition force_reset :: "provider_cooldown \<Rightarrow> string \<Rightarrow> provider_cooldown" where
  "force_reset cb provider = cb\<lparr>states := AList.delete provider (states cb)\<rparr>"

definition profile_key :: "string \<Rightarrow> string \<Rightarrow> string" where
  "profile_key provider name = provider @ ''::'' @ name"

definition in_cooldown :: "provider_cooldown \<Rightarrow> instant \<Rightarrow> string \<Rightarrow> bool" where
  "in_cooldown cb now key =
     (case map_of (states cb) key of
        None \<Rightarrow> False
      | Some st \<Rightarrow>
          (case cooldown_start st of
             Some start \<Rightarrow> elapsed now start < cooldown_duration st
           | None \<Rightarrow> False))"

definition select_profile ::
  "provider_cooldown \<Rightarrow> instant \<Rightarrow> string \<Rightarrow> auth_profile list \<Rightarrow> (string \<times> string) option" where
  "select_profile cb now provider profiles =
     (case profiles of
        [] \<Rightarrow> None
      | first # _ \<Rightarrow>
          (case find (\<lambda>p. \<not> in_cooldown cb now (profile_key provider (profile_name p)))
                  (sort_key priority profiles) of
             Some p \<Rightarrow> Some (profile_name p, api_key_env p)
           | None \<Rightarrow> Some (profile_name first, api_key_env first)))"

definition advance_profile ::
  "scale \<Rightarrow> provider_cooldown \<Rightarrow> instant \<Rightarrow> string \<Rightarrow> string \<Rightarrow> bool \<Rightarrow> provider_cooldown" where
  "advance_profile scale cb now provider failed_profile billing =
     (let key = profile_key provider failed_profile
      in put_state key (open_circuit scale (cd_config cb) now billing (state_or_new cb key)) cb)"

text \<open>\<open>agent_loop.rs\<close>: what the retry loop does with the breaker.\<close>

definition check_retry_cooldown ::
  "provider_cooldown option \<Rightarrow> instant \<Rightarrow> string option \<Rightarrow> (string \<times> cooldown_reason \<times> u64) + unit" where
  "check_retry_cooldown cooldown now provider =
     (case (provider, cooldown) of
        (Some p, Some cb) \<Rightarrow>
          (case check_cooldown cb now p of
             Reject reason secs \<Rightarrow> Inl (p, reason, secs)
           | AllowProbe \<Rightarrow> Inr ()
           | Allow \<Rightarrow> Inr ())
      | _ \<Rightarrow> Inr ())"

text \<open>The operations on the breaker, as events with the time they happen at.\<close>

datatype cooldown_op =
    RetrySuccess string
  | RetryFailure string bool
  | ProbeResult string bool
  | AdvanceProfile string string bool
  | ClearExpired
  | ForceReset string

definition exec_cooldown ::
  "scale \<Rightarrow> provider_cooldown \<Rightarrow> instant \<times> cooldown_op \<Rightarrow> provider_cooldown" where
  "exec_cooldown scale cb e =
     (case snd e of
        RetrySuccess p \<Rightarrow> record_success cb p
      | RetryFailure p b \<Rightarrow> record_failure scale cb (fst e) p b
      | ProbeResult p ok \<Rightarrow> record_probe_result scale cb (fst e) p ok
      | AdvanceProfile p n b \<Rightarrow> advance_profile scale cb (fst e) p n b
      | ClearExpired \<Rightarrow> clear_expired cb (fst e)
      | ForceReset p \<Rightarrow> force_reset cb p)"

section \<open>Invariant\<close>

interpretation breaker_store: keyed_store "\<lambda>cb p. map_of (states cb) p" put_state
  "\<lambda>p cb. force_reset cb p"
  by unfold_locales (auto simp: put_state_def force_reset_def update_conv' delete_conv')

definition state_ok :: "cooldown_config \<Rightarrow> provider_state \<Rightarrow> bool" where
  "state_ok cfg st \<longleftrightarrow>
     (cooldown_start st = None \<longleftrightarrow> error_count st = 0)
     \<and> 0 \<le> cooldown_duration st
     \<and> cooldown_duration st \<le> from_secs (max (max_cooldown_secs cfg) (billing_max_cooldown_secs cfg))"

definition breaker_ok :: "cooldown_config \<Rightarrow> provider_cooldown \<Rightarrow> bool" where
  "breaker_ok cfg cb \<longleftrightarrow>
     cd_config cb = cfg \<and> distinct (map fst (states cb))
     \<and> (\<forall>p st. map_of (states cb) p = Some st \<longrightarrow> state_ok cfg st)"

lemma from_secs_mono: "a \<le> b \<Longrightarrow> from_secs a \<le> from_secs b"
  by (simp add: from_secs_def word_le_def)

lemma calculate_cooldown_bounds:
  "0 \<le> calculate_cooldown scale cfg n b"
  "calculate_cooldown scale cfg n b \<le> from_secs (if b then billing_max_cooldown_secs cfg else max_cooldown_secs cfg)"
  by (auto simp: calculate_cooldown_def Let_def from_secs_mono) (simp_all add: from_secs_def)

lemma sat_add_one_nonzero: "sat_add (n :: u32) 1 \<noteq> 0"
proof
  assume "sat_add n 1 = 0"
  then have "unat (sat_add n 1) = 0"
    by simp
  then show False
    by (simp add: unat_sat_add)
qed

lemma open_circuit_ok: "state_ok cfg (open_circuit scale cfg now b st)"
proof -
  have "from_secs (if b then billing_max_cooldown_secs cfg else max_cooldown_secs cfg)
      \<le> from_secs (max (max_cooldown_secs cfg) (billing_max_cooldown_secs cfg))"
    by (rule from_secs_mono) auto
  then show ?thesis
    using calculate_cooldown_bounds[of scale cfg "sat_add (error_count st) 1" b]
    by (auto simp: state_ok_def open_circuit_def Let_def sat_add_one_nonzero simp del: max_def)
qed

lemma breaker_ok_put:
  "breaker_ok cfg cb \<Longrightarrow> state_ok cfg st \<Longrightarrow> breaker_ok cfg (put_state p st cb)"
  unfolding breaker_ok_def by (auto simp: breaker_store.lookup_put split: if_splits)
    (simp_all add: put_state_def distinct_update)

lemma breaker_ok_filter:
  assumes "breaker_ok cfg cb"
  shows "breaker_ok cfg (cb\<lparr>states := filter P (states cb)\<rparr>)"
proof -
  have "map_of (filter P xs) p = Some st \<Longrightarrow> distinct (map fst xs) \<Longrightarrow> map_of xs p = Some st"
    for xs :: "(string \<times> provider_state) list" and p st
    by (meson filter_is_subset map_of_SomeD map_of_eq_Some_iff subsetD)
  then show ?thesis
    using assms by (auto simp: breaker_ok_def distinct_map_filter)
qed

lemma delete_filter: "AList.delete k xs = filter (\<lambda>(k', _). k \<noteq> k') xs"
  by (simp add: AList.delete_eq)

lemma exec_cooldown_ok: "breaker_ok cfg cb \<Longrightarrow> breaker_ok cfg (exec_cooldown scale cb e)"
proof -
  assume ok: "breaker_ok cfg cb"
  then have cfg: "cd_config cb = cfg"
    by (simp add: breaker_ok_def)
  have "state_ok cfg (st\<lparr>error_count := 0, is_billing := False, cooldown_start := None,
      cooldown_duration := 0, last_probe := None\<rparr>)" for st
    by (simp add: state_ok_def from_secs_def)
  then have "breaker_ok cfg (record_success cb p)" for p
    using ok by (auto simp: record_success_def breaker_ok_put split: option.splits)
  then show ?thesis
    using ok by (auto simp: exec_cooldown_def record_failure_def record_probe_result_def
        advance_profile_def clear_expired_def force_reset_def delete_filter Let_def cfg
        breaker_ok_put breaker_ok_filter open_circuit_ok split: cooldown_op.splits option.splits)
qed

interpretation cooldown_machine: invariant_machine "exec_cooldown scale" "breaker_ok cfg" for scale cfg
  by unfold_locales (rule exec_cooldown_ok)

lemma breaker_ok_new: "breaker_ok cfg (new_cooldown cfg)"
  by (simp add: breaker_ok_def new_cooldown_def)

lemmas breaker_run_ok = cooldown_machine.inv_run[OF breaker_ok_new]

definition unprobed :: "provider_cooldown \<Rightarrow> bool" where
  "unprobed cb \<longleftrightarrow> (\<forall>p st. map_of (states cb) p = Some st \<longrightarrow> last_probe st = None)"

lemma unprobed_put: "unprobed cb \<Longrightarrow> last_probe st = None \<Longrightarrow> unprobed (put_state p st cb)"
  by (auto simp: unprobed_def breaker_store.lookup_put split: if_splits)

lemma unprobed_exec:
  assumes "unprobed cb" "breaker_ok cfg cb" "\<And>p ok. snd e \<noteq> ProbeResult p ok"
  shows "unprobed (exec_cooldown scale cb e)"
proof -
  have same: "last_probe (open_circuit scale c now b st) = last_probe st"
    "last_probe (roll_window c now st) = last_probe st" for c now b st
    by (auto simp: open_circuit_def roll_window_def Let_def split: option.splits)
  have new: "last_probe (state_or_new cb p) = None" for p
    using assms(1) by (auto simp: unprobed_def state_or_new_def new_provider_state_def split: option.splits)
  have "map_of (filter P (states cb)) p = Some st \<Longrightarrow> map_of (states cb) p = Some st" for P p st
    using assms(2) by (auto simp: breaker_ok_def)
      (meson filter_is_subset map_of_SomeD map_of_eq_Some_iff subsetD)
  then have filt: "unprobed (cb\<lparr>states := filter P (states cb)\<rparr>)" for P
    using assms(1) by (fastforce simp: unprobed_def)
  show ?thesis
    using assms(1,3) filt
    by (auto simp: exec_cooldown_def record_failure_def record_success_def advance_profile_def
        clear_expired_def force_reset_def delete_filter Let_def same new unprobed_put
        split: cooldown_op.splits option.splits)
qed

lemma unprobed_run:
  assumes "\<And>e p ok. e \<in> set es \<Longrightarrow> snd e \<noteq> ProbeResult p ok"
  shows "unprobed (foldl (exec_cooldown scale) (new_cooldown cfg) es)"
  using assms
proof (induction es rule: rev_induct)
  case Nil
  then show ?case by (simp add: unprobed_def new_cooldown_def)
next
  case (snoc e es)
  then have "unprobed (foldl (exec_cooldown scale) (new_cooldown cfg) es)"
    by simp
  then show ?case
    using snoc.prems unprobed_exec[OF _ breaker_run_ok] by simp
qed

lemma run_config: "cd_config (foldl (exec_cooldown scale) (new_cooldown cfg) es) = cfg"
  using breaker_run_ok[of cfg scale es] by (simp add: breaker_ok_def)

section \<open>Properties\<close>

text \<open>
  With probing enabled, which is the default, the breaker never rejects a request. The
  retry loop records successes and failures but never the result of a probe, and a provider with
  no recorded probe is always allowed one: however many failures came before, the check passes.
\<close>
theorem breaker_never_rejects:
  assumes "probe_enabled cfg" "\<forall>e \<in> set es. \<forall>p ok. snd e \<noteq> ProbeResult p ok"
  shows "check_retry_cooldown (Some (foldl (exec_cooldown scale) (new_cooldown cfg) es)) now provider = Inr ()"
proof (cases provider)
  case (Some p)
  let ?cb = "foldl (exec_cooldown scale) (new_cooldown cfg) es"
  have "unprobed ?cb"
    using assms(2) by (intro unprobed_run) blast
  then have "check_cooldown ?cb now p \<in> {Allow, AllowProbe}"
    using assms(1) by (auto simp: check_cooldown_def unprobed_def run_config Let_def split: option.splits)
  with Some show ?thesis
    by (auto simp: check_retry_cooldown_def)
qed (simp add: check_retry_cooldown_def)

theorem breaker_never_rejects_witness:
  "check_retry_cooldown (Some (foldl (exec_cooldown (\<lambda>b _ _. b)) (new_cooldown default_cooldown_config)
     [(0, RetryFailure ''openai'' True), (1, RetryFailure ''openai'' True)])) 2 (Some ''openai'') = Inr ()"
  by (rule breaker_never_rejects) (simp_all add: default_cooldown_config_def)

text \<open>
  A rejection is justified and bounded: the circuit of the provider is open, and the time to
  wait is at most the larger of the two configured maxima.
\<close>
theorem rejection_is_bounded:
  assumes "check_cooldown (foldl (exec_cooldown scale) (new_cooldown cfg) es) now p = Reject reason secs"
  shows "get_state (foldl (exec_cooldown scale) (new_cooldown cfg) es) now p = Open
       \<and> secs \<le> max (max_cooldown_secs cfg) (billing_max_cooldown_secs cfg)"
proof -
  let ?cb = "foldl (exec_cooldown scale) (new_cooldown cfg) es"
  let ?m = "max (max_cooldown_secs cfg) (billing_max_cooldown_secs cfg)"
  from assms obtain st start where st: "map_of (states ?cb) p = Some st" "cooldown_start st = Some start"
    "elapsed now start < cooldown_duration st"
    "secs = as_secs (cooldown_duration st - elapsed now start)"
    by (auto simp: check_cooldown_def Let_def split: option.splits if_splits)
  let ?r = "cooldown_duration st - elapsed now start"
  have "cooldown_duration st \<le> from_secs ?m"
    using breaker_run_ok[of cfg scale es] st(1) unfolding breaker_ok_def state_ok_def by blast
  then have "0 \<le> ?r div 1000000000" "?r div 1000000000 \<le> uint ?m"
    using st(3) by (auto simp: from_secs_def elapsed_def pos_imp_zdiv_nonneg_iff
        intro!: zdiv_mono1[of _ "uint ?m * 1000000000" 1000000000, simplified])
  then have "uint (as_secs ?r) \<le> uint ?m"
    using take_bit_int_less_eq_self_iff[of 64 "?r div 1000000000"]
    by (simp add: as_secs_def uint_word_of_int_eq)
  then have "secs \<le> ?m"
    by (simp add: st(4) word_le_def)
  then show ?thesis
    using st by (simp add: get_state_def circuit_of_def)
qed

theorem rejection_is_bounded_witness:
  "let cfg = default_cooldown_config\<lparr>probe_enabled := False\<rparr>;
       cb = foldl (exec_cooldown (\<lambda>b _ _. b)) (new_cooldown cfg) [(0, RetryFailure ''openai'' False)]
   in get_state cb 1 ''openai'' = Open \<and> (59 :: u64) \<le> max (max_cooldown_secs cfg) (billing_max_cooldown_secs cfg)"
proof -
  let ?cfg = "default_cooldown_config\<lparr>probe_enabled := False\<rparr>"
  let ?cb = "foldl (exec_cooldown (\<lambda>b _ _. b)) (new_cooldown ?cfg) [(0, RetryFailure ''openai'' False)]"
  have "check_cooldown ?cb 1 ''openai'' = Reject (ErrorCooldown 1) 59"
    by (simp add: check_cooldown_def exec_cooldown_def record_failure_def put_state_def
        open_circuit_def roll_window_def state_or_new_def new_provider_state_def new_cooldown_def
        calculate_cooldown_def default_cooldown_config_def Let_def from_secs_def as_secs_def
        elapsed_def sat_add_def sat_sub_def)
  then show ?thesis
    unfolding Let_def by (rule rejection_is_bounded)
qed

text \<open>
  The periodic \<open>clear_expired\<close> never clears anything: an entry with a cooldown has a
  positive error count, so no reachable entry satisfies its test.
\<close>
theorem clear_expired_never_clears:
  "clear_expired (foldl (exec_cooldown scale) (new_cooldown cfg) es) now =
   foldl (exec_cooldown scale) (new_cooldown cfg) es"
proof -
  let ?cb = "foldl (exec_cooldown scale) (new_cooldown cfg) es"
  have "\<not> is_expired now st" if "(p, st) \<in> set (states ?cb)" for p st
  proof -
    from that have "map_of (states ?cb) p = Some st"
      using breaker_run_ok[of cfg scale es] by (simp add: breaker_ok_def)
    then have "state_ok cfg st"
      using breaker_run_ok[of cfg scale es] unfolding breaker_ok_def by blast
    then show ?thesis
      by (auto simp: is_expired_def state_ok_def split: option.splits)
  qed
  then have "filter (\<lambda>(_, st). \<not> is_expired now st) (states ?cb) = states ?cb"
    by (auto simp: filter_id_conv)
  then show ?thesis by (simp add: clear_expired_def)
qed

text \<open>
  Where some profile is out of cooldown, \<open>select_profile\<close> returns one that is, and no
  profile out of cooldown has a lower priority number.
\<close>
theorem select_profile_best:
  assumes "q \<in> set profiles" "\<not> in_cooldown cb now (profile_key provider (profile_name q))"
  shows "\<exists>p \<in> set profiles.
           select_profile cb now provider profiles = Some (profile_name p, api_key_env p)
           \<and> \<not> in_cooldown cb now (profile_key provider (profile_name p)) \<and> priority p \<le> priority q"
proof -
  let ?ok = "\<lambda>p. \<not> in_cooldown cb now (profile_key provider (profile_name p))"
  obtain p where p: "find ?ok (sort_key priority profiles) = Some p"
    using assms by (cases "find ?ok (sort_key priority profiles)") (auto simp: find_None_iff)
  then obtain i where i: "i < length (sort_key priority profiles)" "?ok p"
    "p = sort_key priority profiles ! i" "\<forall>j < i. \<not> ?ok (sort_key priority profiles ! j)"
    by (auto simp: find_Some_iff)
  from assms(1) obtain k where k: "k < length (sort_key priority profiles)" "sort_key priority profiles ! k = q"
    by (metis in_set_conv_nth set_sort)
  with i assms(2) have "i \<le> k"
    by (metis not_le)
  then have "priority p \<le> priority q"
    using sorted_nth_mono[of "map priority (sort_key priority profiles)" i k] k i(1,3) by simp
  moreover have "p \<in> set profiles"
    using i(1,3) by (metis nth_mem set_sort)
  moreover have "select_profile cb now provider profiles = Some (profile_name p, api_key_env p)"
    using p assms(1) by (cases profiles) (auto simp: select_profile_def)
  ultimately show ?thesis
    using i(2) by blast
qed

theorem select_profile_best_witness:
  "let cb = advance_profile (\<lambda>b _ _. b) (new_cooldown default_cooldown_config) 0 ''openai'' ''a'' False;
       ps = [\<lparr>profile_name = ''a'', api_key_env = ''A'', priority = 0\<rparr>,
             \<lparr>profile_name = ''b'', api_key_env = ''B'', priority = 1\<rparr>]
   in \<exists>p \<in> set ps. select_profile cb 5 ''openai'' ps = Some (profile_name p, api_key_env p)
        \<and> \<not> in_cooldown cb 5 (profile_key ''openai'' (profile_name p)) \<and> priority p \<le> 1"
  using select_profile_best[of "\<lparr>profile_name = ''b'', api_key_env = ''B'', priority = 1\<rparr>"
      "[\<lparr>profile_name = ''a'', api_key_env = ''A'', priority = 0\<rparr>,
        \<lparr>profile_name = ''b'', api_key_env = ''B'', priority = 1\<rparr>]"
      "advance_profile (\<lambda>b _ _. b) (new_cooldown default_cooldown_config) 0 ''openai'' ''a'' False"
      5 "''openai''"]
  by (simp add: Let_def in_cooldown_def profile_key_def advance_profile_def put_state_def
      new_cooldown_def)

end
