(* ===== verification/ToolPolicy.thy ===== *)
theory ToolPolicy
  imports Capability
begin

text \<open>
  Tool access rules, \<open>crates/librefang-runtime/src/tool_policy.rs\<close>, on the data types of
  \<open>crates/librefang-types/src/tool_policy.rs\<close>: glob matching, groups, deny-wins resolution and
  the tools of a subagent.
\<close>

section \<open>Data\<close>

datatype policy_effect = AllowTool | DenyTool

record tool_policy_rule =
  pattern :: string
  effect :: policy_effect

record tool_group =
  group_name :: string
  tools :: "string list"

record tool_policy =
  agent_rules :: "tool_policy_rule list"
  global_rules :: "tool_policy_rule list"
  groups :: "tool_group list"
  subagent_max_depth :: u32
  subagent_max_concurrent :: u32

definition default_tool_policy :: tool_policy where
  "default_tool_policy = \<lparr>agent_rules = [], global_rules = [], groups = [], subagent_max_depth = 10,
     subagent_max_concurrent = 5\<rparr>"

definition policy_is_empty :: "tool_policy \<Rightarrow> bool" where
  "policy_is_empty p \<longleftrightarrow> agent_rules p = [] \<and> global_rules p = []"

datatype denial_source = AgentRule | GlobalRule | ImplicitDeny

datatype tool_access_result =
    Allowed
  | ToolDenied string denial_source
  | DepthExceeded u32 u32

section \<open>Operations\<close>

text \<open>The parts after the first one, matched greedily in what is left of the text.\<close>

fun glob_rest :: "string list \<Rightarrow> string \<Rightarrow> bool" where
  "glob_rest [] rest \<longleftrightarrow> True"
| "glob_rest [part] rest \<longleftrightarrow> part = [] \<or> ends_with part rest"
| "glob_rest (part # part2 # parts) rest \<longleftrightarrow>
     (if part = [] then glob_rest (part2 # parts) rest
      else case find_str part rest of
             Some found \<Rightarrow> glob_rest (part2 # parts) (drop (found + length part) rest)
           | None \<Rightarrow> False)"

definition glob_match :: "string \<Rightarrow> string \<Rightarrow> bool" where
  "glob_match pat text =
     (if pat = [star] then True
      else if star \<notin> set pat then pat = text
      else case split_on (\<lambda>c. c = star) pat of
             [prefix, suffix] \<Rightarrow>
               starts_with prefix text \<and> ends_with suffix text
               \<and> length text \<ge> length prefix + length suffix
           | part # parts \<Rightarrow>
               if part = [] then glob_rest parts text
               else starts_with part text \<and> glob_rest parts (drop (length part) text)
           | [] \<Rightarrow> True)"

definition is_subagent_tool :: "string \<Rightarrow> bool" where
  "is_subagent_tool name \<longleftrightarrow> name \<in> {''agent_spawn'', ''agent_call'', ''spawn_agent''}"

definition expand_groups :: "string \<Rightarrow> tool_group list \<Rightarrow> string list" where
  "expand_groups tool gs =
     tool # concat (map (\<lambda>g. map (\<lambda>_. CHR ''@'' # group_name g) (filter (\<lambda>p. glob_match p tool) (tools g))) gs)"

definition matches_pattern :: "string \<Rightarrow> string \<Rightarrow> string list \<Rightarrow> bool" where
  "matches_pattern pat tool expanded =
     (if glob_match pat tool then True
      else if starts_with ''@'' pat then pat \<in> set expanded
      else False)"

definition find_deny :: "tool_policy_rule list \<Rightarrow> string \<Rightarrow> string list \<Rightarrow> tool_policy_rule option" where
  "find_deny rules tool expanded =
     find (\<lambda>r. effect r = DenyTool \<and> matches_pattern (pattern r) tool expanded) rules"

definition any_allow :: "tool_policy_rule list \<Rightarrow> string \<Rightarrow> string list \<Rightarrow> bool" where
  "any_allow rules tool expanded =
     list_ex (\<lambda>r. effect r = AllowTool \<and> matches_pattern (pattern r) tool expanded) rules"

definition resolve_tool_access :: "string \<Rightarrow> tool_policy \<Rightarrow> u32 \<Rightarrow> tool_access_result" where
  "resolve_tool_access tool policy depth =
     (if is_subagent_tool tool \<and> depth > subagent_max_depth policy
      then DepthExceeded depth (subagent_max_depth policy)
      else
        let expanded = expand_groups tool (groups policy)
        in case find_deny (agent_rules policy) tool expanded of
             Some r \<Rightarrow> ToolDenied (pattern r) AgentRule
           | None \<Rightarrow>
               (case find_deny (global_rules policy) tool expanded of
                  Some r \<Rightarrow> ToolDenied (pattern r) GlobalRule
                | None \<Rightarrow>
                    if list_ex (\<lambda>r. effect r = AllowTool) (agent_rules policy)
                       \<or> list_ex (\<lambda>r. effect r = AllowTool) (global_rules policy)
                    then if any_allow (agent_rules policy) tool expanded
                            \<or> any_allow (global_rules policy) tool expanded
                         then Allowed
                         else ToolDenied ''(not in any allow list)'' ImplicitDeny
                    else Allowed))"

definition SUBAGENT_DENY_ALWAYS :: "string list" where
  "SUBAGENT_DENY_ALWAYS =
     [''cron_create'', ''cron_cancel'', ''schedule_create'', ''schedule_delete'', ''hand_activate'',
      ''hand_deactivate'', ''process_start'']"

definition SUBAGENT_DENY_LEAF :: "string list" where
  "SUBAGENT_DENY_LEAF = [''agent_spawn'', ''agent_kill'']"

definition filter_tools_by_depth :: "string list \<Rightarrow> u32 \<Rightarrow> u32 \<Rightarrow> string list" where
  "filter_tools_by_depth ts depth max_depth =
     (if depth = 0 then ts
      else let is_leaf = (max_depth > 0 \<and> depth \<ge> sat_sub max_depth 1)
           in filter (\<lambda>n. n \<notin> set SUBAGENT_DENY_ALWAYS \<and> \<not> (is_leaf \<and> n \<in> set SUBAGENT_DENY_LEAF)) ts)"

section \<open>Greedy matching\<close>

lemma wild_star_extend: "wild_match (star # p) w \<Longrightarrow> wild_match (star # p) (u @ w)"
  by (auto simp: wild_match_star) (metis append.assoc)

lemma find_str_leftmost:
  assumes "s = u @ m @ w"
  obtains k v where "find_str m s = Some k" "drop (k + length m) s = v @ w"
proof -
  have "contains_str m s"
    using assms by (auto simp: contains_str_iff)
  then obtain k where k: "find_str m s = Some k"
    using find_str_None[of m s] by (cases "find_str m s") auto
  have "\<not> length u < k"
    using find_str_Some(3)[OF k, of "length u"] assms by (auto simp: starts_with_iff)
  then have "drop (k + length m) s = drop (k + length m) (u @ m) @ w"
    using assms by (simp add: drop_append)
  with k that show thesis by blast
qed

lemma glob_rest_exact:
  assumes "parts \<noteq> []" "\<forall>p \<in> set parts. star \<notin> set p"
  shows "glob_rest parts rest \<longleftrightarrow> wild_match (star # join_with star parts) rest"
  using assms
proof (induction parts rest rule: glob_rest.induct)
  case (1 rest)
  then show ?case by simp
next
  case (2 part rest)
  then show ?case
    by (auto simp: wild_match_star wild_match_literal ends_with_iff)
next
  case (3 part part2 parts rest)
  let ?J = "star # join_with star (part2 # parts)"
  have split: "wild_match (star # join_with star (part # part2 # parts)) s \<longleftrightarrow>
      (\<exists>u w. s = u @ part @ w \<and> wild_match ?J w)" for s
    using 3(4) by (simp add: wild_match_star[of "part @ _"] wild_match_literal_append) blast
  show ?case
  proof (cases "part = []")
    case True
    then have "glob_rest (part # part2 # parts) rest \<longleftrightarrow> wild_match ?J rest"
      using 3 by simp
    also have "\<dots> \<longleftrightarrow> (\<exists>u w. rest = u @ part @ w \<and> wild_match ?J w)"
      using True wild_star_extend by (metis append_Nil)
    finally show ?thesis by (simp only: split)
  next
    case False
    have IH: "find_str part rest = Some k \<Longrightarrow>
        glob_rest (part2 # parts) (drop (k + length part) rest) \<longleftrightarrow> wild_match ?J (drop (k + length part) rest)" for k
      using 3 False by simp
    show ?thesis
      unfolding split
    proof
      assume "glob_rest (part # part2 # parts) rest"
      then obtain k where k: "find_str part rest = Some k" "wild_match ?J (drop (k + length part) rest)"
        using False IH by (auto split: option.splits)
      moreover from find_str_Some(1)[OF k(1)] have "rest = take k rest @ part @ drop (k + length part) rest"
        by (metis add.commute append_eq_conv_conj append_take_drop_id drop_drop starts_with_iff)
      ultimately show "\<exists>u w. rest = u @ part @ w \<and> wild_match ?J w"
        by blast
    next
      assume "\<exists>u w. rest = u @ part @ w \<and> wild_match ?J w"
      then obtain u w where w: "rest = u @ part @ w" "wild_match ?J w"
        by blast
      obtain k v where "find_str part rest = Some k" "drop (k + length part) rest = v @ w"
        using find_str_leftmost[OF w(1)] .
      with False IH w(2) wild_star_extend show "glob_rest (part # part2 # parts) rest"
        by simp
    qed
  qed
qed

lemma glob_match_parts:
  assumes "star \<in> set pat"
  obtains part parts where "split_on (\<lambda>c. c = star) pat = part # parts" "parts \<noteq> []"
    "pat = part @ star # join_with star parts" "\<forall>p \<in> set (part # parts). star \<notin> set p"
proof -
  let ?ps = "split_on (\<lambda>c. c = star) pat"
  have free: "\<forall>p \<in> set ?ps. star \<notin> set p"
    using split_on_segments[of _ "\<lambda>c. c = star" pat star] by blast
  obtain part parts where ps: "?ps = part # parts"
    by (metis split_on_not_Nil neq_Nil_conv)
  have ne: "parts \<noteq> []"
  proof
    assume "parts = []"
    with ps join_split_on[of star pat] have "pat = part"
      by simp
    with ps free assms show False by simp
  qed
  moreover have "pat = part @ star # join_with star parts"
    using ps ne join_split_on[of star pat] by (simp add: join_with_Cons)
  ultimately show thesis
    using that ps free by simp
qed

lemma both_ends:
  "starts_with a v \<and> ends_with b v \<and> length v \<ge> length a + length b \<longleftrightarrow>
   (\<exists>w. v = a @ w \<and> ends_with b w)"
proof
  assume *: "starts_with a v \<and> ends_with b v \<and> length v \<ge> length a + length b"
  then obtain w u where w: "v = a @ w" "v = u @ b"
    unfolding starts_with_iff ends_with_iff by blast
  then have "w = drop (length a) (u @ b)"
    by (metis append_eq_conv_conj)
  also have "\<dots> = drop (length a) u @ b"
  proof -
    have "length a + length b \<le> length (u @ b)"
      using * w(2) by metis
    then show ?thesis by simp
  qed
  finally have "ends_with b w"
    unfolding ends_with_iff by blast
  with w(1) show "\<exists>w. v = a @ w \<and> ends_with b w"
    by blast
next
  assume "\<exists>w. v = a @ w \<and> ends_with b w"
  then obtain u where v: "v = a @ u @ b"
    by (auto simp: ends_with_iff)
  then have "v = (a @ u) @ b"
    by simp
  with v show "starts_with a v \<and> ends_with b v \<and> length v \<ge> length a + length b"
    unfolding starts_with_iff ends_with_iff by auto
qed

lemma glob_match_exact: "glob_match pat text \<longleftrightarrow> wild_match pat text"
proof (cases "star \<in> set pat \<and> pat \<noteq> [star]")
  case False
  show ?thesis
  proof (cases "pat = [star]")
    case True
    have "wild_match [star] (text @ [])"
      by (intro wild_star wild_nil)
    with True show ?thesis by (simp add: glob_match_def)
  next
    case other: False
    with False have "star \<notin> set pat"
      by simp
    with other show ?thesis by (auto simp: glob_match_def wild_match_literal)
  qed
next
  case True
  then have "star \<in> set pat"
    by simp
  then obtain part parts where p: "split_on (\<lambda>c. c = star) pat = part # parts" "parts \<noteq> []"
    "pat = part @ star # join_with star parts" "\<forall>q \<in> set (part # parts). star \<notin> set q"
    by (rule glob_match_parts)
  have spec: "wild_match pat text \<longleftrightarrow> (\<exists>w. text = part @ w \<and> glob_rest parts w)"
    using p glob_rest_exact[of parts] by (simp add: wild_match_literal_append)
  show ?thesis
  proof (cases "\<exists>s. parts = [s]")
    case True
    then obtain s where "parts = [s]" ..
    moreover have "starts_with part text \<and> ends_with s text \<and> length text \<ge> length part + length s
        \<longleftrightarrow> (\<exists>w. text = part @ w \<and> ends_with s w)"
      by (rule both_ends)
    ultimately show ?thesis
      using p \<open>star \<in> set pat \<and> pat \<noteq> [star]\<close> spec
      by (auto simp: glob_match_def ends_with_iff)
  next
    case False
    with p(2) obtain a b c where "parts = a # b # c"
      by (metis neq_Nil_conv)
    then show ?thesis
      using p \<open>star \<in> set pat \<and> pat \<noteq> [star]\<close> spec
      by (auto simp: glob_match_def starts_with_iff simp del: glob_rest.simps)
  qed
qed

section \<open>Resolution\<close>

text \<open>What it means for a rule to apply to a tool: by name, or by a group that holds the tool.\<close>

definition rule_applies :: "tool_group list \<Rightarrow> string \<Rightarrow> tool_policy_rule \<Rightarrow> bool" where
  "rule_applies gs tool r \<longleftrightarrow>
     wild_match (pattern r) tool
     \<or> (\<exists>g \<in> set gs. pattern r = CHR ''@'' # group_name g \<and> (\<exists>p \<in> set (tools g). wild_match p tool))"

lemma matches_pattern_iff:
  "matches_pattern (pattern r) tool (expand_groups tool gs) \<longleftrightarrow> rule_applies gs tool r"
proof -
  have self: "wild_match (pattern r) tool" if "pattern r = tool"
  proof -
    have "wild_match v v" for v
    proof (induction v)
      case (Cons c v)
      show ?case
      proof (cases "c = star")
        case True
        from wild_star[OF Cons.IH, of "[c]"] True show ?thesis by simp
      qed (use Cons.IH in \<open>auto intro: wild_lit\<close>)
    qed (rule wild_nil)
    with that show ?thesis by simp
  qed
  have "starts_with ''@'' (pattern r) \<and> pattern r \<in> set (expand_groups tool gs) \<longleftrightarrow>
      starts_with ''@'' (pattern r) \<and> pattern r = tool
      \<or> (\<exists>g \<in> set gs. pattern r = CHR ''@'' # group_name g \<and> (\<exists>p \<in> set (tools g). wild_match p tool))"
    by (auto simp: expand_groups_def glob_match_exact starts_with_iff)
  then show ?thesis
    using self by (auto simp: matches_pattern_def rule_applies_def glob_match_exact)
qed

lemma find_deny_None:
  "find_deny rs tool (expand_groups tool gs) = None \<longleftrightarrow>
   (\<forall>r \<in> set rs. effect r = DenyTool \<longrightarrow> \<not> rule_applies gs tool r)"
  by (auto simp: find_deny_def find_None_iff matches_pattern_iff)

lemma any_allow_iff:
  "any_allow rs tool (expand_groups tool gs) \<longleftrightarrow> (\<exists>r \<in> set rs. effect r = AllowTool \<and> rule_applies gs tool r)"
  by (auto simp: any_allow_def list_ex_iff matches_pattern_iff)

section \<open>Properties\<close>

text \<open>
  The greedy matcher of tool patterns is exact: for every pattern, with any number of stars,
  and every text it decides the wildcard relation in which a star stands for any text.
\<close>
theorem tool_glob_exact: "glob_match pat text \<longleftrightarrow> wild_match pat text"
  by (rule glob_match_exact)

text \<open>
  C33: Deny wins. A tool is allowed exactly when it is within the subagent depth (where that
  applies), no deny rule of the agent or of the global list applies to it, and some allow rule
  applies to it unless there is no allow rule at all.
\<close>
theorem tool_allowed_iff:
  "resolve_tool_access tool policy depth = Allowed \<longleftrightarrow>
     (is_subagent_tool tool \<longrightarrow> depth \<le> subagent_max_depth policy)
     \<and> (\<forall>r \<in> set (agent_rules policy @ global_rules policy).
          effect r = DenyTool \<longrightarrow> \<not> rule_applies (groups policy) tool r)
     \<and> ((\<forall>r \<in> set (agent_rules policy @ global_rules policy). effect r = DenyTool)
        \<or> (\<exists>r \<in> set (agent_rules policy @ global_rules policy).
             effect r = AllowTool \<and> rule_applies (groups policy) tool r))"
proof -
  let ?rs = "agent_rules policy @ global_rules policy"
  have allow: "list_ex (\<lambda>r. effect r = AllowTool) (agent_rules policy)
      \<or> list_ex (\<lambda>r. effect r = AllowTool) (global_rules policy) \<longleftrightarrow> \<not> (\<forall>r \<in> set ?rs. effect r = DenyTool)"
  proof -
    have "effect r = AllowTool \<longleftrightarrow> effect r \<noteq> DenyTool" for r
      by (cases "effect r") auto
    then show ?thesis by (auto simp: list_ex_iff)
  qed
  have deny: "(find_deny (agent_rules policy) tool (expand_groups tool (groups policy)) = None
      \<and> find_deny (global_rules policy) tool (expand_groups tool (groups policy)) = None) \<longleftrightarrow>
      (\<forall>r \<in> set ?rs. effect r = DenyTool \<longrightarrow> \<not> rule_applies (groups policy) tool r)"
    by (auto simp: find_deny_None)
  have some: "(any_allow (agent_rules policy) tool (expand_groups tool (groups policy))
      \<or> any_allow (global_rules policy) tool (expand_groups tool (groups policy))) \<longleftrightarrow>
      (\<exists>r \<in> set ?rs. effect r = AllowTool \<and> rule_applies (groups policy) tool r)"
    by (auto simp: any_allow_iff)
  show ?thesis
    unfolding resolve_tool_access_def Let_def allow some deny[symmetric]
    by (auto split: option.splits)
qed

theorem tool_allowed_iff_witness:
  "resolve_tool_access ''shell_exec''
     (default_tool_policy\<lparr>global_rules := [\<lparr>pattern = ''shell_*'', effect = DenyTool\<rparr>]\<rparr>) 0 \<noteq> Allowed"
proof -
  have "glob_match ''shell_*'' ''shell_exec''"
    by code_simp
  then have "wild_match ''shell_*'' ''shell_exec''"
    by (simp only: glob_match_exact)
  then show ?thesis
    unfolding tool_allowed_iff by (simp add: rule_applies_def default_tool_policy_def)
qed

end
