(* ===== verification/UserPolicy.thy ===== *)
theory UserPolicy
  imports ToolPolicy
begin

text \<open>
  Per-user policies, \<open>crates/librefang-types/src/user_policy.rs\<close>: allow and deny lists,
  per-channel rules, tool categories, the layered evaluation, and the memory namespace rules with
  the guard of \<open>crates/librefang-memory/src/namespace_acl.rs\<close>.

  The pattern matcher \<open>glob_matches\<close> is the one of \<open>Capability\<close>. A map keyed by channel
  is a function to an option. PII redaction of free text (a stack of regular expressions) is the
  argument \<open>scrub\<close>; the metadata of a memory item is reduced to what the guard reads and
  writes: its taint labels and its redaction mark.
\<close>

section \<open>Data\<close>

datatype user_tool_decision = UserAllow | UserDeny | NeedsRoleEscalation

record channel_tool_policy =
  ch_allowed_tools :: "string list"
  ch_denied_tools :: "string list"

record user_tool_policy =
  allowed_tools :: "string list"
  denied_tools :: "string list"

record user_tool_categories =
  allowed_groups :: "string list"
  denied_groups :: "string list"

record user_memory_access =
  readable_namespaces :: "string list"
  writable_namespaces :: "string list"
  pii_access :: bool
  export_allowed :: bool
  delete_allowed :: bool

record resolved_user_policy =
  user_tools :: user_tool_policy
  channel_tool_rules :: "string \<rightharpoonup> channel_tool_policy"
  tool_categories :: user_tool_categories
  memory_access :: user_memory_access

definition default_user_policy :: resolved_user_policy where
  "default_user_policy = \<lparr>user_tools = \<lparr>allowed_tools = [], denied_tools = []\<rparr>,
     channel_tool_rules = Map.empty,
     tool_categories = \<lparr>allowed_groups = [], denied_groups = []\<rparr>,
     memory_access = \<lparr>readable_namespaces = [], writable_namespaces = [], pii_access = False,
       export_allowed = False, delete_allowed = False\<rparr>\<rparr>"

section \<open>Tools\<close>

definition any_glob :: "string list \<Rightarrow> string \<Rightarrow> bool" where
  "any_glob pats tool =
     (let needle = to_lowercase tool
      in list_ex (\<lambda>p. glob_matches (to_lowercase p) needle) pats)"

definition channel_check_tool :: "channel_tool_policy \<Rightarrow> string \<Rightarrow> bool option" where
  "channel_check_tool rule tool =
     (if any_glob (ch_denied_tools rule) tool then Some False
      else if ch_allowed_tools rule \<noteq> [] then Some (any_glob (ch_allowed_tools rule) tool)
      else None)"

definition user_check_tool :: "user_tool_policy \<Rightarrow> string \<Rightarrow> user_tool_decision" where
  "user_check_tool policy tool =
     (if any_glob (denied_tools policy) tool then UserDeny
      else if allowed_tools policy \<noteq> [] then
        if any_glob (allowed_tools policy) tool then UserAllow else NeedsRoleEscalation
      else NeedsRoleEscalation)"

definition group_has_tool :: "tool_group list \<Rightarrow> string \<Rightarrow> string \<Rightarrow> bool" where
  "group_has_tool gs tool name =
     (case find (\<lambda>g. group_name g = name) gs of
        Some g \<Rightarrow> any_glob (tools g) tool
      | None \<Rightarrow> False)"

definition categories_check_tool :: "user_tool_categories \<Rightarrow> string \<Rightarrow> tool_group list \<Rightarrow> bool option" where
  "categories_check_tool cats tool gs =
     (if list_ex (group_has_tool gs tool) (denied_groups cats) then Some False
      else if allowed_groups cats \<noteq> [] then Some (list_ex (group_has_tool gs tool) (allowed_groups cats))
      else None)"

definition evaluate ::
  "resolved_user_policy \<Rightarrow> string \<Rightarrow> string option \<Rightarrow> tool_group list \<Rightarrow> user_tool_decision" where
  "evaluate policy tool channel gs =
     (let categories = (case categories_check_tool (tool_categories policy) tool gs of
            Some False \<Rightarrow> UserDeny | Some True \<Rightarrow> UserAllow | None \<Rightarrow> NeedsRoleEscalation)
      in case user_check_tool (user_tools policy) tool of
           UserAllow \<Rightarrow> UserAllow
         | UserDeny \<Rightarrow> UserDeny
         | NeedsRoleEscalation \<Rightarrow>
             (case channel of
                Some ch \<Rightarrow>
                  (case channel_tool_rules policy ch of
                     Some rule \<Rightarrow>
                       (case channel_check_tool rule tool of
                          Some False \<Rightarrow> UserDeny
                        | Some True \<Rightarrow> UserAllow
                        | None \<Rightarrow> categories)
                   | None \<Rightarrow> categories)
              | None \<Rightarrow> categories))"

section \<open>Memory namespaces\<close>

function split_any :: "string list \<Rightarrow> string \<Rightarrow> string list" where
  "split_any seps [] = [[]]"
| "split_any seps (c # cs) =
     (case find (\<lambda>w. w \<noteq> [] \<and> starts_with w (c # cs)) seps of
        Some w \<Rightarrow> [] # split_any seps (drop (length w) (c # cs))
      | None \<Rightarrow> (case split_any seps cs of [] \<Rightarrow> [[c]] | s # ss \<Rightarrow> (c # s) # ss))"
  by pat_completeness auto

termination
proof (relation "measure (\<lambda>(seps, s). length s)")
  fix seps c cs w
  assume "find (\<lambda>w. w \<noteq> [] \<and> starts_with w (c # cs)) seps = Some w"
  then have "w \<noteq> []"
    by (auto simp: find_Some_iff)
  then show "((seps, drop (length w) (c # cs)), seps, c # cs) \<in> measure (\<lambda>(seps, s). length s)"
    by (cases w) auto
qed auto

definition has_path_traversal :: "string \<Rightarrow> bool" where
  "has_path_traversal ns = list_ex (contains_str ''..'') (split_any ([''/'', '':''] @ WHITE_SPACE) ns)"

definition component :: "string \<Rightarrow> bool" where
  "component s \<longleftrightarrow> CHR '':'' \<notin> set s \<and> CHR ''/'' \<notin> set s"

definition namespace_glob_matches :: "string \<Rightarrow> string \<Rightarrow> bool" where
  "namespace_glob_matches pat value =
     (if pat = [star] then True
      else if pat = value then True
      else case strip_prefix [star] pat of
             Some suffix \<Rightarrow>
               ends_with suffix value \<and> component (take (length value - length suffix) value)
           | None \<Rightarrow>
               (case strip_suffix [star] pat of
                  Some prefix \<Rightarrow>
                    starts_with prefix value \<and> component (drop (length prefix) value)
                | None \<Rightarrow>
                    (case find_char star pat of
                       Some star_pos \<Rightarrow>
                         let prefix = take star_pos pat;
                             suffix = drop (star_pos + 1) pat
                         in starts_with prefix value \<and> ends_with suffix value
                            \<and> length value \<ge> length prefix + length suffix
                            \<and> component (take (length value - length suffix - length prefix)
                                            (drop (length prefix) value))
                     | None \<Rightarrow> False)))"

definition can_read :: "user_memory_access \<Rightarrow> string \<Rightarrow> bool" where
  "can_read acl ns =
     (if has_path_traversal ns then False
      else list_ex (\<lambda>p. namespace_glob_matches p ns) (readable_namespaces acl))"

definition can_write :: "user_memory_access \<Rightarrow> string \<Rightarrow> bool" where
  "can_write acl ns =
     (if has_path_traversal ns then False
      else list_ex (\<lambda>p. namespace_glob_matches p ns) (writable_namespaces acl))"

definition is_unconfigured :: "user_memory_access \<Rightarrow> bool" where
  "is_unconfigured acl \<longleftrightarrow>
     readable_namespaces acl = [] \<and> writable_namespaces acl = [] \<and> \<not> pii_access acl
     \<and> \<not> export_allowed acl \<and> \<not> delete_allowed acl"

text \<open>\<open>namespace_acl.rs\<close>\<close>

datatype deny_reason = NotReadable string | NotWritable string | NoDelete | NoExport

datatype namespace_gate = GateAllow | GateDeny deny_reason

definition check_read :: "user_memory_access \<Rightarrow> string \<Rightarrow> namespace_gate" where
  "check_read acl ns = (if can_read acl ns then GateAllow else GateDeny (NotReadable ns))"

definition check_write :: "user_memory_access \<Rightarrow> string \<Rightarrow> namespace_gate" where
  "check_write acl ns = (if can_write acl ns then GateAllow else GateDeny (NotWritable ns))"

definition check_delete :: "user_memory_access \<Rightarrow> string \<Rightarrow> namespace_gate" where
  "check_delete acl ns = (if \<not> delete_allowed acl then GateDeny NoDelete else check_write acl ns)"

definition check_export :: "user_memory_access \<Rightarrow> string \<Rightarrow> namespace_gate" where
  "check_export acl ns = (if \<not> export_allowed acl then GateDeny NoExport else check_read acl ns)"

datatype taint_value = LabelList "string option list" | LabelString string | OtherJson

record memory_item =
  item_content :: string
  taint_labels :: "taint_value option"
  redacted :: "bool option"

definition PII_REDACTION :: string where
  "PII_REDACTION = ''[REDACTED:PII]''"

definition has_pii_label :: "memory_item \<Rightarrow> bool" where
  "has_pii_label item =
     (let is_pii = (\<lambda>s. to_lowercase s = ''pii'')
      in case taint_labels item of
           None \<Rightarrow> False
         | Some (LabelList vs) \<Rightarrow> list_ex (\<lambda>v. case v of Some s \<Rightarrow> is_pii s | None \<Rightarrow> False) vs
         | Some (LabelString s) \<Rightarrow> is_pii s
         | Some OtherJson \<Rightarrow> False)"

definition redact_item ::
  "(string \<Rightarrow> string \<Rightarrow> string) \<Rightarrow> user_memory_access \<Rightarrow> memory_item \<Rightarrow> memory_item \<times> bool" where
  "redact_item scrub acl item =
     (if pii_access acl then (item, False)
      else if has_pii_label item
      then (item\<lparr>item_content := PII_REDACTION, redacted := Some True\<rparr>, True)
      else
        let scrubbed = scrub (item_content item) PII_REDACTION
        in if scrubbed \<noteq> item_content item
           then (item\<lparr>item_content := scrubbed, redacted := Some True\<rparr>, True)
           else (item, False))"

definition redact_all ::
  "(string \<Rightarrow> string \<Rightarrow> string) \<Rightarrow> user_memory_access \<Rightarrow> memory_item list \<Rightarrow> memory_item list \<times> nat" where
  "redact_all scrub acl items =
     (map (fst \<circ> redact_item scrub acl) items,
      length (filter (snd \<circ> redact_item scrub acl) items))"

section \<open>Lemmas\<close>

lemma contains_dots_skip: "CHR ''.'' \<notin> set w \<Longrightarrow> contains_str ''..'' (w @ s) \<longleftrightarrow> contains_str ''..'' s"
  by (induction w) (auto simp: starts_with_def)

lemma split_any_not_Nil [simp]: "split_any seps s \<noteq> []"
proof (induction seps s rule: split_any.induct)
  case (2 seps c cs)
  then show ?case by (auto split: option.splits list.splits)
qed simp

lemma split_any_head:
  assumes "split_any seps s = h # t" "\<forall>w \<in> set seps. CHR ''.'' \<notin> set w"
  shows "starts_with ''.'' s \<Longrightarrow> starts_with ''.'' h"
proof (cases s)
  case (Cons c cs)
  assume "starts_with ''.'' s"
  then have "c = CHR ''.''"
    using Cons by (simp add: starts_with_def)
  with assms(2) have "find (\<lambda>w. w \<noteq> [] \<and> starts_with w (c # cs)) seps = None"
    by (auto simp: find_None_iff starts_with_def) (metis list.set_intros(1) neq_Nil_conv list.inject length_Cons take_Suc_Cons)
  with assms(1) Cons \<open>c = CHR ''.''\<close> show "starts_with ''.'' h"
    by (auto simp: starts_with_def split: list.splits)
qed (simp add: starts_with_def)

lemma dots_in_segment:
  "contains_str ''..'' s \<Longrightarrow> \<forall>w \<in> set seps. CHR ''.'' \<notin> set w \<Longrightarrow>
   list_ex (contains_str ''..'') (split_any seps s)"
proof (induction seps s rule: split_any.induct)
  case (1 seps)
  then show ?case by (simp add: contains_str_iff)
next
  case (2 seps c cs)
  show ?case
  proof (cases "find (\<lambda>w. w \<noteq> [] \<and> starts_with w (c # cs)) seps")
    case (Some w)
    then have w: "w \<in> set seps" "starts_with w (c # cs)"
      by (auto simp: find_Some_iff)
    then have "c # cs = w @ drop (length w) (c # cs)"
      by (metis append_eq_conv_conj starts_with_iff)
    with 2(3,4) w(1) have "contains_str ''..'' (drop (length w) (c # cs))"
      using contains_dots_skip[of w "drop (length w) (c # cs)"] by auto
    with 2(2)[OF Some] 2(4) Some show ?thesis by simp
  next
    case None
    obtain h t where ht: "split_any seps cs = h # t"
      by (metis split_any_not_Nil neq_Nil_conv)
    from 2(3) consider "starts_with ''..'' (c # cs)" | "contains_str ''..'' cs"
      by auto
    then show ?thesis
    proof cases
      case 1
      then have "c = CHR ''.''" "starts_with ''.'' cs"
        by (auto simp: starts_with_iff)
      with split_any_head[OF ht 2(4)] have "starts_with ''..'' (c # h)"
        by (auto simp: starts_with_iff)
      with None ht show ?thesis by simp
    next
      case 2
      with "2.IH"(1)[OF None] "2.prems"(2) have "list_ex (contains_str ''..'') (h # t)"
        by (simp add: ht)
      with None ht show ?thesis by auto
    qed
  qed
qed

definition sep_count :: "string \<Rightarrow> nat" where
  "sep_count s = length (filter (\<lambda>c. c = CHR '':'' \<or> c = CHR ''/'') s)"

lemma sep_count_simps [simp]:
  "sep_count [] = 0" "sep_count (a @ b) = sep_count a + sep_count b"
  "sep_count (star # s) = sep_count s"
  by (simp_all add: sep_count_def)

lemma component_sep_count: "component s \<longleftrightarrow> sep_count s = 0"
  by (auto simp: component_def sep_count_def filter_empty_conv)

text \<open>
  What a namespace pattern means, independently of how the code takes it apart: the single star
  stands for every namespace; a pattern stands for itself; and one star of it stands for any text
  inside one component. That star is the leading one, else the trailing one, else the first; the
  other stars are literal.
\<close>

definition wild_at :: "string \<Rightarrow> string \<Rightarrow> string \<Rightarrow> bool" where
  "wild_at pat a b \<longleftrightarrow>
     pat = a @ star # b
     \<and> (a = [] \<or> hd a \<noteq> star \<and> (b = [] \<or> last b \<noteq> star \<and> star \<notin> set a))"

definition stands_for :: "string \<Rightarrow> string \<Rightarrow> bool" where
  "stands_for pat ns \<longleftrightarrow>
     pat = [star] \<or> pat = ns
     \<or> (\<exists>a b u. wild_at pat a b \<and> ns = a @ u @ b \<and> component u)"

lemma wild_at_leading: "wild_at (star # s) a b \<longleftrightarrow> a = [] \<and> b = s"
  by (cases a) (auto simp: wild_at_def)

lemma wild_at_trailing:
  assumes "pat = q @ [star]" "\<not> starts_with [star] pat"
  shows "wild_at pat a b \<longleftrightarrow> a = q \<and> b = []"
proof
  assume w: "wild_at pat a b"
  have "a \<noteq> []" using w assms(2) by (auto simp: wild_at_def starts_with_iff)
  have "b = []"
  proof (rule ccontr)
    assume "b \<noteq> []"
    with w \<open>a \<noteq> []\<close> have "last pat \<noteq> star" by (auto simp: wild_at_def)
    with assms(1) show False by simp
  qed
  with w assms(1) show "a = q \<and> b = []" by (auto simp: wild_at_def)
next
  assume "a = q \<and> b = []"
  with assms show "wild_at pat a b"
    by (cases q) (auto simp: wild_at_def starts_with_iff)
qed

lemma find_char_first: "c \<notin> set a \<Longrightarrow> find_char c (a @ c # b) = Some (length a)"
  by (induction a) auto

lemma wild_at_middle:
  assumes "find_char star pat = Some k" "\<not> starts_with [star] pat" "\<not> ends_with [star] pat"
  shows "wild_at pat a b \<longleftrightarrow> a = take k pat \<and> b = drop (k + 1) pat"
proof -
  note k = find_char_Some[OF assms(1)]
  show ?thesis
  proof
    assume w: "wild_at pat a b"
    then have "a \<noteq> []" "b \<noteq> []" using assms(2,3) by (auto simp: wild_at_def starts_with_iff ends_with_iff)
    with w have "star \<notin> set a" "pat = a @ star # b" by (auto simp: wild_at_def)
    moreover have "k = length a"
      using calculation assms(1) find_char_first[of star a b] by simp
    ultimately show "a = take k pat \<and> b = drop (k + 1) pat" by simp
  next
    assume ab: "a = take k pat \<and> b = drop (k + 1) pat"
    with k have pat: "pat = a @ star # b" "star \<notin> set a" by simp_all
    have "a \<noteq> []" "hd a \<noteq> star" using pat assms(2) by (cases a; auto simp: starts_with_iff)+
    moreover have "last b \<noteq> star" if "b \<noteq> []"
      using that pat(1) assms(3) by (metis append_Cons append_assoc append_butlast_last_id ends_with_iff)
    ultimately show "wild_at pat a b" using pat by (auto simp: wild_at_def)
  qed
qed

lemma wild_at_no_star: "find_char star pat = None \<Longrightarrow> \<not> wild_at pat a b"
  by (auto simp: wild_at_def find_char_None)

lemma component_between:
  "(starts_with a v \<and> ends_with b v \<and> length v \<ge> length a + length b
     \<and> component (take (length v - length b - length a) (drop (length a) v)))
   \<longleftrightarrow> (\<exists>u. v = a @ u @ b \<and> component u)"
proof
  assume l: "starts_with a v \<and> ends_with b v \<and> length v \<ge> length a + length b
     \<and> component (take (length v - length b - length a) (drop (length a) v))"
  then obtain w where "v = a @ w" "ends_with b w" using both_ends[of a v b] by auto
  then obtain u where u: "v = a @ u @ b" by (auto simp: ends_with_iff)
  with l show "\<exists>u. v = a @ u @ b \<and> component u" by auto
next
  assume "\<exists>u. v = a @ u @ b \<and> component u"
  then obtain u where u: "v = a @ u @ b" "component u" by blast
  then have "starts_with a v" "ends_with b v"
    by (auto simp: starts_with_iff ends_with_iff)
  with u show "starts_with a v \<and> ends_with b v \<and> length v \<ge> length a + length b
     \<and> component (take (length v - length b - length a) (drop (length a) v))" by simp
qed

lemma namespace_glob_exact: "namespace_glob_matches pat v \<longleftrightarrow> stands_for pat v"
proof (cases "pat = [star] \<or> pat = v")
  case True
  then show ?thesis by (auto simp: namespace_glob_matches_def stands_for_def)
next
  case False
  then have s: "stands_for pat v \<longleftrightarrow> (\<exists>a b u. wild_at pat a b \<and> v = a @ u @ b \<and> component u)"
    by (simp add: stands_for_def)
  show ?thesis
  proof (cases "strip_prefix [star] pat")
    case (Some suffix)
    then have pat: "pat = star # suffix" by (simp add: strip_prefix_Some)
    have "(ends_with suffix v \<and> component (take (length v - length suffix) v))
        \<longleftrightarrow> (\<exists>u. v = u @ suffix \<and> component u)"
      by (auto simp: ends_with_iff)
    with False Some show ?thesis
      unfolding s unfolding pat wild_at_leading by (auto simp: namespace_glob_matches_def)
  next
    case np: None
    then have ns: "\<not> starts_with [star] pat" by (auto simp: strip_prefix_def split: if_splits)
    show ?thesis
    proof (cases "strip_suffix [star] pat")
      case (Some prefix)
      then have pat: "pat = prefix @ [star]" by (simp only: strip_suffix_Some)
      have "(starts_with prefix v \<and> component (drop (length prefix) v))
          \<longleftrightarrow> (\<exists>u. v = prefix @ u \<and> component u)"
        by (auto simp: starts_with_iff)
      with False np Some show ?thesis
        unfolding s wild_at_trailing[OF pat ns] by (auto simp: namespace_glob_matches_def)
    next
      case sn: None
      then have ne: "\<not> ends_with [star] pat" by (auto simp: strip_suffix_def split: if_splits)
      show ?thesis
      proof (cases "find_char star pat")
        case (Some k)
        show ?thesis
          unfolding s wild_at_middle[OF Some ns ne] namespace_glob_matches_def
          using False np sn Some component_between[of "take k pat" v "drop (k + 1) pat"]
          by (simp add: Let_def)
      next
        case None
        with False np sn show ?thesis
          unfolding s by (auto simp: namespace_glob_matches_def wild_at_no_star)
      qed
    qed
  qed
qed

lemma stands_for_separators:
  "stands_for pat ns \<Longrightarrow> pat \<noteq> [star] \<Longrightarrow> sep_count ns = sep_count pat"
  by (auto simp: stands_for_def wild_at_def component_sep_count)

lemma split_any_first: "split_any seps s = h # t \<Longrightarrow> \<exists>b. s = h @ b"
proof (induction seps s arbitrary: h t rule: split_any.induct)
  case (2 seps c cs)
  show ?case
  proof (cases "find (\<lambda>w. w \<noteq> [] \<and> starts_with w (c # cs)) seps")
    case None
    obtain h' t' where ht: "split_any seps cs = h' # t'"
      by (metis split_any_not_Nil neq_Nil_conv)
    with 2(1)[OF None ht] 2(3) None show ?thesis by auto
  qed (use 2(3) in auto)
qed simp

lemma split_any_substring: "seg \<in> set (split_any seps s) \<Longrightarrow> \<exists>a b. s = a @ seg @ b"
proof (induction seps s arbitrary: seg rule: split_any.induct)
  case (2 seps c cs)
  show ?case
  proof (cases "find (\<lambda>w. w \<noteq> [] \<and> starts_with w (c # cs)) seps")
    case (Some w)
    then have "seg = [] \<or> seg \<in> set (split_any seps (drop (length w) (c # cs)))"
      using 2(3) by auto
    then show ?thesis
    proof (rule disjE)
      assume "seg \<in> set (split_any seps (drop (length w) (c # cs)))"
      with 2(2)[OF Some] obtain a b where "drop (length w) (c # cs) = a @ seg @ b" by blast
      then have "c # cs = (take (length w) (c # cs) @ a) @ seg @ b"
        by (metis append_assoc append_take_drop_id)
      then show ?thesis by blast
    next
      assume "seg = []"
      then show ?thesis by (intro exI[of _ "[]"] exI[of _ "c # cs"]) simp
    qed
  next
    case None
    obtain h t where ht: "split_any seps cs = h # t"
      by (metis split_any_not_Nil neq_Nil_conv)
    have ih: "\<exists>a b. cs = a @ x @ b" if "x \<in> set (h # t)" for x
      using 2(1)[OF None] that ht by simp
    from 2(3) None ht have "seg = c # h \<or> seg \<in> set t" by auto
    then show ?thesis
    proof
      assume seg: "seg = c # h"
      obtain b where "cs = h @ b"
        using split_any_first[OF ht] by blast
      with seg show ?thesis by (intro exI[of _ "[]"] exI[of _ b]) simp
    next
      assume "seg \<in> set t"
      with ih[of seg] obtain a b where "cs = a @ seg @ b" by auto
      then show ?thesis by (intro exI[of _ "c # a"] exI[of _ b]) simp
    qed
  qed
qed simp

lemma path_traversal_iff: "has_path_traversal ns \<longleftrightarrow> contains_str ''..'' ns"
proof
  assume "has_path_traversal ns"
  then obtain seg where "seg \<in> set (split_any ([''/'', '':''] @ WHITE_SPACE) ns)" "contains_str ''..'' seg"
    by (auto simp: has_path_traversal_def list_ex_iff)
  then obtain a b u v where "ns = a @ seg @ b" "seg = u @ ''..'' @ v"
    using split_any_substring by (metis contains_str_iff)
  then have "ns = (a @ u) @ ''..'' @ (v @ b)" by simp
  then show "contains_str ''..'' ns" unfolding contains_str_iff by blast
next
  assume "contains_str ''..'' ns"
  moreover have "\<forall>w \<in> set ([''/'', '':''] @ WHITE_SPACE). CHR ''.'' \<notin> set w"
    by code_simp
  ultimately show "has_path_traversal ns"
    unfolding has_path_traversal_def by (rule dots_in_segment)
qed

lemma any_glob_case: "to_lowercase a = to_lowercase b \<Longrightarrow> any_glob pats a = any_glob pats b"
  by (simp add: any_glob_def)

lemma evaluate_case:
  assumes "to_lowercase a = to_lowercase b"
  shows "evaluate policy a channel gs = evaluate policy b channel gs"
proof -
  have g: "any_glob ps a = any_glob ps b" for ps
    using assms by (rule any_glob_case)
  have "group_has_tool gs a = group_has_tool gs b"
    by (simp add: fun_eq_iff group_has_tool_def g split: option.split)
  then have "user_check_tool p a = user_check_tool p b" "channel_check_tool rule a = channel_check_tool rule b"
    "categories_check_tool cats a gs = categories_check_tool cats b gs" for p rule cats
    by (simp_all add: user_check_tool_def channel_check_tool_def categories_check_tool_def g)
  then show ?thesis
    by (simp add: evaluate_def Let_def cong: option.case_cong user_tool_decision.case_cong)
qed

section \<open>Properties\<close>

text \<open>
  C34: Memory namespaces. A user may read a namespace exactly when it has no \<open>..\<close> in it and
  some readable pattern stands for it, and write it exactly when the same holds of the writable
  patterns: the single star stands for everything, any other pattern for itself and for what its
  star may be replaced by inside one namespace component, with the text before and after the star
  unchanged. So a pattern other than the single star never spans a component: what it stands for
  has exactly as many separators.
\<close>
theorem namespace_access_bounded:
  "(can_read acl ns \<longleftrightarrow>
      \<not> contains_str ''..'' ns \<and> (\<exists>p \<in> set (readable_namespaces acl). stands_for p ns))
   \<and> (can_write acl ns \<longleftrightarrow>
      \<not> contains_str ''..'' ns \<and> (\<exists>p \<in> set (writable_namespaces acl). stands_for p ns))
   \<and> (stands_for p ns \<longrightarrow> p \<noteq> [star] \<longrightarrow> sep_count ns = sep_count p)"
  using stands_for_separators[of p ns]
  by (auto simp: can_read_def can_write_def path_traversal_iff list_ex_iff namespace_glob_exact)

theorem namespace_access_bounded_witness:
  "\<not> contains_str ''..'' ''kv:user_alice'' \<and> (\<exists>p \<in> set [''kv:user_*'']. stands_for p ''kv:user_alice'')
   \<and> sep_count ''kv:user_alice'' = sep_count ''kv:user_*''"
proof -
  let ?acl = "\<lparr>readable_namespaces = [''kv:user_*''], writable_namespaces = [], pii_access = False,
     export_allowed = False, delete_allowed = False\<rparr>"
  have "can_read ?acl ''kv:user_alice''"
    by code_simp
  with namespace_access_bounded[of ?acl "''kv:user_alice''" "''kv:user_*''"] show ?thesis
    by auto
qed

text \<open>
  A non-empty allow-list of a user does not bound what the user may call: for a tool that the
  user's own lists neither deny nor allow, the decision is the one of the same policy with both lists
  emptied, so the channel rules and the tool categories alone settle it, and a channel rule that
  allows the tool lets it through.
\<close>
theorem allow_list_does_not_bound:
  assumes "\<not> any_glob (denied_tools (user_tools policy)) tool"
    and "\<not> any_glob (allowed_tools (user_tools policy)) tool"
  shows "evaluate policy tool channel gs =
           evaluate (policy\<lparr>user_tools := \<lparr>allowed_tools = [], denied_tools = []\<rparr>\<rparr>) tool channel gs
       \<and> (\<forall>ch rule. channel = Some ch \<and> channel_tool_rules policy ch = Some rule
              \<and> channel_check_tool rule tool = Some True \<longrightarrow> evaluate policy tool channel gs = UserAllow)"
proof -
  have "user_check_tool (user_tools policy) tool = NeedsRoleEscalation"
    "user_check_tool \<lparr>allowed_tools = [], denied_tools = []\<rparr> tool = NeedsRoleEscalation"
    using assms by (simp_all add: user_check_tool_def any_glob_def)
  then show ?thesis
    by (cases channel) (simp_all add: evaluate_def Let_def)
qed

theorem allow_list_does_not_bound_witness:
  "let policy = default_user_policy\<lparr>user_tools := \<lparr>allowed_tools = [''web_*''], denied_tools = []\<rparr>,
         channel_tool_rules := [''telegram'' \<mapsto> \<lparr>ch_allowed_tools = [''shell_*''], ch_denied_tools = []\<rparr>]\<rparr>
   in evaluate policy ''shell_exec'' (Some ''telegram'') [] = UserAllow"
proof -
  let ?rule = "\<lparr>ch_allowed_tools = [''shell_*''], ch_denied_tools = []\<rparr>"
  let ?policy = "default_user_policy\<lparr>user_tools := \<lparr>allowed_tools = [''web_*''], denied_tools = []\<rparr>,
         channel_tool_rules := [''telegram'' \<mapsto> ?rule]\<rparr>"
  have "\<not> any_glob (denied_tools (user_tools ?policy)) ''shell_exec''"
    "\<not> any_glob (allowed_tools (user_tools ?policy)) ''shell_exec''"
    "channel_check_tool ?rule ''shell_exec'' = Some True"
    by code_simp+
  then show ?thesis
    using allow_list_does_not_bound[of ?policy "''shell_exec''" "Some ''telegram''" "[]"]
    unfolding Let_def by fastforce
qed

end
