(* ===== verification/Auth.thy ===== *)
theory Auth
  imports UserPolicy "HOL-Library.AList"
begin

text \<open>
  Users and roles, \<open>crates/librefang-kernel/src/auth.rs\<close>: role parsing, authorisation of
  actions, the user and channel indexes with their reload, the tool gate, memory rules per role,
  and the resolution of a sender's role from a chat platform.

  The name-based user id (a version 5 UUID) is the argument \<open>uid_of\<close>. The users and the
  channel index are association lists; the role cache is a map. The platform lookup is an
  argument whose result is an error, nothing, or the role tokens of the user. A spending budget is
  carried along as the type parameter \<open>'b\<close>.
\<close>

section \<open>Roles\<close>

datatype user_role = Viewer | RoleUser | Admin | Owner

definition role_rank :: "user_role \<Rightarrow> nat" where
  "role_rank r = (case r of Viewer \<Rightarrow> 0 | RoleUser \<Rightarrow> 1 | Admin \<Rightarrow> 2 | Owner \<Rightarrow> 3)"

lemma role_rank_inject: "role_rank a = role_rank b \<Longrightarrow> a = b"
  by (cases a; cases b) (simp_all add: role_rank_def)

instantiation user_role :: linorder
begin

definition less_eq_user_role :: "user_role \<Rightarrow> user_role \<Rightarrow> bool" where
  "less_eq_user_role a b \<longleftrightarrow> role_rank a \<le> role_rank b"

definition less_user_role :: "user_role \<Rightarrow> user_role \<Rightarrow> bool" where
  "less_user_role a b \<longleftrightarrow> role_rank a < role_rank b"

instance
  by standard (auto simp: less_eq_user_role_def less_user_role_def dest: role_rank_inject)

end

definition role_display :: "user_role \<Rightarrow> string" where
  "role_display r = (case r of Viewer \<Rightarrow> ''viewer'' | RoleUser \<Rightarrow> ''user'' | Admin \<Rightarrow> ''admin'' | Owner \<Rightarrow> ''owner'')"

definition try_from_str_role :: "string \<Rightarrow> user_role option" where
  "try_from_str_role s =
     (let l = to_lowercase s
      in if l = ''owner'' then Some Owner
         else if l = ''admin'' then Some Admin
         else if l = ''user'' then Some RoleUser
         else if l = ''viewer'' \<or> l = ''guest'' then Some Viewer
         else None)"

definition from_str_role :: "string \<Rightarrow> user_role" where
  "from_str_role s = (case try_from_str_role s of Some r \<Rightarrow> r | None \<Rightarrow> RoleUser)"

datatype action =
    ChatWithAgent | SpawnAgent | KillAgent | InstallSkill | ViewConfig | ModifyConfig | ViewUsage
  | ManageUsers

definition required_role :: "action \<Rightarrow> user_role" where
  "required_role a =
     (case a of ChatWithAgent \<Rightarrow> RoleUser | ViewConfig \<Rightarrow> RoleUser | ViewUsage \<Rightarrow> Admin
      | SpawnAgent \<Rightarrow> Admin | KillAgent \<Rightarrow> Admin | InstallSkill \<Rightarrow> Admin
      | ModifyConfig \<Rightarrow> Owner | ManageUsers \<Rightarrow> Owner)"

section \<open>State\<close>

type_synonym user_id = "128 word"

record 'b user_config =
  cfg_name :: string
  cfg_role :: string
  channel_bindings :: "(string \<times> string) list"
  cfg_budget :: "'b option"
  cfg_tool_policy :: "user_tool_policy option"
  cfg_tool_categories :: "user_tool_categories option"
  cfg_memory_access :: "user_memory_access option"
  cfg_channel_tool_rules :: "string \<rightharpoonup> channel_tool_policy"

record 'b user_identity =
  ident_id :: user_id
  ident_name :: string
  ident_role :: user_role
  ident_policy :: resolved_user_policy
  ident_budget :: "'b option"
  raw_tool_policy :: "user_tool_policy option"
  raw_tool_categories :: "user_tool_categories option"
  raw_memory_access :: "user_memory_access option"

record role_cache_key =
  key_channel :: string
  key_account :: string
  key_chat :: string
  key_user :: string

record 'b auth_manager =
  users :: "(user_id \<times> 'b user_identity) list"
  channel_index :: "(string \<times> user_id) list"
  role_cache :: "role_cache_key \<rightharpoonup> user_role"
  tool_groups :: "tool_group list"

definition binding_key :: "string \<Rightarrow> string \<Rightarrow> string" where
  "binding_key channel_type platform_id = channel_type @ '':'' @ platform_id"

definition identity_of :: "(string \<Rightarrow> user_id) \<Rightarrow> 'b user_config \<Rightarrow> 'b user_identity" where
  "identity_of uid_of cfg =
     \<lparr>ident_id = uid_of (cfg_name cfg), ident_name = cfg_name cfg, ident_role = from_str_role (cfg_role cfg),
      ident_policy =
        \<lparr>user_tools = (case cfg_tool_policy cfg of Some p \<Rightarrow> p | None \<Rightarrow> user_tools default_user_policy),
         channel_tool_rules = cfg_channel_tool_rules cfg,
         tool_categories = (case cfg_tool_categories cfg of Some c \<Rightarrow> c | None \<Rightarrow> tool_categories default_user_policy),
         memory_access = (case cfg_memory_access cfg of Some a \<Rightarrow> a | None \<Rightarrow> memory_access default_user_policy)\<rparr>,
      ident_budget = cfg_budget cfg, raw_tool_policy = cfg_tool_policy cfg,
      raw_tool_categories = cfg_tool_categories cfg, raw_memory_access = cfg_memory_access cfg\<rparr>"

definition populate_user :: "(string \<Rightarrow> user_id) \<Rightarrow> 'b auth_manager \<Rightarrow> 'b user_config \<Rightarrow> 'b auth_manager" where
  "populate_user uid_of m cfg =
     m\<lparr>users := AList.update (uid_of (cfg_name cfg)) (identity_of uid_of cfg) (users m),
       channel_index := foldl (\<lambda>idx (c, p). AList.update (binding_key c p) (uid_of (cfg_name cfg)) idx)
                          (channel_index m) (channel_bindings cfg)\<rparr>"

definition populate :: "(string \<Rightarrow> user_id) \<Rightarrow> 'b auth_manager \<Rightarrow> 'b user_config list \<Rightarrow> 'b auth_manager" where
  "populate uid_of m cfgs = foldl (populate_user uid_of) m cfgs"

definition with_tool_groups :: "(string \<Rightarrow> user_id) \<Rightarrow> 'b user_config list \<Rightarrow> tool_group list \<Rightarrow> 'b auth_manager" where
  "with_tool_groups uid_of cfgs gs =
     populate uid_of \<lparr>users = [], channel_index = [], role_cache = Map.empty, tool_groups = gs\<rparr> cfgs"

definition reload ::
  "(string \<Rightarrow> user_id) \<Rightarrow> 'b auth_manager \<Rightarrow> 'b user_config list \<Rightarrow> tool_group list \<Rightarrow> 'b auth_manager" where
  "reload uid_of m cfgs gs =
     populate uid_of (m\<lparr>users := [], channel_index := [], role_cache := Map.empty, tool_groups := gs\<rparr>) cfgs"

section \<open>Operations\<close>

definition identify :: "'b auth_manager \<Rightarrow> string \<Rightarrow> string \<Rightarrow> user_id option" where
  "identify m channel_type platform_id = map_of (channel_index m) (binding_key channel_type platform_id)"

definition get_user :: "'b auth_manager \<Rightarrow> user_id \<Rightarrow> 'b user_identity option" where
  "get_user m uid = map_of (users m) uid"

datatype auth_error = UnknownUser | LacksPermission string user_role action user_role

definition authorize :: "'b auth_manager \<Rightarrow> user_id \<Rightarrow> action \<Rightarrow> auth_error + unit" where
  "authorize m uid a =
     (case get_user m uid of
        None \<Rightarrow> Inl UnknownUser
      | Some i \<Rightarrow>
          if ident_role i \<ge> required_role a then Inr ()
          else Inl (LacksPermission (ident_name i) (ident_role i) a (required_role a)))"

definition is_enabled :: "'b auth_manager \<Rightarrow> bool" where
  "is_enabled m \<longleftrightarrow> users m \<noteq> []"

definition user_count :: "'b auth_manager \<Rightarrow> nat" where
  "user_count m = length (users m)"

definition list_users :: "'b auth_manager \<Rightarrow> 'b user_identity list" where
  "list_users m = map snd (users m)"

definition user_policy :: "'b auth_manager \<Rightarrow> user_id \<Rightarrow> resolved_user_policy option" where
  "user_policy m uid = map_option ident_policy (get_user m uid)"

definition budget_for :: "'b auth_manager \<Rightarrow> user_id \<Rightarrow> 'b option" where
  "budget_for m uid = (case get_user m uid of Some i \<Rightarrow> ident_budget i | None \<Rightarrow> None)"

record 'b effective_permissions_view =
  eff_user_id :: user_id
  eff_name :: string
  eff_role :: string
  eff_tool_policy :: "user_tool_policy option"
  eff_tool_categories :: "user_tool_categories option"
  eff_memory_access :: "user_memory_access option"
  eff_budget :: "'b option"
  eff_channel_tool_rules :: "string \<rightharpoonup> channel_tool_policy"
  eff_channel_bindings :: "(string \<times> string) list"

definition split_once_colon :: "string \<Rightarrow> (string \<times> string) option" where
  "split_once_colon s = map_option (\<lambda>k. (take k s, drop (k + 1) s)) (find_char CHR '':'' s)"

definition effective_permissions :: "'b auth_manager \<Rightarrow> user_id \<Rightarrow> 'b effective_permissions_view option" where
  "effective_permissions m uid =
     (case get_user m uid of
        None \<Rightarrow> None
      | Some i \<Rightarrow>
          let bindings = foldl (\<lambda>acc (key, u).
                if u = uid then (case split_once_colon key of
                                   Some (c, p) \<Rightarrow> AList.update c p acc | None \<Rightarrow> acc)
                else acc) [] (channel_index m)
          in Some \<lparr>eff_user_id = uid, eff_name = ident_name i, eff_role = role_display (ident_role i),
               eff_tool_policy = raw_tool_policy i, eff_tool_categories = raw_tool_categories i,
               eff_memory_access = raw_memory_access i, eff_budget = ident_budget i,
               eff_channel_tool_rules = channel_tool_rules (ident_policy i),
               eff_channel_bindings = bindings\<rparr>)"

definition default_memory_acl :: "user_role \<Rightarrow> user_memory_access" where
  "default_memory_acl r =
     (if r = Owner \<or> r = Admin then
        \<lparr>readable_namespaces = [''*''], writable_namespaces = [''*''], pii_access = True,
         export_allowed = True, delete_allowed = True\<rparr>
      else if r = RoleUser then
        \<lparr>readable_namespaces = [''proactive'', ''kv:*''], writable_namespaces = [''kv:*''], pii_access = False,
         export_allowed = False, delete_allowed = False\<rparr>
      else
        \<lparr>readable_namespaces = [''proactive''], writable_namespaces = [], pii_access = False,
         export_allowed = False, delete_allowed = False\<rparr>)"

definition memory_acl_for :: "'b auth_manager \<Rightarrow> user_id \<Rightarrow> user_memory_access option" where
  "memory_acl_for m uid =
     (case get_user m uid of
        None \<Rightarrow> None
      | Some i \<Rightarrow>
          let acl = memory_access (ident_policy i)
          in Some (if is_unconfigured acl then default_memory_acl (ident_role i) else acl))"

section \<open>The tool gate\<close>

datatype gate_reason =
    NotPermitted string user_role string
  | RequiresAdminApproval string string user_role
  | UnrecognisedSender string

datatype user_tool_gate = GatePass | GateHardDeny gate_reason | GateNeedsApproval gate_reason

definition READ_ONLY_TOOLS :: "string list" where
  "READ_ONLY_TOOLS =
     [''file_read'', ''file_list'', ''glob'', ''grep'', ''web_search'', ''web_fetch'', ''list_agents'',
      ''list_skills'', ''tool_load'', ''tool_search'']"

definition guest_gate :: "string \<Rightarrow> user_tool_gate" where
  "guest_gate tool =
     (if tool \<in> set READ_ONLY_TOOLS then GatePass else GateNeedsApproval (UnrecognisedSender tool))"

definition resolve_user :: "'b auth_manager \<Rightarrow> string option \<Rightarrow> string option \<Rightarrow> user_id option" where
  "resolve_user m sender_id channel =
     (case (channel, sender_id) of
        (Some ch, Some sid) \<Rightarrow> map_of (channel_index m) (binding_key ch sid)
      | _ \<Rightarrow> None)"

definition resolve_decision_for_user ::
  "'b auth_manager \<Rightarrow> user_id \<Rightarrow> string \<Rightarrow> string option \<Rightarrow> user_tool_gate" where
  "resolve_decision_for_user m uid tool channel =
     (case get_user m uid of
        None \<Rightarrow> GatePass
      | Some i \<Rightarrow>
          (case evaluate (ident_policy i) tool channel (tool_groups m) of
             UserAllow \<Rightarrow> GatePass
           | UserDeny \<Rightarrow> GateHardDeny (NotPermitted (ident_name i) (ident_role i) tool)
           | NeedsRoleEscalation \<Rightarrow>
               if ident_role i \<ge> Admin then GatePass
               else GateNeedsApproval (RequiresAdminApproval tool (ident_name i) (ident_role i))))"

definition resolve_user_tool_decision ::
  "'b auth_manager \<Rightarrow> string \<Rightarrow> string option \<Rightarrow> string option \<Rightarrow> bool \<Rightarrow> user_tool_gate" where
  "resolve_user_tool_decision m tool sender_id channel system_call =
     (if users m = [] then GatePass
      else if system_call then GatePass
      else case resolve_user m sender_id channel of
             None \<Rightarrow> guest_gate tool
           | Some uid \<Rightarrow> resolve_decision_for_user m uid tool channel)"

section \<open>Roles from a chat platform\<close>

record telegram_role_mapping =
  tg_admin_role :: "string option"
  tg_creator_role :: "string option"
  tg_member_role :: "string option"

record slack_role_mapping =
  sl_owner_role :: "string option"
  sl_admin_role :: "string option"
  sl_member_role :: "string option"
  sl_guest_role :: "string option"

record channel_role_mapping =
  telegram :: "telegram_role_mapping option"
  discord :: "(string \<times> string) list option"
  slack :: "slack_role_mapping option"

record sender_context =
  sender_channel :: string
  sender_user_id :: string
  chat_id :: "string option"
  is_group :: bool
  account_id :: "string option"

datatype lookup_result = LookupError | NoRole | PlatformRole "string list"

definition cache_key :: "sender_context \<Rightarrow> role_cache_key" where
  "cache_key s = \<lparr>key_channel = sender_channel s,
     key_account = (case account_id s of Some a \<Rightarrow> a | None \<Rightarrow> []),
     key_chat = (case chat_id s of Some c \<Rightarrow> c | None \<Rightarrow> []), key_user = sender_user_id s\<rparr>"

definition translate_telegram_role :: "telegram_role_mapping \<Rightarrow> string list \<Rightarrow> user_role option" where
  "translate_telegram_role cfg roles =
     (case roles of
        [] \<Rightarrow> None
      | primary # _ \<Rightarrow>
          Option.bind (if primary = ''creator'' then tg_creator_role cfg
                       else if primary = ''administrator'' then tg_admin_role cfg
                       else if primary = ''member'' then tg_member_role cfg
                       else None) try_from_str_role)"

definition translate_discord_role :: "(string \<times> string) list \<Rightarrow> string list \<Rightarrow> user_role option" where
  "translate_discord_role role_map roles =
     foldl (\<lambda>best name.
       case Option.bind (map_of role_map name) try_from_str_role of
         Some candidate \<Rightarrow> Some (case best of Some prev \<Rightarrow> max prev candidate | None \<Rightarrow> candidate)
       | None \<Rightarrow> best) None roles"

definition translate_slack_role :: "slack_role_mapping \<Rightarrow> string list \<Rightarrow> user_role option" where
  "translate_slack_role cfg roles =
     (case roles of
        [] \<Rightarrow> None
      | primary # _ \<Rightarrow>
          Option.bind (if primary = ''owner'' then sl_owner_role cfg
                       else if primary = ''admin'' then sl_admin_role cfg
                       else if primary = ''member'' then sl_member_role cfg
                       else if primary = ''guest'' then sl_guest_role cfg
                       else None) try_from_str_role)"

definition translate_platform_role :: "channel_role_mapping \<Rightarrow> string \<Rightarrow> string list \<Rightarrow> user_role option" where
  "translate_platform_role mapping channel roles =
     (if channel = ''telegram'' then Option.bind (telegram mapping) (\<lambda>m. translate_telegram_role m roles)
      else if channel = ''discord'' then Option.bind (discord mapping) (\<lambda>m. translate_discord_role m roles)
      else if channel = ''slack'' then Option.bind (slack mapping) (\<lambda>m. translate_slack_role m roles)
      else None)"

definition is_telegram_self_dm :: "sender_context \<Rightarrow> bool" where
  "is_telegram_self_dm s =
     (if is_group s then False
      else case chat_id s of Some c \<Rightarrow> c = sender_user_id s | None \<Rightarrow> False)"

definition translate_platform_role_for_sender ::
  "channel_role_mapping \<Rightarrow> sender_context \<Rightarrow> string list \<Rightarrow> user_role option" where
  "translate_platform_role_for_sender mapping s roles =
     (if sender_channel s = ''telegram'' \<and> is_telegram_self_dm s
         \<and> (case roles of primary # _ \<Rightarrow> primary = ''creator'' | [] \<Rightarrow> False)
      then None else translate_platform_role mapping (sender_channel s) roles)"

definition resolve_role_for_sender ::
  "'b auth_manager \<Rightarrow> sender_context \<Rightarrow> channel_role_mapping \<Rightarrow> (string \<Rightarrow> string \<Rightarrow> lookup_result) option
     \<Rightarrow> user_role \<times> 'b auth_manager" where
  "resolve_role_for_sender m s mapping query =
     (case Option.bind (identify m (sender_channel s) (sender_user_id s)) (get_user m) of
        Some i \<Rightarrow> (ident_role i, m)
      | None \<Rightarrow>
          (case role_cache m (cache_key s) of
             Some r \<Rightarrow> (r, m)
           | None \<Rightarrow>
               let has_mapping =
                     (if sender_channel s = ''telegram'' then telegram mapping \<noteq> None
                      else if sender_channel s = ''discord'' then discord mapping \<noteq> None
                      else if sender_channel s = ''slack'' then slack mapping \<noteq> None
                      else False);
                   chat = (case chat_id s of Some c \<Rightarrow> c | None \<Rightarrow> []);
                   (resolved, transient) =
                     (case query of
                        Some lookup_role \<Rightarrow>
                          if \<not> has_mapping then (None, False)
                          else if chat = [] \<and> sender_channel s \<noteq> ''slack'' then (None, False)
                          else (case lookup_role chat (sender_user_id s) of
                                  PlatformRole roles \<Rightarrow> (translate_platform_role_for_sender mapping s roles, False)
                                | NoRole \<Rightarrow> (None, False)
                                | LookupError \<Rightarrow> (None, True))
                      | None \<Rightarrow> (None, False));
                   r = (case resolved of Some r \<Rightarrow> r | None \<Rightarrow> Viewer)
               in (r, if transient then m else m\<lparr>role_cache := (role_cache m)(cache_key s \<mapsto> r)\<rparr>)))"

definition invalidate_role_cache :: "'b auth_manager \<Rightarrow> 'b auth_manager" where
  "invalidate_role_cache m = m\<lparr>role_cache := Map.empty\<rparr>"

definition invalidate_role_cache_for :: "'b auth_manager \<Rightarrow> sender_context \<Rightarrow> 'b auth_manager" where
  "invalidate_role_cache_for m s = m\<lparr>role_cache := (role_cache m)(cache_key s := None)\<rparr>"

definition typo_count :: "string option list \<Rightarrow> nat" where
  "typo_count vs = length (filter (\<lambda>v. case v of Some s \<Rightarrow> try_from_str_role s = None | None \<Rightarrow> False) vs)"

definition validate_channel_role_mapping :: "channel_role_mapping \<Rightarrow> nat" where
  "validate_channel_role_mapping mapping =
     (case telegram mapping of Some tg \<Rightarrow> typo_count [tg_admin_role tg, tg_creator_role tg, tg_member_role tg] | None \<Rightarrow> 0)
     + (case discord mapping of Some dc \<Rightarrow> typo_count (map (Some \<circ> snd) dc) | None \<Rightarrow> 0)
     + (case slack mapping of
          Some sl \<Rightarrow> typo_count [sl_owner_role sl, sl_admin_role sl, sl_member_role sl, sl_guest_role sl]
        | None \<Rightarrow> 0)"

section \<open>Invariant\<close>

text \<open>Every bound channel identity belongs to a registered user.\<close>

definition index_ok :: "'b auth_manager \<Rightarrow> bool" where
  "index_ok m \<longleftrightarrow>
     (\<forall>key uid. map_of (channel_index m) key = Some uid \<longrightarrow> map_of (users m) uid \<noteq> None)"

interpretation user_store: keyed_store get_user "\<lambda>uid i m. m\<lparr>users := AList.update uid i (users m)\<rparr>"
  "\<lambda>uid m. m\<lparr>users := AList.delete uid (users m)\<rparr>"
  by unfold_locales (auto simp: get_user_def update_conv' delete_conv')

lemma index_fold:
  "map_of (foldl (\<lambda>idx (c, p). AList.update (binding_key c p) uid idx) idx bs) key = Some u \<Longrightarrow>
   u = uid \<or> map_of idx key = Some u"
proof (induction bs arbitrary: idx)
  case (Cons b bs)
  then have "u = uid \<or> map_of (AList.update (binding_key (fst b) (snd b)) uid idx) key = Some u"
    by (auto simp: case_prod_unfold)
  then show ?case
    by (auto simp: update_conv' split: if_splits)
qed simp

lemma index_ok_populate_user: "index_ok m \<Longrightarrow> index_ok (populate_user uid_of m cfg)"
  by (auto simp: index_ok_def populate_user_def update_conv' dest!: index_fold)

lemma index_ok_populate: "index_ok m \<Longrightarrow> index_ok (populate uid_of m cfgs)"
  unfolding populate_def by (induction cfgs arbitrary: m) (auto simp: index_ok_populate_user)

datatype 'b auth_op =
    Reload "'b user_config list" "tool_group list"
  | ResolveRole sender_context channel_role_mapping "(string \<Rightarrow> string \<Rightarrow> lookup_result) option"
  | InvalidateAll
  | InvalidateFor sender_context

definition exec_auth :: "(string \<Rightarrow> user_id) \<Rightarrow> 'b auth_manager \<Rightarrow> 'b auth_op \<Rightarrow> 'b auth_manager" where
  "exec_auth uid_of m oper =
     (case oper of
        Reload cfgs gs \<Rightarrow> reload uid_of m cfgs gs
      | ResolveRole s mapping query \<Rightarrow> snd (resolve_role_for_sender m s mapping query)
      | InvalidateAll \<Rightarrow> invalidate_role_cache m
      | InvalidateFor s \<Rightarrow> invalidate_role_cache_for m s)"

lemma resolve_role_frame:
  "users (snd (resolve_role_for_sender m s mapping query)) = users m"
  "channel_index (snd (resolve_role_for_sender m s mapping query)) = channel_index m"
  by (auto simp: resolve_role_for_sender_def Let_def split: option.splits lookup_result.splits)

lemma exec_auth_ok: "index_ok m \<Longrightarrow> index_ok (exec_auth uid_of m oper)"
proof (cases oper)
  case (Reload cfgs gs)
  have "index_ok (m\<lparr>users := [], channel_index := [], role_cache := Map.empty, tool_groups := gs\<rparr>)"
    by (simp add: index_ok_def)
  then show ?thesis
    by (simp add: Reload exec_auth_def reload_def index_ok_populate)
qed (simp_all add: exec_auth_def index_ok_def resolve_role_frame invalidate_role_cache_def
    invalidate_role_cache_for_def)

interpretation auth_machine: invariant_machine "exec_auth uid_of" index_ok for uid_of
  by unfold_locales (rule exec_auth_ok)

lemma index_ok_new: "index_ok (with_tool_groups uid_of cfgs gs)"
  unfolding with_tool_groups_def by (rule index_ok_populate) (simp add: index_ok_def)

lemmas index_ok_run = auth_machine.inv_run[OF index_ok_new]

text \<open>
  The channel type and the platform id are joined by a colon, so a colon in either one makes two
  different pairs share a key.
\<close>

lemma binding_key_collision: "binding_key (a @ '':'' @ b) c = binding_key a (b @ '':'' @ c)"
  by (simp add: binding_key_def)

section \<open>Properties\<close>

text \<open>
  C6: The tool gate fails closed. In every state that loads, reloads and role resolutions lead to,
  when users are registered and the call is not a system call, the gate passes a call only in two
  cases: the sender is unknown and the tool is one of the ten read-only tools, or the sender is a
  registered user whose policy allows the tool or, having no opinion, leaves it to an admin or owner.
\<close>
theorem gate_fails_closed:
  assumes "m = foldl (exec_auth uid_of) (with_tool_groups uid_of cfgs gs) ops"
    and "users m \<noteq> []"
    and "resolve_user_tool_decision m tool sender_id channel False = GatePass"
  shows "resolve_user m sender_id channel = None \<and> tool \<in> set READ_ONLY_TOOLS
       \<or> (\<exists>uid i. resolve_user m sender_id channel = Some uid \<and> get_user m uid = Some i
            \<and> (evaluate (ident_policy i) tool channel (tool_groups m) = UserAllow
               \<or> evaluate (ident_policy i) tool channel (tool_groups m) = NeedsRoleEscalation
                 \<and> Admin \<le> ident_role i))"
proof (cases "resolve_user m sender_id channel")
  case None
  with assms show ?thesis
    by (auto simp: resolve_user_tool_decision_def guest_gate_def split: if_splits)
next
  case (Some uid)
  then have "\<exists>key. map_of (channel_index m) key = Some uid"
    by (auto simp: resolve_user_def split: option.splits)
  moreover have "index_ok m"
    unfolding assms(1) by (rule index_ok_run)
  ultimately obtain i where "get_user m uid = Some i"
    by (auto simp: index_ok_def get_user_def)
  with Some assms show ?thesis
    by (auto simp: resolve_user_tool_decision_def resolve_decision_for_user_def
        split: user_tool_decision.splits if_splits)
qed

theorem gate_fails_closed_witness:
  "let cfg = \<lparr>cfg_name = ''ann'', cfg_role = ''admin'', channel_bindings = [(''cli'', ''1'')],
         cfg_budget = None :: unit option, cfg_tool_policy = None, cfg_tool_categories = None,
         cfg_memory_access = None, cfg_channel_tool_rules = Map.empty\<rparr>;
       m = foldl (exec_auth (\<lambda>_. 7)) (with_tool_groups (\<lambda>_. 7) [cfg] []) [InvalidateAll]
   in resolve_user m (Some ''1'') (Some ''cli'') = None \<and> ''shell_exec'' \<in> set READ_ONLY_TOOLS
       \<or> (\<exists>uid i. resolve_user m (Some ''1'') (Some ''cli'') = Some uid \<and> get_user m uid = Some i
            \<and> (evaluate (ident_policy i) ''shell_exec'' (Some ''cli'') (tool_groups m) = UserAllow
               \<or> evaluate (ident_policy i) ''shell_exec'' (Some ''cli'') (tool_groups m) = NeedsRoleEscalation
                 \<and> Admin \<le> ident_role i))"
  unfolding Let_def
  by (rule gate_fails_closed[OF refl]) code_simp+

text \<open>
  C40: Roles from a chat platform fail closed. For a sender bound to no user and with nothing cached,
  a role above viewer comes only from a successful lookup whose tokens the configured mapping
  translates to that role; the creator token of a Telegram conversation with oneself never does.
\<close>
theorem platform_role_fails_closed:
  assumes "identify m (sender_channel s) (sender_user_id s) = None" "role_cache m (cache_key s) = None"
    and "Viewer < fst (resolve_role_for_sender m s mapping query)"
  shows "\<exists>lookup chat roles. query = Some lookup \<and> lookup chat (sender_user_id s) = PlatformRole roles
           \<and> translate_platform_role mapping (sender_channel s) roles = Some (fst (resolve_role_for_sender m s mapping query))
           \<and> \<not> (sender_channel s = ''telegram'' \<and> is_telegram_self_dm s \<and> take 1 roles = [''creator''])"
proof -
  obtain lookup roles where q: "query = Some lookup"
    "lookup (case chat_id s of Some c \<Rightarrow> c | None \<Rightarrow> []) (sender_user_id s) = PlatformRole roles"
    "translate_platform_role_for_sender mapping s roles = Some (fst (resolve_role_for_sender m s mapping query))"
    using assms by (auto simp: resolve_role_for_sender_def Let_def split: option.splits lookup_result.splits if_splits)
  then have "translate_platform_role mapping (sender_channel s) roles
      = Some (fst (resolve_role_for_sender m s mapping query))"
    "\<not> (sender_channel s = ''telegram'' \<and> is_telegram_self_dm s \<and> take 1 roles = [''creator''])"
    by (auto simp: translate_platform_role_for_sender_def split: if_splits list.splits)
  with q show ?thesis by blast
qed

theorem platform_role_fails_closed_witness:
  "let m = with_tool_groups (\<lambda>_. 7) ([] :: unit user_config list) [];
       s = \<lparr>sender_channel = ''slack'', sender_user_id = ''u'', chat_id = None, is_group = False, account_id = None\<rparr>;
       mapping = \<lparr>telegram = None, discord = None,
         slack = Some \<lparr>sl_owner_role = None, sl_admin_role = Some ''admin'', sl_member_role = None, sl_guest_role = None\<rparr>\<rparr>;
       query = Some (\<lambda>_ _. PlatformRole [''admin''])
   in \<exists>lookup chat roles. query = Some lookup \<and> lookup chat (sender_user_id s) = PlatformRole roles
        \<and> translate_platform_role mapping (sender_channel s) roles = Some (fst (resolve_role_for_sender m s mapping query))
        \<and> \<not> (sender_channel s = ''telegram'' \<and> is_telegram_self_dm s \<and> take 1 roles = [''creator''])"
  unfolding Let_def
  by (rule platform_role_fails_closed) code_simp+

end
