(* ===== verification/AuditTrail.thy ===== *)
theory AuditTrail
  imports Prelude
begin

text \<open>
  The audit trail, \<open>crates/librefang-runtime/src/audit.rs\<close>: a hash chain of entries kept in
  memory, mirrored to a table and witnessed by an anchor file, with the retention jobs \<open>trim\<close>
  and \<open>prune\<close> and the reload on start-up.

  SHA-256 with its hex encoding, the three views of a user id (bytes, text, parsing) and the parsing
  of a timestamp are fields of \<open>audit_env\<close>. The table is a list of rows in insertion order;
  the anchor file is its content, or missing, or unreadable. Whether an insert, a delete or a write
  of the anchor file succeeds is an argument of the operation, as are the clock readings (a
  formatted timestamp, an instant in nanoseconds, a formatted cutoff). Every operation runs under
  the lock of the entries.
\<close>

section \<open>Data\<close>

datatype audit_action =
    ToolInvoke | CapabilityCheck | AgentSpawn | AgentKill | AgentMessage | MemoryAccess | FileAccess
  | NetworkAccess | ShellExec | AuthAttempt | WireConnect | ConfigChange | DreamConsolidation
  | UserLogin | RoleChange | PermissionDenied | BudgetExceeded | RetentionTrim | A2aDiscovered
  | A2aTrusted

fun action_display :: "audit_action \<Rightarrow> string" where
  "action_display ToolInvoke = ''ToolInvoke''"
| "action_display CapabilityCheck = ''CapabilityCheck''"
| "action_display AgentSpawn = ''AgentSpawn''"
| "action_display AgentKill = ''AgentKill''"
| "action_display AgentMessage = ''AgentMessage''"
| "action_display MemoryAccess = ''MemoryAccess''"
| "action_display FileAccess = ''FileAccess''"
| "action_display NetworkAccess = ''NetworkAccess''"
| "action_display ShellExec = ''ShellExec''"
| "action_display AuthAttempt = ''AuthAttempt''"
| "action_display WireConnect = ''WireConnect''"
| "action_display ConfigChange = ''ConfigChange''"
| "action_display DreamConsolidation = ''DreamConsolidation''"
| "action_display UserLogin = ''UserLogin''"
| "action_display RoleChange = ''RoleChange''"
| "action_display PermissionDenied = ''PermissionDenied''"
| "action_display BudgetExceeded = ''BudgetExceeded''"
| "action_display RetentionTrim = ''RetentionTrim''"
| "action_display A2aDiscovered = ''A2aDiscovered''"
| "action_display A2aTrusted = ''A2aTrusted''"

definition LOADED_ACTIONS :: "audit_action list" where
  "LOADED_ACTIONS =
     [ToolInvoke, CapabilityCheck, AgentSpawn, AgentKill, AgentMessage, MemoryAccess, FileAccess,
      NetworkAccess, ShellExec, AuthAttempt, WireConnect, ConfigChange, DreamConsolidation,
      UserLogin, RoleChange, PermissionDenied, BudgetExceeded, RetentionTrim]"

definition action_of_row :: "string \<Rightarrow> audit_action" where
  "action_of_row s =
     (case find (\<lambda>a. action_display a = s) LOADED_ACTIONS of Some a \<Rightarrow> a | None \<Rightarrow> ToolInvoke)"

record 'u audit_entry =
  ae_seq :: u64
  ae_timestamp :: string
  ae_agent_id :: string
  ae_action :: audit_action
  ae_detail :: string
  ae_outcome :: string
  ae_user_id :: "'u option"
  ae_channel :: "string option"
  ae_prev_hash :: string
  ae_hash :: string

record audit_row =
  row_seq :: int
  row_timestamp :: string
  row_agent_id :: string
  row_action :: string
  row_detail :: string
  row_outcome :: string
  row_user_id :: "string option"
  row_channel :: "string option"
  row_prev_hash :: string
  row_hash :: string

datatype anchor_file = Missing | Unreadable | Body string

record 'u audit_log =
  entries :: "'u audit_entry list"
  tip :: string
  db :: "audit_row list option"
  anchored :: bool
  anchor :: anchor_file
  chain_anchor :: "string option"

record 'u audit_env =
  sha :: "string \<Rightarrow> string"
  uid_bytes :: "'u \<Rightarrow> string"
  uid_show :: "'u \<Rightarrow> string"
  uid_parse :: "string \<Rightarrow> 'u option"
  parse_ts :: "string \<Rightarrow> int option"

record trim_report =
  dropped_by_action :: "string \<rightharpoonup> nat"
  total_dropped :: nat
  new_chain_anchor :: "string option"

record retention_config =
  retention_days_by_action :: "string \<rightharpoonup> u32"
  max_in_memory_entries :: "nat option"

datatype anchor_error = NoHashColumn | BadSeq | BadHash | CannotRead

datatype audit_error =
    ChainBreak u64 | HashMismatch u64 | AnchorMismatch u64 string u64 string | AnchorMissing
  | AnchorUnreadable anchor_error

definition MAX_AUDIT_ENTRIES :: nat where
  "MAX_AUDIT_ENTRIES = 10000"

definition GENESIS :: string where
  "GENESIS = replicate 64 CHR ''0''"

definition default_report :: trim_report where
  "default_report = \<lparr>dropped_by_action = Map.empty, total_dropped = 0, new_chain_anchor = None\<rparr>"

definition report_is_empty :: "trim_report \<Rightarrow> bool" where
  "report_is_empty r \<longleftrightarrow> total_dropped r = 0"

section \<open>The hash of an entry\<close>

definition hash_input ::
  "'u audit_env \<Rightarrow> u64 \<Rightarrow> string \<Rightarrow> string \<Rightarrow> audit_action \<Rightarrow> string \<Rightarrow> string \<Rightarrow> 'u option \<Rightarrow> string option
   \<Rightarrow> string \<Rightarrow> string" where
  "hash_input env seq timestamp agent_id act detail outcome user_id channel prev_hash =
     show_nat (unat seq) @ timestamp @ agent_id @ action_display act @ detail @ outcome
     @ (case user_id of Some uid \<Rightarrow> CHR 0x1F # ''user_id='' @ uid_bytes env uid | None \<Rightarrow> [])
     @ (case channel of Some ch \<Rightarrow> CHR 0x1F # ''channel='' @ ch | None \<Rightarrow> [])
     @ prev_hash"

definition compute_entry_hash ::
  "'u audit_env \<Rightarrow> u64 \<Rightarrow> string \<Rightarrow> string \<Rightarrow> audit_action \<Rightarrow> string \<Rightarrow> string \<Rightarrow> 'u option \<Rightarrow> string option
   \<Rightarrow> string \<Rightarrow> string" where
  "compute_entry_hash env seq timestamp agent_id act detail outcome user_id channel prev_hash =
     sha env (hash_input env seq timestamp agent_id act detail outcome user_id channel prev_hash)"

section \<open>The anchor file\<close>

definition format_anchor_line :: "u64 \<Rightarrow> string \<Rightarrow> string" where
  "format_anchor_line seq hash = show_nat (unat seq) @ '' '' @ hash @ [CHR 0x0A]"

definition write_anchor :: "bool \<Rightarrow> u64 \<Rightarrow> string \<Rightarrow> 'u audit_log \<Rightarrow> 'u audit_log" where
  "write_anchor write_ok seq hash lg =
     (if anchored lg \<and> write_ok then lg\<lparr>anchor := Body (format_anchor_line seq hash)\<rparr> else lg)"

definition first_line :: "string \<Rightarrow> string" where
  "first_line body =
     (let l = takeWhile (\<lambda>c. c \<noteq> CHR 0x0A) body
      in case strip_suffix [CHR 0x0D] l of Some l' \<Rightarrow> l' | None \<Rightarrow> l)"

fun split_ws :: "string \<Rightarrow> string \<times> string option" where
  "split_ws [] = ([], None)"
| "split_ws (c # cs) =
     (case find (\<lambda>w. starts_with w (c # cs)) WHITE_SPACE of
        Some w \<Rightarrow> ([], Some (drop (length w) (c # cs)))
      | None \<Rightarrow> (case split_ws cs of (a, r) \<Rightarrow> (c # a, r)))"

definition is_ascii_hexdigit :: "char \<Rightarrow> bool" where
  "is_ascii_hexdigit c \<longleftrightarrow>
     (let n = of_char c :: nat in 48 \<le> n \<and> n \<le> 57 \<or> 65 \<le> n \<and> n \<le> 70 \<or> 97 \<le> n \<and> n \<le> 102)"

definition is_hash :: "string \<Rightarrow> bool" where
  "is_hash h \<longleftrightarrow> length h = 64 \<and> list_all is_ascii_hexdigit h"

definition read_anchor :: "anchor_file \<Rightarrow> anchor_error + (u64 \<times> string) option" where
  "read_anchor file =
     (case file of
        Missing \<Rightarrow> Inr None
      | Unreadable \<Rightarrow> Inl CannotRead
      | Body body \<Rightarrow>
          let line = trim (first_line body)
          in if line = [] then Inr None
             else case split_ws line of
                    (_, None) \<Rightarrow> Inl NoHashColumn
                  | (seq_str, Some rest) \<Rightarrow>
                      let hash = trim rest
                      in case parse_u64 seq_str of
                           None \<Rightarrow> Inl BadSeq
                         | Some seq \<Rightarrow> if is_hash hash then Inr (Some (seq, hash)) else Inl BadHash)"

section \<open>Verification of the chain\<close>

definition entry_hash :: "'u audit_env \<Rightarrow> 'u audit_entry \<Rightarrow> string" where
  "entry_hash env e =
     compute_entry_hash env (ae_seq e) (ae_timestamp e) (ae_agent_id e) (ae_action e) (ae_detail e)
       (ae_outcome e) (ae_user_id e) (ae_channel e) (ae_prev_hash e)"

fun verify_chain :: "'u audit_env \<Rightarrow> string \<Rightarrow> 'u audit_entry list \<Rightarrow> audit_error + string" where
  "verify_chain env expected_prev [] = Inr expected_prev"
| "verify_chain env expected_prev (e # es) =
     (if ae_prev_hash e \<noteq> expected_prev then Inl (ChainBreak (ae_seq e))
      else if entry_hash env e \<noteq> ae_hash e then Inl (HashMismatch (ae_seq e))
      else verify_chain env (ae_hash e) es)"

definition chain_start :: "'u audit_log \<Rightarrow> string" where
  "chain_start lg = (case chain_anchor lg of Some h \<Rightarrow> h | None \<Rightarrow> GENESIS)"

definition verify_integrity :: "'u audit_env \<Rightarrow> 'u audit_log \<Rightarrow> audit_error + unit" where
  "verify_integrity env lg =
     (case verify_chain env (chain_start lg) (entries lg) of
        Inl e \<Rightarrow> Inl e
      | Inr current_tip \<Rightarrow>
          if anchored lg then
            (case read_anchor (anchor lg) of
               Inr (Some (seq, hash)) \<Rightarrow>
                 let current_len = word_of_nat (length (entries lg)) :: u64
                 in if seq \<noteq> current_len \<or> hash \<noteq> current_tip
                    then Inl (AnchorMismatch seq hash current_len current_tip)
                    else Inr ()
             | Inr None \<Rightarrow> Inl AnchorMissing
             | Inl e \<Rightarrow> Inl (AnchorUnreadable e))
          else Inr ())"

section \<open>Creation and reload\<close>

definition new_log :: "'u audit_log" where
  "new_log = \<lparr>entries = [], tip = GENESIS, db = None, anchored = False, anchor = Missing, chain_anchor = None\<rparr>"

definition entry_of_row :: "'u audit_env \<Rightarrow> audit_row \<Rightarrow> 'u audit_entry option" where
  "entry_of_row env r =
     (if row_seq r < 0 then None
      else Some \<lparr>ae_seq = word_of_int (row_seq r), ae_timestamp = row_timestamp r, ae_agent_id = row_agent_id r,
        ae_action = action_of_row (row_action r), ae_detail = row_detail r, ae_outcome = row_outcome r,
        ae_user_id = Option.bind (row_user_id r) (uid_parse env), ae_channel = row_channel r,
        ae_prev_hash = row_prev_hash r, ae_hash = row_hash r\<rparr>)"

definition with_db :: "'u audit_env \<Rightarrow> bool \<Rightarrow> audit_row list \<Rightarrow> 'u audit_log" where
  "with_db env read_ok rows =
     (let es = (if read_ok then List.map_filter (entry_of_row env) (sort_key row_seq rows) else []);
          last_hash = (if es = [] then GENESIS else ae_hash (last es));
          recovered_anchor =
            (case es of
               first # _ \<Rightarrow> if ae_prev_hash first \<noteq> GENESIS then Some (ae_prev_hash first) else None
             | [] \<Rightarrow> None)
      in \<lparr>entries = es, tip = last_hash, db = Some rows, anchored = False, anchor = Missing,
          chain_anchor = recovered_anchor\<rparr>)"

definition with_db_anchored ::
  "'u audit_env \<Rightarrow> bool \<Rightarrow> audit_row list \<Rightarrow> anchor_file \<Rightarrow> bool \<Rightarrow> 'u audit_log" where
  "with_db_anchored env read_ok rows file write_ok =
     (let lg = (with_db env read_ok rows)\<lparr>anchored := True, anchor := file\<rparr>
      in case read_anchor file of
           Inr None \<Rightarrow> write_anchor write_ok (word_of_nat (length (entries lg))) (tip lg) lg
         | _ \<Rightarrow> lg)"

section \<open>Recording\<close>

definition row_of_entry :: "'u audit_env \<Rightarrow> 'u audit_entry \<Rightarrow> audit_row" where
  "row_of_entry env e =
     \<lparr>row_seq = sint (ae_seq e), row_timestamp = ae_timestamp e, row_agent_id = ae_agent_id e,
      row_action = action_display (ae_action e), row_detail = ae_detail e, row_outcome = ae_outcome e,
      row_user_id = map_option (uid_show env) (ae_user_id e), row_channel = ae_channel e,
      row_prev_hash = ae_prev_hash e, row_hash = ae_hash e\<rparr>"

definition insert_row :: "'u audit_env \<Rightarrow> bool \<Rightarrow> 'u audit_entry \<Rightarrow> audit_row list option \<Rightarrow> audit_row list option option" where
  "insert_row env insert_ok e table =
     (case table of
        None \<Rightarrow> Some None
      | Some rows \<Rightarrow>
          if insert_ok \<and> \<not> list_ex (\<lambda>r. row_seq r = sint (ae_seq e)) rows
          then Some (Some (rows @ [row_of_entry env e])) else None)"

definition cap_entries :: "'u audit_log \<Rightarrow> 'u audit_log" where
  "cap_entries lg =
     (if length (entries lg) > MAX_AUDIT_ENTRIES then
        let overflow = length (entries lg) - MAX_AUDIT_ENTRIES
        in lg\<lparr>chain_anchor := Some (ae_hash (entries lg ! (overflow - 1))),
               entries := drop overflow (entries lg)\<rparr>
      else lg)"

definition record_with_context ::
  "'u audit_env \<Rightarrow> 'u audit_log \<Rightarrow> string \<Rightarrow> bool \<Rightarrow> bool \<Rightarrow> string \<Rightarrow> audit_action \<Rightarrow> string \<Rightarrow> string
   \<Rightarrow> 'u option \<Rightarrow> string option \<Rightarrow> 'u audit_log \<times> string" where
  "record_with_context env lg timestamp insert_ok write_ok agent_id act detail outcome user_id channel =
     (let seq = (if entries lg = [] then 0 else ae_seq (last (entries lg)) + 1);
          prev_hash = tip lg;
          hash = compute_entry_hash env seq timestamp agent_id act detail outcome user_id channel prev_hash;
          entry = \<lparr>ae_seq = seq, ae_timestamp = timestamp, ae_agent_id = agent_id, ae_action = act,
            ae_detail = detail, ae_outcome = outcome, ae_user_id = user_id, ae_channel = channel,
            ae_prev_hash = prev_hash, ae_hash = hash\<rparr>
      in case insert_row env insert_ok entry (db lg) of
           None \<Rightarrow> (lg, hash)
         | Some table \<Rightarrow>
             let log1 = cap_entries (lg\<lparr>db := table, entries := entries lg @ [entry], tip := hash\<rparr>)
             in (write_anchor write_ok (word_of_nat (length (entries log1))) hash log1, hash))"

definition record_event ::
  "'u audit_env \<Rightarrow> 'u audit_log \<Rightarrow> string \<Rightarrow> bool \<Rightarrow> bool \<Rightarrow> string \<Rightarrow> audit_action \<Rightarrow> string \<Rightarrow> string
   \<Rightarrow> 'u audit_log \<times> string" where
  "record_event env lg timestamp insert_ok write_ok agent_id act detail outcome =
     record_with_context env lg timestamp insert_ok write_ok agent_id act detail outcome None None"

definition tip_hash :: "'u audit_log \<Rightarrow> string" where
  "tip_hash lg = tip lg"

definition recent :: "'u audit_log \<Rightarrow> nat \<Rightarrow> 'u audit_entry list" where
  "recent lg n = drop (length (entries lg) - n) (entries lg)"

section \<open>Retention\<close>

definition NANOS_PER_DAY :: int where
  "NANOS_PER_DAY = 86400 * 1000000000"

fun expired_prefix :: "'u audit_env \<Rightarrow> retention_config \<Rightarrow> int \<Rightarrow> 'u audit_entry list \<Rightarrow> nat" where
  "expired_prefix env policy now [] = 0"
| "expired_prefix env policy now (e # es) =
     (case retention_days_by_action policy (action_display (ae_action e)) of
        Some d \<Rightarrow>
          if 0 < d then
            (case parse_ts env (ae_timestamp e) of
               Some t \<Rightarrow> if t < now - uint d * NANOS_PER_DAY then Suc (expired_prefix env policy now es) else 0
             | None \<Rightarrow> 0)
          else 0
      | None \<Rightarrow> 0)"

definition tally :: "'u audit_entry list \<Rightarrow> string \<rightharpoonup> nat" where
  "tally es =
     foldl (\<lambda>m e. m(action_display (ae_action e) \<mapsto>
              (case m (action_display (ae_action e)) of Some n \<Rightarrow> n + 1 | None \<Rightarrow> 1))) Map.empty es"

definition drop_prefix :: "'u audit_log \<Rightarrow> nat \<Rightarrow> bool \<Rightarrow> bool \<Rightarrow> 'u audit_log" where
  "drop_prefix lg drop_count delete_ok write_ok =
     (let es = entries lg;
          first_survivor_seq =
            (if drop_count < length es then ae_seq (es ! drop_count) else ae_seq (es ! (length es - 1)) + 1);
          table = (if delete_ok
                   then map_option (filter (\<lambda>r. \<not> row_seq r < sint first_survivor_seq)) (db lg)
                   else db lg);
          log1 = lg\<lparr>db := table, chain_anchor := Some (ae_hash (es ! (drop_count - 1))),
                     entries := drop drop_count es\<rparr>
      in write_anchor write_ok (word_of_nat (length (entries log1))) (tip lg) log1)"

definition trim_log ::
  "'u audit_env \<Rightarrow> 'u audit_log \<Rightarrow> retention_config \<Rightarrow> int \<Rightarrow> bool \<Rightarrow> bool \<Rightarrow> 'u audit_log \<times> trim_report" where
  "trim_log env lg policy now delete_ok write_ok =
     (let total = length (entries lg);
          cap = (case max_in_memory_entries policy of Some c \<Rightarrow> c | None \<Rightarrow> 0);
          over = (if cap > 0 \<and> total > cap then total - cap else 0);
          drop_count = over + expired_prefix env policy now (drop over (entries lg))
      in if total = 0 \<or> drop_count = 0 then (lg, default_report)
         else (drop_prefix lg drop_count delete_ok write_ok,
               \<lparr>dropped_by_action = tally (take drop_count (entries lg)), total_dropped = drop_count,
                new_chain_anchor = Some (ae_hash (entries lg ! (drop_count - 1)))\<rparr>))"

fun str_less :: "string \<Rightarrow> string \<Rightarrow> bool" where
  "str_less _ [] \<longleftrightarrow> False"
| "str_less [] (_ # _) \<longleftrightarrow> True"
| "str_less (a # as) (b # bs) \<longleftrightarrow>
     (of_char a :: nat) < of_char b \<or> a = b \<and> str_less as bs"

definition prune :: "'u audit_log \<Rightarrow> u32 \<Rightarrow> string \<Rightarrow> bool \<Rightarrow> bool \<Rightarrow> 'u audit_log \<times> nat" where
  "prune lg retention_days cutoff_str delete_ok write_ok =
     (let drop_count = length (takeWhile (\<lambda>e. str_less (ae_timestamp e) cutoff_str) (entries lg))
      in if retention_days = 0 \<or> drop_count = 0 then (lg, 0)
         else (drop_prefix lg drop_count delete_ok write_ok, drop_count))"


section \<open>Runs\<close>

datatype 'u audit_op =
    Record string bool bool string audit_action string string "'u option" "string option"
  | Trim retention_config int bool bool
  | Prune u32 string bool bool

fun exec_audit :: "'u audit_env \<Rightarrow> 'u audit_log \<Rightarrow> 'u audit_op \<Rightarrow> 'u audit_log" where
  "exec_audit env lg (Record ts insert_ok write_ok agent act detail outcome uid ch) =
     fst (record_with_context env lg ts insert_ok write_ok agent act detail outcome uid ch)"
| "exec_audit env lg (Trim policy now delete_ok write_ok) = fst (trim_log env lg policy now delete_ok write_ok)"
| "exec_audit env lg (Prune days cutoff delete_ok write_ok) = fst (prune lg days cutoff delete_ok write_ok)"

fun write_succeeds :: "'u audit_op \<Rightarrow> bool" where
  "write_succeeds (Record _ _ w _ _ _ _ _ _) = w"
| "write_succeeds (Trim _ _ _ w) = w"
| "write_succeeds (Prune _ _ _ w) = w"

fun delete_succeeds :: "'u audit_op \<Rightarrow> bool" where
  "delete_succeeds (Record _ _ _ _ _ _ _ _ _) = True"
| "delete_succeeds (Trim _ _ d _) = d"
| "delete_succeeds (Prune _ _ d _) = d"

fun action_loads :: "'u audit_op \<Rightarrow> bool" where
  "action_loads (Record _ _ _ _ a _ _ _ _) = (a \<in> set LOADED_ACTIONS)"
| "action_loads _ = True"

section \<open>Reading back the anchor file\<close>

definition plain :: "char \<Rightarrow> bool" where
  "plain c \<longleftrightarrow> 33 \<le> (of_char c :: nat) \<and> (of_char c :: nat) < 127"

lemma white_space_not_plain: "\<forall>w \<in> set WHITE_SPACE. w \<noteq> [] \<and> \<not> plain (hd w) \<and> \<not> plain (last w)"
  by code_simp

lemma plain_no_ws:
  assumes "plain c"
  shows "find (\<lambda>w. starts_with w (c # cs)) WHITE_SPACE = None"
    and "find (\<lambda>w. w \<noteq> [] \<and> starts_with w (c # cs)) WHITE_SPACE = None"
    and "find (\<lambda>w. w \<noteq> [] \<and> starts_with w (c # cs)) (map rev WHITE_SPACE) = None"
proof -
  have ws: "w \<noteq> [] \<and> \<not> plain (hd w) \<and> \<not> plain (last w)" if "w \<in> set WHITE_SPACE" for w
    using that white_space_not_plain by blast
  have "\<not> starts_with w (c # cs)" if "w \<in> set WHITE_SPACE" for w
    using ws[OF that] assms by (auto simp: starts_with_iff Cons_eq_append_conv)
  then show "find (\<lambda>w. starts_with w (c # cs)) WHITE_SPACE = None"
    "find (\<lambda>w. w \<noteq> [] \<and> starts_with w (c # cs)) WHITE_SPACE = None"
    by (auto simp: find_None_iff)
  have "\<not> starts_with (rev w) (c # cs)" if "w \<in> set WHITE_SPACE" for w
    using ws[OF that] assms by (cases w rule: rev_cases) (auto simp: starts_with_iff)
  then show "find (\<lambda>w. w \<noteq> [] \<and> starts_with w (c # cs)) (map rev WHITE_SPACE) = None"
    by (auto simp: find_None_iff)
qed

lemma trim_plain: "s = [] \<or> plain (hd s) \<and> plain (last s) \<Longrightarrow> trim s = s"
proof -
  assume a: "s = [] \<or> plain (hd s) \<and> plain (last s)"
  have "trim_with WHITE_SPACE s = s"
    using a by (cases s) (simp, subst trim_with.simps, simp add: plain_no_ws)
  moreover have "trim_with (map rev WHITE_SPACE) (rev s) = rev s"
  proof (cases s rule: rev_cases)
    case (snoc ys y)
    with a have "plain y" by auto
    then show ?thesis
      unfolding snoc by (subst trim_with.simps) (simp add: plain_no_ws(3))
  qed simp
  ultimately show ?thesis
    by (simp add: trim_def trim_start_def trim_end_def)
qed

lemma split_ws_space: "list_all plain s \<Longrightarrow> split_ws (s @ CHR '' '' # t) = (s, Some t)"
proof (induction s)
  case Nil
  have "find (\<lambda>w. starts_with w (CHR '' '' # t)) WHITE_SPACE = Some '' ''"
    by (simp add: WHITE_SPACE_def starts_with_code)
  then show ?case by simp
qed (simp add: plain_no_ws)

lemma digit_plain: "is_digit c \<Longrightarrow> plain c"
  by (simp add: is_digit_def plain_def)

lemma hex_plain: "is_ascii_hexdigit c \<Longrightarrow> plain c"
  by (auto simp: is_ascii_hexdigit_def plain_def Let_def)

lemma read_format_anchor:
  assumes "is_hash h"
  shows "read_anchor (Body (format_anchor_line n h)) = Inr (Some (n, h))"
proof -
  have h: "list_all plain h" "h \<noteq> []"
    using assms hex_plain by (auto simp: is_hash_def list_all_iff)
  have d: "list_all plain (show_nat (unat n))"
    using show_nat_digits[of "unat n"] digit_plain by (auto simp: list_all_iff)
  let ?line = "show_nat (unat n) @ CHR '' '' # h"
  have ends: "plain (hd ?line)" "plain (last ?line)" "plain (hd h)" "plain (last h)"
    using h d by (auto simp: list_all_iff hd_append)
  have no_nl: "\<forall>c \<in> set ?line. c \<noteq> CHR 0x0A"
    using h d by (auto simp: list_all_iff plain_def)
  have "takeWhile (\<lambda>c. c \<noteq> CHR 0x0A) (?line @ [CHR 0x0A]) = ?line"
    using no_nl by (subst takeWhile_append2) auto
  moreover have "\<not> ends_with [CHR 0x0D] ?line"
  proof
    assume "ends_with [CHR 0x0D] ?line"
    then have "last ?line = CHR 0x0D"
      by (metis ends_with_iff last_snoc)
    with ends(2) show False
      by (simp only: plain_def) simp
  qed
  ultimately have "first_line (format_anchor_line n h) = ?line"
    by (simp add: first_line_def format_anchor_line_def strip_suffix_def)
  moreover have "trim ?line = ?line" "trim h = h"
    using ends h(2) by (auto intro!: trim_plain)
  ultimately show ?thesis
    using assms h d by (simp add: read_anchor_def split_ws_space Let_def)
qed

section \<open>Chains\<close>

fun chain_ok :: "'u audit_env \<Rightarrow> string \<Rightarrow> 'u audit_entry list \<Rightarrow> bool" where
  "chain_ok env p [] \<longleftrightarrow> True"
| "chain_ok env p (e # es) \<longleftrightarrow> ae_prev_hash e = p \<and> ae_hash e = entry_hash env e \<and> chain_ok env (ae_hash e) es"

definition chain_end :: "string \<Rightarrow> 'u audit_entry list \<Rightarrow> string" where
  "chain_end p es = (if es = [] then p else ae_hash (last es))"

lemma chain_end_simps [simp]:
  "chain_end p [] = p" "chain_end p (e # es) = chain_end (ae_hash e) es"
  "chain_end p (xs @ ys) = chain_end (chain_end p xs) ys"
  by (auto simp: chain_end_def)

lemma verify_chain_iff: "verify_chain env p es = Inr r \<longleftrightarrow> chain_ok env p es \<and> r = chain_end p es"
  by (induction es arbitrary: p) auto

lemma chain_ok_append [simp]: "chain_ok env p (xs @ ys) \<longleftrightarrow> chain_ok env p xs \<and> chain_ok env (chain_end p xs) ys"
  by (induction xs arbitrary: p) auto

lemma chain_take_drop:
  assumes "chain_ok env p es" "0 < n" "n \<le> length es"
  shows "chain_ok env (ae_hash (es ! (n - 1))) (drop n es)"
    and "chain_end (ae_hash (es ! (n - 1))) (drop n es) = chain_end p es"
proof -
  have "last (take n es) = es ! (n - 1)" "take n es \<noteq> []"
    using assms(2,3) take_Suc_conv_app_nth[of "n - 1" es] by auto
  then have e: "chain_end p (take n es) = ae_hash (es ! (n - 1))"
    by (simp add: chain_end_def)
  with assms(1) chain_ok_append[of env p "take n es" "drop n es"]
  show "chain_ok env (ae_hash (es ! (n - 1))) (drop n es)" by simp
  from e chain_end_simps(3)[of p "take n es" "drop n es"]
  show "chain_end (ae_hash (es ! (n - 1))) (drop n es) = chain_end p es" by simp
qed

section \<open>The log invariant\<close>

definition log_ok :: "'u audit_env \<Rightarrow> 'u audit_log \<Rightarrow> bool" where
  "log_ok env lg \<longleftrightarrow>
     chain_ok env (chain_start lg) (entries lg) \<and> tip lg = chain_end (chain_start lg) (entries lg)"

definition file_fresh :: "'u audit_log \<Rightarrow> bool" where
  "file_fresh lg \<longleftrightarrow>
     anchored lg \<and> is_hash (tip lg)
     \<and> anchor lg = Body (format_anchor_line (word_of_nat (length (entries lg))) (tip lg))"

lemma verifies_iff: "log_ok env lg \<Longrightarrow> file_fresh lg \<Longrightarrow> verify_integrity env lg = Inr ()"
  by (simp add: verify_integrity_def log_ok_def file_fresh_def read_format_anchor Let_def
      verify_chain_iff[THEN iffD2])

lemma write_anchor_simps [simp]:
  "entries (write_anchor w n h lg) = entries lg" "tip (write_anchor w n h lg) = tip lg"
  "db (write_anchor w n h lg) = db lg" "anchored (write_anchor w n h lg) = anchored lg"
  "chain_anchor (write_anchor w n h lg) = chain_anchor lg"
  by (simp_all add: write_anchor_def)

lemma anchor_write [simp]:
  "anchored lg \<Longrightarrow> anchor (write_anchor True n h lg) = Body (format_anchor_line n h)"
  by (simp add: write_anchor_def)

lemma log_ok_write [simp]: "log_ok env (write_anchor w n h lg) = log_ok env lg"
  by (simp add: log_ok_def chain_start_def)

lemma log_ok_shorten:
  assumes "log_ok env lg" "0 < n" "n \<le> length (entries lg)"
  shows "log_ok env (lg\<lparr>db := table, chain_anchor := Some (ae_hash (entries lg ! (n - 1))),
                        entries := drop n (entries lg)\<rparr>)"
  using assms chain_take_drop[of env "chain_start lg" "entries lg" n]
  by (simp add: log_ok_def chain_start_def)

lemma expired_prefix_le: "expired_prefix env policy now es \<le> length es"
  by (induction es) (auto split: option.splits)

lemma log_ok_drop_prefix:
  "log_ok env lg \<Longrightarrow> 0 < n \<Longrightarrow> n \<le> length (entries lg) \<Longrightarrow> log_ok env (drop_prefix lg n d w)"
  unfolding drop_prefix_def Let_def log_ok_write by (rule log_ok_shorten)

lemma cap_entries_simps [simp]:
  "tip (cap_entries lg) = tip lg" "db (cap_entries lg) = db lg" "anchored (cap_entries lg) = anchored lg"
  "anchor (cap_entries lg) = anchor lg"
  by (simp_all add: cap_entries_def Let_def)

lemma log_ok_cap:
  assumes "log_ok env lg"
  shows "log_ok env (cap_entries lg)"
  using log_ok_shorten[OF assms, of "length (entries lg) - MAX_AUDIT_ENTRIES" "db lg"] assms
  by (simp add: cap_entries_def Let_def)

lemma log_ok_push:
  assumes "log_ok env lg" "ae_prev_hash e = tip lg" "ae_hash e = entry_hash env e"
  shows "log_ok env (lg\<lparr>db := table, entries := entries lg @ [e], tip := ae_hash e\<rparr>)"
  using assms by (simp add: log_ok_def chain_start_def)

lemma trim_cases:
  obtains "fst (trim_log env lg policy now d w) = lg"
  | n where "0 < n" "n \<le> length (entries lg)" "fst (trim_log env lg policy now d w) = drop_prefix lg n d w"
proof -
  define cap where "cap = (case max_in_memory_entries policy of Some c \<Rightarrow> c | None \<Rightarrow> 0)"
  define k where "k = (if cap > 0 \<and> length (entries lg) > cap then length (entries lg) - cap else 0)"
  define n where "n = k + expired_prefix env policy now (drop k (entries lg))"
  have eq: "fst (trim_log env lg policy now d w)
      = (if length (entries lg) = 0 \<or> n = 0 then lg else drop_prefix lg n d w)"
    by (simp add: trim_log_def Let_def n_def k_def cap_def)
  have "k \<le> length (entries lg)"
    by (simp add: k_def)
  then have "n \<le> length (entries lg)"
    using expired_prefix_le[of env policy now "drop k (entries lg)"] by (simp add: n_def)
  with eq that show thesis
    by (cases "length (entries lg) = 0 \<or> n = 0") auto
qed

lemma prune_cases:
  obtains "fst (prune lg days cutoff d w) = lg"
  | n where "0 < n" "n \<le> length (entries lg)" "fst (prune lg days cutoff d w) = drop_prefix lg n d w"
proof -
  let ?n = "length (takeWhile (\<lambda>e. str_less (ae_timestamp e) cutoff) (entries lg))"
  have eq: "fst (prune lg days cutoff d w) = (if days = 0 \<or> ?n = 0 then lg else drop_prefix lg ?n d w)"
    by (simp add: prune_def Let_def)
  show thesis
  proof (cases "days = 0 \<or> ?n = 0")
    case True
    with eq that(1) show thesis by simp
  next
    case False
    moreover have "?n \<le> length (entries lg)" by (rule length_takeWhile_le)
    ultimately show thesis using that(2)[of ?n] eq by simp
  qed
qed

text \<open>The entry that \<open>record_with_context\<close> appends.\<close>

definition next_entry ::
  "'u audit_env \<Rightarrow> 'u audit_log \<Rightarrow> string \<Rightarrow> string \<Rightarrow> audit_action \<Rightarrow> string \<Rightarrow> string
   \<Rightarrow> 'u option \<Rightarrow> string option \<Rightarrow> 'u audit_entry" where
  "next_entry env lg ts agent act detail outcome uid ch =
     (let seq = (if entries lg = [] then 0 else ae_seq (last (entries lg)) + 1)
      in \<lparr>ae_seq = seq, ae_timestamp = ts, ae_agent_id = agent, ae_action = act, ae_detail = detail,
          ae_outcome = outcome, ae_user_id = uid, ae_channel = ch, ae_prev_hash = tip lg,
          ae_hash = compute_entry_hash env seq ts agent act detail outcome uid ch (tip lg)\<rparr>)"

lemma next_entry_simps [simp]:
  "ae_prev_hash (next_entry env lg ts agent act detail outcome uid ch) = tip lg"
  "ae_action (next_entry env lg ts agent act detail outcome uid ch) = act"
  "ae_seq (next_entry env lg ts agent act detail outcome uid ch) =
     (if entries lg = [] then 0 else ae_seq (last (entries lg)) + 1)"
  "ae_hash (next_entry env lg ts agent act detail outcome uid ch) =
     entry_hash env (next_entry env lg ts agent act detail outcome uid ch)"
  by (simp_all add: next_entry_def Let_def entry_hash_def)

lemma record_exec:
  "exec_audit env lg (Record ts i w agent act detail outcome uid ch) =
     (let e = next_entry env lg ts agent act detail outcome uid ch
      in case insert_row env i e (db lg) of
           None \<Rightarrow> lg
         | Some table \<Rightarrow>
             let lg1 = cap_entries (lg\<lparr>db := table, entries := entries lg @ [e], tip := ae_hash e\<rparr>)
             in write_anchor w (word_of_nat (length (entries lg1))) (ae_hash e) lg1)"
  by (simp add: record_with_context_def next_entry_def Let_def split: option.split)

lemma log_ok_step:
  assumes "log_ok env lg"
  shows "log_ok env (exec_audit env lg op)"
proof (cases op)
  case (Record ts i w agent act detail outcome uid ch)
  let ?e = "next_entry env lg ts agent act detail outcome uid ch"
  have "log_ok env (cap_entries (lg\<lparr>db := table, entries := entries lg @ [?e], tip := ae_hash ?e\<rparr>))" for table
    using assms by (intro log_ok_cap log_ok_push) simp_all
  with assms show ?thesis
    unfolding Record record_exec by (auto simp del: next_entry_simps simp: Let_def split: option.split)
next
  case (Trim policy now d w)
  show ?thesis
    unfolding Trim exec_audit.simps
    by (rule trim_cases[of env lg policy now d w]) (use assms in \<open>auto intro: log_ok_drop_prefix\<close>)
next
  case (Prune days cutoff d w)
  show ?thesis
    unfolding Prune exec_audit.simps
    by (rule prune_cases[of lg days cutoff d w]) (use assms in \<open>auto intro: log_ok_drop_prefix\<close>)
qed

interpretation audit_machine: invariant_machine "exec_audit env" "log_ok env" for env
  by unfold_locales (rule log_ok_step)


lemma drop_prefix_simps [simp]:
  "entries (drop_prefix lg n d w) = drop n (entries lg)" "tip (drop_prefix lg n d w) = tip lg"
  "anchored (drop_prefix lg n d w) = anchored lg"
  by (simp_all add: drop_prefix_def Let_def)

lemma fresh_drop_prefix: "file_fresh lg \<Longrightarrow> file_fresh (drop_prefix lg n d True)"
  by (simp add: file_fresh_def drop_prefix_def Let_def)

lemma fresh_step:
  assumes "\<forall>x. is_hash (sha env x)" "file_fresh lg" "write_succeeds op"
  shows "file_fresh (exec_audit env lg op)"
proof (cases op)
  case (Record ts i w agent act detail outcome uid ch)
  with assms show ?thesis
    unfolding Record record_exec
    by (auto simp: Let_def file_fresh_def entry_hash_def compute_entry_hash_def split: option.split)
next
  case (Trim policy now d w)
  show ?thesis
    unfolding Trim exec_audit.simps
    by (rule trim_cases[of env lg policy now d w])
      (use assms Trim fresh_drop_prefix in auto)
next
  case (Prune days cutoff d w)
  show ?thesis
    unfolding Prune exec_audit.simps
    by (rule prune_cases[of lg days cutoff d w])
      (use assms Prune fresh_drop_prefix in auto)
qed

lemma fresh_run:
  assumes "\<forall>x. is_hash (sha env x)" "file_fresh lg" "\<forall>op \<in> set ops. write_succeeds op"
  shows "file_fresh (foldl (exec_audit env) lg ops)"
  using assms(2,3) by (induction ops arbitrary: lg) (auto intro: fresh_step[OF assms(1)])

lemma genesis_is_hash [simp]: "is_hash GENESIS"
  by code_simp

lemma start_log:
  "log_ok env (with_db_anchored env ok [] Missing True)" "file_fresh (with_db_anchored env ok [] Missing True)"
  by (simp_all add: with_db_anchored_def with_db_def read_anchor_def log_ok_def chain_start_def file_fresh_def
      map_filter_simps)

lemmas log_ok_start_run = audit_machine.inv_run[OF start_log(1)]

lemma fresh_start_run:
  "\<forall>x. is_hash (sha env x) \<Longrightarrow> \<forall>op \<in> set ops. write_succeeds op
   \<Longrightarrow> file_fresh (foldl (exec_audit env) (with_db_anchored env ok [] Missing True) ops)"
  by (rule fresh_run[OF _ start_log(2)])

section \<open>The table mirrors the log\<close>

text \<open>
  As long as the in-memory cap is not reached and deletes succeed, the table holds exactly the rows of
  the entries, whose sequence numbers are consecutive.
\<close>

definition seqs_from :: "nat \<Rightarrow> 'u audit_entry list \<Rightarrow> bool" where
  "seqs_from k es \<longleftrightarrow> (\<forall>i < length es. ae_seq (es ! i) = word_of_nat (k + i))"

definition mirrored :: "'u audit_env \<Rightarrow> nat \<Rightarrow> 'u audit_log \<Rightarrow> bool" where
  "mirrored env n lg \<longleftrightarrow>
     db lg = Some (map (row_of_entry env) (entries lg))
     \<and> (\<exists>k. seqs_from k (entries lg) \<and> k + length (entries lg) \<le> n)
     \<and> (\<forall>e \<in> set (entries lg). ae_action e \<in> set LOADED_ACTIONS)"

lemma sint_small [simp]: "m < 2 ^ 63 \<Longrightarrow> sint (word_of_nat m :: u64) = int m"
  by (simp add: signed_of_nat signed_take_bit_int_eq_self)

lemma u64_of_nat_inject:
  "a < 2 ^ 64 \<Longrightarrow> b < 2 ^ 64 \<Longrightarrow> (word_of_nat a :: u64) = word_of_nat b \<longleftrightarrow> a = b"
  by (simp add: word_of_nat_eq_iff take_bit_nat_eq_self)

lemma row_seq_nth:
  "seqs_from k es \<Longrightarrow> k + length es \<le> 2 ^ 63 \<Longrightarrow> i < length es \<Longrightarrow> row_seq (row_of_entry env (es ! i)) = int (k + i)"
  by (simp add: seqs_from_def row_of_entry_def del: of_nat_add)

lemma last_seq: "seqs_from k es \<Longrightarrow> es \<noteq> [] \<Longrightarrow> ae_seq (last es) + 1 = word_of_nat (k + length es)"
  by (cases es rule: rev_cases) (auto simp: seqs_from_def)

lemma seqs_from_snoc: "seqs_from k es \<Longrightarrow> ae_seq e = word_of_nat (k + length es) \<Longrightarrow> seqs_from k (es @ [e])"
  by (auto simp: seqs_from_def nth_append less_Suc_eq)

lemma seqs_from_drop: "seqs_from k es \<Longrightarrow> n \<le> length es \<Longrightarrow> seqs_from (k + n) (drop n es)"
  by (auto simp: seqs_from_def add.assoc)

lemma filter_rows:
  assumes "seqs_from k es" "k + length es \<le> 2 ^ 63" "n \<le> length es"
  shows "filter (\<lambda>r. \<not> row_seq r < int (k + n)) (map (row_of_entry env) es) = map (row_of_entry env) (drop n es)"
proof -
  have before: "row_seq (row_of_entry env e) < int (k + n)" if e: "e \<in> set (take n es)" for e
  proof -
    from e assms(3) obtain i where "i < n" "e = es ! i"
      by (auto simp: in_set_conv_nth)
    with assms show ?thesis by (simp add: row_seq_nth[OF assms(1,2)])
  qed
  have after: "\<not> row_seq (row_of_entry env e) < int (k + n)" if e: "e \<in> set (drop n es)" for e
  proof -
    from e obtain i where "i < length es - n" "e = es ! (n + i)"
      by (auto simp: in_set_conv_nth)
    with assms show ?thesis by (simp add: row_seq_nth[OF assms(1,2)])
  qed
  have "filter (\<lambda>r. \<not> row_seq r < int (k + n)) (map (row_of_entry env) (take n es @ drop n es))
      = map (row_of_entry env) (drop n es)"
    using before after unfolding map_append filter_append filter_map
    by (simp add: o_def filter_empty_conv filter_id_conv)
  then show ?thesis by simp
qed

lemma mirrored_drop_prefix:
  assumes "mirrored env m lg" "m \<le> MAX_AUDIT_ENTRIES" "0 < n" "n \<le> length (entries lg)"
  shows "mirrored env m (drop_prefix lg n True w)"
proof -
  let ?es = "entries lg"
  from assms obtain k where k: "seqs_from k ?es" "k + length ?es \<le> m"
    and db: "db lg = Some (map (row_of_entry env) ?es)" and act: "\<forall>e \<in> set ?es. ae_action e \<in> set LOADED_ACTIONS"
    by (auto simp: mirrored_def)
  have bound: "k + length ?es \<le> 2 ^ 63"
    using k(2) assms(2) by (simp add: MAX_AUDIT_ENTRIES_def)
  have "?es \<noteq> []" using assms by auto
  then have seq: "(if n < length ?es then ae_seq (?es ! n) else ae_seq (?es ! (length ?es - 1)) + 1)
      = word_of_nat (k + n)"
    using k(1) assms(4) last_seq[OF k(1)] by (auto simp: seqs_from_def last_conv_nth not_less)
  have "sint (word_of_nat (k + n) :: u64) = int (k + n)"
    using k(2) assms(2,4) by (intro sint_small) (simp add: MAX_AUDIT_ENTRIES_def)
  then have "db (drop_prefix lg n True w) = Some (map (row_of_entry env) (drop n ?es))"
    unfolding drop_prefix_def Let_def seq
    using filter_rows[OF k(1) bound assms(4), of env] by (simp add: db del: of_nat_add)
  moreover have "seqs_from (k + n) (drop n ?es)"
    using k(1) assms(4) by (rule seqs_from_drop)
  moreover have "k + n + length (drop n ?es) \<le> m"
    using k(2) assms(4) by simp
  ultimately show ?thesis
    using act by (auto simp: mirrored_def dest: in_set_dropD)
qed

lemma mirrored_mono: "mirrored env m lg \<Longrightarrow> m \<le> n \<Longrightarrow> mirrored env n lg"
  unfolding mirrored_def using le_trans by blast

lemma mirrored_record:
  assumes "mirrored env m lg" "m < MAX_AUDIT_ENTRIES" "act \<in> set LOADED_ACTIONS"
  shows "mirrored env (Suc m) (exec_audit env lg (Record ts i w agent act detail outcome uid ch))"
proof -
  let ?e = "next_entry env lg ts agent act detail outcome uid ch"
  from assms obtain k where k: "seqs_from k (entries lg)" "k + length (entries lg) \<le> m"
    and db: "db lg = Some (map (row_of_entry env) (entries lg))"
    and act: "\<forall>e \<in> set (entries lg). ae_action e \<in> set LOADED_ACTIONS"
    by (auto simp: mirrored_def)
  have "\<exists>j. seqs_from j (entries lg @ [?e]) \<and> j + length (entries lg @ [?e]) \<le> Suc m"
  proof (cases "entries lg = []")
    case True
    then show ?thesis by (intro exI[of _ 0]) (simp add: seqs_from_def)
  next
    case False
    with k show ?thesis
      by (intro exI[of _ k] conjI seqs_from_snoc) (simp_all add: last_seq)
  qed
  moreover have "cap_entries (lg\<lparr>db := table, entries := entries lg @ [?e], tip := h\<rparr>)
      = lg\<lparr>db := table, entries := entries lg @ [?e], tip := h\<rparr>" for table h
    using k(2) assms(2) by (simp add: cap_entries_def)
  ultimately show ?thesis
    using assms(3) act db mirrored_mono[OF assms(1), of "Suc m"] unfolding record_exec
    by (auto simp: Let_def mirrored_def insert_row_def simp del: next_entry_simps(3,4) split: option.split)
qed

lemma mirrored_step:
  assumes "mirrored env m lg" "m < MAX_AUDIT_ENTRIES" "action_loads op" "delete_succeeds op"
  shows "mirrored env (Suc m) (exec_audit env lg op)"
proof -
  have drop: "mirrored env (Suc m) (drop_prefix lg n True w)" if "0 < n" "n \<le> length (entries lg)" for n w
    using that assms(1,2) mirrored_drop_prefix[of env m lg n w] by (auto intro: mirrored_mono)
  have same: "mirrored env (Suc m) lg"
    using assms(1) by (rule mirrored_mono) simp
  show ?thesis
  proof (cases op)
    case (Record ts i w agent act detail outcome uid ch)
    with assms show ?thesis by (simp only: action_loads.simps mirrored_record)
  next
    case (Trim policy now d w)
    show ?thesis
      unfolding Trim exec_audit.simps
      by (rule trim_cases[of env lg policy now d w]) (use assms(4) Trim drop same in auto)
  next
    case (Prune days cutoff d w)
    show ?thesis
      unfolding Prune exec_audit.simps
      by (rule prune_cases[of lg days cutoff d w]) (use assms(4) Prune drop same in auto)
  qed
qed

lemma mirrored_run:
  assumes "mirrored env m lg" "m + length ops \<le> MAX_AUDIT_ENTRIES"
    and "\<forall>op \<in> set ops. action_loads op \<and> delete_succeeds op"
  shows "mirrored env (m + length ops) (foldl (exec_audit env) lg ops)"
  using assms
proof (induction ops arbitrary: m lg)
  case (Cons op ops)
  then have "mirrored env (Suc m) (exec_audit env lg op)"
    by (intro mirrored_step) auto
  with Cons.IH[of "Suc m"] Cons.prems show ?case by simp
qed simp

lemma action_roundtrip: "a \<in> set LOADED_ACTIONS \<Longrightarrow> action_of_row (action_display a) = a"
proof -
  have "\<forall>a \<in> set LOADED_ACTIONS. action_of_row (action_display a) = a" by code_simp
  then show "a \<in> set LOADED_ACTIONS \<Longrightarrow> action_of_row (action_display a) = a" by blast
qed

lemma map_filter_inverse: "\<forall>x \<in> set xs. f (g x) = Some x \<Longrightarrow> List.map_filter f (map g xs) = xs"
  by (induction xs) (auto simp: map_filter_simps)

lemma entry_roundtrip:
  assumes "\<forall>u. uid_parse env (uid_show env u) = Some u" "ae_action e \<in> set LOADED_ACTIONS" "0 \<le> sint (ae_seq e)"
  shows "entry_of_row env (row_of_entry env e) = Some e"
  using assms by (cases "ae_user_id e") (simp_all add: entry_of_row_def row_of_entry_def action_roundtrip)

lemma reload_rows:
  assumes "seqs_from k es" "k + length es \<le> 2 ^ 63" "\<forall>e \<in> set es. ae_action e \<in> set LOADED_ACTIONS"
    and "\<forall>u. uid_parse env (uid_show env u) = Some u"
  shows "List.map_filter (entry_of_row env) (sort_key row_seq (map (row_of_entry env) es)) = es"
proof -
  have "sorted (map row_seq (map (row_of_entry env) es))"
    by (auto simp: sorted_iff_nth_mono row_seq_nth[OF assms(1,2)])
  then have "sort_key row_seq (map (row_of_entry env) es) = map (row_of_entry env) es"
    by (rule sort_key_id_if_sorted)
  moreover have "entry_of_row env (row_of_entry env e) = Some e" if e: "e \<in> set es" for e
  proof -
    from e obtain i where "i < length es" "e = es ! i" by (auto simp: in_set_conv_nth)
    then have "row_seq (row_of_entry env e) = int (k + i)"
      using row_seq_nth[OF assms(1,2)] by simp
    then have "0 \<le> sint (ae_seq e)" by (simp add: row_of_entry_def)
    with e assms(3) show ?thesis by (intro entry_roundtrip[OF assms(4)]) auto
  qed
  then have "List.map_filter (entry_of_row env) (map (row_of_entry env) es) = es"
    by (intro map_filter_inverse) blast
  ultimately show ?thesis by simp
qed

lemma reload_mirrored:
  assumes "mirrored env m lg" "m \<le> MAX_AUDIT_ENTRIES" "\<forall>u. uid_parse env (uid_show env u) = Some u"
  shows "List.map_filter (entry_of_row env) (sort_key row_seq (the (db lg))) = entries lg"
proof -
  from assms obtain k where "seqs_from k (entries lg)" "k + length (entries lg) \<le> m"
    "db lg = Some (map (row_of_entry env) (entries lg))"
    "\<forall>e \<in> set (entries lg). ae_action e \<in> set LOADED_ACTIONS"
    by (auto simp: mirrored_def)
  with assms(2,3) show ?thesis
    by (simp add: reload_rows MAX_AUDIT_ENTRIES_def)
qed

section \<open>What the hashes commit to\<close>

definition entry_input :: "'u audit_env \<Rightarrow> 'u audit_entry \<Rightarrow> string" where
  "entry_input env e =
     hash_input env (ae_seq e) (ae_timestamp e) (ae_agent_id e) (ae_action e) (ae_detail e)
       (ae_outcome e) (ae_user_id e) (ae_channel e) (ae_prev_hash e)"

lemma entry_hash_input: "entry_hash env e = sha env (entry_input env e)"
  by (simp add: entry_hash_def compute_entry_hash_def entry_input_def)

lemma entry_input_prev: "\<exists>u. entry_input env e = u @ ae_prev_hash e"
  unfolding entry_input_def hash_input_def append.assoc[symmetric] by blast

lemma chain_end_length:
  assumes "\<forall>x. is_hash (sha env x)" "chain_ok env p es" "es \<noteq> []"
  shows "length (chain_end p es) = 64"
proof -
  from assms(3) obtain xs e where "es = xs @ [e]" by (cases es rule: rev_cases) auto
  with assms(1,2) show ?thesis
    by (simp add: entry_hash_input is_hash_def)
qed

lemma chain_inputs_agree:
  assumes "\<forall>x. is_hash (sha env x)" "length xs = length ys" "chain_ok env p xs" "chain_ok env q ys"
    and "chain_end p xs = chain_end q ys"
    and "\<forall>x \<in> entry_input env ` set xs. \<forall>y \<in> entry_input env ` set ys. sha env x = sha env y \<longrightarrow> x = y"
  shows "map (entry_input env) xs = map (entry_input env) ys"
  using assms(2-)
proof (induction xs arbitrary: ys rule: rev_induct)
  case (snoc e xs)
  from snoc.prems(1) obtain f zs where ys: "ys = zs @ [f]" "length xs = length zs"
    by (cases ys rule: rev_cases) auto
  have "ae_hash e = ae_hash f" "ae_hash e = entry_hash env e" "ae_hash f = entry_hash env f"
    using snoc.prems(2,3,4) ys(1) by simp_all
  then have "sha env (entry_input env e) = sha env (entry_input env f)"
    unfolding entry_hash_input by metis
  then have inp: "entry_input env e = entry_input env f"
    using bspec[OF bspec[OF snoc.prems(5), of "entry_input env e"], of "entry_input env f"] ys(1) by simp
  have "chain_end p xs = chain_end q zs" if "xs \<noteq> []"
  proof -
    have "zs \<noteq> []" using that ys(2) by auto
    then have "length (chain_end p xs) = 64" "length (chain_end q zs) = 64"
      using that snoc.prems(2,3) ys(1) by (simp_all add: chain_end_length[OF assms(1)])
    moreover obtain u v where u: "entry_input env e = u @ ae_prev_hash e"
      and v: "entry_input env f = v @ ae_prev_hash f"
      using entry_input_prev by metis
    moreover have "ae_prev_hash e = chain_end p xs" "ae_prev_hash f = chain_end q zs"
      using snoc.prems(2,3) ys(1) by simp_all
    ultimately show ?thesis
      using inp u v append_eq_append_conv[of "ae_prev_hash e" "ae_prev_hash f" u v] by auto
  qed
  moreover have "chain_ok env p xs" "chain_ok env q zs"
    using snoc.prems(2,3) ys(1) by simp_all
  moreover have "\<forall>x \<in> entry_input env ` set xs. \<forall>y \<in> entry_input env ` set zs. sha env x = sha env y \<longrightarrow> x = y"
    using snoc.prems(5) ys(1) by auto
  ultimately have "map (entry_input env) xs = map (entry_input env) zs"
    using snoc.IH[OF ys(2)] ys(2) by (cases "xs = []") auto
  with inp ys(1) show ?case by simp
qed simp

lemma verify_chain_cong:
  assumes "list_all2 (\<lambda>a b. ae_seq a = ae_seq b \<and> ae_prev_hash a = ae_prev_hash b \<and> ae_hash a = ae_hash b
                        \<and> entry_hash env a = entry_hash env b) xs ys"
  shows "verify_chain env p xs = verify_chain env p ys"
  using assms by (induction xs ys arbitrary: p rule: list_all2_induct) auto

lemma verified_chain:
  assumes "verify_integrity env lg = Inr ()"
  shows "chain_ok env (chain_start lg) (entries lg)"
    and "anchored lg \<Longrightarrow> read_anchor (anchor lg) =
           Inr (Some (word_of_nat (length (entries lg)), chain_end (chain_start lg) (entries lg)))"
  using assms
  by (auto simp: verify_integrity_def verify_chain_iff Let_def split: sum.splits option.splits if_splits)

section \<open>Beyond the in-memory cap\<close>

text \<open>
  \<open>capped env full lg\<close>: the log keeps the last 10,000 of the entries \<open>full\<close>, all of which are in
  the table.
\<close>

definition capped :: "'u audit_env \<Rightarrow> 'u audit_entry list \<Rightarrow> 'u audit_log \<Rightarrow> bool" where
  "capped env full lg \<longleftrightarrow>
     chain_ok env GENESIS full \<and> tip lg = chain_end GENESIS full \<and> seqs_from 0 full
     \<and> (\<forall>e \<in> set full. ae_action e \<in> set LOADED_ACTIONS)
     \<and> db lg = Some (map (row_of_entry env) full)
     \<and> entries lg = drop (length full - MAX_AUDIT_ENTRIES) full"

lemma capped_insert:
  assumes "capped env full lg" "length full < 2 ^ 63" "ae_seq e = word_of_nat (length full)"
  shows "insert_row env True e (db lg) = Some (Some (map (row_of_entry env) (full @ [e])))"
proof -
  have "row_seq (row_of_entry env f) \<noteq> sint (ae_seq e)" if f: "f \<in> set full" for f
  proof -
    from f obtain i where "i < length full" "f = full ! i" by (auto simp: in_set_conv_nth)
    with assms show ?thesis
      using row_seq_nth[of 0 full i env] by (simp add: capped_def)
  qed
  with assms(1) show ?thesis
    by (auto simp: insert_row_def capped_def list_ex_iff)
qed

lemma capped_record:
  assumes "capped env full lg" "length full < 2 ^ 63" "act \<in> set LOADED_ACTIONS"
  shows "capped env (full @ [next_entry env lg ts agent act detail outcome uid ch])
           (exec_audit env lg (Record ts True w agent act detail outcome uid ch))"
proof -
  let ?e = "next_entry env lg ts agent act detail outcome uid ch" and ?m = MAX_AUDIT_ENTRIES
  have m: "0 < ?m" by (simp add: MAX_AUDIT_ENTRIES_def)
  have es: "entries lg = drop (length full - ?m) full" and seqs: "seqs_from 0 full"
    using assms(1) by (auto simp: capped_def)
  have "full \<noteq> [] \<Longrightarrow> length full - ?m < length full"
    using m by simp
  then have "entries lg = [] \<longleftrightarrow> full = []" "full \<noteq> [] \<Longrightarrow> last (entries lg) = last full"
    using es by (cases "full = []"; auto)+
  then have seq: "ae_seq ?e = word_of_nat (length full)"
    using last_seq[OF seqs] by auto
  let ?lg1 = "lg\<lparr>db := Some (map (row_of_entry env) (full @ [?e])), entries := entries lg @ [?e], tip := ae_hash ?e\<rparr>"
  have "entries (cap_entries ?lg1) = drop (length (full @ [?e]) - ?m) (full @ [?e])"
    using es by (auto simp: cap_entries_def Let_def not_less Suc_diff_le simp del: next_entry_simps)
  with assms seqs seqs_from_snoc[OF seqs, of ?e] seq show ?thesis
    unfolding record_exec Let_def capped_insert[OF assms(1,2) seq]
    by (auto simp: capped_def simp del: next_entry_simps(3,4)) simp
qed

lemma capped_start: "capped env [] (with_db_anchored env True [] Missing True)"
  by (simp add: capped_def with_db_anchored_def with_db_def read_anchor_def seqs_from_def map_filter_simps)

lemma capped_run:
  assumes "n < 2 ^ 63" "act \<in> set LOADED_ACTIONS"
  shows "\<exists>full. length full = n \<and> capped env full (foldl (exec_audit env) (with_db_anchored env True [] Missing True)
           (replicate n (Record ts True w agent act detail outcome uid ch)))"
  using assms(1)
proof (induction n)
  case 0
  then show ?case using capped_start by simp
next
  case (Suc n)
  then obtain full where "length full = n" "capped env full (foldl (exec_audit env)
      (with_db_anchored env True [] Missing True) (replicate n (Record ts True w agent act detail outcome uid ch)))"
    by auto
  with Suc.prems assms(2) capped_record show ?case
    unfolding replicate_Suc replicate_append_same[symmetric] foldl_append foldl_Cons foldl_Nil
    by (metis Suc_lessD length_append_singleton)
qed

lemma reload_capped:
  assumes "capped env full lg" "full \<noteq> []" "length full < 2 ^ 63" "\<forall>u. uid_parse env (uid_show env u) = Some u"
    and "read_anchor (anchor lg) \<noteq> Inr None"
  shows "with_db_anchored env True (the (db lg)) (anchor lg) w =
           \<lparr>entries = full, tip = tip lg, db = db lg, anchored = True, anchor = anchor lg, chain_anchor = None\<rparr>"
proof -
  have "List.map_filter (entry_of_row env) (sort_key row_seq (the (db lg))) = full"
    using assms reload_rows[of 0 full env] by (simp add: capped_def)
  moreover obtain e es where es: "full = e # es" using assms(2) by (cases full) auto
  moreover have "ae_prev_hash e = GENESIS" "tip lg = ae_hash (last full)" "db lg = Some (the (db lg))"
    using assms(1,2) es by (simp_all add: capped_def chain_end_def)
  ultimately show ?thesis
    using assms(2,5) by (auto simp: with_db_anchored_def with_db_def Let_def split: sum.split option.split)
qed

section \<open>Properties\<close>

definition sample_entry :: "string audit_entry" where
  "sample_entry =
     \<lparr>ae_seq = 0, ae_timestamp = ''t'', ae_agent_id = ''a'', ae_action = ShellExec, ae_detail = ''lsx'',
      ae_outcome = ''ok'', ae_user_id = None, ae_channel = None, ae_prev_hash = GENESIS, ae_hash = ''h''\<rparr>"

text \<open>
  C4: The audit log verifies at every moment. A log started on an empty table, with an anchor file, after
  any sequence of records (some of whose inserts may fail), trims and prunes passes
  \<open>verify_integrity\<close>, as long as the anchor file could be written.
\<close>
theorem audit_log_verifies:
  assumes "\<forall>x. is_hash (sha env x)" "\<forall>op \<in> set ops. write_succeeds op"
  shows "verify_integrity env (foldl (exec_audit env) (with_db_anchored env True [] Missing True) ops) = Inr ()"
  using assms by (intro verifies_iff log_ok_start_run fresh_start_run)


text \<open>
  C14: A restart loses nothing. After any run of at most 10,000 operations, in which deletes and anchor
  writes succeed and every recorded action is one the loader knows, a log that still has an entry is
  reloaded from the table with the same entries and tip, and it verifies against the anchor file.
\<close>
theorem audit_restart_roundtrip:
  assumes "lg = foldl (exec_audit env) (with_db_anchored env True [] Missing True) ops"
    and "\<forall>x. is_hash (sha env x)" "\<forall>u. uid_parse env (uid_show env u) = Some u"
    and "length ops \<le> MAX_AUDIT_ENTRIES"
    and "\<forall>op \<in> set ops. write_succeeds op \<and> delete_succeeds op \<and> action_loads op"
    and "entries lg \<noteq> []"
  shows "let lg' = with_db_anchored env True (the (db lg)) (anchor lg) w
         in entries lg' = entries lg \<and> tip lg' = tip lg \<and> verify_integrity env lg' = Inr ()"
proof -
  have ok: "log_ok env lg" "file_fresh lg"
    using log_ok_start_run fresh_start_run assms(2,5) unfolding assms(1) by blast+
  have "mirrored env 0 (with_db_anchored env True [] Missing True)"
    by (auto simp: with_db_anchored_def with_db_def read_anchor_def mirrored_def seqs_from_def map_filter_simps)
  then have "mirrored env (length ops) lg"
    unfolding assms(1) using mirrored_run[of env 0 _ ops] assms(4,5) by simp
  then have rows: "List.map_filter (entry_of_row env) (sort_key row_seq (the (db lg))) = entries lg"
    using assms(3,4) by (intro reload_mirrored)
  from assms(6) obtain e es where es: "entries lg = e # es" by (cases "entries lg") auto
  define lg' where "lg' = with_db_anchored env True (the (db lg)) (anchor lg) w"
  have lg': "lg' = \<lparr>entries = entries lg, tip = tip lg, db = Some (the (db lg)), anchored = True,
      anchor = anchor lg, chain_anchor = (if ae_prev_hash e \<noteq> GENESIS then Some (ae_prev_hash e) else None)\<rparr>"
    using ok es by (simp add: lg'_def with_db_anchored_def with_db_def rows file_fresh_def read_format_anchor
        log_ok_def chain_end_def Let_def)
  have "chain_start lg' = chain_start lg"
    using ok(1) es by (simp add: lg' chain_start_def log_ok_def)
  then have "log_ok env lg'" "file_fresh lg'"
    using ok by (simp_all add: lg' log_ok_def file_fresh_def)
  then have "verify_integrity env lg' = Inr ()"
    by (rule verifies_iff)
  moreover have "entries lg' = entries lg" "tip lg' = tip lg"
    by (simp_all add: lg')
  ultimately show ?thesis
    unfolding Let_def lg'_def[symmetric] by simp
qed


theorem audit_log_verifies_witness:
  "let env = \<lparr>sha = \<lambda>x. GENESIS, uid_bytes = \<lambda>u. u, uid_show = \<lambda>u. u, uid_parse = Some, parse_ts = \<lambda>_. None\<rparr>
   in verify_integrity env (foldl (exec_audit env) (with_db_anchored env True [] Missing True)
        [Record ''t0'' True True ''agent'' ShellExec ''ls'' ''ok'' None None,
         Record ''t1'' False True ''agent'' ShellExec ''rm'' ''ok'' None None, Prune 90 ''t1'' True True]) = Inr ()"
  unfolding Let_def by (rule audit_log_verifies) simp_all

theorem audit_restart_roundtrip_witness:
  "let env = \<lparr>sha = \<lambda>x. GENESIS, uid_bytes = \<lambda>u. u, uid_show = \<lambda>u. u, uid_parse = Some, parse_ts = \<lambda>_. None\<rparr>;
       lg = foldl (exec_audit env) (with_db_anchored env True [] Missing True)
        [Record ''t0'' True True ''agent'' ShellExec ''ls'' ''ok'' None None,
         Record ''t1'' True True ''agent'' ToolInvoke ''web'' ''ok'' (Some ''u'') (Some ''cli''), Prune 90 ''t1'' True True];
       lg' = with_db_anchored env True (the (db lg)) (anchor lg) True
   in entries lg' = entries lg \<and> tip lg' = tip lg \<and> verify_integrity env lg' = Inr ()"
proof -
  let ?env = "\<lparr>sha = \<lambda>x. GENESIS, uid_bytes = \<lambda>u. u, uid_show = \<lambda>u. u, uid_parse = Some, parse_ts = \<lambda>_. None\<rparr>"
  let ?ops = "[Record ''t0'' True True ''agent'' ShellExec ''ls'' ''ok'' None None,
    Record ''t1'' True True ''agent'' ToolInvoke ''web'' ''ok'' (Some ''u'') (Some ''cli''), Prune 90 ''t1'' True True]"
  have "entries (foldl (exec_audit ?env) (with_db_anchored ?env True [] Missing True) ?ops) \<noteq> []"
    by code_simp
  then show ?thesis
    using audit_restart_roundtrip[OF refl, of ?env ?ops True]
    unfolding Let_def by (simp add: MAX_AUDIT_ENTRIES_def LOADED_ACTIONS_def del: exec_audit.simps)
qed

text \<open>
  C10: The chain is tamper-evident up to the hash. If two logs verify against the same anchor file, then
  they have the same number of entries and entry by entry the same hash input, or the two inputs are
  a collision of the hash function.
\<close>
theorem audit_tamper_evident:
  assumes "\<forall>x. is_hash (sha env x)"
    and "verify_integrity env a = Inr ()" "verify_integrity env b = Inr ()"
    and "anchored a" "anchored b" "anchor a = anchor b"
    and "length (entries a) < 2 ^ 64" "length (entries b) < 2 ^ 64"
  shows "map (entry_input env) (entries a) = map (entry_input env) (entries b)
       \<or> (\<exists>x \<in> entry_input env ` set (entries a). \<exists>y \<in> entry_input env ` set (entries b).
            x \<noteq> y \<and> sha env x = sha env y)"
proof (rule disjCI)
  assume nc: "\<not> (\<exists>x \<in> entry_input env ` set (entries a). \<exists>y \<in> entry_input env ` set (entries b).
            x \<noteq> y \<and> sha env x = sha env y)"
  have r: "read_anchor (anchor a) = Inr (Some (word_of_nat (length (entries a)), chain_end (chain_start a) (entries a)))"
    "read_anchor (anchor b) = Inr (Some (word_of_nat (length (entries b)), chain_end (chain_start b) (entries b)))"
    by (rule verified_chain(2)[OF assms(2,4)], rule verified_chain(2)[OF assms(3,5)])
  then have ends: "chain_end (chain_start a) (entries a) = chain_end (chain_start b) (entries b)"
    and "(word_of_nat (length (entries a)) :: u64) = word_of_nat (length (entries b))"
    using assms(6) by simp_all
  then have "length (entries a) = length (entries b)"
    using assms(7,8) by (simp add: u64_of_nat_inject)
  then show "map (entry_input env) (entries a) = map (entry_input env) (entries b)"
    using chain_inputs_agree[OF assms(1) _ verified_chain(1)[OF assms(2)] verified_chain(1)[OF assms(3)] ends] nc
    by blast
qed

text \<open>
  The hash input joins the fields without separators, so the chain does not commit to the field
  boundaries: moving the end of the detail of any entry to the front of its outcome changes
  nothing that \<open>verify_integrity\<close> checks.
\<close>
theorem audit_boundary_shift:
  assumes "entries lg = pre @ e # post" "ae_detail e = d @ m"
  shows "verify_integrity env (lg\<lparr>entries := pre @ e\<lparr>ae_detail := d, ae_outcome := m @ ae_outcome e\<rparr> # post\<rparr>)
       = verify_integrity env lg"
proof -
  have "entry_hash env (e\<lparr>ae_detail := d, ae_outcome := m @ ae_outcome e\<rparr>) = entry_hash env e"
    using assms(2) by (simp add: entry_hash_def compute_entry_hash_def hash_input_def)
  then have "verify_chain env p (pre @ e\<lparr>ae_detail := d, ae_outcome := m @ ae_outcome e\<rparr> # post)
      = verify_chain env p (pre @ e # post)" for p
    by (intro verify_chain_cong list_all2_appendI) (auto simp: list_all2_refl)
  then show ?thesis
    by (cases "verify_chain env (chain_start lg) (pre @ e # post)")
      (simp_all add: verify_integrity_def chain_start_def assms(1) Let_def split: sum.split option.split)
qed

text \<open>
  A restart after the in-memory cap was reached fails verification although nothing was tampered
  with: the anchor file holds the number of entries in memory, and the reload counts those of the
  table.
\<close>
theorem restart_after_cap_fails:
  assumes "\<forall>x. is_hash (sha env x)" "\<forall>u. uid_parse env (uid_show env u) = Some u"
    and "MAX_AUDIT_ENTRIES < n" "n < 2 ^ 63"
    and "lg = foldl (exec_audit env) (with_db_anchored env True [] Missing True)
                (replicate n (Record ts True True agent ToolInvoke detail outcome None None))"
  shows "verify_integrity env lg = Inr ()
       \<and> verify_integrity env (with_db_anchored env True (the (db lg)) (anchor lg) w)
         = Inl (AnchorMismatch (word_of_nat MAX_AUDIT_ENTRIES) (tip lg) (word_of_nat n) (tip lg))"
proof -
  obtain full where full: "length full = n" "capped env full lg"
    using capped_run[OF assms(4), of ToolInvoke env ts True agent detail outcome None None] unfolding assms(5)
    by (auto simp: LOADED_ACTIONS_def)
  have fresh: "file_fresh lg" and ok: "log_ok env lg"
    unfolding assms(5) using assms(1) by (auto intro: fresh_start_run log_ok_start_run)
  have "length (entries lg) = MAX_AUDIT_ENTRIES"
    using full assms(3) by (simp add: capped_def)
  with fresh have ra: "read_anchor (anchor lg) = Inr (Some (word_of_nat MAX_AUDIT_ENTRIES, tip lg))"
    by (simp add: file_fresh_def read_format_anchor)
  have "full \<noteq> []" using full assms(3) by auto
  then have re: "with_db_anchored env True (the (db lg)) (anchor lg) w =
      \<lparr>entries = full, tip = tip lg, db = db lg, anchored = True, anchor = anchor lg, chain_anchor = None\<rparr>"
    using full assms(2,4) ra by (intro reload_capped) auto
  have "(word_of_nat MAX_AUDIT_ENTRIES :: u64) \<noteq> word_of_nat n"
    using assms(3,4) by (subst u64_of_nat_inject) auto
  moreover have "verify_chain env GENESIS full = Inr (tip lg)"
    using full(2) by (simp add: verify_chain_iff capped_def)
  ultimately show ?thesis
    using verifies_iff[OF ok fresh] full(1)
    by (simp add: re verify_integrity_def chain_start_def ra)
qed


theorem restart_after_cap_fails_witness:
  "let env = \<lparr>sha = \<lambda>x. GENESIS, uid_bytes = \<lambda>u. u, uid_show = \<lambda>u. u, uid_parse = Some, parse_ts = \<lambda>_. None\<rparr>;
       lg = foldl (exec_audit env) (with_db_anchored env True [] Missing True)
              (replicate 10001 (Record ''t'' True True ''agent'' ToolInvoke ''web'' ''ok'' None None))
   in verify_integrity env lg = Inr ()
      \<and> verify_integrity env (with_db_anchored env True (the (db lg)) (anchor lg) True)
        = Inl (AnchorMismatch (word_of_nat MAX_AUDIT_ENTRIES) (tip lg) (word_of_nat 10001) (tip lg))"
  unfolding Let_def by (rule restart_after_cap_fails) (simp_all add: MAX_AUDIT_ENTRIES_def)

theorem audit_tamper_evident_witness:
  "let env = \<lparr>sha = \<lambda>x. GENESIS, uid_bytes = \<lambda>u. u, uid_show = \<lambda>u. u, uid_parse = Some, parse_ts = \<lambda>_. None\<rparr>;
       run = (\<lambda>d. exec_audit env (with_db_anchored env True [] Missing True)
                (Record ''t'' True True ''agent'' ShellExec d ''ok'' None None))
   in map (entry_input env) (entries (run ''ls'')) = map (entry_input env) (entries (run ''rm''))
      \<or> (\<exists>x \<in> entry_input env ` set (entries (run ''ls'')). \<exists>y \<in> entry_input env ` set (entries (run ''rm'')).
           x \<noteq> y \<and> sha env x = sha env y)"
proof -
  let ?env = "\<lparr>sha = \<lambda>x. GENESIS, uid_bytes = \<lambda>u. u, uid_show = \<lambda>u. u, uid_parse = Some, parse_ts = \<lambda>_. None\<rparr>"
  let ?run = "\<lambda>d. exec_audit ?env (with_db_anchored ?env True [] Missing True)
      (Record ''t'' True True ''agent'' ShellExec d ''ok'' None None)"
  have len: "length (entries (?run ''ls'')) = 1" "length (entries (?run ''rm'')) = 1" by code_simp+
  have "length (entries (?run ''ls'')) < 2 ^ 64" "length (entries (?run ''rm'')) < 2 ^ 64"
    unfolding len by simp_all
  moreover have fresh: "file_fresh (?run d)" and ok: "log_ok ?env (?run d)" for d
    by (intro fresh_step start_log; simp only: audit_env.simps genesis_is_hash write_succeeds.simps simp_thms)
      (intro log_ok_step start_log)
  moreover have "verify_integrity ?env (?run ''ls'') = Inr ()" "verify_integrity ?env (?run ''rm'') = Inr ()"
    by (intro verifies_iff ok fresh)+
  moreover have "tip (?run ''ls'') = tip (?run ''rm'')" by code_simp
  then have "anchored (?run ''ls'')" "anchored (?run ''rm'')" "anchor (?run ''ls'') = anchor (?run ''rm'')"
    using fresh[of "''ls''"] fresh[of "''rm''"] len unfolding file_fresh_def by metis+
  ultimately show ?thesis
    unfolding Let_def by (intro audit_tamper_evident; (assumption | simp only: audit_env.simps genesis_is_hash simp_thms))
qed

theorem audit_boundary_shift_witness:
  "let env = \<lparr>sha = \<lambda>x. x, uid_bytes = \<lambda>u. u, uid_show = \<lambda>u. u, uid_parse = Some, parse_ts = \<lambda>_. None\<rparr>;
       lg = new_log\<lparr>entries := [sample_entry]\<rparr>
   in verify_integrity env (lg\<lparr>entries := [sample_entry\<lparr>ae_detail := ''ls'', ae_outcome := ''xok''\<rparr>]\<rparr>)
      = verify_integrity env lg"
  using audit_boundary_shift[of "new_log\<lparr>entries := [sample_entry]\<rparr>" "[]" sample_entry "[]" "''ls''" "''x''"]
  by (simp add: Let_def sample_entry_def)

text \<open>
  The two actions that the loader does not know are read back as \<open>ToolInvoke\<close>, so a log with
  such an entry fails verification after a restart unless the hash collides.
\<close>
lemma a2a_action_breaks_restart:
  assumes "act = A2aDiscovered \<or> act = A2aTrusted" "\<forall>x. is_hash (sha env x)"
    and "compute_entry_hash env 0 ts agent ToolInvoke detail outcome None None GENESIS
       \<noteq> compute_entry_hash env 0 ts agent act detail outcome None None GENESIS"
    and "lg = exec_audit env (with_db_anchored env True [] Missing True)
                (Record ts True True agent act detail outcome None None)"
  shows "verify_integrity env lg = Inr ()
       \<and> verify_integrity env (with_db_anchored env True (the (db lg)) (anchor lg) w) = Inl (HashMismatch 0)"
proof -
  let ?start = "with_db_anchored env True [] Missing True"
  let ?e = "next_entry env ?start ts agent act detail outcome None None"
  have start: "entries ?start = []" "tip ?start = GENESIS" "db ?start = Some []" "anchored ?start"
    by (simp_all add: with_db_anchored_def with_db_def read_anchor_def map_filter_simps)
  then have lg: "entries lg = [?e]" "tip lg = ae_hash ?e" "db lg = Some [row_of_entry env ?e]"
    unfolding assms(4) record_exec
    by (simp_all add: Let_def insert_row_def cap_entries_def MAX_AUDIT_ENTRIES_def del: next_entry_simps)
  have ok: "log_ok env lg" "file_fresh lg"
    unfolding assms(4)
    by (intro log_ok_step start_log, intro fresh_step start_log assms(2), simp)
  have unknown: "action_of_row (action_display act) = ToolInvoke"
  proof -
    have "action_of_row (action_display A2aDiscovered) = ToolInvoke"
      "action_of_row (action_display A2aTrusted) = ToolInvoke" by code_simp+
    with assms(1) show ?thesis by auto
  qed
  have "entry_of_row env (row_of_entry env ?e) = Some (?e\<lparr>ae_action := ToolInvoke\<rparr>)"
    using start by (simp add: entry_of_row_def row_of_entry_def next_entry_def unknown)
  moreover have "read_anchor (anchor lg) \<noteq> Inr None"
    using ok(2) by (auto simp: file_fresh_def read_format_anchor)
  ultimately have "entries (with_db_anchored env True (the (db lg)) (anchor lg) w) = [?e\<lparr>ae_action := ToolInvoke\<rparr>]"
    "chain_start (with_db_anchored env True (the (db lg)) (anchor lg) w) = GENESIS"
    using start lg by (auto simp: with_db_anchored_def with_db_def map_filter_simps chain_start_def Let_def
        split: sum.split option.split)
  moreover have "entry_hash env (?e\<lparr>ae_action := ToolInvoke\<rparr>) \<noteq> ae_hash ?e" "ae_prev_hash ?e = GENESIS" "ae_seq ?e = 0"
    using assms(3) start by (simp_all add: entry_hash_def next_entry_def)
  ultimately show ?thesis
    using verifies_iff[OF ok] by (simp add: verify_integrity_def del: next_entry_simps(4))
qed

end
