(* ===== verification/Streaming.thy ===== *)
theory Streaming
  imports Prelude
begin

text \<open>
  Text that arrives in pieces: the filter that separates \<open><think>\<close> blocks from visible text,
  \<open>crates/librefang-llm-drivers/src/think_filter.rs\<close>, the Markdown-aware chunker,
  \<open>crates/librefang-api/src/stream_chunker.rs\<close>, and the duplicate detector,
  \<open>crates/librefang-api/src/stream_dedup.rs\<close>.

  The filter is compared with a reference that reads the whole text at once. Lower-casing one
  character (\<open>char::to_lowercase\<close>, first result) is the argument \<open>lower\<close> of the
  detector; a character is its UTF-8 encoding.
\<close>

section \<open>The think filter\<close>

datatype filter_action = EmitText string | EmitThinking string

record think_filter =
  inside_think :: bool
  pending :: string

definition new_filter :: think_filter where
  "new_filter = \<lparr>inside_think = False, pending = []\<rparr>"

definition OPEN_TAG :: string where
  "OPEN_TAG = ''<think>''"

definition CLOSE_TAG :: string where
  "CLOSE_TAG = ''</think>''"

definition partial_suffix_match :: "string \<Rightarrow> string \<Rightarrow> nat" where
  "partial_suffix_match haystack needle =
     (case find (\<lambda>len. ends_with (take len needle) haystack)
             (rev [1..<Suc (min (length haystack) (length needle - 1))]) of
        Some len \<Rightarrow> len | None \<Rightarrow> 0)"

definition emit :: "bool \<Rightarrow> string \<Rightarrow> filter_action list" where
  "emit inside s = (if s = [] then [] else [if inside then EmitThinking s else EmitText s])"

definition tag_of :: "bool \<Rightarrow> string" where
  "tag_of inside = (if inside then CLOSE_TAG else OPEN_TAG)"

lemma tag_not_Nil [simp]: "tag_of b \<noteq> []"
  by (simp add: tag_of_def OPEN_TAG_def CLOSE_TAG_def)

lemma tag_found_shorter: "find_str (tag_of b) s = Some k \<Longrightarrow> length s - (k + length (tag_of b)) < length s"
  using found_length[of "tag_of b" s k] by (cases "tag_of b") auto

function drain :: "bool \<Rightarrow> string \<Rightarrow> filter_action list \<times> bool \<times> string" where
  "drain inside s =
     (case find_str (tag_of inside) s of
        Some pos \<Rightarrow>
          (case drain (\<not> inside) (drop (pos + length (tag_of inside)) s) of
             (actions, inside', rest) \<Rightarrow> (emit inside (take pos s) @ actions, inside', rest))
      | None \<Rightarrow>
          let keep = partial_suffix_match s (tag_of inside);
              emit_len = length s - keep
          in (emit inside (take emit_len s), inside, drop emit_len s))"
  by pat_completeness auto

termination
  by (relation "measure (\<lambda>(inside, s). length s)") (auto intro: tag_found_shorter)

declare drain.simps [simp del]

definition process :: "think_filter \<Rightarrow> string \<Rightarrow> think_filter \<times> filter_action list" where
  "process f delta =
     (case drain (inside_think f) (pending f @ delta) of
        (actions, inside, rest) \<Rightarrow> (\<lparr>inside_think = inside, pending = rest\<rparr>, actions))"

definition flush :: "think_filter \<Rightarrow> think_filter \<times> filter_action list" where
  "flush f = (f\<lparr>pending := []\<rparr>, emit (inside_think f) (pending f))"

fun process_all :: "think_filter \<Rightarrow> string list \<Rightarrow> think_filter \<times> filter_action list" where
  "process_all f [] = (f, [])"
| "process_all f (d # ds) =
     (let (f1, a) = process f d; (f2, b) = process_all f1 ds in (f2, a @ b))"

text \<open>Everything the filter emits on a stream, up to and including the flush.\<close>

definition filter_stream :: "string list \<Rightarrow> filter_action list" where
  "filter_stream deltas =
     (let (f, actions) = process_all new_filter deltas in actions @ snd (flush f))"

text \<open>
  The reference on a whole text: each character with the flag whether it is thinking, the tags
  left out.
\<close>

function split_think :: "bool \<Rightarrow> string \<Rightarrow> (bool \<times> char) list" where
  "split_think inside s =
     (case find_str (tag_of inside) s of
        Some pos \<Rightarrow> map (Pair inside) (take pos s) @ split_think (\<not> inside) (drop (pos + length (tag_of inside)) s)
      | None \<Rightarrow> map (Pair inside) s)"
  by pat_completeness auto

termination
  by (relation "measure (\<lambda>(inside, s). length s)") (auto intro: tag_found_shorter)

declare split_think.simps [simp del]

fun action_chars :: "filter_action \<Rightarrow> (bool \<times> char) list" where
  "action_chars (EmitText s) = map (Pair False) s"
| "action_chars (EmitThinking s) = map (Pair True) s"

definition tagged :: "filter_action list \<Rightarrow> (bool \<times> char) list" where
  "tagged actions = concat (map action_chars actions)"

section \<open>The chunker\<close>

record chunker =
  buffer :: string
  in_code_fence :: bool
  fence_marker :: string
  min_chunk :: nat
  max_chunk :: nat

definition new_chunker :: "nat \<Rightarrow> nat \<Rightarrow> chunker" where
  "new_chunker mn mx = \<lparr>buffer = [], in_code_fence = False, fence_marker = [], min_chunk = mn, max_chunk = mx\<rparr>"

fun split_inclusive :: "string \<Rightarrow> string list" where
  "split_inclusive [] = []"
| "split_inclusive (c # cs) =
     (if c = CHR 0x0A then [c] # split_inclusive cs
      else case split_inclusive cs of [] \<Rightarrow> [[c]] | l # ls \<Rightarrow> (c # l) # ls)"

definition FENCE :: string where
  "FENCE = ''```''"

definition push_line :: "chunker \<Rightarrow> string \<Rightarrow> chunker" where
  "push_line c line =
     (let c1 = c\<lparr>buffer := buffer c @ line\<rparr>; trimmed = trim line
      in if starts_with FENCE trimmed then
           if in_code_fence c then
             (if trimmed = FENCE \<or> starts_with (fence_marker c) trimmed
              then c1\<lparr>in_code_fence := False, fence_marker := []\<rparr> else c1)
           else c1\<lparr>in_code_fence := True, fence_marker := FENCE\<rparr>
         else c1)"

definition push :: "chunker \<Rightarrow> string \<Rightarrow> chunker" where
  "push c text = foldl push_line c (split_inclusive text)"

text \<open>The last occurrence of a pattern.\<close>

definition rfind_str :: "string \<Rightarrow> string \<Rightarrow> nat option" where
  "rfind_str needle s = find (\<lambda>i. starts_with needle (drop i s)) (rev [0..<Suc (length s)])"

fun walk_forward :: "string \<Rightarrow> nat \<Rightarrow> nat \<Rightarrow> nat" where
  "walk_forward s start 0 = start"
| "walk_forward s start (Suc n) = (if is_char_boundary s start then start else walk_forward s (Suc start) n)"

definition find_last_in_range :: "string \<Rightarrow> string \<Rightarrow> nat \<Rightarrow> nat \<Rightarrow> nat option" where
  "find_last_in_range text pat range_start range_end =
     (let fin = walk_back text (min range_end (length text));
          start0 = min range_start fin;
          start = walk_forward text start0 (fin - start0)
      in map_option (\<lambda>pos. start + pos) (rfind_str pat (take (fin - start) (drop start text))))"

definition break_point :: "chunker \<Rightarrow> nat option" where
  "break_point c =
     (let search = (\<lambda>pat. map_option (\<lambda>pos. pos + length pat)
            (find_last_in_range (buffer c) pat (min_chunk c) (min (length (buffer c)) (max_chunk c))))
      in case List.map_filter search [[CHR 0x0A, CHR 0x0A], [CHR 0x0A], ''. '', ''! '', ''? ''] of
           pos # _ \<Rightarrow> Some pos
         | [] \<Rightarrow>
             if max_chunk c \<le> length (buffer c) then
               (let break_at = walk_back (buffer c) (max_chunk c)
                in Some (if break_at = 0 then length (buffer c) else break_at))
             else None)"

fun trim_backticks :: "string \<Rightarrow> string" where
  "trim_backticks [] = []"
| "trim_backticks (c # cs) = (if c = CHR 0x60 then trim_backticks cs else c # cs)"

definition try_flush :: "chunker \<Rightarrow> chunker \<times> string option" where
  "try_flush c =
     (if length (buffer c) < min_chunk c then (c, None)
      else if in_code_fence c then
        if length (buffer c) < max_chunk c then (c, None)
        else (c\<lparr>buffer := FENCE @ trim_backticks (fence_marker c) @ [CHR 0x0A]\<rparr>,
              Some (buffer c @ [CHR 0x0A] @ FENCE @ [CHR 0x0A]))
      else case break_point c of
             Some pos \<Rightarrow> (c\<lparr>buffer := drop pos (buffer c)\<rparr>, Some (take pos (buffer c)))
           | None \<Rightarrow> (c, None))"

definition flush_remaining :: "chunker \<Rightarrow> chunker \<times> string option" where
  "flush_remaining c = (if buffer c = [] then (c, None) else (c\<lparr>buffer := []\<rparr>, Some (buffer c)))"

section \<open>The duplicate detector\<close>

definition MIN_DEDUP_LENGTH :: nat where
  "MIN_DEDUP_LENGTH = 10"

definition DEDUP_WINDOW :: nat where
  "DEDUP_WINDOW = 50"

record stream_dedup =
  recent_chunks :: "string list"
  recent_normalized :: "string list"

definition new_dedup :: stream_dedup where
  "new_dedup = \<lparr>recent_chunks = [], recent_normalized = []\<rparr>"

fun collapse :: "(string \<Rightarrow> string) \<Rightarrow> bool \<Rightarrow> string list \<Rightarrow> string" where
  "collapse lower last_was_space [] = []"
| "collapse lower last_was_space (ch # chs) =
     (if ch \<in> set WHITE_SPACE
      then (if last_was_space then [] else '' '') @ collapse lower True chs
      else lower ch @ collapse lower False chs)"

definition normalize :: "(string \<Rightarrow> string) \<Rightarrow> string \<Rightarrow> string" where
  "normalize lower text = trim (collapse lower False (chars_of text))"

definition is_duplicate :: "(string \<Rightarrow> string) \<Rightarrow> stream_dedup \<Rightarrow> string \<Rightarrow> bool" where
  "is_duplicate lower d text =
     (if length text < MIN_DEDUP_LENGTH then False
      else list_ex (\<lambda>c. c = text) (recent_chunks d)
           \<or> list_ex (\<lambda>c. c = normalize lower text) (recent_normalized d))"

definition record_sent :: "(string \<Rightarrow> string) \<Rightarrow> stream_dedup \<Rightarrow> string \<Rightarrow> stream_dedup" where
  "record_sent lower d text =
     (if length text < MIN_DEDUP_LENGTH then d
      else let d1 = (if DEDUP_WINDOW \<le> length (recent_chunks d)
                     then d\<lparr>recent_chunks := tl (recent_chunks d), recent_normalized := tl (recent_normalized d)\<rparr>
                     else d)
           in d1\<lparr>recent_chunks := recent_chunks d1 @ [text],
                 recent_normalized := recent_normalized d1 @ [normalize lower text]\<rparr>)"

definition clear_dedup :: "stream_dedup \<Rightarrow> stream_dedup" where
  "clear_dedup d = \<lparr>recent_chunks = [], recent_normalized = []\<rparr>"

section \<open>The filter agrees with the reference\<close>

lemma starts_with_append: "length t \<le> length s \<Longrightarrow> starts_with t (s @ r) = starts_with t s"
  by (simp add: starts_with_def)

lemma contains_str_drop: "contains_str t (drop n s) \<Longrightarrow> contains_str t s"
  unfolding contains_str_iff by (metis append.assoc append_take_drop_id)

lemma find_str_append: "find_str t s = Some k \<Longrightarrow> find_str t (s @ r) = Some k"
proof (induction s arbitrary: k)
  case Nil
  then show ?case by (cases r) (auto split: if_splits simp: starts_with_def)
next
  case (Cons x xs)
  have "length t \<le> length (x # xs)"
    using found_length[OF Cons.prems] by simp
  then have "starts_with t ((x # xs) @ r) = starts_with t (x # xs)"
    by (rule starts_with_append)
  with Cons show ?case by (auto split: if_splits)
qed

lemma find_str_skip:
  "(\<And>j. j < length u \<Longrightarrow> \<not> starts_with t (drop j (u @ w))) \<Longrightarrow> find_str t (u @ w) = map_option ((+) (length u)) (find_str t w)"
proof (induction u)
  case (Cons x u)
  have "\<not> starts_with t (x # u @ w)" using Cons.prems[of 0] by simp
  moreover have "find_str t (u @ w) = map_option ((+) (length u)) (find_str t w)"
    using Cons.prems[of "Suc j" for j] by (intro Cons.IH) auto
  ultimately show ?case
    by (cases "find_str t w") auto
qed (cases "find_str t w"; simp)

lemma down_nth: "j < m \<Longrightarrow> rev [Suc 0..<Suc m] ! j = m - j"
  by (simp add: rev_nth nth_upt del: upt_Suc)

lemma partial_suffix_maximal:
  assumes "ends_with (take n t) s" "n \<le> length s" "n < length t"
  shows "n \<le> partial_suffix_match s t"
proof (cases "n = 0")
  case False
  let ?P = "\<lambda>len. ends_with (take len t) s" and ?xs = "rev [1..<Suc (min (length s) (length t - 1))]"
  have n: "n \<in> set ?xs" using assms False by auto
  then obtain m where m: "find ?P ?xs = Some m"
    using assms(1) by (metis find_None_iff not_None_eq)
  then obtain i where i: "i < length ?xs" "m = ?xs ! i" "\<forall>j < i. \<not> ?P (?xs ! j)"
    by (auto simp: find_Some_iff)
  from n obtain k where k: "k < length ?xs" "?xs ! k = n"
    by (metis in_set_conv_nth)
  with assms(1) i have "i \<le> k" by (metis not_le)
  then have "?xs ! k \<le> ?xs ! i"
    using k(1) i(1) by (simp add: down_nth del: upt_Suc)
  with k i m show ?thesis by (simp add: partial_suffix_match_def)
qed simp

lemma no_tag_before_kept:
  assumes "find_str t s = None" "j < length s - partial_suffix_match s t"
  shows "\<not> starts_with t (drop j (s @ r))"
proof
  assume "starts_with t (drop j (s @ r))"
  then obtain v where v: "drop j s @ r = t @ v"
    using assms(2) by (auto simp: starts_with_iff)
  show False
  proof (cases "length t \<le> length (drop j s)")
    case True
    with v have "starts_with t (drop j s)"
      by (metis append_eq_append_conv_if append_take_drop_id starts_with_iff)
    then have "contains_str t s"
      using assms(2) contains_iff_starts less_imp_le_nat by (metis diff_le_self le_trans)
    with assms(1) show False by (simp add: find_str_None)
  next
    case False
    let ?n = "length (drop j s)"
    from v False have "drop j s = take ?n t"
      by (metis append_eq_append_conv_if append_eq_conv_conj nat_le_linear)
    then have "ends_with (take ?n t) s"
      by (metis append_take_drop_id ends_with_iff)
    then have "?n \<le> partial_suffix_match s t"
      using False by (intro partial_suffix_maximal) auto
    with assms(2) show False by simp
  qed
qed

lemma tagged_simps [simp]: "tagged [] = []" "tagged (a @ b) = tagged a @ tagged b"
  by (simp_all add: tagged_def)

lemma tagged_emit [simp]: "tagged (emit b s) = map (Pair b) s"
  by (simp add: tagged_def emit_def)

lemma split_think_skip:
  assumes "\<And>j. j < length u \<Longrightarrow> \<not> starts_with (tag_of b) (drop j (u @ w))"
  shows "split_think b (u @ w) = map (Pair b) u @ split_think b w"
  using find_str_skip[OF assms]
  by (subst (1 2) split_think.simps) (simp split: option.split)

lemma drain_split:
  "drain b s = (actions, b', rest) \<Longrightarrow> split_think b (s @ r) = tagged actions @ split_think b' (rest @ r)"
proof (induction b s arbitrary: actions rule: drain.induct)
  case (1 b s)
  show ?case
  proof (cases "find_str (tag_of b) s")
    case (Some pos)
    let ?rest = "drop (pos + length (tag_of b)) s"
    from Some 1(2) obtain acts where d: "drain (\<not> b) ?rest = (acts, b', rest)" "actions = emit b (take pos s) @ acts"
      by (subst (asm) drain.simps) (auto split: prod.splits)
    have "split_think b (s @ r) = map (Pair b) (take pos s) @ split_think (\<not> b) (?rest @ r)"
      using found_length[OF Some] find_str_append[OF Some]
      by (subst split_think.simps) simp
    with 1(1)[OF Some d(1)] d(2) show ?thesis by simp
  next
    case None
    let ?n = "length s - partial_suffix_match s (tag_of b)"
    from None 1(2) have a: "actions = emit b (take ?n s)" "b' = b" "rest = drop ?n s"
      by (subst (asm) drain.simps; simp add: Let_def)+
    have "split_think b (take ?n s @ (drop ?n s @ r)) = map (Pair b) (take ?n s) @ split_think b (drop ?n s @ r)"
      using no_tag_before_kept[OF None] by (intro split_think_skip) (simp add: append.assoc[symmetric])
    with a show ?thesis by (simp add: append.assoc[symmetric])
  qed
qed

lemma drain_rest_tagless: "drain b s = (actions, b', rest) \<Longrightarrow> find_str (tag_of b') rest = None"
proof (induction b s arbitrary: actions rule: drain.induct)
  case (1 b s)
  show ?case
  proof (cases "find_str (tag_of b) s")
    case (Some pos)
    with 1 show ?thesis
      by (subst (asm) (2) drain.simps) (auto split: prod.splits)
  next
    case None
    with 1(2) have "b' = b" "\<exists>n. rest = drop n s"
      by (subst (asm) drain.simps; auto simp: Let_def)+
    with None show ?thesis
      using contains_str_drop by (auto simp: find_str_None)
  qed
qed

lemma process_all_split:
  "process_all f ds = (f', actions) \<Longrightarrow>
   split_think (inside_think f) (pending f @ concat ds) = tagged actions @ split_think (inside_think f') (pending f')"
proof (induction ds arbitrary: f actions)
  case (Cons d ds)
  obtain f1 a where f1: "process f d = (f1, a)" by (cases "process f d")
  obtain f2 b where f2: "process_all f1 ds = (f2, b)" by (cases "process_all f1 ds")
  have "split_think (inside_think f) ((pending f @ d) @ concat ds)
      = tagged a @ split_think (inside_think f1) (pending f1 @ concat ds)"
    using f1 drain_split[of "inside_think f" "pending f @ d" a "inside_think f1" "pending f1"]
    by (auto simp: process_def split: prod.splits)
  with Cons f1 f2 show ?case by auto
qed simp

lemma pending_tagless:
  "process_all f ds = (f', actions) \<Longrightarrow> find_str (tag_of (inside_think f)) (pending f) = None
   \<Longrightarrow> find_str (tag_of (inside_think f')) (pending f') = None"
proof (induction ds arbitrary: f actions)
  case (Cons d ds)
  obtain f1 a where f1: "process f d = (f1, a)" by (cases "process f d")
  have "find_str (tag_of (inside_think f1)) (pending f1) = None"
    using f1 drain_rest_tagless by (auto simp: process_def split: prod.splits)
  with Cons f1 show ?case by (auto split: prod.splits)
qed simp


section \<open>The chunker loses nothing\<close>

lemma concat_split_inclusive [simp]: "concat (split_inclusive s) = s"
  by (induction s) (auto split: list.splits)

lemma push_line_buffer [simp]:
  "buffer (push_line c l) = buffer c @ l" "min_chunk (push_line c l) = min_chunk c" "max_chunk (push_line c l) = max_chunk c"
  by (simp_all add: push_line_def Let_def)

lemma push_lines:
  "buffer (foldl push_line c ls) = buffer c @ concat ls \<and> min_chunk (foldl push_line c ls) = min_chunk c
   \<and> max_chunk (foldl push_line c ls) = max_chunk c"
  by (induction ls arbitrary: c) auto

lemma push_buffer [simp]:
  "buffer (push c t) = buffer c @ t" "min_chunk (push c t) = min_chunk c" "max_chunk (push c t) = max_chunk c"
  by (simp_all add: push_def push_lines)

lemma break_point_pos: "break_point c = Some n \<Longrightarrow> 0 < max_chunk c \<Longrightarrow> 0 < n"
proof -
  assume b: "break_point c = Some n" "0 < max_chunk c"
  define search where "search = (\<lambda>pat. map_option (\<lambda>pos. pos + length pat)
      (find_last_in_range (buffer c) pat (min_chunk c) (min (length (buffer c)) (max_chunk c))))"
  define pats where "pats = [[CHR 0x0A, CHR 0x0A], [CHR 0x0A], ''. '', ''! '', ''? '']"
  have eq: "break_point c = (case List.map_filter search pats of pos # _ \<Rightarrow> Some pos
      | [] \<Rightarrow> if max_chunk c \<le> length (buffer c)
             then Some (if walk_back (buffer c) (max_chunk c) = 0 then length (buffer c)
                        else walk_back (buffer c) (max_chunk c)) else None)"
    unfolding break_point_def search_def pats_def Let_def by (rule refl)
  have "\<forall>p \<in> set (List.map_filter search pats). 0 < p"
    by (auto simp: map_filter_def search_def pats_def)
  with b eq show "0 < n"
    by (auto split: list.splits if_splits)
qed

text \<open>A flush outside a code fence cuts the buffer in two and leaves a shorter one.\<close>

lemma try_flush_cut:
  assumes "try_flush c = (c', Some chunk)" "\<not> in_code_fence c"
  shows "chunk @ buffer c' = buffer c" "\<not> in_code_fence c'"
  using assms by (auto simp: try_flush_def split: if_splits option.splits)

lemma try_flush_shorter:
  assumes "try_flush c = (c', Some chunk)" "0 < min_chunk c" "length (FENCE @ trim_backticks (fence_marker c)) + 1 < max_chunk c"
  shows "length (buffer c') < length (buffer c)"
proof (cases "in_code_fence c")
  case True
  with assms show ?thesis by (auto simp: try_flush_def split: if_splits)
next
  case False
  from assms(1) False obtain n where n: "break_point c = Some n" "c' = c\<lparr>buffer := drop n (buffer c)\<rparr>" "min_chunk c \<le> length (buffer c)"
    by (auto simp: try_flush_def split: if_splits option.splits)
  with break_point_pos[OF n(1)] assms(2,3) show ?thesis by auto
qed

text \<open>
  A fence marker that arrives in two pieces is not recognised, so a code block can be split although
  the chunker is meant not to.
\<close>

lemma split_fence_is_missed:
  "in_code_fence (push (new_chunker 4 100) ''```rust'')
   \<and> \<not> in_code_fence (push (push (new_chunker 4 100) ''`'') ''``rust'')"
  by code_simp

section \<open>The window of the detector\<close>

definition window_ok :: "stream_dedup \<Rightarrow> bool" where
  "window_ok d \<longleftrightarrow> length (recent_chunks d) \<le> DEDUP_WINDOW \<and> length (recent_normalized d) = length (recent_chunks d)"

lemma window_ok_record: "window_ok d \<Longrightarrow> window_ok (record_sent lower d t)"
  by (auto simp: window_ok_def record_sent_def DEDUP_WINDOW_def Let_def)

interpretation dedup_window: invariant_machine "record_sent lower" window_ok for lower
  by unfold_locales (rule window_ok_record)

lemma sent_is_duplicate:
  "MIN_DEDUP_LENGTH \<le> length t \<Longrightarrow> is_duplicate lower (record_sent lower d t) t"
  by (simp add: is_duplicate_def record_sent_def Let_def)

section \<open>Properties\<close>

text \<open>
  C7: The streaming filter is independent of how the text is cut. For every sequence of deltas, what
  \<open>process\<close> and the final \<open>flush\<close> emit is, character by character and in order, what the
  reference gives on the whole text: no tag is missed or shown because it was split between deltas,
  and no text is lost, invented or moved between the visible and the thinking part.
\<close>
theorem think_filter_refines: "tagged (filter_stream deltas) = split_think False (concat deltas)"
proof -
  obtain f actions where f: "process_all new_filter deltas = (f, actions)"
    by (cases "process_all new_filter deltas")
  have "find_str (tag_of (inside_think f)) (pending f) = None"
    using pending_tagless[OF f] by (simp add: new_filter_def)
  then have "split_think (inside_think f) (pending f) = map (Pair (inside_think f)) (pending f)"
    by (simp add: split_think.simps)
  then show ?thesis
    using process_all_split[OF f] by (simp add: filter_stream_def f flush_def) (simp add: new_filter_def)
qed

end
