(* ===== verification/Registry.thy ===== *)
theory Registry
  imports Scheduler "HOL-Library.AList" "HOL-Library.Char_ord" "HOL-Library.List_Lexorder"
begin

text \<open>
  The agent registry, \<open>crates/librefang-kernel/src/registry.rs\<close>: the agents by id, the index of
  their names and the index of their tags, with every operation that updates an agent.

  The two indexes that are only looked up by key are association lists and maps; the order of the
  agents stands for the iteration order of the \<open>DashMap\<close>. An agent carries the fields of its
  entry and manifest that the registry and the heartbeat monitor read or write; the rest of the
  manifest is the type parameter \<open>'m\<close>, and the values that are only stored (a session id,
  an identity, a fallback model) are type parameters or plain text. An operation that reads the
  clock takes the reading \<open>now\<close>.
\<close>

section \<open>Data\<close>

datatype agent_state = Created | Running | Suspended | Terminated | Crashed

datatype agent_mode = Observe | Assist | Full

datatype reset_reason = IdleReset | DailyReset | SuspendedReset | ManualReset

datatype web_search_mode = SearchOff | SearchAuto | SearchAlways

record model_config =
  mc_provider :: string
  mc_model :: string
  mc_max_tokens :: u32
  mc_temperature :: f64
  mc_system_prompt :: string
  mc_api_key_env :: "string option"
  mc_base_url :: "string option"

record autonomous_config =
  quiet_hours :: "string option"
  max_restarts :: u32
  heartbeat_interval_secs :: u64
  heartbeat_timeout_secs :: "u32 option"

record ('f, 'm) agent_manifest =
  man_name :: string
  man_description :: string
  man_model :: model_config
  man_fallback_models :: "'f list"
  man_resources :: resource_quota
  man_tools :: "string list"
  man_skills :: "string list"
  man_skills_disabled :: bool
  man_mcp_servers :: "string list"
  man_autonomous :: "autonomous_config option"
  man_workspace :: "string option"
  man_tool_allowlist :: "string list"
  man_tool_blocklist :: "string list"
  man_tools_disabled :: bool
  man_web_search :: web_search_mode
  man_auto_dream_enabled :: bool
  man_rest :: 'm

record ('f, 'm, 'i, 's) agent_entry =
  ent_id :: agent_id
  ent_name :: string
  ent_manifest :: "('f, 'm) agent_manifest"
  ent_state :: agent_state
  ent_mode :: agent_mode
  ent_last_active :: int
  ent_children :: "agent_id list"
  ent_session_id :: 's
  ent_source_toml_path :: "string option"
  ent_tags :: "string list"
  ent_identity :: 'i
  ent_onboarding_completed :: bool
  ent_onboarding_completed_at :: "int option"
  ent_force_session_wipe :: bool
  ent_resume_pending :: bool
  ent_reset_reason :: "reset_reason option"
  ent_has_processed_message :: bool

record ('f, 'm, 'i, 's) registry =
  agents :: "(agent_id \<times> ('f, 'm, 'i, 's) agent_entry) list"
  name_index :: "(string \<times> agent_id) list"
  tag_index :: "string \<rightharpoonup> agent_id list"

datatype registry_error = AgentAlreadyExists string | AgentNotFound agent_id

section \<open>Operations\<close>

definition new_registry :: "('f, 'm, 'i, 's) registry" where
  "new_registry = \<lparr>agents = [], name_index = [], tag_index = Map.empty\<rparr>"

definition push_tag :: "agent_id \<Rightarrow> (string \<rightharpoonup> agent_id list) \<Rightarrow> string \<Rightarrow> (string \<rightharpoonup> agent_id list)" where
  "push_tag aid idx tag = idx(tag \<mapsto> (case idx tag of Some ids \<Rightarrow> ids | None \<Rightarrow> []) @ [aid])"

definition register_agent ::
  "('f, 'm, 'i, 's) registry \<Rightarrow> ('f, 'm, 'i, 's) agent_entry \<Rightarrow> registry_error + ('f, 'm, 'i, 's) registry" where
  "register_agent r entry =
     (case map_of (name_index r) (ent_name entry) of
        Some _ \<Rightarrow> Inl (AgentAlreadyExists (ent_name entry))
      | None \<Rightarrow>
          Inr (r\<lparr>name_index := AList.update (ent_name entry) (ent_id entry) (name_index r),
                 tag_index := foldl (push_tag (ent_id entry)) (tag_index r) (ent_tags entry),
                 agents := AList.update (ent_id entry) entry (agents r)\<rparr>))"

definition get_agent :: "('f, 'm, 'i, 's) registry \<Rightarrow> agent_id \<Rightarrow> ('f, 'm, 'i, 's) agent_entry option" where
  "get_agent r aid = map_of (agents r) aid"

definition find_by_name :: "('f, 'm, 'i, 's) registry \<Rightarrow> string \<Rightarrow> ('f, 'm, 'i, 's) agent_entry option" where
  "find_by_name r name = Option.bind (map_of (name_index r) name) (get_agent r)"

definition put_agent ::
  "agent_id \<Rightarrow> ('f, 'm, 'i, 's) agent_entry \<Rightarrow> ('f, 'm, 'i, 's) registry \<Rightarrow> ('f, 'm, 'i, 's) registry" where
  "put_agent aid e r = r\<lparr>agents := AList.update aid e (agents r)\<rparr>"

text \<open>A mutable reference to an agent, if it is there.\<close>

definition get_mut ::
  "('f, 'm, 'i, 's) registry \<Rightarrow> agent_id \<Rightarrow> (('f, 'm, 'i, 's) agent_entry \<Rightarrow> ('f, 'm, 'i, 's) agent_entry)
   \<Rightarrow> registry_error + ('f, 'm, 'i, 's) registry" where
  "get_mut r aid f =
     (case get_agent r aid of
        None \<Rightarrow> Inl (AgentNotFound aid)
      | Some e \<Rightarrow> Inr (put_agent aid (f e) r))"

definition if_present :: "('f, 'm, 'i, 's) registry \<Rightarrow> registry_error + ('f, 'm, 'i, 's) registry \<Rightarrow> ('f, 'm, 'i, 's) registry" where
  "if_present r res = (case res of Inr r' \<Rightarrow> r' | Inl _ \<Rightarrow> r)"

definition touch :: "('f, 'm, 'i, 's) registry \<Rightarrow> agent_id \<Rightarrow> int \<Rightarrow> ('f, 'm, 'i, 's) registry" where
  "touch r aid now = if_present r (get_mut r aid (\<lambda>e. e\<lparr>ent_last_active := now\<rparr>))"

definition mark_processed_message :: "('f, 'm, 'i, 's) registry \<Rightarrow> agent_id \<Rightarrow> int \<Rightarrow> ('f, 'm, 'i, 's) registry" where
  "mark_processed_message r aid now =
     if_present r (get_mut r aid (\<lambda>e. e\<lparr>ent_has_processed_message := True, ent_last_active := now\<rparr>))"

definition set_state :: "('f, 'm, 'i, 's) registry \<Rightarrow> agent_id \<Rightarrow> agent_state \<Rightarrow> int \<Rightarrow> registry_error + ('f, 'm, 'i, 's) registry" where
  "set_state r aid state now =
     get_mut r aid (\<lambda>e. e\<lparr>ent_state := state, ent_last_active := now\<rparr>)"

definition set_mode :: "('f, 'm, 'i, 's) registry \<Rightarrow> agent_id \<Rightarrow> agent_mode \<Rightarrow> int \<Rightarrow> registry_error + ('f, 'm, 'i, 's) registry" where
  "set_mode r aid mode now =
     get_mut r aid (\<lambda>e. e\<lparr>ent_mode := mode, ent_last_active := now\<rparr>)"

definition retain_other :: "agent_id \<Rightarrow> (string \<rightharpoonup> agent_id list) \<Rightarrow> string \<Rightarrow> (string \<rightharpoonup> agent_id list)" where
  "retain_other aid idx tag =
     (case idx tag of Some ids \<Rightarrow> idx(tag \<mapsto> filter (\<lambda>a. a \<noteq> aid) ids) | None \<Rightarrow> idx)"

definition remove_agent :: "('f, 'm, 'i, 's) registry \<Rightarrow> agent_id \<Rightarrow> registry_error + ('f, 'm, 'i, 's) agent_entry \<times> ('f, 'm, 'i, 's) registry" where
  "remove_agent r aid =
     (case get_agent r aid of
        None \<Rightarrow> Inl (AgentNotFound aid)
      | Some e \<Rightarrow>
          Inr (e, r\<lparr>agents := AList.delete aid (agents r), name_index := AList.delete (ent_name e) (name_index r),
                    tag_index := foldl (retain_other aid) (tag_index r) (ent_tags e)\<rparr>))"

definition list_agents :: "('f, 'm, 'i, 's) registry \<Rightarrow> ('f, 'm, 'i, 's) agent_entry list" where
  "list_agents r = sort_key ent_name (map snd (agents r))"

definition peer_agents_summary :: "('f, 'm, 'i, 's) registry \<Rightarrow> (string \<times> agent_state \<times> string) list" where
  "peer_agents_summary r =
     sort_key fst (map (\<lambda>(_, e). (ent_name e, ent_state e, mc_model (man_model (ent_manifest e)))) (agents r))"

definition add_child :: "('f, 'm, 'i, 's) registry \<Rightarrow> agent_id \<Rightarrow> agent_id \<Rightarrow> ('f, 'm, 'i, 's) registry" where
  "add_child r parent_id child_id =
     if_present r (get_mut r parent_id (\<lambda>e. e\<lparr>ent_children := ent_children e @ [child_id]\<rparr>))"

definition agent_count :: "('f, 'm, 'i, 's) registry \<Rightarrow> nat" where
  "agent_count r = length (agents r)"

definition update_session_id :: "('f, 'm, 'i, 's) registry \<Rightarrow> agent_id \<Rightarrow> 's \<Rightarrow> int \<Rightarrow> registry_error + ('f, 'm, 'i, 's) registry" where
  "update_session_id r aid session now =
     get_mut r aid (\<lambda>e. e\<lparr>ent_session_id := session, ent_last_active := now\<rparr>)"

definition update_workspace :: "('f, 'm, 'i, 's) registry \<Rightarrow> agent_id \<Rightarrow> string option \<Rightarrow> int \<Rightarrow> registry_error + ('f, 'm, 'i, 's) registry" where
  "update_workspace r aid workspace now =
     get_mut r aid (\<lambda>e. e\<lparr>ent_manifest := (ent_manifest e)\<lparr>man_workspace := workspace\<rparr>, ent_last_active := now\<rparr>)"

definition update_source_toml_path :: "('f, 'm, 'i, 's) registry \<Rightarrow> agent_id \<Rightarrow> string option \<Rightarrow> int \<Rightarrow> registry_error + ('f, 'm, 'i, 's) registry" where
  "update_source_toml_path r aid path now =
     get_mut r aid (\<lambda>e. e\<lparr>ent_source_toml_path := path, ent_last_active := now\<rparr>)"

definition replace_manifest :: "('f, 'm, 'i, 's) registry \<Rightarrow> agent_id \<Rightarrow> ('f, 'm) agent_manifest \<Rightarrow> int \<Rightarrow> registry_error + ('f, 'm, 'i, 's) registry" where
  "replace_manifest r aid manifest now =
     get_mut r aid (\<lambda>e. e\<lparr>ent_manifest := manifest, ent_last_active := now\<rparr>)"

definition update_identity :: "('f, 'm, 'i, 's) registry \<Rightarrow> agent_id \<Rightarrow> 'i \<Rightarrow> int \<Rightarrow> registry_error + ('f, 'm, 'i, 's) registry" where
  "update_identity r aid identity now =
     get_mut r aid (\<lambda>e. e\<lparr>ent_identity := identity, ent_last_active := now\<rparr>)"

definition update_model :: "('f, 'm, 'i, 's) registry \<Rightarrow> agent_id \<Rightarrow> string \<Rightarrow> int \<Rightarrow> registry_error + ('f, 'm, 'i, 's) registry" where
  "update_model r aid new_model now =
     get_mut r aid (\<lambda>e. e\<lparr>ent_manifest := (ent_manifest e)\<lparr>man_model := (man_model (ent_manifest e))\<lparr>mc_model := new_model\<rparr>\<rparr>, ent_last_active := now\<rparr>)"

definition update_model_and_provider :: "('f, 'm, 'i, 's) registry \<Rightarrow> agent_id \<Rightarrow> string \<Rightarrow> string \<Rightarrow> int \<Rightarrow> registry_error + ('f, 'm, 'i, 's) registry" where
  "update_model_and_provider r aid new_model new_provider now =
     get_mut r aid (\<lambda>e. e\<lparr>ent_manifest := (ent_manifest e)\<lparr>man_model := (man_model (ent_manifest e))\<lparr>mc_model := new_model, mc_provider := new_provider\<rparr>\<rparr>, ent_last_active := now\<rparr>)"

definition update_model_provider_config :: "('f, 'm, 'i, 's) registry \<Rightarrow> agent_id \<Rightarrow> string \<Rightarrow> string \<Rightarrow> string option \<Rightarrow> string option \<Rightarrow> int \<Rightarrow> registry_error + ('f, 'm, 'i, 's) registry" where
  "update_model_provider_config r aid new_model new_provider key_env url now =
     get_mut r aid (\<lambda>e. e\<lparr>ent_manifest := (ent_manifest e)\<lparr>man_model := (man_model (ent_manifest e))\<lparr>mc_model := new_model, mc_provider := new_provider, mc_api_key_env := key_env, mc_base_url := url\<rparr>\<rparr>, ent_last_active := now\<rparr>)"

definition update_max_tokens :: "('f, 'm, 'i, 's) registry \<Rightarrow> agent_id \<Rightarrow> u32 \<Rightarrow> int \<Rightarrow> registry_error + ('f, 'm, 'i, 's) registry" where
  "update_max_tokens r aid max_tokens now =
     get_mut r aid (\<lambda>e. e\<lparr>ent_manifest := (ent_manifest e)\<lparr>man_model := (man_model (ent_manifest e))\<lparr>mc_max_tokens := max_tokens\<rparr>\<rparr>, ent_last_active := now\<rparr>)"

definition update_temperature :: "('f, 'm, 'i, 's) registry \<Rightarrow> agent_id \<Rightarrow> f64 \<Rightarrow> int \<Rightarrow> registry_error + ('f, 'm, 'i, 's) registry" where
  "update_temperature r aid temp now =
     get_mut r aid (\<lambda>e. e\<lparr>ent_manifest := (ent_manifest e)\<lparr>man_model := (man_model (ent_manifest e))\<lparr>mc_temperature := temp\<rparr>\<rparr>, ent_last_active := now\<rparr>)"

definition update_web_search_augmentation :: "('f, 'm, 'i, 's) registry \<Rightarrow> agent_id \<Rightarrow> web_search_mode \<Rightarrow> int \<Rightarrow> registry_error + ('f, 'm, 'i, 's) registry" where
  "update_web_search_augmentation r aid mode now =
     get_mut r aid (\<lambda>e. e\<lparr>ent_manifest := (ent_manifest e)\<lparr>man_web_search := mode\<rparr>, ent_last_active := now\<rparr>)"

definition update_fallback_models :: "('f, 'm, 'i, 's) registry \<Rightarrow> agent_id \<Rightarrow> 'f list \<Rightarrow> int \<Rightarrow> registry_error + ('f, 'm, 'i, 's) registry" where
  "update_fallback_models r aid models now =
     get_mut r aid (\<lambda>e. e\<lparr>ent_manifest := (ent_manifest e)\<lparr>man_fallback_models := models\<rparr>, ent_last_active := now\<rparr>)"

definition update_skills :: "('f, 'm, 'i, 's) registry \<Rightarrow> agent_id \<Rightarrow> string list \<Rightarrow> int \<Rightarrow> registry_error + ('f, 'm, 'i, 's) registry" where
  "update_skills r aid skills now =
     get_mut r aid (\<lambda>e. e\<lparr>ent_manifest := (ent_manifest e)\<lparr>man_skills := skills, man_skills_disabled := False\<rparr>, ent_last_active := now\<rparr>)"

definition update_mcp_servers :: "('f, 'm, 'i, 's) registry \<Rightarrow> agent_id \<Rightarrow> string list \<Rightarrow> int \<Rightarrow> registry_error + ('f, 'm, 'i, 's) registry" where
  "update_mcp_servers r aid servers now =
     get_mut r aid (\<lambda>e. e\<lparr>ent_manifest := (ent_manifest e)\<lparr>man_mcp_servers := servers\<rparr>, ent_last_active := now\<rparr>)"

definition update_tool_config :: "('f, 'm, 'i, 's) registry \<Rightarrow> agent_id \<Rightarrow> string list option \<Rightarrow> string list option \<Rightarrow> string list option \<Rightarrow> int \<Rightarrow> registry_error + ('f, 'm, 'i, 's) registry" where
  "update_tool_config r aid ct al bl now =
     get_mut r aid (\<lambda>e. e\<lparr>ent_manifest := (ent_manifest e)\<lparr>man_tools := (case ct of Some x \<Rightarrow> x | None \<Rightarrow> man_tools (ent_manifest e)),
        man_tool_allowlist := (case al of Some x \<Rightarrow> x | None \<Rightarrow> man_tool_allowlist (ent_manifest e)),
        man_tool_blocklist := (case bl of Some x \<Rightarrow> x | None \<Rightarrow> man_tool_blocklist (ent_manifest e)),
        man_tools_disabled := False\<rparr>, ent_last_active := now\<rparr>)"

definition update_system_prompt :: "('f, 'm, 'i, 's) registry \<Rightarrow> agent_id \<Rightarrow> string \<Rightarrow> int \<Rightarrow> registry_error + ('f, 'm, 'i, 's) registry" where
  "update_system_prompt r aid prompt now =
     get_mut r aid (\<lambda>e. e\<lparr>ent_manifest := (ent_manifest e)\<lparr>man_model := (man_model (ent_manifest e))\<lparr>mc_system_prompt := prompt\<rparr>\<rparr>, ent_last_active := now\<rparr>)"

definition update_name :: "('f, 'm, 'i, 's) registry \<Rightarrow> agent_id \<Rightarrow> string \<Rightarrow> int \<Rightarrow> registry_error + ('f, 'm, 'i, 's) registry" where
  "update_name r aid new_name now =
     (case map_of (name_index r) new_name of
        Some _ \<Rightarrow> Inl (AgentAlreadyExists new_name)
      | None \<Rightarrow>
          (case get_agent r aid of
             None \<Rightarrow> Inl (AgentNotFound aid)
           | Some e \<Rightarrow>
               Inr ((put_agent aid
                      (e\<lparr>ent_name := new_name, ent_manifest := (ent_manifest e)\<lparr>man_name := new_name\<rparr>,
                         ent_last_active := now\<rparr>)
                      r)\<lparr>name_index := AList.delete (ent_name e) (AList.update new_name aid (name_index r))\<rparr>)))"

definition update_description :: "('f, 'm, 'i, 's) registry \<Rightarrow> agent_id \<Rightarrow> string \<Rightarrow> int \<Rightarrow> registry_error + ('f, 'm, 'i, 's) registry" where
  "update_description r aid desc now =
     get_mut r aid (\<lambda>e. e\<lparr>ent_manifest := (ent_manifest e)\<lparr>man_description := desc\<rparr>, ent_last_active := now\<rparr>)"

definition update_auto_dream_enabled :: "('f, 'm, 'i, 's) registry \<Rightarrow> agent_id \<Rightarrow> bool \<Rightarrow> int \<Rightarrow> registry_error + ('f, 'm, 'i, 's) registry" where
  "update_auto_dream_enabled r aid enabled now =
     get_mut r aid (\<lambda>e. e\<lparr>ent_manifest := (ent_manifest e)\<lparr>man_auto_dream_enabled := enabled\<rparr>, ent_last_active := now\<rparr>)"

definition is_auto_dream_enabled :: "('f, 'm, 'i, 's) registry \<Rightarrow> agent_id \<Rightarrow> bool" where
  "is_auto_dream_enabled r aid =
     (case get_agent r aid of Some e \<Rightarrow> man_auto_dream_enabled (ent_manifest e) | None \<Rightarrow> False)"

definition set_limits ::
  "f64 option \<Rightarrow> f64 option \<Rightarrow> f64 option \<Rightarrow> u64 option \<Rightarrow> resource_quota \<Rightarrow> resource_quota" where
  "set_limits hourly daily monthly tokens q =
     (let q1 = (case hourly of Some v \<Rightarrow> q\<lparr>max_cost_per_hour_usd := v\<rparr> | None \<Rightarrow> q);
          q2 = (case daily of Some v \<Rightarrow> q1\<lparr>max_cost_per_day_usd := v\<rparr> | None \<Rightarrow> q1);
          q3 = (case monthly of Some v \<Rightarrow> q2\<lparr>max_cost_per_month_usd := v\<rparr> | None \<Rightarrow> q2)
      in case tokens of Some v \<Rightarrow> q3\<lparr>max_llm_tokens_per_hour := Some v\<rparr> | None \<Rightarrow> q3)"

definition update_resources :: "('f, 'm, 'i, 's) registry \<Rightarrow> agent_id \<Rightarrow> f64 option \<Rightarrow> f64 option \<Rightarrow> f64 option \<Rightarrow> u64 option \<Rightarrow> int \<Rightarrow> registry_error + ('f, 'm, 'i, 's) registry" where
  "update_resources r aid hourly daily monthly tokens now =
     get_mut r aid (\<lambda>e. e\<lparr>ent_manifest := (ent_manifest e)\<lparr>man_resources := set_limits hourly daily monthly tokens (man_resources (ent_manifest e))\<rparr>, ent_last_active := now\<rparr>)"

definition mark_onboarding_complete :: "('f, 'm, 'i, 's) registry \<Rightarrow> agent_id \<Rightarrow> int \<Rightarrow> registry_error + ('f, 'm, 'i, 's) registry" where
  "mark_onboarding_complete r aid now =
     get_mut r aid (\<lambda>e. e\<lparr>ent_onboarding_completed := True, ent_onboarding_completed_at := Some now, ent_last_active := now\<rparr>)"

definition update_session_reset_state :: "('f, 'm, 'i, 's) registry \<Rightarrow> agent_id \<Rightarrow> reset_reason \<Rightarrow> registry_error + ('f, 'm, 'i, 's) registry" where
  "update_session_reset_state r aid reason =
     get_mut r aid (\<lambda>e. e\<lparr>ent_force_session_wipe := False, ent_resume_pending := False,
        ent_reset_reason := Some reason\<rparr>)"

definition schedule_session_wipe :: "('f, 'm, 'i, 's) registry \<Rightarrow> agent_id \<Rightarrow> registry_error + ('f, 'm, 'i, 's) registry" where
  "schedule_session_wipe r aid =
     get_mut r aid (\<lambda>e. e\<lparr>ent_force_session_wipe := True\<rparr>)"

definition mark_resume_pending :: "('f, 'm, 'i, 's) registry \<Rightarrow> agent_id \<Rightarrow> registry_error + ('f, 'm, 'i, 's) registry" where
  "mark_resume_pending r aid =
     get_mut r aid (\<lambda>e. if ent_force_session_wipe e then e else e\<lparr>ent_resume_pending := True\<rparr>)"


section \<open>Reachable registries\<close>

text \<open>
  The operations that update one agent in place, and the registries that registration, removal,
  renaming and updates lead to. The kernel derives an agent's id from its name or from its hand, so
  a renamed agent and a new one of the old name share an id, and \<open>register_agent\<close> does not look
  at ids: the flag of \<open>reachable\<close> says whether every registration so far was under an id that
  was not in use.
\<close>

inductive update_step :: "('f, 'm, 'i, 's) registry \<Rightarrow> ('f, 'm, 'i, 's) registry \<Rightarrow> bool" where
  set_state: "set_state r aid state now = Inr r' \<Longrightarrow> update_step r r'"
| set_mode: "set_mode r aid mode now = Inr r' \<Longrightarrow> update_step r r'"
| update_session_id: "update_session_id r aid session now = Inr r' \<Longrightarrow> update_step r r'"
| update_workspace: "update_workspace r aid workspace now = Inr r' \<Longrightarrow> update_step r r'"
| update_source_toml_path: "update_source_toml_path r aid path now = Inr r' \<Longrightarrow> update_step r r'"
| replace_manifest: "replace_manifest r aid manifest now = Inr r' \<Longrightarrow> update_step r r'"
| update_identity: "update_identity r aid identity now = Inr r' \<Longrightarrow> update_step r r'"
| update_model: "update_model r aid new_model now = Inr r' \<Longrightarrow> update_step r r'"
| update_model_and_provider: "update_model_and_provider r aid new_model new_provider now = Inr r' \<Longrightarrow> update_step r r'"
| update_model_provider_config: "update_model_provider_config r aid new_model new_provider key_env url now = Inr r' \<Longrightarrow> update_step r r'"
| update_max_tokens: "update_max_tokens r aid max_tokens now = Inr r' \<Longrightarrow> update_step r r'"
| update_temperature: "update_temperature r aid temp now = Inr r' \<Longrightarrow> update_step r r'"
| update_web_search_augmentation: "update_web_search_augmentation r aid mode now = Inr r' \<Longrightarrow> update_step r r'"
| update_fallback_models: "update_fallback_models r aid models now = Inr r' \<Longrightarrow> update_step r r'"
| update_skills: "update_skills r aid skills now = Inr r' \<Longrightarrow> update_step r r'"
| update_mcp_servers: "update_mcp_servers r aid servers now = Inr r' \<Longrightarrow> update_step r r'"
| update_tool_config: "update_tool_config r aid ct al bl now = Inr r' \<Longrightarrow> update_step r r'"
| update_system_prompt: "update_system_prompt r aid prompt now = Inr r' \<Longrightarrow> update_step r r'"
| update_description: "update_description r aid desc now = Inr r' \<Longrightarrow> update_step r r'"
| update_auto_dream_enabled: "update_auto_dream_enabled r aid enabled now = Inr r' \<Longrightarrow> update_step r r'"
| update_resources: "update_resources r aid hourly daily monthly tokens now = Inr r' \<Longrightarrow> update_step r r'"
| mark_onboarding_complete: "mark_onboarding_complete r aid now = Inr r' \<Longrightarrow> update_step r r'"
| update_session_reset_state: "update_session_reset_state r aid reason = Inr r' \<Longrightarrow> update_step r r'"
| schedule_session_wipe: "schedule_session_wipe r aid = Inr r' \<Longrightarrow> update_step r r'"
| mark_resume_pending: "mark_resume_pending r aid = Inr r' \<Longrightarrow> update_step r r'"
| touch: "update_step r (touch r aid now)"
| mark_processed_message: "update_step r (mark_processed_message r aid now)"
| add_child: "update_step r (add_child r parent child)"

inductive reachable :: "bool \<Rightarrow> ('f, 'm, 'i, 's) registry \<Rightarrow> bool" where
  start: "reachable True new_registry"
| register: "reachable unused r \<Longrightarrow> register_agent r e = Inr r' \<Longrightarrow>
    reachable (unused \<and> get_agent r (ent_id e) = None) r'"
| remove: "reachable unused r \<Longrightarrow> remove_agent r aid = Inr (e, r') \<Longrightarrow> reachable unused r'"
| rename: "reachable unused r \<Longrightarrow> update_name r aid name now = Inr r' \<Longrightarrow> reachable unused r'"
| update: "reachable unused r \<Longrightarrow> update_step r r' \<Longrightarrow> reachable unused r'"

section \<open>The indexes agree with the agents\<close>

definition index_agrees :: "('f, 'm, 'i, 's) registry \<Rightarrow> bool" where
  "index_agrees r \<longleftrightarrow>
     (\<forall>a e. get_agent r a = Some e \<longrightarrow> ent_id e = a)
     \<and> (\<forall>n a. map_of (name_index r) n = Some a \<longleftrightarrow> (\<exists>e. get_agent r a = Some e \<and> ent_name e = n))
     \<and> (\<forall>t a. (\<exists>ids. tag_index r t = Some ids \<and> a \<in> set ids)
              \<longleftrightarrow> (\<exists>e. get_agent r a = Some e \<and> t \<in> set (ent_tags e)))"

interpretation agent_store: keyed_store get_agent put_agent "\<lambda>a r. r\<lparr>agents := AList.delete a (agents r)\<rparr>"
  by unfold_locales (auto simp: get_agent_def put_agent_def update_conv' delete_conv')

lemma put_agent_simps [simp]:
  "name_index (put_agent a e r) = name_index r" "tag_index (put_agent a e r) = tag_index r"
  by (simp_all add: put_agent_def)

lemma get_agent_update [simp]: "get_agent (r\<lparr>name_index := n\<rparr>) = get_agent r" "get_agent (r\<lparr>tag_index := t\<rparr>) = get_agent r"
  by (simp_all add: get_agent_def fun_eq_iff)

text \<open>An update in place changes neither the id nor the name nor the tags of an agent.\<close>

definition in_place :: "('f, 'm, 'i, 's) registry \<Rightarrow> ('f, 'm, 'i, 's) registry \<Rightarrow> bool" where
  "in_place r r' \<longleftrightarrow>
     r' = r \<or> (\<exists>aid e e'. get_agent r aid = Some e \<and> r' = put_agent aid e' r
                \<and> ent_id e' = ent_id e \<and> ent_name e' = ent_name e \<and> ent_tags e' = ent_tags e)"

lemma in_place_get_mut:
  assumes "get_mut r aid f = Inr r'" "\<And>e. ent_id (f e) = ent_id e" "\<And>e. ent_name (f e) = ent_name e"
    and "\<And>e. ent_tags (f e) = ent_tags e"
  shows "in_place r r'"
proof -
  from assms(1) obtain e where "get_agent r aid = Some e" "r' = put_agent aid (f e) r"
    by (auto simp: get_mut_def split: option.splits)
  with assms(2-) show ?thesis unfolding in_place_def by metis
qed

lemma in_place_if_present:
  assumes "\<And>e. ent_id (f e) = ent_id e" "\<And>e. ent_name (f e) = ent_name e" "\<And>e. ent_tags (f e) = ent_tags e"
  shows "in_place r (if_present r (get_mut r aid f))"
proof (cases "get_mut r aid f")
  case (Inr r')
  with in_place_get_mut[OF Inr assms] show ?thesis by (simp add: if_present_def)
qed (simp add: if_present_def in_place_def)

lemma update_step_in_place:
  assumes "update_step r r'"
  shows "in_place r r'"
  using assms
  by cases
    (simp_all add: set_state_def set_mode_def update_session_id_def update_workspace_def update_source_toml_path_def replace_manifest_def update_identity_def update_model_def update_model_and_provider_def update_model_provider_config_def update_max_tokens_def update_temperature_def update_web_search_augmentation_def update_fallback_models_def update_skills_def update_mcp_servers_def update_tool_config_def update_system_prompt_def update_description_def update_auto_dream_enabled_def update_resources_def mark_onboarding_complete_def update_session_reset_state_def schedule_session_wipe_def mark_resume_pending_def
      touch_def mark_processed_message_def add_child_def in_place_if_present, (erule in_place_get_mut; simp)+)

lemma index_agrees_in_place:
  assumes "index_agrees r" "in_place r r'"
  shows "index_agrees r'"
proof (cases "r' = r")
  case False
  with assms(2) obtain aid e e' where e: "get_agent r aid = Some e" "r' = put_agent aid e' r"
    "ent_id e' = ent_id e" "ent_name e' = ent_name e" "ent_tags e' = ent_tags e"
    by (auto simp: in_place_def)
  have get: "get_agent r' a = (if a = aid then Some e' else get_agent r a)" for a
    by (simp add: e(2) agent_store.lookup_put)
  have idx: "name_index r' = name_index r" "tag_index r' = tag_index r"
    by (simp_all add: e(2))
  have "(\<exists>x. get_agent r' a = Some x \<and> ent_name x = n) \<longleftrightarrow> (\<exists>x. get_agent r a = Some x \<and> ent_name x = n)"
    "(\<exists>x. get_agent r' a = Some x \<and> t \<in> set (ent_tags x)) \<longleftrightarrow> (\<exists>x. get_agent r a = Some x \<and> t \<in> set (ent_tags x))"
    "(\<forall>x. get_agent r' a = Some x \<longrightarrow> ent_id x = a) \<longleftrightarrow> (\<forall>x. get_agent r a = Some x \<longrightarrow> ent_id x = a)" for a n t
    using e(1,3,4,5) by (auto simp: get)
  then show ?thesis
    using assms(1) unfolding index_agrees_def idx by presburger
qed (use assms in simp)

lemma push_tags:
  "(\<exists>ids. foldl (push_tag aid) idx ts t = Some ids \<and> a \<in> set ids)
   \<longleftrightarrow> (\<exists>ids. idx t = Some ids \<and> a \<in> set ids) \<or> a = aid \<and> t \<in> set ts"
proof (induction ts arbitrary: idx)
  case (Cons s ts)
  have "(\<exists>ids. push_tag aid idx s t = Some ids \<and> a \<in> set ids)
      \<longleftrightarrow> (\<exists>ids. idx t = Some ids \<and> a \<in> set ids) \<or> a = aid \<and> t = s"
    by (cases "idx s") (auto simp: push_tag_def)
  with Cons.IH[of "push_tag aid idx s"] show ?case by auto
qed simp

lemma retain_others:
  "(\<exists>ids. foldl (retain_other aid) idx ts t = Some ids \<and> a \<in> set ids)
   \<longleftrightarrow> (\<exists>ids. idx t = Some ids \<and> a \<in> set ids) \<and> \<not> (a = aid \<and> t \<in> set ts)"
proof (induction ts arbitrary: idx)
  case (Cons s ts)
  have "(\<exists>ids. retain_other aid idx s t = Some ids \<and> a \<in> set ids)
      \<longleftrightarrow> (\<exists>ids. idx t = Some ids \<and> a \<in> set ids) \<and> \<not> (a = aid \<and> t = s)"
    by (cases "idx s") (auto simp: retain_other_def)
  with Cons.IH[of "retain_other aid idx s"] show ?case by auto
qed simp

lemma index_agrees_register:
  assumes "index_agrees r" "get_agent r (ent_id e) = None" "register_agent r e = Inr r'"
  shows "index_agrees r'"
proof -
  have r': "r' = put_agent (ent_id e) e (r\<lparr>name_index := AList.update (ent_name e) (ent_id e) (name_index r),
      tag_index := foldl (push_tag (ent_id e)) (tag_index r) (ent_tags e)\<rparr>)"
    and free: "map_of (name_index r) (ent_name e) = None"
    using assms(3) by (auto simp: register_agent_def put_agent_def split: option.splits)
  have get: "get_agent r' a = (if a = ent_id e then Some e else get_agent r a)" for a
    by (simp add: r' agent_store.lookup_put)
  have idx: "name_index r' = AList.update (ent_name e) (ent_id e) (name_index r)"
    "tag_index r' = foldl (push_tag (ent_id e)) (tag_index r) (ent_tags e)"
    by (simp_all add: r')
  have names: "\<forall>n a. map_of (name_index r) n = Some a \<longleftrightarrow> (\<exists>e. get_agent r a = Some e \<and> ent_name e = n)"
    and tags: "\<forall>t a. (\<exists>ids. tag_index r t = Some ids \<and> a \<in> set ids)
              \<longleftrightarrow> (\<exists>e. get_agent r a = Some e \<and> t \<in> set (ent_tags e))"
    and ids: "\<forall>a e. get_agent r a = Some e \<longrightarrow> ent_id e = a"
    using assms(1) unfolding index_agrees_def by blast+
  have other: "ent_name x \<noteq> ent_name e" if "get_agent r a = Some x" for a x
    using names free that by (metis option.distinct(1))
  have "map_of (name_index r') n = Some a \<longleftrightarrow> (\<exists>x. get_agent r' a = Some x \<and> ent_name x = n)" for n a
    using names other assms(2) by (auto simp: idx(1) map_of_AList_update get)
  moreover have "(\<exists>ids. tag_index r' t = Some ids \<and> a \<in> set ids)
      \<longleftrightarrow> (\<exists>x. get_agent r' a = Some x \<and> t \<in> set (ent_tags x))" for t a
    unfolding idx(2) push_tags using tags assms(2) by (auto simp: get)
  ultimately show ?thesis
    using ids by (auto simp: index_agrees_def get)
qed

lemma index_agrees_rename:
  assumes "index_agrees r" "update_name r aid name now = Inr r'"
  shows "index_agrees r'"
proof -
  obtain e where e: "get_agent r aid = Some e" and free: "map_of (name_index r) name = None"
    and r': "r' = (put_agent aid (e\<lparr>ent_name := name, ent_manifest := (ent_manifest e)\<lparr>man_name := name\<rparr>,
        ent_last_active := now\<rparr>) r)\<lparr>name_index := AList.delete (ent_name e) (AList.update name aid (name_index r))\<rparr>"
    using assms(2) by (auto simp: update_name_def split: option.splits)
  let ?e = "e\<lparr>ent_name := name, ent_manifest := (ent_manifest e)\<lparr>man_name := name\<rparr>, ent_last_active := now\<rparr>"
  have get: "get_agent r' a = (if a = aid then Some ?e else get_agent r a)" for a
    by (simp add: r' agent_store.lookup_put)
  have idx: "map_of (name_index r') n = (if n = ent_name e then None else if n = name then Some aid else map_of (name_index r) n)"
    "tag_index r' = tag_index r" for n
    by (simp_all add: r' map_of_AList_delete map_of_AList_update)
  have names: "\<forall>n a. map_of (name_index r) n = Some a \<longleftrightarrow> (\<exists>e. get_agent r a = Some e \<and> ent_name e = n)"
    and tags: "\<forall>t a. (\<exists>ids. tag_index r t = Some ids \<and> a \<in> set ids)
              \<longleftrightarrow> (\<exists>e. get_agent r a = Some e \<and> t \<in> set (ent_tags e))"
    and ids: "\<forall>a e. get_agent r a = Some e \<longrightarrow> ent_id e = a"
    using assms(1) unfolding index_agrees_def by blast+
  have old: "map_of (name_index r) (ent_name e) = Some aid"
    using names e by blast
  have fresh: "ent_name x \<noteq> name" if "get_agent r a = Some x" for a x
    using names free that by (metis option.distinct(1))
  have unique: "a = aid" if "get_agent r a = Some x" "ent_name x = ent_name e" for a x
    using names old that by (metis option.inject)
  have "map_of (name_index r') n = Some a \<longleftrightarrow> (\<exists>x. get_agent r' a = Some x \<and> ent_name x = n)" for n a
  proof (cases "a = aid")
    case True
    have "map_of (name_index r) n = Some aid \<longleftrightarrow> n = ent_name e"
      using names e by auto
    with True fresh[OF e] show ?thesis by (auto simp: idx get)
  next
    case False
    with names unique fresh show ?thesis by (auto simp: idx get)
  qed
  moreover have "(\<exists>x. get_agent r' a = Some x \<and> t \<in> set (ent_tags x))
      \<longleftrightarrow> (\<exists>x. get_agent r a = Some x \<and> t \<in> set (ent_tags x))" for t a
    using e by (auto simp: get)
  ultimately show ?thesis
    using ids tags e by (auto simp: index_agrees_def get idx(2))
qed

lemma index_agrees_remove:
  assumes "index_agrees r" "remove_agent r aid = Inr (e, r')"
  shows "index_agrees r'"
proof -
  have e: "get_agent r aid = Some e"
    and r': "r' = r\<lparr>agents := AList.delete aid (agents r), name_index := AList.delete (ent_name e) (name_index r),
       tag_index := foldl (retain_other aid) (tag_index r) (ent_tags e)\<rparr>"
    using assms(2) by (auto simp: remove_agent_def split: option.splits)
  have get: "get_agent r' a = (if a = aid then None else get_agent r a)" for a
    by (simp add: r' get_agent_def map_of_AList_delete)
  have idx: "map_of (name_index r') n = (if n = ent_name e then None else map_of (name_index r) n)"
    "tag_index r' = foldl (retain_other aid) (tag_index r) (ent_tags e)" for n
    by (simp_all add: r' map_of_AList_delete)
  have names: "\<forall>n a. map_of (name_index r) n = Some a \<longleftrightarrow> (\<exists>e. get_agent r a = Some e \<and> ent_name e = n)"
    and tags: "\<forall>t a. (\<exists>ids. tag_index r t = Some ids \<and> a \<in> set ids)
              \<longleftrightarrow> (\<exists>e. get_agent r a = Some e \<and> t \<in> set (ent_tags e))"
    and ids: "\<forall>a e. get_agent r a = Some e \<longrightarrow> ent_id e = a"
    using assms(1) unfolding index_agrees_def by blast+
  have unique: "a = aid" if "get_agent r a = Some x" "ent_name x = ent_name e" for a x
    using names e that by (metis option.inject)
  have "map_of (name_index r') n = Some a \<longleftrightarrow> (\<exists>x. get_agent r' a = Some x \<and> ent_name x = n)" for n a
  proof (cases "a = aid")
    case True
    have "map_of (name_index r) n = Some aid \<longleftrightarrow> n = ent_name e"
      using names e by auto
    with True show ?thesis by (auto simp: idx get)
  next
    case False
    with unique have "\<not> (\<exists>x. get_agent r a = Some x \<and> ent_name x = ent_name e)" by blast
    with False names show ?thesis by (auto simp: idx get)
  qed
  moreover have "(\<exists>ids. tag_index r' t = Some ids \<and> a \<in> set ids)
      \<longleftrightarrow> (\<exists>x. get_agent r' a = Some x \<and> t \<in> set (ent_tags x))" for t a
    unfolding idx(2) retain_others using tags e by (auto simp: get)
  ultimately show ?thesis
    using ids by (auto simp: index_agrees_def get)
qed

lemma reachable_index_agrees: "reachable unused r \<Longrightarrow> unused \<Longrightarrow> index_agrees r"
proof (induction rule: reachable.induct)
  case start
  then show ?case by (simp add: index_agrees_def new_registry_def get_agent_def)
qed (blast intro: index_agrees_register index_agrees_remove index_agrees_rename
      index_agrees_in_place update_step_in_place)+

text \<open>Whatever ids are registered, the indexes hold every agent under its own name and tags.\<close>

definition indexed :: "('f, 'm, 'i, 's) registry \<Rightarrow> bool" where
  "indexed r \<longleftrightarrow> (\<forall>a e. get_agent r a = Some e \<longrightarrow>
     ent_id e = a \<and> map_of (name_index r) (ent_name e) = Some a
     \<and> (\<forall>t \<in> set (ent_tags e). \<exists>ids. tag_index r t = Some ids \<and> a \<in> set ids))"

lemma indexedD:
  assumes "indexed r" "get_agent r a = Some e"
  shows "ent_id e = a" "map_of (name_index r) (ent_name e) = Some a"
    "t \<in> set (ent_tags e) \<Longrightarrow> \<exists>ids. tag_index r t = Some ids \<and> a \<in> set ids"
  using assms by (auto simp: indexed_def)

lemma indexed_in_place:
  assumes "indexed r" "in_place r r'"
  shows "indexed r'"
  using assms(2) unfolding in_place_def
proof (elim disjE exE conjE)
  fix aid e e'
  assume e: "get_agent r aid = Some e" "r' = put_agent aid e' r"
    "ent_id e' = ent_id e" "ent_name e' = ent_name e" "ent_tags e' = ent_tags e"
  with assms(1) show "indexed r'"
    by (simp add: indexed_def agent_store.lookup_put)
qed (use assms(1) in simp)

lemma indexed_register:
  assumes "indexed r" "register_agent r e = Inr r'"
  shows "indexed r'"
proof -
  have r': "r' = put_agent (ent_id e) e (r\<lparr>name_index := AList.update (ent_name e) (ent_id e) (name_index r),
      tag_index := foldl (push_tag (ent_id e)) (tag_index r) (ent_tags e)\<rparr>)"
    and free: "map_of (name_index r) (ent_name e) = None"
    using assms(2) by (auto simp: register_agent_def put_agent_def split: option.splits)
  have get: "get_agent r' a = (if a = ent_id e then Some e else get_agent r a)" for a
    by (simp add: r' agent_store.lookup_put)
  have idx: "name_index r' = AList.update (ent_name e) (ent_id e) (name_index r)"
    "tag_index r' = foldl (push_tag (ent_id e)) (tag_index r) (ent_tags e)"
    by (simp_all add: r')
  show ?thesis
    unfolding indexed_def idx push_tags
    using assms(1) free by (auto simp: get map_of_AList_update dest: indexedD)
qed

lemma indexed_rename:
  assumes "indexed r" "update_name r aid name now = Inr r'"
  shows "indexed r'"
proof -
  obtain e where e: "get_agent r aid = Some e" and free: "map_of (name_index r) name = None"
    and r': "r' = (put_agent aid (e\<lparr>ent_name := name, ent_manifest := (ent_manifest e)\<lparr>man_name := name\<rparr>,
        ent_last_active := now\<rparr>) r)\<lparr>name_index := AList.delete (ent_name e) (AList.update name aid (name_index r))\<rparr>"
    using assms(2) by (auto simp: update_name_def split: option.splits)
  let ?e = "e\<lparr>ent_name := name, ent_manifest := (ent_manifest e)\<lparr>man_name := name\<rparr>, ent_last_active := now\<rparr>"
  have get: "get_agent r' a = (if a = aid then Some ?e else get_agent r a)" for a
    by (simp add: r' agent_store.lookup_put)
  have idx: "map_of (name_index r') n = (if n = ent_name e then None else if n = name then Some aid else map_of (name_index r) n)"
    "tag_index r' = tag_index r" for n
    by (simp_all add: r' map_of_AList_delete map_of_AList_update)
  have ne: "name \<noteq> ent_name e" using free indexedD(2)[OF assms(1) e] by auto
  show ?thesis
    unfolding indexed_def idx
  proof (intro allI impI)
    fix a x
    assume x: "get_agent r' a = Some x"
    show "ent_id x = a
        \<and> (if ent_name x = ent_name e then None else if ent_name x = name then Some aid
            else map_of (name_index r) (ent_name x)) = Some a
        \<and> (\<forall>t \<in> set (ent_tags x). \<exists>ids. tag_index r t = Some ids \<and> a \<in> set ids)"
    proof (cases "a = aid")
      case True
      with x ne indexedD[OF assms(1) e] show ?thesis by (auto simp: get)
    next
      case False
      with x have "get_agent r a = Some x" by (simp add: get)
      with False free indexedD[OF assms(1) this] indexedD[OF assms(1) e] show ?thesis by auto
    qed
  qed
qed

lemma indexed_remove:
  assumes "indexed r" "remove_agent r aid = Inr (e, r')"
  shows "indexed r'"
proof -
  have e: "get_agent r aid = Some e"
    and r': "r' = r\<lparr>agents := AList.delete aid (agents r), name_index := AList.delete (ent_name e) (name_index r),
       tag_index := foldl (retain_other aid) (tag_index r) (ent_tags e)\<rparr>"
    using assms(2) by (auto simp: remove_agent_def split: option.splits)
  have get: "get_agent r' a = (if a = aid then None else get_agent r a)" for a
    by (simp add: r' get_agent_def map_of_AList_delete)
  have idx: "map_of (name_index r') n = (if n = ent_name e then None else map_of (name_index r) n)"
    "tag_index r' = foldl (retain_other aid) (tag_index r) (ent_tags e)" for n
    by (simp_all add: r' map_of_AList_delete)
  show ?thesis
    unfolding indexed_def idx retain_others
  proof (intro allI impI)
    fix a x
    assume "get_agent r' a = Some x"
    then have x: "a \<noteq> aid" "get_agent r a = Some x" by (auto simp: get split: if_splits)
    with indexedD[OF assms(1) x(2)] indexedD(2)[OF assms(1) e]
    show "ent_id x = a
        \<and> (if ent_name x = ent_name e then None else map_of (name_index r) (ent_name x)) = Some a
        \<and> (\<forall>t \<in> set (ent_tags x). (\<exists>ids. tag_index r t = Some ids \<and> a \<in> set ids)
            \<and> \<not> (a = aid \<and> t \<in> set (ent_tags e)))"
      by auto
  qed
qed

lemma reachable_indexed: "reachable unused r \<Longrightarrow> indexed r"
proof (induction rule: reachable.induct)
  case start
  then show ?case by (simp add: indexed_def new_registry_def get_agent_def)
qed (blast intro: indexed_register indexed_remove indexed_rename indexed_in_place update_step_in_place)+

lemma reuse_of_id_leaves_old_name:
  assumes "register_agent r e = Inr r1" "register_agent r1 e' = Inr r2" "ent_id e' = ent_id e"
  shows "find_by_name r2 (ent_name e) = Some e' \<and> ent_name e' \<noteq> ent_name e"
proof -
  have r1: "map_of (name_index r1) (ent_name e) = Some (ent_id e)"
    using assms(1) by (auto simp: register_agent_def map_of_AList_update split: option.splits)
  then have ne: "ent_name e' \<noteq> ent_name e"
    using assms(2) by (auto simp: register_agent_def split: option.splits)
  have "map_of (name_index r2) (ent_name e) = Some (ent_id e)" "get_agent r2 (ent_id e) = Some e'"
    using assms(2,3) r1 ne
    by (auto simp: register_agent_def get_agent_def map_of_AList_update split: option.splits)
  with ne show ?thesis by (simp add: find_by_name_def)
qed

section \<open>Properties\<close>

definition sample_agent :: "agent_id \<Rightarrow> string \<Rightarrow> (unit, unit, unit, unit) agent_entry" where
  "sample_agent a name =
     \<lparr>ent_id = a, ent_name = name,
      ent_manifest =
        \<lparr>man_name = name, man_description = [],
         man_model = \<lparr>mc_provider = ''p'', mc_model = ''m'', mc_max_tokens = 1, mc_temperature = Finite 0,
           mc_system_prompt = [], mc_api_key_env = None, mc_base_url = None\<rparr>,
         man_fallback_models = [], man_resources = default_quota, man_tools = [], man_skills = [],
         man_skills_disabled = False, man_mcp_servers = [], man_autonomous = None, man_workspace = None,
         man_tool_allowlist = [], man_tool_blocklist = [], man_tools_disabled = False,
         man_web_search = SearchAuto, man_auto_dream_enabled = False, man_rest = ()\<rparr>,
      ent_state = Created, ent_mode = Full, ent_last_active = 0, ent_children = [], ent_session_id = (),
      ent_source_toml_path = None, ent_tags = [''t''], ent_identity = (), ent_onboarding_completed = False,
      ent_onboarding_completed_at = None, ent_force_session_wipe = False, ent_resume_pending = False,
      ent_reset_reason = None, ent_has_processed_message = False\<rparr>"

text \<open>
  C8: The registry is a map from ids to agents with unique names. In every registry that
  registration (under any ids), removal, renaming and updates lead to, each agent present is found
  under its own name, a second agent of that name is refused, and the tag index lists the agent
  under each of its tags. If moreover no agent was ever registered under an id that another one
  held, the indexes are exact: a look-up by name finds only the agent that carries the name,
  registration is refused only when an agent has the name, and the tag index lists an agent under
  no other tags. (The kernel derives ids from names and does not check them, so renaming an agent
  and spawning one of the old name breaks that condition: \<open>reuse_of_id_leaves_old_name\<close>.)
\<close>
theorem registry_refines_map:
  assumes "reachable unused r"
  shows "(get_agent r a = Some e \<longrightarrow>
           find_by_name r (ent_name e) = Some e
           \<and> (ent_name x = ent_name e \<longrightarrow> register_agent r x = Inl (AgentAlreadyExists (ent_name x)))
           \<and> (\<forall>t \<in> set (ent_tags e). \<exists>ids. tag_index r t = Some ids \<and> a \<in> set ids))
       \<and> (unused \<longrightarrow>
           (find_by_name r name = Some e \<longleftrightarrow> (\<exists>b. get_agent r b = Some e \<and> ent_name e = name))
           \<and> (register_agent r x = Inl (AgentAlreadyExists (ent_name x))
                \<longleftrightarrow> (\<exists>b f. get_agent r b = Some f \<and> ent_name f = ent_name x))
           \<and> ((\<exists>ids. tag_index r tag = Some ids \<and> a \<in> set ids)
                \<longleftrightarrow> (\<exists>f. get_agent r a = Some f \<and> tag \<in> set (ent_tags f))))"
proof (intro conjI impI)
  assume g: "get_agent r a = Some e"
  note i = indexedD[OF reachable_indexed[OF assms] g]
  show "find_by_name r (ent_name e) = Some e" using i g by (simp add: find_by_name_def)
  show "register_agent r x = Inl (AgentAlreadyExists (ent_name x))" if "ent_name x = ent_name e"
    using that i by (simp add: register_agent_def)
  show "\<forall>t \<in> set (ent_tags e). \<exists>ids. tag_index r t = Some ids \<and> a \<in> set ids" using i by blast
next
  assume u: "unused"
  have names: "\<forall>n a. map_of (name_index r) n = Some a \<longleftrightarrow> (\<exists>e. get_agent r a = Some e \<and> ent_name e = n)"
    and tags: "\<forall>t a. (\<exists>ids. tag_index r t = Some ids \<and> a \<in> set ids)
              \<longleftrightarrow> (\<exists>e. get_agent r a = Some e \<and> t \<in> set (ent_tags e))"
    using reachable_index_agrees[OF assms u] unfolding index_agrees_def by blast+
  have "find_by_name r name = Some e \<longleftrightarrow> (\<exists>a. map_of (name_index r) name = Some a \<and> get_agent r a = Some e)"
    by (cases "map_of (name_index r) name") (auto simp: find_by_name_def)
  then show "find_by_name r name = Some e \<longleftrightarrow> (\<exists>b. get_agent r b = Some e \<and> ent_name e = name)"
    using names by auto
  have "register_agent r x = Inl (AgentAlreadyExists (ent_name x)) \<longleftrightarrow> (\<exists>a. map_of (name_index r) (ent_name x) = Some a)"
    by (auto simp: register_agent_def split: option.splits)
  then show "register_agent r x = Inl (AgentAlreadyExists (ent_name x))
      \<longleftrightarrow> (\<exists>b f. get_agent r b = Some f \<and> ent_name f = ent_name x)"
    using names by simp
  show "(\<exists>ids. tag_index r tag = Some ids \<and> a \<in> set ids)
      \<longleftrightarrow> (\<exists>f. get_agent r a = Some f \<and> tag \<in> set (ent_tags f))"
    using tags by simp
qed

theorem registry_refines_map_witness:
  "\<exists>r. reachable True r \<and> agent_count r = 1
     \<and> find_by_name r ''ann'' = Some (sample_agent 7 ''ann'')
     \<and> (find_by_name r ''bob'' = Some (sample_agent 7 ''ann'')
          \<longleftrightarrow> (\<exists>a. get_agent r a = Some (sample_agent 7 ''ann'') \<and> ent_name (sample_agent 7 ''ann'') = ''bob''))"
proof -
  let ?e = "sample_agent 7 ''ann''" and ?r0 = "new_registry :: (unit, unit, unit, unit) registry"
  obtain r where r: "register_agent ?r0 ?e = Inr r" "agent_count r = 1" "get_agent r 7 = Some ?e"
    by (auto simp: register_agent_def new_registry_def agent_count_def get_agent_def sample_agent_def)
  have "reachable (True \<and> get_agent ?r0 (ent_id ?e) = None) r"
    by (rule reachable.register[OF reachable.start r(1)])
  then have reach: "reachable True r" by (simp add: get_agent_def new_registry_def)
  have "ent_name ?e = ''ann''" by (simp add: sample_agent_def)
  with reach r registry_refines_map[OF reach, of 7 ?e ?e "''bob''"] show ?thesis by auto
qed

end
