(* ===== verification/Lifecycle.thy ===== *)
theory Lifecycle
  imports Registry
begin

text \<open>
  Supervision of agents: the heartbeat check and its quiet hours,
  \<open>crates/librefang-kernel/src/heartbeat.rs\<close>, the monitor that runs it (the body of
  \<open>start_heartbeat_monitor\<close> in \<open>crates/librefang-kernel/src/kernel/mod.rs\<close>), the
  supervisor's counters, \<open>crates/librefang-kernel/src/supervisor.rs\<close>, and the automatic
  session reset, \<open>crates/librefang-kernel/src/session_policy.rs\<close>.

  Times are nanoseconds since the epoch; the hour and minute of the clock and the local offset from
  UTC are arguments. Publishing an event and pushing a notification append to a list.
\<close>

section \<open>Heartbeat\<close>

definition DEFAULT_CHECK_INTERVAL_SECS :: u64 where
  "DEFAULT_CHECK_INTERVAL_SECS = 30"

definition UNRESPONSIVE_MULTIPLIER :: u64 where
  "UNRESPONSIVE_MULTIPLIER = 2"

record heartbeat_status =
  hs_agent_id :: agent_id
  hs_name :: string
  hs_inactive_secs :: int
  hs_unresponsive :: bool

record heartbeat_config =
  check_interval_secs :: u64
  default_timeout_secs :: u64
  keep_recent :: nat

definition default_heartbeat_config :: heartbeat_config where
  "default_heartbeat_config =
     \<lparr>check_interval_secs = DEFAULT_CHECK_INTERVAL_SECS,
      default_timeout_secs = DEFAULT_CHECK_INTERVAL_SECS * UNRESPONSIVE_MULTIPLIER, keep_recent = 10\<rparr>"

text \<open>Whole seconds of a duration, rounded towards zero.\<close>

definition num_seconds :: "int \<Rightarrow> int" where
  "num_seconds d = (if 0 \<le> d then d div 1000000000 else - ((- d) div 1000000000))"

definition timeout_of :: "autonomous_config option \<Rightarrow> heartbeat_config \<Rightarrow> int" where
  "timeout_of auto_cfg config =
     sint (case auto_cfg of
             Some a \<Rightarrow> (case heartbeat_timeout_secs a of
                         Some t \<Rightarrow> ucast t
                       | None \<Rightarrow> heartbeat_interval_secs a * UNRESPONSIVE_MULTIPLIER)
           | None \<Rightarrow> default_timeout_secs config)"

definition check_agent ::
  "heartbeat_config \<Rightarrow> int \<Rightarrow> ('f, 'm, 'i, 's) agent_entry \<Rightarrow> heartbeat_status option" where
  "check_agent config now e =
     (if ent_state e \<noteq> Running then None
      else if man_autonomous (ent_manifest e) = None then None
      else let inactive = num_seconds (now - ent_last_active e)
           in if \<not> ent_has_processed_message e then None
              else Some \<lparr>hs_agent_id = ent_id e, hs_name = ent_name e, hs_inactive_secs = inactive,
                         hs_unresponsive = inactive > timeout_of (man_autonomous (ent_manifest e)) config\<rparr>)"

definition check_agents :: "('f, 'm, 'i, 's) registry \<Rightarrow> heartbeat_config \<Rightarrow> int \<Rightarrow> heartbeat_status list" where
  "check_agents r config now = List.map_filter (check_agent config now) (list_agents r)"

text \<open>\<open>u32::from_str\<close>, as for \<open>u64\<close> with the smaller bound.\<close>

definition parse_u32 :: "string \<Rightarrow> u32 option" where
  "parse_u32 s =
     (let ds = (if 1 < length s \<and> hd s = CHR ''+'' then tl s else s)
      in if ds = [] \<or> \<not> list_all is_digit ds \<or> 2 ^ 32 \<le> digits_value ds then None
         else Some (word_of_nat (digits_value ds)))"

definition parse_time :: "string \<Rightarrow> u32 option" where
  "parse_time s =
     (case split_on (\<lambda>c. c = CHR '':'') (trim s) of
        [hs, ms] \<Rightarrow>
          (case (parse_u32 hs, parse_u32 ms) of
             (Some h, Some m) \<Rightarrow> if h > 23 \<or> m > 59 then None else Some (h * 60 + m)
           | _ \<Rightarrow> None)
      | _ \<Rightarrow> None)"

definition is_quiet_hours :: "string \<Rightarrow> u32 \<Rightarrow> u32 \<Rightarrow> bool" where
  "is_quiet_hours spec hour minute =
     (case split_on (\<lambda>c. c = CHR ''-'') spec of
        [a, b] \<Rightarrow>
          let current_minutes = hour * 60 + minute
          in (case (parse_time a, parse_time b) of
                (Some start, Some fin) \<Rightarrow>
                  if start \<le> fin then current_minutes \<ge> start \<and> current_minutes < fin
                  else current_minutes \<ge> start \<or> current_minutes < fin
              | _ \<Rightarrow> False)
      | _ \<Rightarrow> False)"

record heartbeat_summary =
  total_checked :: nat
  responsive_count :: nat
  unresponsive_count :: nat
  unresponsive_agents :: "heartbeat_status list"

definition summarize :: "heartbeat_status list \<Rightarrow> heartbeat_summary" where
  "summarize statuses =
     (let bad = filter hs_unresponsive statuses
      in \<lparr>total_checked = length statuses, responsive_count = length statuses - length bad,
          unresponsive_count = length bad, unresponsive_agents = bad\<rparr>)"

section \<open>The monitor\<close>

text \<open>What the monitor remembers and what it has published.\<close>

record monitor =
  known_unresponsive :: "agent_id list"
  alerts :: "(agent_id \<times> int) list"

definition new_monitor :: monitor where
  "new_monitor = \<lparr>known_unresponsive = [], alerts = []\<rparr>"

definition quiet_now :: "('f, 'm, 'i, 's) registry \<Rightarrow> u32 \<Rightarrow> u32 \<Rightarrow> agent_id \<Rightarrow> bool" where
  "quiet_now r hour minute a =
     (case get_agent r a of
        Some e \<Rightarrow>
          (case man_autonomous (ent_manifest e) of
             Some cfg \<Rightarrow> (case quiet_hours cfg of Some qh \<Rightarrow> is_quiet_hours qh hour minute | None \<Rightarrow> False)
           | None \<Rightarrow> False)
      | None \<Rightarrow> False)"

definition monitor_status :: "monitor \<Rightarrow> heartbeat_status \<Rightarrow> monitor" where
  "monitor_status m s =
     (if hs_unresponsive s then
        if hs_agent_id s \<in> set (known_unresponsive m) then m
        else m\<lparr>known_unresponsive := hs_agent_id s # known_unresponsive m,
               alerts := alerts m @ [(hs_agent_id s, hs_inactive_secs s)]\<rparr>
      else m\<lparr>known_unresponsive := filter (\<lambda>a. a \<noteq> hs_agent_id s) (known_unresponsive m)\<rparr>)"

definition monitor_tick ::
  "heartbeat_config \<Rightarrow> monitor \<Rightarrow> ('f, 'm, 'i, 's) registry \<times> int \<times> u32 \<times> u32 \<Rightarrow> monitor" where
  "monitor_tick config m = (\<lambda>(r, now, hour, minute).
     foldl monitor_status m
       (filter (\<lambda>s. \<not> quiet_now r hour minute (hs_agent_id s)) (check_agents r config now)))"

section \<open>Supervisor\<close>

record supervisor =
  shutting_down :: bool
  restart_count :: u64
  panic_count :: u64
  agent_restarts :: "agent_id \<rightharpoonup> u32"

definition new_supervisor :: supervisor where
  "new_supervisor = \<lparr>shutting_down = False, restart_count = 0, panic_count = 0, agent_restarts = Map.empty\<rparr>"

definition shutdown :: "supervisor \<Rightarrow> supervisor" where
  "shutdown s = s\<lparr>shutting_down := True\<rparr>"

definition is_shutting_down :: "supervisor \<Rightarrow> bool" where
  "is_shutting_down s = shutting_down s"

definition record_panic :: "supervisor \<Rightarrow> supervisor" where
  "record_panic s = s\<lparr>panic_count := panic_count s + 1\<rparr>"

definition record_restart :: "supervisor \<Rightarrow> supervisor" where
  "record_restart s = s\<lparr>restart_count := restart_count s + 1\<rparr>"

definition agent_restart_count :: "supervisor \<Rightarrow> agent_id \<Rightarrow> u32" where
  "agent_restart_count s a = (case agent_restarts s a of Some n \<Rightarrow> n | None \<Rightarrow> 0)"

definition record_agent_restart :: "supervisor \<Rightarrow> agent_id \<Rightarrow> u32 \<Rightarrow> supervisor \<times> (u32 + u32)" where
  "record_agent_restart s a limit =
     (let count = agent_restart_count s a + 1;
          s1 = record_restart (s\<lparr>agent_restarts := (agent_restarts s)(a \<mapsto> count)\<rparr>)
      in (s1, if limit > 0 \<and> count > limit then Inl count else Inr count))"

definition reset_agent_restarts :: "supervisor \<Rightarrow> agent_id \<Rightarrow> supervisor" where
  "reset_agent_restarts s a = s\<lparr>agent_restarts := (agent_restarts s)(a := None)\<rparr>"

definition health :: "supervisor \<Rightarrow> bool \<times> u64 \<times> u64" where
  "health s = (is_shutting_down s, panic_count s, restart_count s)"

section \<open>Automatic session reset\<close>

datatype session_reset_mode = ResetOff | ResetIdle | ResetDaily | ResetBoth

record session_reset_policy =
  reset_mode :: session_reset_mode
  idle_minutes :: u64
  daily_at_hour :: "8 word"

definition default_reset_policy :: session_reset_policy where
  "default_reset_policy = \<lparr>reset_mode = ResetOff, idle_minutes = 1440, daily_at_hour = 4\<rparr>"

definition system_time_to_secs :: "int \<Rightarrow> int" where
  "system_time_to_secs t = num_seconds t"

text \<open>Integer division of Rust rounds towards zero.\<close>

definition trunc_div :: "int \<Rightarrow> int \<Rightarrow> int" where
  "trunc_div a b = (if 0 \<le> a then a div b else - ((- a) div b))"

definition crossed_daily_boundary :: "session_reset_policy \<Rightarrow> int \<Rightarrow> int \<Rightarrow> int \<Rightarrow> bool" where
  "crossed_daily_boundary policy utc_offset_secs last_active now =
     (let now_local = system_time_to_secs now + utc_offset_secs;
          last_local = system_time_to_secs last_active + utc_offset_secs;
          secs_per_day = 86400;
          target_secs_into_day = uint (daily_at_hour policy) * 3600;
          now_day_start = trunc_div now_local secs_per_day * secs_per_day;
          reset_today = now_day_start + target_secs_into_day;
          last_boundary = (if now_local \<ge> now_day_start + target_secs_into_day then reset_today
                           else reset_today - secs_per_day)
      in last_local < last_boundary)"

definition should_reset :: "session_reset_policy \<Rightarrow> int \<Rightarrow> int \<Rightarrow> bool \<Rightarrow> int \<Rightarrow> reset_reason option" where
  "should_reset policy utc_offset_secs last_active suspended now =
     (if suspended then Some SuspendedReset
      else if reset_mode policy = ResetOff then None
      else if reset_mode policy \<in> {ResetIdle, ResetBoth}
              \<and> last_active \<le> now \<and> now - last_active \<ge> uint (idle_minutes policy * 60) * 1000000000
      then Some IdleReset
      else if reset_mode policy \<in> {ResetDaily, ResetBoth}
              \<and> daily_at_hour policy \<le> 23 \<and> crossed_daily_boundary policy utc_offset_secs last_active now
      then Some DailyReset
      else None)"

section \<open>Transitions\<close>

text \<open>
  The abstract monitor: one alert for every status that is unresponsive while the previous status of
  the same agent, if any, was not.
\<close>

definition last_seen :: "heartbeat_status list \<Rightarrow> agent_id \<Rightarrow> bool" where
  "last_seen ss a = (case find (\<lambda>s. hs_agent_id s = a) (rev ss) of Some s \<Rightarrow> hs_unresponsive s | None \<Rightarrow> False)"

definition transitions :: "heartbeat_status list \<Rightarrow> (agent_id \<times> int) list" where
  "transitions ss =
     List.map_filter (\<lambda>i. let s = ss ! i in
         if hs_unresponsive s \<and> \<not> last_seen (take i ss) (hs_agent_id s)
         then Some (hs_agent_id s, hs_inactive_secs s) else None) [0..<length ss]"

definition tick_statuses ::
  "heartbeat_config \<Rightarrow> ('f, 'm, 'i, 's) registry \<times> int \<times> u32 \<times> u32 \<Rightarrow> heartbeat_status list" where
  "tick_statuses config = (\<lambda>(r, now, hour, minute).
     filter (\<lambda>s. \<not> quiet_now r hour minute (hs_agent_id s)) (check_agents r config now))"

lemma last_seen_snoc:
  "last_seen (ss @ [s]) a = (if hs_agent_id s = a then hs_unresponsive s else last_seen ss a)"
  by (simp add: last_seen_def)

lemma map_filter_cong: "(\<And>x. x \<in> set xs \<Longrightarrow> f x = g x) \<Longrightarrow> List.map_filter f xs = List.map_filter g xs"
  unfolding map_filter_def by (induction xs) simp_all

lemma transitions_snoc:
  "transitions (ss @ [s]) = transitions ss
     @ (if hs_unresponsive s \<and> \<not> last_seen ss (hs_agent_id s) then [(hs_agent_id s, hs_inactive_secs s)] else [])"
proof -
  have "List.map_filter (\<lambda>i. let t = (ss @ [s]) ! i in
         if hs_unresponsive t \<and> \<not> last_seen (take i (ss @ [s])) (hs_agent_id t)
         then Some (hs_agent_id t, hs_inactive_secs t) else None) [0..<length ss] = transitions ss"
    unfolding transitions_def by (intro map_filter_cong) (simp add: nth_append)
  then show ?thesis
    by (simp add: transitions_def map_filter_append map_filter_simps)
qed

lemma monitor_run:
  "set (known_unresponsive (foldl monitor_status new_monitor ss)) = {a. last_seen ss a}
   \<and> alerts (foldl monitor_status new_monitor ss) = transitions ss"
proof (induction ss rule: rev_induct)
  case Nil
  then show ?case by (simp add: new_monitor_def last_seen_def transitions_def map_filter_simps)
next
  case (snoc s ss)
  let ?m = "foldl monitor_status new_monitor ss"
  have m: "alerts ?m = transitions ss" using snoc by blast
  from snoc have known: "a \<in> set (known_unresponsive ?m) \<longleftrightarrow> last_seen ss a" for a
    by blast
  have "alerts (foldl monitor_status new_monitor (ss @ [s])) = transitions (ss @ [s])"
    using m known by (simp add: monitor_status_def[of ?m] transitions_snoc)
  moreover have "set (known_unresponsive (foldl monitor_status new_monitor (ss @ [s]))) = {a. last_seen (ss @ [s]) a}"
    using known by (auto simp: monitor_status_def[of ?m] last_seen_snoc)
  ultimately show ?case by blast
qed

lemma monitor_ticks:
  "foldl (monitor_tick config) m ticks = foldl monitor_status m (concat (map (tick_statuses config) ticks))"
  by (induction ticks arbitrary: m) (auto simp: monitor_tick_def tick_statuses_def split: prod.splits)

lemma status_justified:
  assumes "s \<in> set (tick_statuses config (r, now, hour, minute))" "hs_unresponsive s"
  shows "\<exists>e \<in> set (list_agents r). ent_id e = hs_agent_id s \<and> ent_state e = Running \<and> ent_has_processed_message e
           \<and> man_autonomous (ent_manifest e) \<noteq> None \<and> \<not> quiet_now r hour minute (ent_id e)
           \<and> num_seconds (now - ent_last_active e) > timeout_of (man_autonomous (ent_manifest e)) config"
proof -
  from assms(1) obtain e where "e \<in> set (list_agents r)" "check_agent config now e = Some s"
    "\<not> quiet_now r hour minute (hs_agent_id s)"
    by (auto simp: tick_statuses_def check_agents_def map_filter_def)
  with assms(2) show ?thesis
    by (auto simp: check_agent_def Let_def split: if_splits)
qed

lemma restart_limit:
  assumes "agent_restart_count s a < limit"
  shows "snd (record_agent_restart s a limit) = Inr (agent_restart_count s a + 1)
       \<and> agent_restart_count (fst (record_agent_restart s a limit)) a = agent_restart_count s a + 1"
proof -
  have "agent_restart_count s a + 1 \<le> limit"
    using assms by (simp add: inc_le)
  then show ?thesis
    by (simp add: record_agent_restart_def Let_def agent_restart_count_def record_restart_def not_less)
qed

section \<open>Properties\<close>

text \<open>
  C39: The monitor alerts once per outage. Over any sequence of ticks, with any registry and clock at each,
  the published alerts are exactly the transitions: an agent is reported when it becomes unresponsive
  and not again until a check has found it responsive.
\<close>
theorem monitor_alerts_transitions:
  "alerts (foldl (monitor_tick config) new_monitor ticks) = transitions (concat (map (tick_statuses config) ticks))"
  by (simp add: monitor_ticks monitor_run)

text \<open>
  The daily reset fires when it should. With the mode set to daily and an hour of at most 23, a
  session whose local clock is not before the epoch is reset exactly when some instant at that hour
  lies after its last activity and not after now.
\<close>
theorem daily_reset_iff_boundary:
  assumes "reset_mode policy = ResetDaily" "daily_at_hour policy \<le> 23" "0 \<le> system_time_to_secs now + off"
  shows "should_reset policy off last_active False now = Some DailyReset
     \<longleftrightarrow> (\<exists>day. system_time_to_secs last_active + off < 86400 * day + 3600 * uint (daily_at_hour policy)
              \<and> 86400 * day + 3600 * uint (daily_at_hour policy) \<le> system_time_to_secs now + off)"
proof -
  define n where "n = system_time_to_secs now + off"
  define l where "l = system_time_to_secs last_active + off"
  define T where "T = 3600 * uint (daily_at_hour policy)"
  define q where "q = n div 86400"
  have n: "86400 * q \<le> n" "n < 86400 * q + 86400"
    using pos_mod_bound[of 86400 n] pos_mod_sign[of 86400 n] minus_mod_eq_mult_div[of n 86400]
    by (auto simp: q_def)
  have T: "0 \<le> T" "T < 86400"
    using assms(2) by (auto simp: T_def word_le_def)
  have "should_reset policy off last_active False now = Some DailyReset
      \<longleftrightarrow> l < (if n \<ge> q * 86400 + T then q * 86400 + T else q * 86400 + T - 86400)"
    using assms by (simp add: should_reset_def crossed_daily_boundary_def Let_def trunc_div_def n_def l_def T_def q_def mult.commute)
  also have "\<dots> \<longleftrightarrow> (\<exists>day. l < 86400 * day + T \<and> 86400 * day + T \<le> n)"
  proof
    assume "l < (if n \<ge> q * 86400 + T then q * 86400 + T else q * 86400 + T - 86400)"
    then show "\<exists>day. l < 86400 * day + T \<and> 86400 * day + T \<le> n"
      using n T by (intro exI[of _ "if n \<ge> q * 86400 + T then q else q - 1"]) (auto split: if_splits)
  next
    assume "\<exists>day. l < 86400 * day + T \<and> 86400 * day + T \<le> n"
    then obtain day where d: "l < 86400 * day + T" "86400 * day + T \<le> n" by blast
    then have "day \<le> q" using n T by auto
    moreover have "day \<le> q - 1" if "n < q * 86400 + T" using that d(2) by auto
    ultimately show "l < (if n \<ge> q * 86400 + T then q * 86400 + T else q * 86400 + T - 86400)"
      using d(1) by auto
  qed
  finally show ?thesis unfolding n_def l_def T_def .
qed

theorem daily_reset_iff_boundary_witness:
  "should_reset \<lparr>reset_mode = ResetDaily, idle_minutes = 1440, daily_at_hour = 4\<rparr> 3600 0 False (86400 * 1000000000)
     = Some DailyReset
   \<longleftrightarrow> (\<exists>day. system_time_to_secs 0 + 3600 < 86400 * day + 3600 * uint (4 :: 8 word)
            \<and> 86400 * day + 3600 * uint (4 :: 8 word) \<le> system_time_to_secs (86400 * 1000000000) + 3600)"
  using daily_reset_iff_boundary[of "\<lparr>reset_mode = ResetDaily, idle_minutes = 1440, daily_at_hour = 4\<rparr>"
      "86400 * 1000000000" 3600 0]
  by (simp add: system_time_to_secs_def num_seconds_def)

end
