(* ===== verification/ApprovalPolicy.thy ===== *)
theory ApprovalPolicy
  imports Capability
begin

text \<open>
  The approval types of \<open>librefang-types/src/approval.rs\<close>: second factors, decisions, requests,
  channel rules and the approval policy with its validation. A \<open>Result\<close> whose success carries
  nothing is an optional error. \<open>is_alphanumeric\<close> on a character is the Unicode property and a
  parameter of the validation, applied to the encoding of each character.
\<close>

section \<open>Data\<close>

type_synonym uuid = "128 word"

definition MAX_TOOL_NAME_LEN :: nat where "MAX_TOOL_NAME_LEN = 64"

definition MAX_DESCRIPTION_LEN :: nat where "MAX_DESCRIPTION_LEN = 1024"

definition MAX_ACTION_SUMMARY_LEN :: nat where "MAX_ACTION_SUMMARY_LEN = 512"

definition MIN_TIMEOUT_SECS :: u64 where "MIN_TIMEOUT_SECS = 10"

definition MAX_TIMEOUT_SECS :: u64 where "MAX_TIMEOUT_SECS = 300"

definition MAX_TRUSTED_SENDERS :: nat where "MAX_TRUSTED_SENDERS = 100"

definition MAX_CHANNEL_RULES :: nat where "MAX_CHANNEL_RULES = 50"

definition MAX_CHANNEL_NAME_LEN :: nat where "MAX_CHANNEL_NAME_LEN = 64"

definition MAX_CHANNEL_RULE_TOOLS :: nat where "MAX_CHANNEL_RULE_TOOLS = 50"

definition MAX_TOTP_GRACE_PERIOD_SECS :: u64 where "MAX_TOTP_GRACE_PERIOD_SECS = 3600"

datatype second_factor = NoFactor | Totp | Login | Both

definition requires_login_totp :: "second_factor \<Rightarrow> bool" where
  "requires_login_totp f = (case f of Login \<Rightarrow> True | Both \<Rightarrow> True | _ \<Rightarrow> False)"

definition requires_approval_totp :: "second_factor \<Rightarrow> bool" where
  "requires_approval_totp f = (case f of Totp \<Rightarrow> True | Both \<Rightarrow> True | _ \<Rightarrow> False)"

datatype risk_level = Low | Medium | High | Critical

datatype approval_decision = Approved | Denied | TimedOut | ModifyAndRetry string | Skipped

definition is_approved :: "approval_decision \<Rightarrow> bool" where
  "is_approved d = (case d of Approved \<Rightarrow> True | _ \<Rightarrow> False)"

definition is_terminal :: "approval_decision \<Rightarrow> bool" where
  "is_terminal d = (case d of ModifyAndRetry _ \<Rightarrow> False | _ \<Rightarrow> True)"

definition decision_str :: "approval_decision \<Rightarrow> string" where
  "decision_str d =
     (case d of
        Approved \<Rightarrow> ''approved''
      | Denied \<Rightarrow> ''denied''
      | TimedOut \<Rightarrow> ''timed_out''
      | ModifyAndRetry _ \<Rightarrow> ''modify_and_retry''
      | Skipped \<Rightarrow> ''skipped'')"

text \<open>
  The serialised forms of a decision: a plain string, or an object, whose keys may repeat, whose last
  value for a key wins, and whose other keys are ignored.
\<close>

datatype decision_json = JStr string | JObj "(string \<times> string) list"

definition serialize_decision :: "approval_decision \<Rightarrow> decision_json" where
  "serialize_decision d =
     (case d of
        ModifyAndRetry feedback \<Rightarrow> JObj [(''type'', ''modify_and_retry''), (''feedback'', feedback)]
      | _ \<Rightarrow> JStr (decision_str d))"

datatype decision_error = UnknownVariant string | MissingType

definition visit_str :: "string \<Rightarrow> decision_error + approval_decision" where
  "visit_str v =
     (if v = ''approved'' then Inr Approved
      else if v = ''denied'' then Inr Denied
      else if v = ''timed_out'' then Inr TimedOut
      else if v = ''skipped'' then Inr Skipped
      else Inl (UnknownVariant v))"

definition last_value :: "string \<Rightarrow> (string \<times> string) list \<Rightarrow> string option" where
  "last_value k kvs = map_of (rev kvs) k"

definition visit_map :: "(string \<times> string) list \<Rightarrow> decision_error + approval_decision" where
  "visit_map kvs =
     (case last_value ''type'' kvs of
        None \<Rightarrow> Inl MissingType
      | Some typ \<Rightarrow>
          (if typ = ''modify_and_retry''
           then Inr (ModifyAndRetry (case last_value ''feedback'' kvs of Some f \<Rightarrow> f | None \<Rightarrow> []))
           else visit_str typ))"

definition deserialize_decision :: "decision_json \<Rightarrow> decision_error + approval_decision" where
  "deserialize_decision j = (case j of JStr s \<Rightarrow> visit_str s | JObj kvs \<Rightarrow> visit_map kvs)"

datatype timeout_fallback = Deny | Skip | Escalate (extra_timeout_secs: u64)

definition default_escalation_timeout :: u64 where
  "default_escalation_timeout = 120"

record notification_target =
  channel_type :: string
  recipient :: string
  thread_id :: "string option"

record approval_routing_rule =
  tool_pattern :: string
  rule_route_to :: "notification_target list"

record approval_request =
  req_id :: uuid
  req_agent_id :: string
  req_tool_name :: string
  req_description :: string
  action_summary :: string
  req_risk :: risk_level
  requested_at :: instant
  req_timeout_secs :: u64
  req_sender_id :: "string option"
  req_channel :: "string option"
  route_to :: "notification_target list"
  escalation_count :: "8 word"
  req_session_id :: "string option"

record approval_response =
  resp_request_id :: uuid
  resp_decision :: approval_decision
  resp_decided_at :: instant
  resp_decided_by :: "string option"

record channel_tool_rule =
  rule_channel :: string
  allowed_tools :: "string list"
  denied_tools :: "string list"

record approval_policy =
  require_approval :: "string list"
  timeout_secs :: u64
  auto_approve_autonomous :: bool
  auto_approve :: bool
  trusted_senders :: "string list"
  channel_rules :: "channel_tool_rule list"
  fallback :: timeout_fallback
  routing :: "approval_routing_rule list"
  second_factor_mode :: second_factor
  totp_issuer :: string
  totp_grace_period_secs :: u64
  totp_tools :: "string list"
  audit_retention_days :: u64

definition DEFAULT_MUTATION_TOOLS :: "string list" where
  "DEFAULT_MUTATION_TOOLS =
     [''shell_exec'', ''file_write'', ''file_delete'', ''apply_patch'', ''skill_evolve_*'']"

definition default_approval_policy :: approval_policy where
  "default_approval_policy =
     \<lparr>require_approval = DEFAULT_MUTATION_TOOLS, timeout_secs = 60, auto_approve_autonomous = False,
      auto_approve = False, trusted_senders = [], channel_rules = [], fallback = Deny, routing = [],
      second_factor_mode = NoFactor, totp_issuer = ''LibreFang'', totp_grace_period_secs = 300,
      totp_tools = [], audit_retention_days = 90\<rparr>"

datatype require_approval_value = BoolValue bool | SeqValue "string list"

definition deserialize_require_approval :: "require_approval_value \<Rightarrow> string list" where
  "deserialize_require_approval v =
     (case v of BoolValue b \<Rightarrow> if b then DEFAULT_MUTATION_TOOLS else [] | SeqValue xs \<Rightarrow> xs)"

definition apply_shorthands :: "approval_policy \<Rightarrow> approval_policy" where
  "apply_shorthands p = (if auto_approve p then p\<lparr>require_approval := []\<rparr> else p)"

section \<open>Policy questions\<close>

definition any_glob :: "string list \<Rightarrow> string \<Rightarrow> bool" where
  "any_glob patterns tool = list_ex (\<lambda>p. glob_matches p tool) patterns"

definition rule_check_tool :: "channel_tool_rule \<Rightarrow> string \<Rightarrow> bool option" where
  "rule_check_tool r tool =
     (if any_glob (denied_tools r) tool then Some False
      else if allowed_tools r \<noteq> [] then Some (any_glob (allowed_tools r) tool)
      else None)"

fun first_rule :: "channel_tool_rule list \<Rightarrow> string \<Rightarrow> string \<Rightarrow> bool option" where
  "first_rule [] ch tool = None"
| "first_rule (r # rs) ch tool =
     (if rule_channel r = ch then rule_check_tool r tool else first_rule rs ch tool)"

definition check_channel_tool :: "approval_policy \<Rightarrow> string \<Rightarrow> string \<Rightarrow> bool option" where
  "check_channel_tool p ch tool = first_rule (channel_rules p) ch tool"

definition is_trusted_sender :: "approval_policy \<Rightarrow> string \<Rightarrow> bool" where
  "is_trusted_sender p sender = list_ex (\<lambda>s. s = sender) (trusted_senders p)"

definition tool_requires_totp :: "approval_policy \<Rightarrow> string \<Rightarrow> bool" where
  "tool_requires_totp p tool =
     (if \<not> requires_approval_totp (second_factor_mode p) then False
      else if totp_tools p = [] then True
      else any_glob (totp_tools p) tool)"

section \<open>Validation\<close>

datatype name_error = NameEmpty | NameTooLong | NameChars | NameWildcards

datatype request_error =
  ToolNameEmpty | ToolNameTooLong | ToolNameChars | DescriptionTooLong | SummaryTooLong
| RequestTimeoutTooSmall u64 | RequestTimeoutTooLarge u64

datatype rule_error =
  ChannelEmpty | ChannelTooLong | AllowedTooMany | DeniedTooMany
| AllowedTool nat name_error | DeniedTool nat name_error

datatype policy_error =
  TimeoutTooSmall u64 | TimeoutTooLarge u64 | RequireApprovalName nat name_error
| TooManyTrusted nat | TrustedEmpty nat | TooManyRules nat | ChannelRule nat rule_error
| TotpToolName nat name_error | GraceTooLarge u64 | IssuerEmpty

definition validate_request :: "(string \<Rightarrow> bool) \<Rightarrow> approval_request \<Rightarrow> request_error option" where
  "validate_request alnum r =
     (if req_tool_name r = [] then Some ToolNameEmpty
      else if length (req_tool_name r) > MAX_TOOL_NAME_LEN then Some ToolNameTooLong
      else if \<not> list_all (\<lambda>c. alnum c \<or> c = ''_'') (chars_of (req_tool_name r)) then Some ToolNameChars
      else if length (req_description r) > MAX_DESCRIPTION_LEN then Some DescriptionTooLong
      else if length (action_summary r) > MAX_ACTION_SUMMARY_LEN then Some SummaryTooLong
      else if req_timeout_secs r < MIN_TIMEOUT_SECS then Some (RequestTimeoutTooSmall (req_timeout_secs r))
      else if req_timeout_secs r > MAX_TIMEOUT_SECS then Some (RequestTimeoutTooLarge (req_timeout_secs r))
      else None)"

definition validate_tool_name :: "(string \<Rightarrow> bool) \<Rightarrow> string \<Rightarrow> name_error option" where
  "validate_tool_name alnum name =
     (if name = [] then Some NameEmpty
      else if length name > MAX_TOOL_NAME_LEN then Some NameTooLong
      else if \<not> list_all (\<lambda>c. alnum c \<or> c = ''_'' \<or> c = ''*'') (chars_of name) then Some NameChars
      else if length (filter (\<lambda>c. c = ''*'') (chars_of name)) > 1 then Some NameWildcards
      else None)"

text \<open>The first element of a list, from index \<open>i\<close>, that a check rejects.\<close>

fun first_error :: "('a \<Rightarrow> 'e option) \<Rightarrow> nat \<Rightarrow> 'a list \<Rightarrow> (nat \<times> 'e) option" where
  "first_error chk i [] = None"
| "first_error chk i (x # xs) =
     (case chk x of Some e \<Rightarrow> Some (i, e) | None \<Rightarrow> first_error chk (Suc i) xs)"

definition validate_rule :: "(string \<Rightarrow> bool) \<Rightarrow> channel_tool_rule \<Rightarrow> rule_error option" where
  "validate_rule alnum r =
     (if rule_channel r = [] then Some ChannelEmpty
      else if length (rule_channel r) > MAX_CHANNEL_NAME_LEN then Some ChannelTooLong
      else if length (allowed_tools r) > MAX_CHANNEL_RULE_TOOLS then Some AllowedTooMany
      else if length (denied_tools r) > MAX_CHANNEL_RULE_TOOLS then Some DeniedTooMany
      else case first_error (validate_tool_name alnum) 0 (allowed_tools r) of
        Some (i, e) \<Rightarrow> Some (AllowedTool i e)
      | None \<Rightarrow> map_option (\<lambda>(i, e). DeniedTool i e)
                  (first_error (validate_tool_name alnum) 0 (denied_tools r)))"

definition check_empty :: "string \<Rightarrow> unit option" where
  "check_empty s = (if s = [] then Some () else None)"

definition validate_policy :: "(string \<Rightarrow> bool) \<Rightarrow> approval_policy \<Rightarrow> policy_error option" where
  "validate_policy alnum p =
     (if timeout_secs p < MIN_TIMEOUT_SECS then Some (TimeoutTooSmall (timeout_secs p))
      else if timeout_secs p > MAX_TIMEOUT_SECS then Some (TimeoutTooLarge (timeout_secs p))
      else case first_error (validate_tool_name alnum) 0 (require_approval p) of
        Some (i, e) \<Rightarrow> Some (RequireApprovalName i e)
      | None \<Rightarrow>
     (if length (trusted_senders p) > MAX_TRUSTED_SENDERS
      then Some (TooManyTrusted (length (trusted_senders p)))
      else case first_error check_empty 0 (trusted_senders p) of
        Some (i, _) \<Rightarrow> Some (TrustedEmpty i)
      | None \<Rightarrow>
     (if length (channel_rules p) > MAX_CHANNEL_RULES
      then Some (TooManyRules (length (channel_rules p)))
      else case first_error (validate_rule alnum) 0 (channel_rules p) of
        Some (i, e) \<Rightarrow> Some (ChannelRule i e)
      | None \<Rightarrow>
     (case first_error (validate_tool_name alnum) 0 (totp_tools p) of
        Some (i, e) \<Rightarrow> Some (TotpToolName i e)
      | None \<Rightarrow>
     (if totp_grace_period_secs p > MAX_TOTP_GRACE_PERIOD_SECS
      then Some (GraceTooLarge (totp_grace_period_secs p))
      else if second_factor_mode p \<noteq> NoFactor \<and> totp_issuer p = [] then Some IssuerEmpty
      else None)))))"

section \<open>Facts on validation\<close>

lemma first_error_None: "first_error chk i xs = None \<longleftrightarrow> (\<forall>x \<in> set xs. chk x = None)"
  by (induction xs arbitrary: i) (auto split: option.splits)

lemma concat_chars_of [simp]: "concat (chars_of s) = s"
proof (induction s)
  case (Cons c s)
  then show ?case by (cases "chars_of s") auto
qed simp

lemma chars_of_not_Nil: "ch \<in> set (chars_of s) \<Longrightarrow> ch \<noteq> []"
  by (induction s) (auto split: list.splits if_splits)

lemma byte_in_char: "c \<in> set s \<Longrightarrow> \<exists>ch \<in> set (chars_of s). c \<in> set ch"
  using concat_chars_of[of s] by (metis UN_E set_concat)

lemma count_list_concat: "count_list (concat xss) c = sum_list (map (\<lambda>xs. count_list xs c) xss)"
  by (induction xss) auto

text \<open>
  What the encoding of an alphanumeric character is relied on for: it holds no separator, no dot and
  no star.
\<close>

definition alnum_ok :: "(string \<Rightarrow> bool) \<Rightarrow> bool" where
  "alnum_ok alnum \<longleftrightarrow>
     (\<forall>ch. alnum ch \<longrightarrow> (\<forall>c \<in> set ch. \<not> is_path_sep c \<and> c \<noteq> CHR ''.'' \<and> c \<noteq> star))"

lemma count_star_chars:
  assumes "alnum_ok alnum" "list_all (\<lambda>c. alnum c \<or> c = ''_'' \<or> c = ''*'') chs"
  shows "sum_list (map (\<lambda>ch. count_list ch star) chs) = length (filter (\<lambda>c. c = ''*'') chs)"
  using assms(2)
proof (induction chs)
  case (Cons ch chs)
  have "count_list ch star = (if ch = ''*'' then 1 else 0)"
  proof (cases "alnum ch")
    case True
    with assms(1) have "star \<notin> set ch" unfolding alnum_ok_def by blast
    then show ?thesis by (auto simp: count_list_0_iff)
  next
    case False
    with Cons.prems have "ch = ''_'' \<or> ch = ''*''" by simp
    then show ?thesis by auto
  qed
  with Cons show ?case by simp
qed simp

lemma valid_name_glob:
  assumes "alnum_ok alnum" "validate_tool_name alnum name = None"
  shows "glob_matches name tool \<longleftrightarrow> wild_match name tool"
proof (rule name_glob_wild)
  have chs: "list_all (\<lambda>c. alnum c \<or> c = ''_'' \<or> c = ''*'') (chars_of name)"
    and one: "length (filter (\<lambda>c. c = ''*'') (chars_of name)) \<le> 1"
    using assms(2) by (auto simp: validate_tool_name_def split: if_splits)
  show "count_list name star \<le> 1"
    using one count_star_chars[OF assms(1) chs] count_list_concat[of "chars_of name" star] by simp
  show "\<forall>c \<in> set name. \<not> is_path_sep c \<and> c \<noteq> CHR ''.''"
  proof
    fix c assume "c \<in> set name"
    then obtain ch where ch: "ch \<in> set (chars_of name)" "c \<in> set ch" by (metis byte_in_char)
    then have "alnum ch \<or> ch = ''_'' \<or> ch = ''*''" using chs by (auto simp: list_all_iff)
    then show "\<not> is_path_sep c \<and> c \<noteq> CHR ''.''"
      using assms(1) ch(2) unfolding alnum_ok_def by auto
  qed
qed

lemma any_glob_wild:
  assumes "alnum_ok alnum" "first_error (validate_tool_name alnum) i pats = None"
  shows "any_glob pats tool \<longleftrightarrow> (\<exists>p \<in> set pats. wild_match p tool)"
  using assms valid_name_glob by (auto simp: any_glob_def list_ex_iff first_error_None)

lemma validate_policy_parts:
  assumes "validate_policy alnum p = None"
  shows "first_error (validate_tool_name alnum) 0 (require_approval p) = None"
    and "first_error (validate_rule alnum) 0 (channel_rules p) = None"
    and "first_error (validate_tool_name alnum) 0 (totp_tools p) = None"
    and "10 \<le> unat (timeout_secs p) \<and> unat (timeout_secs p) \<le> 300"
  using assms
  by (auto simp: validate_policy_def MIN_TIMEOUT_SECS_def MAX_TIMEOUT_SECS_def word_le_nat_alt
      word_less_nat_alt not_less split: if_splits option.splits prod.splits)

lemma deserialize_serialize [simp]: "deserialize_decision (serialize_decision d) = Inr d"
  by (cases d)
    (auto simp: deserialize_decision_def serialize_decision_def visit_map_def visit_str_def
      last_value_def decision_str_def)

end
