(* ===== verification/Approval.thy ===== *)
theory Approval
  imports ApprovalPolicy Registry
begin

text \<open>
  The approval manager of \<open>librefang-kernel/src/approval.rs\<close>, with the two callers that decide
  about it: \<open>submit_tool_approval\<close> of the kernel and the approval command of the chat bridge.

  An operation runs to its end with one clock reading, in nanoseconds; interleavings are sequences
  of operations. The blocking \<open>request_approval\<close> is split where it awaits: \<open>begin_request\<close>
  runs to the await, \<open>wake\<close> from the await to its return or to the next await. The oneshot
  channel of a waiting request is an entry of \<open>mailbox\<close>, and \<open>waiting\<close> says that the pending
  entry owns its sending half. The SQLite tables are association lists under their primary keys, and
  \<open>db_ok\<close> says whether the lock and the statements succeed. UUIDs are written and read back
  unchanged. The HMAC check of a TOTP code, SHA-256, the vault and JSON are parameters.
\<close>

section \<open>State\<close>

definition MAX_PENDING_PER_AGENT :: nat where "MAX_PENDING_PER_AGENT = 5"

definition MAX_RECENT_APPROVALS :: nat where "MAX_RECENT_APPROVALS = 100"

definition MAX_ESCALATIONS :: "8 word" where "MAX_ESCALATIONS = 3"

definition TOTP_MAX_FAILURES :: u32 where "TOTP_MAX_FAILURES = 5"

definition TOTP_LOCKOUT_SECS :: int where "TOTP_LOCKOUT_SECS = 300"

definition NANOS :: int where "NANOS = 1000000000"

record ('j, 'x) deferred_tool_execution =
  def_agent_id :: string
  tool_use_id :: string
  def_tool_name :: string
  def_input :: 'j
  def_allowed_tools :: "string list option"
  def_allowed_env_vars :: "string list option"
  exec_policy :: "'x option"
  def_sender_id :: "string option"
  def_channel :: "string option"
  workspace_root :: "string option"
  force_human :: bool

record ('j, 'x) pending_request =
  request :: approval_request
  waiting :: bool
  deferred :: "('j, 'x) deferred_tool_execution option"
  submitted_at :: instant

record approval_record =
  rec_request :: approval_request
  rec_decision :: approval_decision
  rec_decided_at :: instant
  rec_decided_by :: "string option"

record pending_row =
  row_agent_id :: string
  row_session_id :: "string option"
  row_tool_name :: string
  row_tool_input :: string
  row_created_at :: int

text \<open>
  A row of \<open>approval_audit\<close>. Its own key, a random UUID, is left out, and its times are kept as
  clock readings.
\<close>

record approval_audit_entry =
  au_request_id :: uuid
  au_agent_id :: string
  au_tool_name :: string
  au_description :: string
  au_action_summary :: string
  au_risk :: risk_level
  au_decision :: string
  au_decided_by :: "string option"
  au_decided_at :: instant
  au_requested_at :: instant
  au_feedback :: "string option"
  au_second_factor_used :: bool

record approval_db =
  db_ok :: bool
  pending_rows :: "(uuid \<times> pending_row) list"
  audit_rows :: "approval_audit_entry list"
  lockout_rows :: "(string \<times> (u32 \<times> int option)) list"
  used_codes :: "(string \<times> int) list"
  used_nonces :: "(string \<times> int) list"

record ('j, 'x) approval_manager =
  pending :: "(uuid \<times> ('j, 'x) pending_request) list"
  recent_log :: "approval_record list"
  policy :: approval_policy
  audit_db :: "approval_db option"
  totp_grace :: "string \<rightharpoonup> instant"
  totp_failures :: "string \<rightharpoonup> u32 \<times> instant option"
  mailbox :: "uuid \<rightharpoonup> approval_decision"

datatype expiry_outcome = DoEscalate | DoResolve approval_decision

datatype submit_error = DuplicateToolUse | TooManyPending

datatype resolve_error = TotpRequired | AlreadyHandled approval_decision string | NotFoundOrExpired uuid

datatype request_state = Waiting approval_request | Decided approval_decision

section \<open>The database\<close>

definition db_write ::
  "(approval_db \<Rightarrow> approval_db) \<Rightarrow> ('j, 'x) approval_manager \<Rightarrow> ('j, 'x) approval_manager" where
  "db_write f m =
     (case audit_db m of
        None \<Rightarrow> m
      | Some d \<Rightarrow> if db_ok d then m\<lparr>audit_db := Some (f d)\<rparr> else m)"

definition insert_or_ignore :: "'k \<Rightarrow> 'v \<Rightarrow> ('k \<times> 'v) list \<Rightarrow> ('k \<times> 'v) list" where
  "insert_or_ignore k v kvs = (if map_of kvs k = None then kvs @ [(k, v)] else kvs)"

definition row_of_request :: "approval_request \<Rightarrow> pending_row" where
  "row_of_request r =
     \<lparr>row_agent_id = req_agent_id r, row_session_id = req_session_id r, row_tool_name = req_tool_name r,
      row_tool_input = action_summary r, row_created_at = requested_at r div NANOS\<rparr>"

definition audit_entry_of ::
  "approval_request \<Rightarrow> string \<Rightarrow> string option \<Rightarrow> instant \<Rightarrow> string option \<Rightarrow> bool \<Rightarrow>
   approval_audit_entry" where
  "audit_entry_of r decision decided_by decided_at feedback second_factor =
     \<lparr>au_request_id = req_id r, au_agent_id = req_agent_id r, au_tool_name = req_tool_name r,
      au_description = req_description r, au_action_summary = action_summary r, au_risk = req_risk r,
      au_decision = decision, au_decided_by = decided_by, au_decided_at = decided_at,
      au_requested_at = requested_at r, au_feedback = feedback, au_second_factor_used = second_factor\<rparr>"

definition db_insert_pending ::
  "approval_request \<Rightarrow> ('j, 'x) approval_manager \<Rightarrow> ('j, 'x) approval_manager" where
  "db_insert_pending r =
     db_write (\<lambda>d. d\<lparr>pending_rows := insert_or_ignore (req_id r) (row_of_request r) (pending_rows d),
                     audit_rows := audit_rows d
                       @ [audit_entry_of r ''pending'' None (requested_at r) None False]\<rparr>)"

definition db_delete_pending :: "uuid \<Rightarrow> ('j, 'x) approval_manager \<Rightarrow> ('j, 'x) approval_manager" where
  "db_delete_pending i = db_write (\<lambda>d. d\<lparr>pending_rows := AList.delete i (pending_rows d)\<rparr>)"

definition audit_log_write ::
  "approval_audit_entry \<Rightarrow> ('j, 'x) approval_manager \<Rightarrow> ('j, 'x) approval_manager" where
  "audit_log_write e = db_write (\<lambda>d. d\<lparr>audit_rows := audit_rows d @ [e]\<rparr>)"

definition push_recent ::
  "approval_request \<Rightarrow> approval_decision \<Rightarrow> string option \<Rightarrow> instant \<Rightarrow> bool \<Rightarrow>
   ('j, 'x) approval_manager \<Rightarrow> ('j, 'x) approval_manager" where
  "push_recent r d decided_by decided_at second_factor m =
     (let feedback = (case d of ModifyAndRetry f \<Rightarrow> Some f | _ \<Rightarrow> None);
          m' = audit_log_write
                 (audit_entry_of r (decision_str d) decided_by decided_at feedback second_factor) m
      in m'\<lparr>recent_log :=
            take MAX_RECENT_APPROVALS
              (\<lparr>rec_request = r, rec_decision = d, rec_decided_at = decided_at,
                rec_decided_by = decided_by\<rparr> # recent_log m')\<rparr>)"

section \<open>Start and restart\<close>

definition new_approval_manager :: "approval_policy \<Rightarrow> ('j, 'x) approval_manager" where
  "new_approval_manager p =
     \<lparr>pending = [], recent_log = [], policy = p, audit_db = None, totp_grace = Map.empty,
      totp_failures = Map.empty, mailbox = Map.empty\<rparr>"

definition restored_request :: "uuid \<Rightarrow> pending_row \<Rightarrow> approval_request" where
  "restored_request i row =
     \<lparr>req_id = i, req_agent_id = row_agent_id row, req_tool_name = row_tool_name row,
      req_description = ''Restored pending approval (daemon restarted): '' @ row_tool_name row,
      action_summary = row_tool_input row, req_risk = High, requested_at = row_created_at row * NANOS,
      req_timeout_secs = 86400, req_sender_id = None, req_channel = None, route_to = [],
      escalation_count = 0, req_session_id = row_session_id row\<rparr>"

definition restore_pending_approvals ::
  "approval_db \<Rightarrow> (uuid \<times> ('j, 'x) pending_request) list" where
  "restore_pending_approvals d =
     (if db_ok d
      then map (\<lambda>(i, row). (i, \<lparr>request = restored_request i row, waiting = False, deferred = None,
                               submitted_at = row_created_at row * NANOS\<rparr>)) (pending_rows d)
      else [])"

text \<open>
  \<open>load_totp_lockout\<close>: seconds since the epoch are compared as \<open>u64\<close>, so a negative
  stored time counts as being in the future.
\<close>

definition lockout_elapsed :: "int \<Rightarrow> int \<Rightarrow> int" where
  "lockout_elapsed now_unix ts = (if ts < 0 then 0 else max 0 (now_unix - ts))"

definition unix_secs :: "instant \<Rightarrow> int" where
  "unix_secs now = max 0 (now div NANOS)"

definition load_lockout_row :: "instant \<Rightarrow> u32 \<times> int option \<Rightarrow> (u32 \<times> instant option) option" where
  "load_lockout_row now row =
     (let (failures, locked_at) = row;
          start = Option.bind locked_at (\<lambda>ts.
            let e = lockout_elapsed (unix_secs now) ts
            in if e \<ge> TOTP_LOCKOUT_SECS then None else Some (now - e * NANOS))
      in if failures \<ge> TOTP_MAX_FAILURES \<and> start = None then None else Some (failures, start))"

definition load_totp_lockout :: "instant \<Rightarrow> approval_db \<Rightarrow> string \<rightharpoonup> u32 \<times> instant option" where
  "load_totp_lockout now d =
     (if db_ok d then (\<lambda>s. Option.bind (map_of (lockout_rows d) s) (load_lockout_row now))
      else Map.empty)"

definition new_with_db :: "approval_policy \<Rightarrow> approval_db \<Rightarrow> instant \<Rightarrow> ('j, 'x) approval_manager" where
  "new_with_db p d now =
     \<lparr>pending = restore_pending_approvals d, recent_log = [], policy = p, audit_db = Some d,
      totp_grace = Map.empty, totp_failures = load_totp_lockout now d, mailbox = Map.empty\<rparr>"

section \<open>Questions\<close>

definition requires_approval :: "('j, 'x) approval_manager \<Rightarrow> string \<Rightarrow> bool" where
  "requires_approval m tool = any_glob (require_approval (policy m)) tool"

definition is_tool_denied_with_context ::
  "('j, 'x) approval_manager \<Rightarrow> string \<Rightarrow> string option \<Rightarrow> string option \<Rightarrow> bool" where
  "is_tool_denied_with_context m tool sender channel =
     (if (case sender of Some s \<Rightarrow> is_trusted_sender (policy m) s | None \<Rightarrow> False) then False
      else Option.bind channel (\<lambda>ch. check_channel_tool (policy m) ch tool) = Some False)"

definition requires_approval_with_context ::
  "('j, 'x) approval_manager \<Rightarrow> string \<Rightarrow> string option \<Rightarrow> string option \<Rightarrow> bool" where
  "requires_approval_with_context m tool sender channel =
     (if (case sender of Some s \<Rightarrow> is_trusted_sender (policy m) s | None \<Rightarrow> False) then False
      else case Option.bind channel (\<lambda>ch. check_channel_tool (policy m) ch tool) of
        Some allowed \<Rightarrow> \<not> allowed
      | None \<Rightarrow> any_glob (require_approval (policy m)) tool)"

definition classify_risk :: "string \<Rightarrow> risk_level" where
  "classify_risk tool =
     (if tool = ''shell_exec'' then Critical
      else if tool \<in> {''file_write'', ''file_delete'', ''apply_patch''} then High
      else if tool \<in> {''web_fetch'', ''browser_navigate''} then Medium
      else Low)"

definition requires_totp :: "('j, 'x) approval_manager \<Rightarrow> bool" where
  "requires_totp m \<longleftrightarrow> second_factor_mode (policy m) = Totp"

definition in_session :: "string \<Rightarrow> ('j, 'x) pending_request \<Rightarrow> bool" where
  "in_session s p \<longleftrightarrow> req_session_id (request p) = Some s"

definition list_pending_for_session :: "('j, 'x) approval_manager \<Rightarrow> string \<Rightarrow> approval_request list" where
  "list_pending_for_session m s = map (request \<circ> snd) (filter (in_session s \<circ> snd) (pending m))"

definition has_pending_for_session :: "('j, 'x) approval_manager \<Rightarrow> string \<Rightarrow> bool" where
  "has_pending_for_session m s = list_ex (in_session s \<circ> snd) (pending m)"

definition list_pending :: "('j, 'x) approval_manager \<Rightarrow> approval_request list" where
  "list_pending m = map (request \<circ> snd) (pending m)"

definition list_recent :: "('j, 'x) approval_manager \<Rightarrow> nat \<Rightarrow> approval_record list" where
  "list_recent m limit = take limit (recent_log m)"

definition get_pending :: "('j, 'x) approval_manager \<Rightarrow> uuid \<Rightarrow> approval_request option" where
  "get_pending m i = map_option request (map_of (pending m) i)"

definition pending_count :: "('j, 'x) approval_manager \<Rightarrow> nat" where
  "pending_count m = length (pending m)"

definition pending_count_for_agent :: "('j, 'x) approval_manager \<Rightarrow> string \<Rightarrow> nat" where
  "pending_count_for_agent m agent =
     length (filter (\<lambda>(_, p). req_agent_id (request p) = agent) (pending m))"

definition audit_matches :: "string option \<Rightarrow> string option \<Rightarrow> approval_audit_entry \<Rightarrow> bool" where
  "audit_matches agent tool e \<longleftrightarrow>
     (case agent of Some a \<Rightarrow> au_agent_id e = a | None \<Rightarrow> True)
     \<and> (case tool of Some t \<Rightarrow> au_tool_name e = t | None \<Rightarrow> True)"

definition query_audit ::
  "('j, 'x) approval_manager \<Rightarrow> nat \<Rightarrow> nat \<Rightarrow> string option \<Rightarrow> string option \<Rightarrow> approval_audit_entry list" where
  "query_audit m limit offset agent tool =
     (case audit_db m of
        Some d \<Rightarrow>
          if db_ok d
          then take limit (drop offset (sort_key (\<lambda>e. - au_decided_at e)
                 (filter (audit_matches agent tool) (audit_rows d))))
          else []
      | None \<Rightarrow> [])"

definition audit_count :: "('j, 'x) approval_manager \<Rightarrow> string option \<Rightarrow> string option \<Rightarrow> nat" where
  "audit_count m agent tool =
     (case audit_db m of
        Some d \<Rightarrow> if db_ok d then length (filter (audit_matches agent tool) (audit_rows d)) else 0
      | None \<Rightarrow> 0)"

definition audit_expired :: "nat \<Rightarrow> instant \<Rightarrow> approval_audit_entry \<Rightarrow> bool" where
  "audit_expired days now e \<longleftrightarrow> au_decided_at e div NANOS < (now - int days * 86400 * NANOS) div NANOS"

definition prune_audit ::
  "('j, 'x) approval_manager \<Rightarrow> nat \<Rightarrow> instant \<Rightarrow> ('j, 'x) approval_manager \<times> nat" where
  "prune_audit m days now =
     (if days = 0 then (m, 0)
      else (db_write (\<lambda>d. d\<lparr>audit_rows := filter (Not \<circ> audit_expired days now) (audit_rows d)\<rparr>) m,
            case audit_db m of
              Some d \<Rightarrow> if db_ok d then length (filter (audit_expired days now) (audit_rows d)) else 0
            | None \<Rightarrow> 0))"

definition update_policy :: "('j, 'x) approval_manager \<Rightarrow> approval_policy \<Rightarrow> ('j, 'x) approval_manager" where
  "update_policy m p = m\<lparr>policy := p\<rparr>"

section \<open>Submitting\<close>

definition effective_timeout_secs :: "approval_request \<Rightarrow> timeout_fallback \<Rightarrow> u64" where
  "effective_timeout_secs r fb =
     (case fb of
        Escalate extra \<Rightarrow> req_timeout_secs r + extra * ucast (escalation_count r)
      | _ \<Rightarrow> req_timeout_secs r)"

definition timeout_decision :: "approval_request \<Rightarrow> timeout_fallback \<Rightarrow> expiry_outcome" where
  "timeout_decision r fb =
     (if (case fb of Escalate _ \<Rightarrow> True | _ \<Rightarrow> False) \<and> escalation_count r < MAX_ESCALATIONS
      then DoEscalate
      else if fb = Skip then DoResolve Skipped
      else DoResolve TimedOut)"

definition escalate :: "approval_request \<Rightarrow> approval_request" where
  "escalate r = r\<lparr>escalation_count := escalation_count r + 1\<rparr>"

definition put_pending ::
  "uuid \<Rightarrow> ('j, 'x) pending_request \<Rightarrow> ('j, 'x) approval_manager \<Rightarrow> ('j, 'x) approval_manager" where
  "put_pending i p m = m\<lparr>pending := AList.update i p (pending m)\<rparr>"

definition drop_pending :: "uuid \<Rightarrow> ('j, 'x) approval_manager \<Rightarrow> ('j, 'x) approval_manager" where
  "drop_pending i m = m\<lparr>pending := AList.delete i (pending m)\<rparr>"

definition has_duplicate :: "('j, 'x) approval_manager \<Rightarrow> ('j, 'x) deferred_tool_execution \<Rightarrow> bool" where
  "has_duplicate m dt =
     list_ex (\<lambda>(_, p). case deferred p of Some d \<Rightarrow> tool_use_id d = tool_use_id dt | None \<Rightarrow> False)
       (pending m)"

definition submit_request ::
  "('j, 'x) approval_manager \<Rightarrow> approval_request \<Rightarrow> ('j, 'x) deferred_tool_execution \<Rightarrow> instant \<Rightarrow>
   ('j, 'x) approval_manager \<times> (submit_error + uuid)" where
  "submit_request m r dt now =
     (if has_duplicate m dt then (m, Inl DuplicateToolUse)
      else if pending_count_for_agent m (req_agent_id r) \<ge> MAX_PENDING_PER_AGENT
      then (m, Inl TooManyPending)
      else (put_pending (req_id r)
              \<lparr>request = r, waiting = False, deferred = Some dt, submitted_at = now\<rparr>
              (db_insert_pending r m), Inr (req_id r)))"

definition begin_request ::
  "('j, 'x) approval_manager \<Rightarrow> approval_request \<Rightarrow> instant \<Rightarrow> ('j, 'x) approval_manager \<times> request_state" where
  "begin_request m r now =
     (if pending_count_for_agent m (req_agent_id r) \<ge> MAX_PENDING_PER_AGENT then (m, Decided Denied)
      else (put_pending (req_id r)
              \<lparr>request = r, waiting = True, deferred = None, submitted_at = now\<rparr>
              (db_insert_pending r (m\<lparr>mailbox := (mailbox m)(req_id r := None)\<rparr>)), Waiting r))"

definition wake ::
  "('j, 'x) approval_manager \<Rightarrow> timeout_fallback \<Rightarrow> approval_request \<Rightarrow> instant \<Rightarrow>
   ('j, 'x) approval_manager \<times> request_state" where
  "wake m fb r now =
     (case mailbox m (req_id r) of
        Some d \<Rightarrow> (m, Decided d)
      | None \<Rightarrow>
          (let i = req_id r;
               r' = (case map_of (pending m) i of Some p \<Rightarrow> request p | None \<Rightarrow> r)
           in case timeout_decision r fb of
             DoEscalate \<Rightarrow> begin_request (drop_pending i m) (escalate r') now
           | DoResolve d \<Rightarrow>
               (push_recent r' d None now False (db_delete_pending i (drop_pending i m)), Decided d)))"

section \<open>Expiry\<close>

definition is_overdue :: "timeout_fallback \<Rightarrow> instant \<Rightarrow> ('j, 'x) pending_request \<Rightarrow> bool" where
  "is_overdue fb now p \<longleftrightarrow>
     now - submitted_at p > sint (effective_timeout_secs (request p) fb) * NANOS"

definition send :: "uuid \<Rightarrow> ('j, 'x) pending_request \<Rightarrow> approval_decision \<Rightarrow> ('j, 'x) approval_manager \<Rightarrow>
   ('j, 'x) approval_manager" where
  "send i p d m = (if waiting p then m\<lparr>mailbox := (mailbox m)(i \<mapsto> d)\<rparr> else m)"

record ('j, 'x) sweep =
  manager :: "('j, 'x) approval_manager"
  escalated :: "(uuid \<times> approval_request) list"
  expired :: "(uuid \<times> approval_decision \<times> ('j, 'x) deferred_tool_execution) list"

definition expire_one :: "timeout_fallback \<Rightarrow> instant \<Rightarrow> ('j, 'x) sweep \<Rightarrow> uuid \<Rightarrow> ('j, 'x) sweep" where
  "expire_one fb now s i =
     (let m = manager s
      in case map_of (pending m) i of
        None \<Rightarrow> s
      | Some p \<Rightarrow>
          (case timeout_decision (request p) fb of
             DoEscalate \<Rightarrow>
               s\<lparr>manager := put_pending i (p\<lparr>request := escalate (request p), submitted_at := now\<rparr>)
                              (drop_pending i m),
                 escalated := escalated s @ [(i, escalate (request p))]\<rparr>
           | DoResolve d \<Rightarrow>
               s\<lparr>manager := send i p d (push_recent (request p) d None now False
                              (db_delete_pending i (drop_pending i m))),
                 expired := expired s
                   @ (case deferred p of Some dt \<Rightarrow> [(i, d, dt)] | None \<Rightarrow> [])\<rparr>))"

definition overdue_ids :: "('j, 'x) approval_manager \<Rightarrow> instant \<Rightarrow> uuid list" where
  "overdue_ids m now = map fst (filter (\<lambda>(_, p). is_overdue (fallback (policy m)) now p) (pending m))"

definition expire_pending_requests :: "('j, 'x) approval_manager \<Rightarrow> instant \<Rightarrow> ('j, 'x) sweep" where
  "expire_pending_requests m now =
     foldl (expire_one (fallback (policy m)) now)
       \<lparr>manager = m, escalated = [], expired = []\<rparr> (overdue_ids m now)"

section \<open>Second factor\<close>

definition elapsed_secs :: "instant \<Rightarrow> instant \<Rightarrow> int" where
  "elapsed_secs now t = max 0 (now - t) div NANOS"

definition is_within_totp_grace ::
  "('j, 'x) approval_manager \<Rightarrow> string \<Rightarrow> approval_policy \<Rightarrow> instant \<Rightarrow> bool" where
  "is_within_totp_grace m sender p now =
     (if totp_grace_period_secs p = 0 then False
      else case totp_grace m sender of
        Some t \<Rightarrow> elapsed_secs now t < uint (totp_grace_period_secs p)
      | None \<Rightarrow> False)"

definition persist_totp_lockout_clear ::
  "string \<Rightarrow> ('j, 'x) approval_manager \<Rightarrow> ('j, 'x) approval_manager" where
  "persist_totp_lockout_clear s = db_write (\<lambda>d. d\<lparr>lockout_rows := AList.delete s (lockout_rows d)\<rparr>)"

definition record_totp_grace ::
  "string \<Rightarrow> instant \<Rightarrow> ('j, 'x) approval_manager \<Rightarrow> ('j, 'x) approval_manager" where
  "record_totp_grace s now m =
     persist_totp_lockout_clear s
       (m\<lparr>totp_grace := (totp_grace m)(s \<mapsto> now), totp_failures := (totp_failures m)(s := None)\<rparr>)"

definition is_totp_locked_out :: "('j, 'x) approval_manager \<Rightarrow> string \<Rightarrow> instant \<Rightarrow> bool" where
  "is_totp_locked_out m s now =
     (case totp_failures m s of
        None \<Rightarrow> False
      | Some (n, start) \<Rightarrow>
          n \<ge> TOTP_MAX_FAILURES
          \<and> (case start of Some t \<Rightarrow> elapsed_secs now t < TOTP_LOCKOUT_SECS | None \<Rightarrow> False))"

definition bump_failure :: "instant \<Rightarrow> u32 \<times> instant option \<Rightarrow> u32 \<times> instant option" where
  "bump_failure now e =
     (let (n, start) =
            (case snd e of
               Some t \<Rightarrow> if elapsed_secs now t \<ge> TOTP_LOCKOUT_SECS then (0, None) else e
             | None \<Rightarrow> e);
          n' = n + 1
      in (n', if n' \<ge> TOTP_MAX_FAILURES \<and> start = None then Some now else start))"

definition persist_totp_lockout_save ::
  "string \<Rightarrow> u32 \<times> int option \<Rightarrow> ('j, 'x) approval_manager \<Rightarrow> ('j, 'x) approval_manager \<times> bool" where
  "persist_totp_lockout_save s row m =
     (db_write (\<lambda>d. d\<lparr>lockout_rows := AList.update s row (lockout_rows d)\<rparr>) m,
      case audit_db m of None \<Rightarrow> True | Some d \<Rightarrow> db_ok d)"

definition record_totp_failure ::
  "('j, 'x) approval_manager \<Rightarrow> string \<Rightarrow> instant \<Rightarrow> ('j, 'x) approval_manager \<times> bool" where
  "record_totp_failure m s now =
     (let e = bump_failure now (case totp_failures m s of Some e \<Rightarrow> e | None \<Rightarrow> (0, None));
          locked_at = map_option (\<lambda>t. max 0 (unix_secs now - elapsed_secs now t)) (snd e)
      in persist_totp_lockout_save s (fst e, locked_at)
           (m\<lparr>totp_failures := (totp_failures m)(s \<mapsto> e)\<rparr>))"

definition is_recovery_code_format :: "string \<Rightarrow> bool" where
  "is_recovery_code_format code =
     (let t = trim code
      in length t = 9 \<and> t ! 4 = CHR ''-'' \<and> list_all is_digit (take 4 t) \<and> list_all is_digit (drop 5 t))"

definition verify_recovery_code ::
  "(string \<Rightarrow> string list option) \<Rightarrow> (string list \<Rightarrow> string) \<Rightarrow> (string \<Rightarrow> string) \<Rightarrow> string \<Rightarrow> string \<Rightarrow>
   (bool \<times> string) option" where
  "verify_recovery_code parse_codes print_codes lower stored code =
     map_option (\<lambda>codes.
       let normalized = lower (trim code)
       in (normalized \<in> set codes, print_codes (remove1 normalized codes))) (parse_codes stored)"

definition is_totp_code_used ::
  "(string \<Rightarrow> string) \<Rightarrow> ('j, 'x) approval_manager \<Rightarrow> string \<Rightarrow> instant \<Rightarrow> bool" where
  "is_totp_code_used sha m code now =
     (case audit_db m of
        Some d \<Rightarrow>
          db_ok d \<and> (case map_of (used_codes d) (sha code) of
                       Some t \<Rightarrow> t \<ge> unix_secs now - 60 | None \<Rightarrow> False)
      | None \<Rightarrow> False)"

definition record_totp_code_used ::
  "(string \<Rightarrow> string) \<Rightarrow> string \<Rightarrow> instant \<Rightarrow> ('j, 'x) approval_manager \<Rightarrow> ('j, 'x) approval_manager" where
  "record_totp_code_used sha code now =
     db_write (\<lambda>d. d\<lparr>used_codes :=
       filter (\<lambda>(_, t). \<not> t < unix_secs now - 120)
         (AList.update (sha code) (unix_secs now) (used_codes d))\<rparr>)"

definition is_oauth_nonce_used ::
  "(string \<Rightarrow> string) \<Rightarrow> ('j, 'x) approval_manager \<Rightarrow> string \<Rightarrow> instant \<Rightarrow> bool" where
  "is_oauth_nonce_used sha m nonce now =
     (case audit_db m of
        Some d \<Rightarrow>
          db_ok d \<and> (case map_of (used_nonces d) (sha nonce) of
                       Some t \<Rightarrow> t \<ge> unix_secs now - 3600 | None \<Rightarrow> False)
      | None \<Rightarrow> False)"

definition record_oauth_nonce_used ::
  "(string \<Rightarrow> string) \<Rightarrow> string \<Rightarrow> instant \<Rightarrow> ('j, 'x) approval_manager \<Rightarrow> ('j, 'x) approval_manager" where
  "record_oauth_nonce_used sha nonce now =
     db_write (\<lambda>d. d\<lparr>used_nonces :=
       filter (\<lambda>(_, t). \<not> t < unix_secs now - 3600)
         (AList.update (sha nonce) (unix_secs now) (used_nonces d))\<rparr>)"

section \<open>Resolving\<close>

definition totp_gate ::
  "('j, 'x) approval_manager \<Rightarrow> uuid \<Rightarrow> bool \<Rightarrow> string option \<Rightarrow> instant \<Rightarrow> bool" where
  "totp_gate m i verified user now \<longleftrightarrow>
     (case map_of (pending m) i of
        Some p \<Rightarrow> tool_requires_totp (policy m) (req_tool_name (request p))
      | None \<Rightarrow> False)
     \<longrightarrow> is_within_totp_grace m (case user of Some u \<Rightarrow> u | None \<Rightarrow> ''unknown'') (policy m) now \<or> verified"

definition handled_by :: "('j, 'x) approval_manager \<Rightarrow> uuid \<Rightarrow> resolve_error" where
  "handled_by m i =
     (case find (\<lambda>r. req_id (rec_request r) = i) (recent_log m) of
        Some r \<Rightarrow>
          AlreadyHandled (rec_decision r) (case rec_decided_by r of Some w \<Rightarrow> w | None \<Rightarrow> ''unknown'')
      | None \<Rightarrow> NotFoundOrExpired i)"

definition grace_on_approval ::
  "approval_decision \<Rightarrow> bool \<Rightarrow> string option \<Rightarrow> string \<Rightarrow> instant \<Rightarrow>
   ('j, 'x) approval_manager \<Rightarrow> ('j, 'x) approval_manager" where
  "grace_on_approval d verified user tool now m =
     (if is_approved d \<and> verified
      then case user of
        Some u \<Rightarrow> if tool_requires_totp (policy m) tool then record_totp_grace u now m else m
      | None \<Rightarrow> m
      else m)"

definition resolve ::
  "('j, 'x) approval_manager \<Rightarrow> uuid \<Rightarrow> approval_decision \<Rightarrow> string option \<Rightarrow> bool \<Rightarrow> string option \<Rightarrow>
   instant \<Rightarrow> ('j, 'x) approval_manager
     \<times> (resolve_error + approval_response \<times> ('j, 'x) deferred_tool_execution option)" where
  "resolve m i d decided_by verified user now =
     (if is_approved d \<and> \<not> totp_gate m i verified user now then (m, Inl TotpRequired)
      else case map_of (pending m) i of
        None \<Rightarrow> (m, Inl (handled_by m i))
      | Some p \<Rightarrow>
          (send i p d
             (push_recent (request p) d decided_by now verified
               (grace_on_approval d verified user (req_tool_name (request p)) now
                 (db_delete_pending i (drop_pending i m)))),
           Inr (\<lparr>resp_request_id = i, resp_decision = d, resp_decided_at = now,
                 resp_decided_by = decided_by\<rparr>, deferred p)))"

fun resolve_batch ::
  "('j, 'x) approval_manager \<Rightarrow> uuid list \<Rightarrow> approval_decision \<Rightarrow> string option \<Rightarrow> instant \<Rightarrow>
   ('j, 'x) approval_manager \<times> (uuid \<times> (resolve_error + approval_response)) list" where
  "resolve_batch m [] d decided_by now = (m, [])"
| "resolve_batch m (i # is) d decided_by now =
     (let (m', res) = resolve m i d decided_by False None now;
          (m'', rest) = resolve_batch m' is d decided_by now
      in (m'', (i, case res of Inl e \<Rightarrow> Inl e | Inr (resp, _) \<Rightarrow> Inr resp) # rest))"

definition resolve_all_for_session ::
  "('j, 'x) approval_manager \<Rightarrow> string \<Rightarrow> approval_decision \<Rightarrow> string option \<Rightarrow> instant \<Rightarrow>
   ('j, 'x) approval_manager \<times> nat" where
  "resolve_all_for_session m s d decided_by now =
     (let ids = map fst (filter (in_session s \<circ> snd) (pending m));
          (m', results) = resolve_batch m ids d decided_by now
      in (m', length (filter (\<lambda>(_, res). case res of Inr _ \<Rightarrow> True | Inl _ \<Rightarrow> False) results)))"

section \<open>Callers\<close>

text \<open>
  \<open>submit_tool_approval\<close> of the kernel, up to the notifications it sends. The agent identifier is
  text that may not parse; the agent's display name is a parameter; so is the fresh request id.
\<close>

datatype submission = PendingRequest uuid | AutoApproved

definition is_hand_agent :: "(string \<Rightarrow> agent_id option) \<Rightarrow> ('f, 'm, 'i, 's) registry \<Rightarrow> string \<Rightarrow> bool" where
  "is_hand_agent parse_agent reg agent =
     (case Option.bind (parse_agent agent) (get_agent reg) of
        Some e \<Rightarrow> list_ex (starts_with ''hand:'') (ent_tags e)
      | None \<Rightarrow> False)"

definition tool_request ::
  "approval_policy \<Rightarrow> (string \<Rightarrow> string) \<Rightarrow> uuid \<Rightarrow> string \<Rightarrow> string \<Rightarrow> string \<Rightarrow> string option \<Rightarrow> instant \<Rightarrow>
   approval_request" where
  "tool_request p display i agent tool summary session now =
     \<lparr>req_id = i, req_agent_id = agent, req_tool_name = tool,
      req_description = ''Agent '' @ display agent @ '' requests to execute '' @ tool,
      action_summary = concat (take MAX_ACTION_SUMMARY_LEN (chars_of summary)),
      req_risk = classify_risk tool, requested_at = now, req_timeout_secs = timeout_secs p,
      req_sender_id = None, req_channel = None, route_to = [], escalation_count = 0,
      req_session_id = session\<rparr>"

definition submit_tool_approval ::
  "(string \<Rightarrow> agent_id option) \<Rightarrow> (string \<Rightarrow> string) \<Rightarrow> ('f, 'm, 'i, 's) registry \<Rightarrow> ('j, 'x) approval_manager \<Rightarrow>
   uuid \<Rightarrow> string \<Rightarrow> string \<Rightarrow> string \<Rightarrow> ('j, 'x) deferred_tool_execution \<Rightarrow> string option \<Rightarrow> instant \<Rightarrow>
   ('j, 'x) approval_manager \<times> (submit_error + submission)" where
  "submit_tool_approval parse_agent display reg m i agent tool summary dt session now =
     (if \<not> force_human dt \<and> is_hand_agent parse_agent reg agent then (m, Inr AutoApproved)
      else case submit_request m (tool_request (policy m) display i agent tool summary session now) dt now of
        (m', Inl e) \<Rightarrow> (m', Inl e)
      | (m', Inr _) \<Rightarrow> (m', Inr (PendingRequest i)))"

text \<open>
  The approval command of the chat bridge. \<open>redeem\<close> is the vault's atomic redemption of a
  recovery code, \<open>secret\<close> the vault's TOTP secret and \<open>verify\<close> the check of a code
  against it; each may fail. \<open>show_id\<close> prints a request id.
\<close>

record chat_env =
  show_id :: "uuid \<Rightarrow> string"
  redeem :: "string \<Rightarrow> bool option"
  secret :: "string option"
  verify :: "string \<Rightarrow> string \<Rightarrow> bool option"
  sha256 :: "string \<Rightarrow> string"

datatype chat_reply =
  NoMatch | ManyMatch nat | LockedOut | BadRecoveryCode | RecoveryError | CodeReplayed | NotConfigured
| BadCode | VerifyError | ServiceUnavailable | NeedCode | Failed resolve_error | Done bool uuid

datatype factor = Verified bool | Rejected chat_reply

definition count_failure ::
  "('j, 'x) approval_manager \<Rightarrow> string \<Rightarrow> instant \<Rightarrow> chat_reply \<Rightarrow> ('j, 'x) approval_manager \<times> factor" where
  "count_failure m sender now reply =
     (case record_totp_failure m sender now of
        (m', ok) \<Rightarrow> (m', Rejected (if ok then reply else ServiceUnavailable)))"

definition check_factor ::
  "chat_env \<Rightarrow> ('j, 'x) approval_manager \<Rightarrow> string \<Rightarrow> string option \<Rightarrow> instant \<Rightarrow>
   ('j, 'x) approval_manager \<times> factor" where
  "check_factor env m sender code now =
     (if is_totp_locked_out m sender now then (m, Rejected LockedOut)
      else case code of
        None \<Rightarrow> (m, Verified False)
      | Some c \<Rightarrow>
          if is_recovery_code_format c
          then case redeem env c of
            Some True \<Rightarrow> (m, Verified True)
          | Some False \<Rightarrow> count_failure m sender now BadRecoveryCode
          | None \<Rightarrow> (m, Rejected RecoveryError)
          else if is_totp_code_used (sha256 env) m c now then (m, Rejected CodeReplayed)
          else case secret env of
            None \<Rightarrow> (m, Rejected NotConfigured)
          | Some s \<Rightarrow>
              (case verify env s c of
                 Some True \<Rightarrow> (record_totp_code_used (sha256 env) c now m, Verified True)
               | Some False \<Rightarrow> count_failure m sender now BadCode
               | None \<Rightarrow> (m, Rejected VerifyError)))"

text \<open>The reply is chosen by the word \<open>TOTP\<close> in the text of the error.\<close>

definition mentions_totp :: "resolve_error \<Rightarrow> bool" where
  "mentions_totp e =
     (case e of
        TotpRequired \<Rightarrow> True
      | AlreadyHandled _ who \<Rightarrow> contains_str ''TOTP'' who
      | NotFoundOrExpired _ \<Rightarrow> False)"

definition chat_resolve ::
  "chat_env \<Rightarrow> ('j, 'x) approval_manager \<Rightarrow> string \<Rightarrow> bool \<Rightarrow> string option \<Rightarrow> string \<Rightarrow> instant \<Rightarrow>
   ('j, 'x) approval_manager \<times> chat_reply" where
  "chat_resolve env m id_prefix approve code sender now =
     (case filter (\<lambda>r. starts_with id_prefix (show_id env (req_id r))) (list_pending m) of
        [] \<Rightarrow> (m, NoMatch)
      | [r] \<Rightarrow>
          (case (if approve \<and> tool_requires_totp (policy m) (req_tool_name r)
                 then check_factor env m sender code now else (m, Verified False)) of
             (m', Rejected reply) \<Rightarrow> (m', reply)
           | (m', Verified v) \<Rightarrow>
               (case resolve m' (req_id r) (if approve then Approved else Denied) (Some ''channel'') v
                       (Some sender) now of
                  (m'', Inr _) \<Rightarrow> (m'', Done approve (req_id r))
                | (m'', Inl e) \<Rightarrow> (m'', if mentions_totp e then NeedCode else Failed e)))
      | rs \<Rightarrow> (m, ManyMatch (length rs)))"

end
