(* ===== verification/ApprovalSafety.thy ===== *)
theory ApprovalSafety
  imports Approval
begin

text \<open>
  What the approval manager guarantees: who can approve, how many requests wait, that every request
  is decided, that a restart keeps the waiting ones, and how often a code can be guessed. The
  operations are the steps of one machine, so each guarantee is about every interleaving of them.
\<close>

section \<open>Runs\<close>

datatype ('j, 'x) approval_op =
  Submit approval_request "('j, 'x) deferred_tool_execution" instant
| Begin approval_request instant
| Wake timeout_fallback approval_request instant
| Sweep instant
| Resolve uuid approval_decision "string option" bool "string option" instant
| SetPolicy approval_policy
| TotpFailure string instant
| PruneAudit nat instant

fun exec_approval :: "('j, 'x) approval_manager \<Rightarrow> ('j, 'x) approval_op \<Rightarrow> ('j, 'x) approval_manager" where
  "exec_approval m (Submit r dt now) = fst (submit_request m r dt now)"
| "exec_approval m (Begin r now) = fst (begin_request m r now)"
| "exec_approval m (Wake fb r now) = fst (wake m fb r now)"
| "exec_approval m (Sweep now) = manager (expire_pending_requests m now)"
| "exec_approval m (Resolve i d decided_by verified user now) = fst (resolve m i d decided_by verified user now)"
| "exec_approval m (SetPolicy p) = update_policy m p"
| "exec_approval m (TotpFailure s now) = fst (record_totp_failure m s now)"
| "exec_approval m (PruneAudit days now) = fst (prune_audit m days now)"

text \<open>Batches are runs of single resolutions.\<close>

lemma resolve_batch_run:
  "fst (resolve_batch m is d decided_by now)
     = foldl exec_approval m (map (\<lambda>i. Resolve i d decided_by False None now) is)"
  by (induction "is" arbitrary: m) (simp_all add: case_prod_beta Let_def)

lemma resolve_all_run:
  "fst (resolve_all_for_session m s d decided_by now)
     = foldl exec_approval m (map (\<lambda>i. Resolve i d decided_by False None now)
         (map fst (filter (in_session s \<circ> snd) (pending m))))"
  by (simp add: resolve_all_for_session_def case_prod_beta Let_def resolve_batch_run)

section \<open>What an operation leaves alone\<close>

named_theorems approval_frame \<open>fields an operation does not touch\<close>

lemma db_write_frame [approval_frame, simp]:
  "pending (db_write f m) = pending m"
  "recent_log (db_write f m) = recent_log m"
  "policy (db_write f m) = policy m"
  "totp_grace (db_write f m) = totp_grace m"
  "totp_failures (db_write f m) = totp_failures m"
  "mailbox (db_write f m) = mailbox m"
  by (simp_all add: db_write_def split: option.split)

lemma db_insert_pending_frame [approval_frame, simp]:
  "pending (db_insert_pending r m) = pending m"
  "recent_log (db_insert_pending r m) = recent_log m"
  "policy (db_insert_pending r m) = policy m"
  "totp_grace (db_insert_pending r m) = totp_grace m"
  "totp_failures (db_insert_pending r m) = totp_failures m"
  "mailbox (db_insert_pending r m) = mailbox m"
  by (simp_all add: db_insert_pending_def)

lemma db_delete_pending_frame [approval_frame, simp]:
  "pending (db_delete_pending i m) = pending m"
  "recent_log (db_delete_pending i m) = recent_log m"
  "policy (db_delete_pending i m) = policy m"
  "totp_grace (db_delete_pending i m) = totp_grace m"
  "totp_failures (db_delete_pending i m) = totp_failures m"
  "mailbox (db_delete_pending i m) = mailbox m"
  by (simp_all add: db_delete_pending_def)

lemma push_recent_frame [approval_frame, simp]:
  "pending (push_recent r d who w sf m) = pending m"
  "policy (push_recent r d who w sf m) = policy m"
  "totp_grace (push_recent r d who w sf m) = totp_grace m"
  "totp_failures (push_recent r d who w sf m) = totp_failures m"
  "mailbox (push_recent r d who w sf m) = mailbox m"
  by (simp_all add: push_recent_def audit_log_write_def Let_def)

lemma push_recent_log [simp]:
  "recent_log (push_recent r d who w sf m)
     = take MAX_RECENT_APPROVALS (\<lparr>rec_request = r, rec_decision = d, rec_decided_at = w, rec_decided_by = who\<rparr>
         # recent_log m)"
  by (simp add: push_recent_def audit_log_write_def Let_def)

lemma grace_on_approval_frame [approval_frame, simp]:
  "pending (grace_on_approval d v u tool now m) = pending m"
  "recent_log (grace_on_approval d v u tool now m) = recent_log m"
  "policy (grace_on_approval d v u tool now m) = policy m"
  "mailbox (grace_on_approval d v u tool now m) = mailbox m"
  by (simp_all add: grace_on_approval_def record_totp_grace_def persist_totp_lockout_clear_def
      split: option.split)

lemma put_pending_frame [approval_frame, simp]:
  "pending (put_pending i p m) = AList.update i p (pending m)"
  "recent_log (put_pending i p m) = recent_log m"
  "policy (put_pending i p m) = policy m"
  "totp_grace (put_pending i p m) = totp_grace m"
  "totp_failures (put_pending i p m) = totp_failures m"
  "mailbox (put_pending i p m) = mailbox m"
  by (simp_all add: put_pending_def)

lemma drop_pending_frame [approval_frame, simp]:
  "pending (drop_pending i m) = AList.delete i (pending m)"
  "recent_log (drop_pending i m) = recent_log m"
  "policy (drop_pending i m) = policy m"
  "totp_grace (drop_pending i m) = totp_grace m"
  "totp_failures (drop_pending i m) = totp_failures m"
  "mailbox (drop_pending i m) = mailbox m"
  by (simp_all add: drop_pending_def)

lemma send_frame [approval_frame, simp]:
  "pending (send i p d m) = pending m"
  "recent_log (send i p d m) = recent_log m"
  "policy (send i p d m) = policy m"
  "totp_grace (send i p d m) = totp_grace m"
  "totp_failures (send i p d m) = totp_failures m"
  "mailbox (send i p d m) = (if waiting p then (mailbox m)(i \<mapsto> d) else mailbox m)"
  by (simp_all add: send_def)

lemma record_totp_failure_frame [approval_frame, simp]:
  "pending (fst (record_totp_failure m s now)) = pending m"
  "recent_log (fst (record_totp_failure m s now)) = recent_log m"
  "policy (fst (record_totp_failure m s now)) = policy m"
  "totp_grace (fst (record_totp_failure m s now)) = totp_grace m"
  "mailbox (fst (record_totp_failure m s now)) = mailbox m"
  by (simp_all add: record_totp_failure_def persist_totp_lockout_save_def Let_def)

lemma prune_audit_frame [approval_frame, simp]:
  "pending (fst (prune_audit m days now)) = pending m"
  "recent_log (fst (prune_audit m days now)) = recent_log m"
  "policy (fst (prune_audit m days now)) = policy m"
  "totp_grace (fst (prune_audit m days now)) = totp_grace m"
  "totp_failures (fst (prune_audit m days now)) = totp_failures m"
  "mailbox (fst (prune_audit m days now)) = mailbox m"
  by (simp_all add: prune_audit_def)

section \<open>Timeouts never approve\<close>

lemma timeout_not_approved: "timeout_decision r fb = DoResolve d \<Longrightarrow> d \<noteq> Approved"
  by (auto simp: timeout_decision_def split: if_splits)

text \<open>The part of the state that says who was approved, and who is in the grace period.\<close>

definition no_new_approval :: "('j, 'x) approval_manager \<Rightarrow> ('j, 'x) approval_manager \<Rightarrow> bool" where
  "no_new_approval m m' \<longleftrightarrow>
     (\<forall>i. mailbox m' i = Some Approved \<longrightarrow> mailbox m i = Some Approved)
     \<and> (\<forall>r \<in> set (recent_log m'). rec_decision r = Approved \<longrightarrow> r \<in> set (recent_log m))
     \<and> totp_grace m' = totp_grace m"

lemma no_new_approval_refl [simp]: "no_new_approval m m"
  by (simp add: no_new_approval_def)

lemma no_new_approval_trans: "no_new_approval a b \<Longrightarrow> no_new_approval b c \<Longrightarrow> no_new_approval a c"
  unfolding no_new_approval_def by metis

lemma in_take_Cons: "x \<in> set (take n (y # ys)) \<Longrightarrow> x = y \<or> x \<in> set ys"
  by (cases n) (auto dest: in_set_takeD)

lemma expire_one_no_approval: "no_new_approval (manager s) (manager (expire_one fb now s i))"
  unfolding no_new_approval_def
  by (auto simp: expire_one_def Let_def split: option.split expiry_outcome.split
      dest!: timeout_not_approved in_take_Cons)

lemma sweep_no_approval: "no_new_approval m (manager (expire_pending_requests m now))"
proof -
  have "no_new_approval (manager s) (manager (foldl (expire_one fb now) s is))"
    for fb and s :: "('a, 'b) sweep" and "is"
    by (induction "is" arbitrary: s) (auto intro: no_new_approval_trans expire_one_no_approval)
  from this[of "\<lparr>manager = m, escalated = [], expired = []\<rparr>"] show ?thesis
    by (simp add: expire_pending_requests_def)
qed

lemma begin_no_approval: "no_new_approval m (fst (begin_request m r now))"
  by (auto simp: begin_request_def no_new_approval_def split: if_splits)

lemma wake_no_approval: "no_new_approval m (fst (wake m fb r now))"
proof (cases "mailbox m (req_id r)")
  case None
  have b: "no_new_approval m (fst (begin_request (drop_pending i m) r' now))" for i r'
    using begin_no_approval[of "drop_pending i m" r' now] by (simp add: no_new_approval_def)
  then show ?thesis
    using None by (auto simp: wake_def Let_def no_new_approval_def split: expiry_outcome.split option.split
        dest!: timeout_not_approved in_take_Cons)
qed (simp add: wake_def)

lemma same_no_approval:
  "mailbox m' = mailbox m \<Longrightarrow> recent_log m' = recent_log m \<Longrightarrow> totp_grace m' = totp_grace m \<Longrightarrow>
     no_new_approval m m'"
  by (simp add: no_new_approval_def)

lemma other_no_approval:
  assumes "\<And>i d who v u t. op = Resolve i d who v u t \<Longrightarrow> d \<noteq> Approved"
  shows "no_new_approval m (exec_approval m op)"
proof (cases op)
  case (Submit r dt now)
  then show ?thesis by (auto simp: submit_request_def no_new_approval_def)
next
  case (Resolve i d who v u t)
  with assms have "d \<noteq> Approved" by simp
  then show ?thesis
    using Resolve by (auto simp: resolve_def no_new_approval_def grace_on_approval_def is_approved_def
        split: option.split approval_decision.splits dest!: in_take_Cons)
qed (simp_all add: sweep_no_approval begin_no_approval wake_no_approval same_no_approval update_policy_def)

section \<open>Who approved\<close>

definition run_approval :: "approval_policy \<Rightarrow> ('j, 'x) approval_op list \<Rightarrow> ('j, 'x) approval_manager" where
  "run_approval p ops = foldl exec_approval (new_approval_manager p) ops"

lemma run_approval_snoc [simp]: "run_approval p (ops @ [op]) = exec_approval (run_approval p ops) op"
  by (simp add: run_approval_def)

lemma run_approval_Nil [simp]: "run_approval p [] = new_approval_manager p"
  by (simp add: run_approval_def)

text \<open>A verified approval by this user at time \<open>t\<close> is among the operations.\<close>

definition verified_approval :: "('j, 'x) approval_op list \<Rightarrow> string \<Rightarrow> instant \<Rightarrow> bool" where
  "verified_approval ops u t \<longleftrightarrow> (\<exists>i who. Resolve i Approved who True (Some u) t \<in> set ops)"

text \<open>
  A request was approved properly: by an operator's resolution while it was pending and, where the
  policy of that moment asks for a second factor for its tool, with a verified code or within the
  grace period after an earlier verified approval by the same user.
\<close>

definition factor_given ::
  "approval_policy \<Rightarrow> ('j, 'x) approval_op list \<Rightarrow> uuid \<Rightarrow> bool \<Rightarrow> string option \<Rightarrow> instant \<Rightarrow> bool" where
  "factor_given p pre i verified user t \<longleftrightarrow>
     (let m = run_approval p pre
      in \<exists>req. get_pending m i = Some req
          \<and> (tool_requires_totp (policy m) (req_tool_name req) \<longrightarrow>
               verified
               \<or> (\<exists>t'. verified_approval pre (case user of Some u \<Rightarrow> u | None \<Rightarrow> ''unknown'') t'
                    \<and> elapsed_secs t t' < uint (totp_grace_period_secs (policy m)))))"

definition properly_approved :: "approval_policy \<Rightarrow> ('j, 'x) approval_op list \<Rightarrow> uuid \<Rightarrow> bool" where
  "properly_approved p ops i \<longleftrightarrow>
     (\<exists>pre who verified user t post.
        ops = pre @ Resolve i Approved who verified user t # post \<and> factor_given p pre i verified user t)"

lemma properly_approved_snoc: "properly_approved p ops i \<Longrightarrow> properly_approved p (ops @ [op]) i"
  unfolding properly_approved_def by (metis append.assoc append_Cons)

lemma grace_was_verified:
  "totp_grace (run_approval p ops) u = Some t \<Longrightarrow> verified_approval ops u t"
proof (induction ops rule: rev_induct)
  case Nil
  then show ?case by (simp add: new_approval_manager_def)
next
  case (snoc op ops)
  show ?case
  proof (cases "totp_grace (run_approval p ops) u = Some t")
    case True
    with snoc.IH show ?thesis by (auto simp: verified_approval_def)
  next
    case False
    with snoc.prems have "\<not> no_new_approval (run_approval p ops) (exec_approval (run_approval p ops) op)"
      by (auto simp: no_new_approval_def)
    then obtain i who v user t' where op: "op = Resolve i Approved who v user t'"
      using other_no_approval by blast
    with False snoc.prems have "v \<and> user = Some u \<and> t' = t"
      by (auto simp: resolve_def grace_on_approval_def record_totp_grace_def
          persist_totp_lockout_clear_def split: option.splits if_splits)
    with op show ?thesis by (auto simp: verified_approval_def)
  qed
qed

lemma gate_gives_factor:
  assumes "totp_gate (run_approval p ops) i v user t" "map_of (pending (run_approval p ops)) i = Some q"
  shows "factor_given p ops i v user t"
  using assms grace_was_verified
  by (fastforce simp: factor_given_def get_pending_def totp_gate_def is_within_totp_grace_def Let_def
      split: if_splits option.splits)

lemma resolved_properly:
  assumes "\<not> no_new_approval (run_approval p ops) (exec_approval (run_approval p ops) op)"
  obtains i who v user t q where "op = Resolve i Approved who v user t"
    and "map_of (pending (run_approval p ops)) i = Some q" "properly_approved p (ops @ [op]) i"
proof -
  obtain i who v user t where op: "op = Resolve i Approved who v user t"
    using assms other_no_approval by blast
  then obtain q where q: "map_of (pending (run_approval p ops)) i = Some q"
      and g: "totp_gate (run_approval p ops) i v user t"
    using assms by (auto simp: resolve_def is_approved_def split: if_splits option.splits)
  have "properly_approved p (ops @ [op]) i"
    using gate_gives_factor[OF g q] op unfolding properly_approved_def by blast
  with op q show thesis by (rule that)
qed

section \<open>Bounds\<close>

lemma filter_delete_length:
  "distinct (map fst al) \<Longrightarrow> map_of al k = Some v \<Longrightarrow>
     length (filter P al) = length (filter P (AList.delete k al)) + (if P (k, v) then 1 else 0)"
proof (induction al)
  case (Cons kv al)
  show ?case
  proof (cases "fst kv = k")
    case True
    then have "AList.delete k al = al" using Cons.prems(1) by (auto intro: AList.delete_notin_dom)
    with True Cons.prems(2) show ?thesis by (cases kv) simp
  next
    case False
    with Cons show ?thesis by (cases kv) simp
  qed
qed simp

lemma filter_delete_le: "length (filter P (AList.delete k al)) \<le> length (filter P al)"
  by (induction al) auto

lemma filter_update_length:
  "length (filter P (AList.update k v al)) \<le> length (filter P al) + (if P (k, v) then 1 else 0)"
  by (induction al) auto

lemma filter_update_new:
  "k \<notin> fst ` set al \<Longrightarrow>
     length (filter P (AList.update k v al)) = length (filter P al) + (if P (k, v) then 1 else 0)"
  by (induction al) auto

definition owned_by :: "string \<Rightarrow> uuid \<times> ('j, 'x) pending_request \<Rightarrow> bool" where
  "owned_by agent kv \<longleftrightarrow> req_agent_id (request (snd kv)) = agent"

lemma pending_count_owned: "pending_count_for_agent m agent = length (filter (owned_by agent) (pending m))"
  by (simp add: pending_count_for_agent_def owned_by_def[abs_def] case_prod_beta')

definition same_tool_use :: "('j, 'x) pending_request \<Rightarrow> ('j, 'x) pending_request \<Rightarrow> bool" where
  "same_tool_use p q \<longleftrightarrow>
     (\<exists>d e. deferred p = Some d \<and> deferred q = Some e \<and> tool_use_id d = tool_use_id e)"

definition manager_ok :: "('j, 'x) approval_manager \<Rightarrow> bool" where
  "manager_ok m \<longleftrightarrow>
     distinct (map fst (pending m))
     \<and> (\<forall>i p. map_of (pending m) i = Some p \<longrightarrow> req_id (request p) = i)
     \<and> (\<forall>agent. pending_count_for_agent m agent \<le> MAX_PENDING_PER_AGENT)
     \<and> (\<forall>i j p q. map_of (pending m) i = Some p \<longrightarrow> map_of (pending m) j = Some q \<longrightarrow>
          same_tool_use p q \<longrightarrow> i = j)
     \<and> length (recent_log m) \<le> MAX_RECENT_APPROVALS"

lemma manager_ok_new: "manager_ok (new_approval_manager p)"
  by (simp add: manager_ok_def new_approval_manager_def pending_count_for_agent_def)

lemma manager_ok_cong:
  "pending m' = pending m \<Longrightarrow> length (recent_log m') \<le> MAX_RECENT_APPROVALS \<Longrightarrow> manager_ok m \<Longrightarrow> manager_ok m'"
  by (simp add: manager_ok_def pending_count_for_agent_def)

lemma manager_ok_same:
  "manager_ok m \<Longrightarrow> pending m' = pending m \<Longrightarrow> recent_log m' = recent_log m \<Longrightarrow> manager_ok m'"
  by (simp add: manager_ok_def pending_count_for_agent_def)

lemma manager_ok_drop:
  assumes "manager_ok m"
  shows "manager_ok (drop_pending i m)"
  using assms unfolding manager_ok_def pending_count_owned
  by (auto simp: AList.delete_conv' distinct_delete split: if_splits
      intro: order_trans[OF filter_delete_le])

text \<open>A new entry may go in when its agent has room and no other entry has its tool call.\<close>

lemma manager_ok_put:
  assumes ok: "manager_ok m" and room: "pending_count_for_agent m (req_agent_id (request p)) < MAX_PENDING_PER_AGENT"
    and key: "req_id (request p) = i"
    and alone: "\<And>j q. map_of (pending m) j = Some q \<Longrightarrow> \<not> same_tool_use p q"
  shows "manager_ok (put_pending i p m)"
proof -
  have "pending_count_for_agent (put_pending i p m) agent \<le> MAX_PENDING_PER_AGENT" for agent
  proof (cases "req_agent_id (request p) = agent")
    case True
    with room show ?thesis
      using filter_update_length[of "owned_by agent" i p "pending m"]
      by (simp add: pending_count_owned owned_by_def)
  next
    case False
    moreover have "pending_count_for_agent m agent \<le> MAX_PENDING_PER_AGENT"
      using ok by (simp add: manager_ok_def)
    ultimately show ?thesis
      using filter_update_length[of "owned_by agent" i p "pending m"]
      by (simp add: pending_count_owned owned_by_def)
  qed
  moreover have "same_tool_use q p \<Longrightarrow> same_tool_use p q" for q
    by (auto simp: same_tool_use_def)
  ultimately show ?thesis
    using ok key alone unfolding manager_ok_def
    by (auto simp: AList.update_conv' distinct_update split: if_splits)
qed

lemma manager_ok_push: "manager_ok m \<Longrightarrow> manager_ok (push_recent r d who w sf m)"
  by (rule manager_ok_cong) simp_all

lemma manager_ok_resolved:
  "manager_ok m \<Longrightarrow> manager_ok (send i p d (push_recent r d who w sf (grace_on_approval d v u tool now
     (db_delete_pending i (drop_pending i m)))))"
  by (rule manager_ok_cong[of _ "drop_pending i m"]) (simp_all add: manager_ok_drop)

lemma manager_ok_timed_out:
  "manager_ok m \<Longrightarrow> manager_ok (push_recent r d who w sf (db_delete_pending i (drop_pending i m)))"
  by (rule manager_ok_cong[of _ "drop_pending i m"]) (simp_all add: manager_ok_drop)

lemma manager_ok_insert:
  assumes "manager_ok m" "pending_count_for_agent m (req_agent_id r) < MAX_PENDING_PER_AGENT"
    and "\<And>j q. map_of (pending m) j = Some q \<Longrightarrow> \<not> same_tool_use p q" "request p = r"
    and "pending m' = pending m" "recent_log m' = recent_log m"
  shows "manager_ok (put_pending (req_id r) p m')"
proof (rule manager_ok_put)
  have "length (recent_log m') \<le> MAX_RECENT_APPROVALS" using assms(1,6) by (simp add: manager_ok_def)
  then show "manager_ok m'" using assms(1,5) by (rule manager_ok_cong[rotated])
qed (use assms in \<open>auto simp: pending_count_for_agent_def\<close>)

lemma no_duplicate:
  "\<not> has_duplicate m dt \<Longrightarrow> map_of (pending m) j = Some q \<Longrightarrow> deferred p = Some dt \<Longrightarrow> \<not> same_tool_use p q"
  by (fastforce simp: has_duplicate_def list_ex_iff same_tool_use_def dest: map_of_SomeD)

lemma manager_ok_submit: "manager_ok m \<Longrightarrow> manager_ok (fst (submit_request m r dt now))"
  by (auto simp: submit_request_def no_duplicate intro!: manager_ok_insert)

lemma manager_ok_begin: "manager_ok m \<Longrightarrow> manager_ok (fst (begin_request m r now))"
  by (auto simp: begin_request_def same_tool_use_def intro!: manager_ok_insert)

lemma manager_ok_wake: "manager_ok m \<Longrightarrow> manager_ok (fst (wake m fb r now))"
  by (auto simp: wake_def Let_def manager_ok_begin manager_ok_drop manager_ok_timed_out
      split: option.split expiry_outcome.split)

lemma room_after_drop:
  assumes "manager_ok m" "map_of (pending m) i = Some p"
  shows "pending_count_for_agent (drop_pending i m) (req_agent_id (request p)) < MAX_PENDING_PER_AGENT"
proof -
  have "pending_count_for_agent m (req_agent_id (request p)) \<le> MAX_PENDING_PER_AGENT"
      "distinct (map fst (pending m))"
    using assms(1) by (simp_all add: manager_ok_def)
  with filter_delete_length[OF _ assms(2), of "owned_by (req_agent_id (request p))"] show ?thesis
    by (simp add: pending_count_owned owned_by_def)
qed

lemma manager_ok_escalate:
  assumes ok: "manager_ok m" and p: "map_of (pending m) i = Some p"
  shows "manager_ok (put_pending i (p\<lparr>request := escalate (request p), submitted_at := now\<rparr>) (drop_pending i m))"
proof (rule manager_ok_put)
  show "manager_ok (drop_pending i m)" by (rule manager_ok_drop[OF ok])
  show "req_id (request (p\<lparr>request := escalate (request p), submitted_at := now\<rparr>)) = i"
    using ok p by (simp add: manager_ok_def escalate_def)
  show "\<not> same_tool_use (p\<lparr>request := escalate (request p), submitted_at := now\<rparr>) q"
    if "map_of (pending (drop_pending i m)) j = Some q" for j q
    using ok p that unfolding manager_ok_def same_tool_use_def
    by (auto simp: AList.delete_conv' split: if_splits)
qed (use room_after_drop[OF ok p] in \<open>simp add: escalate_def\<close>)

lemma manager_ok_expire_one:
  assumes ok: "manager_ok (manager s)"
  shows "manager_ok (manager (expire_one fb now s i))"
proof (cases "map_of (pending (manager s)) i")
  case (Some p)
  show ?thesis
  proof (cases "timeout_decision (request p) fb")
    case DoEscalate
    with Some manager_ok_escalate[OF ok Some] show ?thesis by (simp add: expire_one_def Let_def)
  next
    case (DoResolve d)
    have "manager_ok (send i p d (push_recent (request p) d None now False
        (db_delete_pending i (drop_pending i (manager s)))))"
      by (rule manager_ok_cong[OF _ _ manager_ok_drop[OF ok]]) simp_all
    with Some DoResolve show ?thesis by (simp add: expire_one_def Let_def)
  qed
qed (simp add: expire_one_def ok)

lemma manager_ok_sweep: "manager_ok m \<Longrightarrow> manager_ok (manager (expire_pending_requests m now))"
proof -
  assume "manager_ok m"
  have "manager_ok (manager s) \<Longrightarrow> manager_ok (manager (foldl (expire_one fb now) s is))"
    for fb and s :: "('a, 'b) sweep" and "is"
    by (induction "is" arbitrary: s) (auto intro: manager_ok_expire_one)
  with \<open>manager_ok m\<close> show ?thesis by (simp add: expire_pending_requests_def)
qed

lemma manager_ok_exec:
  assumes ok: "manager_ok m"
  shows "manager_ok (exec_approval m op)"
proof (cases op)
  case (Resolve i d who v u t)
  with ok show ?thesis by (auto simp: resolve_def manager_ok_resolved split: option.split)
next
  case (SetPolicy p)
  then show ?thesis by (simp add: update_policy_def manager_ok_same[OF ok])
next
  case (TotpFailure u t)
  then show ?thesis by (simp add: manager_ok_same[OF ok])
next
  case (PruneAudit n t)
  then show ?thesis by (simp add: manager_ok_same[OF ok])
qed (simp_all add: ok manager_ok_submit manager_ok_begin manager_ok_wake manager_ok_sweep)

interpretation approval_machine: invariant_machine exec_approval manager_ok
  by unfold_locales (rule manager_ok_exec)

lemma run_ok: "manager_ok (run_approval p ops)"
  unfolding run_approval_def by (rule approval_machine.inv_run[OF manager_ok_new])

lemma approved_step:
  assumes op: "op = Resolve i Approved who v user t" and q: "map_of (pending m) i = Some q" and ok: "manager_ok m"
  shows "mailbox (exec_approval m op) j = Some Approved \<Longrightarrow> mailbox m j = Some Approved \<or> j = i"
    and "r \<in> set (recent_log (exec_approval m op)) \<Longrightarrow> r \<in> set (recent_log m) \<or> req_id (rec_request r) = i"
  using q ok unfolding op manager_ok_def
  by (auto simp: resolve_def split: if_splits option.splits dest!: in_take_Cons)

lemma approved_properly:
  "mailbox (run_approval p ops) i = Some Approved \<Longrightarrow> properly_approved p ops i"
  "r \<in> set (recent_log (run_approval p ops)) \<Longrightarrow> rec_decision r = Approved \<Longrightarrow>
     properly_approved p ops (req_id (rec_request r))"
proof (induction ops rule: rev_induct)
  case Nil
  { case 1 then show ?case by (simp add: new_approval_manager_def) }
  { case 2 then show ?case by (simp add: new_approval_manager_def) }
next
  case (snoc op ops)
  show "properly_approved p (ops @ [op]) i"
    if "mailbox (run_approval p (ops @ [op])) i = Some Approved"
  proof (cases "no_new_approval (run_approval p ops) (exec_approval (run_approval p ops) op)")
    case True
    with that snoc(1) show ?thesis
      by (auto simp: no_new_approval_def intro: properly_approved_snoc)
  next
    case False
    then obtain j who v user t q where j: "op = Resolve j Approved who v user t"
        "map_of (pending (run_approval p ops)) j = Some q" "properly_approved p (ops @ [op]) j"
      by (rule resolved_properly)
    with approved_step(1)[OF j(1,2) run_ok] that snoc(1) show ?thesis
      by (auto intro: properly_approved_snoc)
  qed
  show "properly_approved p (ops @ [op]) (req_id (rec_request r))"
    if "r \<in> set (recent_log (run_approval p (ops @ [op])))" "rec_decision r = Approved"
  proof (cases "no_new_approval (run_approval p ops) (exec_approval (run_approval p ops) op)")
    case True
    with that snoc(2) show ?thesis
      by (auto simp: no_new_approval_def intro: properly_approved_snoc)
  next
    case False
    then obtain j who v user t q where j: "op = Resolve j Approved who v user t"
        "map_of (pending (run_approval p ops)) j = Some q" "properly_approved p (ops @ [op]) j"
      by (rule resolved_properly)
    with approved_step(2)[OF j(1,2) run_ok] that snoc(2) show ?thesis
      by (auto intro: properly_approved_snoc)
  qed
qed

section \<open>Every request is decided\<close>

lemma expire_one_other:
  "j \<noteq> i \<Longrightarrow> map_of (pending (manager (expire_one fb now s j))) i = map_of (pending (manager s)) i"
  by (auto simp: expire_one_def Let_def AList.delete_conv' AList.update_conv'
      split: option.split expiry_outcome.split)

lemma expire_others:
  "i \<notin> set is \<Longrightarrow>
     map_of (pending (manager (foldl (expire_one fb now) s is))) i = map_of (pending (manager s)) i"
  by (induction "is" arbitrary: s) (auto simp: expire_one_other)

definition expired_entry ::
  "timeout_fallback \<Rightarrow> instant \<Rightarrow> ('j, 'x) pending_request \<Rightarrow> ('j, 'x) pending_request option" where
  "expired_entry fb now p =
     (case timeout_decision (request p) fb of
        DoEscalate \<Rightarrow> Some (p\<lparr>request := escalate (request p), submitted_at := now\<rparr>)
      | DoResolve _ \<Rightarrow> None)"

lemma expire_one_same:
  "map_of (pending (manager s)) i = Some p \<Longrightarrow>
     map_of (pending (manager (expire_one fb now s i))) i = expired_entry fb now p"
  by (auto simp: expire_one_def Let_def expired_entry_def AList.delete_conv' AList.update_conv'
      split: option.split expiry_outcome.split)

lemma overdue_ids_iff:
  assumes "distinct (map fst (pending m))"
  shows "i \<in> set (overdue_ids m now) \<longleftrightarrow>
     (\<exists>p. map_of (pending m) i = Some p \<and> is_overdue (fallback (policy m)) now p)"
  using assms by (force simp: overdue_ids_def)

lemma sweep_lookup:
  assumes ok: "manager_ok m"
  shows "map_of (pending (manager (expire_pending_requests m now))) i =
     Option.bind (map_of (pending m) i)
       (\<lambda>p. if is_overdue (fallback (policy m)) now p then expired_entry (fallback (policy m)) now p else Some p)"
proof -
  let ?s = "\<lparr>manager = m, escalated = [], expired = []\<rparr> :: ('a, 'b) sweep"
  have d: "distinct (map fst (pending m))" using ok by (simp add: manager_ok_def)
  show ?thesis
  proof (cases "i \<in> set (overdue_ids m now)")
    case True
    then obtain p where p: "map_of (pending m) i = Some p" "is_overdue (fallback (policy m)) now p"
      by (auto simp: overdue_ids_iff[OF d])
    obtain a b where ab: "overdue_ids m now = a @ i # b" using True by (metis split_list)
    have "distinct (overdue_ids m now)"
      using d by (simp add: overdue_ids_def distinct_map_filter)
    with ab have nin: "i \<notin> set a" "i \<notin> set b" by auto
    then have "map_of (pending (manager (foldl (expire_one fb now) ?s a))) i = Some p" for fb
      using p(1) by (simp add: expire_others)
    then show ?thesis
      using p nin by (simp add: expire_pending_requests_def ab expire_others expire_one_same)
  next
    case False
    then show ?thesis
      using overdue_ids_iff[OF d, of i now]
      by (auto simp: expire_pending_requests_def expire_others split: bind_splits)
  qed
qed

text \<open>
  The longest that a request waits for one sweep to find it overdue: its timeout with the extra time
  of three escalations.
\<close>

definition extra_wait :: "timeout_fallback \<Rightarrow> int" where
  "extra_wait fb = (case fb of Escalate extra \<Rightarrow> 3 * uint extra | _ \<Rightarrow> 0)"

definition longest_wait :: "approval_request \<Rightarrow> timeout_fallback \<Rightarrow> int" where
  "longest_wait r fb = uint (req_timeout_secs r) + extra_wait fb"

text \<open>
  Operations other than opening a request of this id, the timeout of the caller that waits for it,
  a sweep with a later clock, and a policy whose fallback adds more than \<open>x\<close> seconds.
\<close>

definition undisturbed :: "uuid \<Rightarrow> int \<Rightarrow> instant \<Rightarrow> ('j, 'x) approval_op \<Rightarrow> bool" where
  "undisturbed i x limit op \<longleftrightarrow>
     (case op of
        Submit r _ _ \<Rightarrow> req_id r \<noteq> i
      | Begin r _ \<Rightarrow> req_id r \<noteq> i
      | Wake _ r _ \<Rightarrow> req_id r \<noteq> i
      | Sweep now \<Rightarrow> now \<le> limit
      | SetPolicy q \<Rightarrow> extra_wait (fallback q) \<le> x
      | _ \<Rightarrow> True)"

text \<open>
  Request \<open>i\<close> is gone, or it was escalated \<open>k\<close> times and has been waiting since \<open>t\<close>, or
  it was escalated more often and has been waiting since \<open>u\<close>.
\<close>

definition waits_since :: "nat \<Rightarrow> instant \<Rightarrow> instant \<Rightarrow> ('j, 'x) pending_request \<Rightarrow> bool" where
  "waits_since k t u p \<longleftrightarrow>
     k \<le> unat (escalation_count (request p)) \<and> submitted_at p \<le> t
     \<or> Suc k \<le> unat (escalation_count (request p)) \<and> submitted_at p \<le> u"

definition escalated_by ::
  "uuid \<Rightarrow> int \<Rightarrow> int \<Rightarrow> nat \<Rightarrow> instant \<Rightarrow> instant \<Rightarrow> ('j, 'x) approval_manager \<Rightarrow> bool" where
  "escalated_by i x wait k t u m \<longleftrightarrow>
     manager_ok m \<and> extra_wait (fallback (policy m)) \<le> x
     \<and> (\<forall>p. map_of (pending m) i = Some p \<longrightarrow>
          waits_since k t u p \<and> unat (escalation_count (request p)) \<le> 3
          \<and> uint (req_timeout_secs (request p)) + x = wait)"

lemma escalate_count:
  "timeout_decision r fb = DoEscalate \<Longrightarrow> unat (escalation_count (escalate r)) = Suc (unat (escalation_count r))
     \<and> unat (escalation_count r) < 3"
proof -
  assume "timeout_decision r fb = DoEscalate"
  then have lt: "unat (escalation_count r) < 3"
    by (auto simp: timeout_decision_def MAX_ESCALATIONS_def word_less_nat_alt split: if_splits)
  then have "unat (escalation_count r + 1) = Suc (unat (escalation_count r))"
    by (subst unat_add_no_wrap) simp_all
  with lt show ?thesis by (simp add: escalate_def)
qed

lemma escalate_timeout [simp]: "req_timeout_secs (escalate r) = req_timeout_secs r"
  by (simp add: escalate_def)

lemma uint_mul_add: "uint (a + b * c) = (uint a + uint b * uint c) mod 2 ^ LENGTH('a)" for a b c :: "'a::len word"
proof -
  have "uint (a + b * c) = (uint a + (uint b * uint c) mod 2 ^ LENGTH('a)) mod 2 ^ LENGTH('a)"
    by (simp only: uint_word_ariths)
  then show ?thesis by (simp only: mod_add_right_eq)
qed

lemma overdue_after_wait:
  assumes "unat (escalation_count (request p)) \<le> 3" "longest_wait (request p) fb < 2 ^ 63"
    and "submitted_at p + longest_wait (request p) fb * NANOS < now"
  shows "is_overdue fb now p"
proof -
  let ?e = "effective_timeout_secs (request p) fb"
  have wait: "uint ?e \<le> longest_wait (request p) fb"
  proof (cases fb)
    case (Escalate extra)
    let ?c = "ucast (escalation_count (request p)) :: u64"
    have "uint ?c = int (unat (escalation_count (request p)))" by (simp add: uint_up_ucast is_up)
    then have c: "uint ?c \<le> 3" using assms(1) by linarith
    have "uint ?e = (uint (req_timeout_secs (request p)) + uint extra * uint ?c) mod 2 ^ LENGTH(64)"
      by (simp only: effective_timeout_secs_def Escalate timeout_fallback.case uint_mul_add)
    also have "\<dots> \<le> uint (req_timeout_secs (request p)) + uint extra * uint ?c"
      by (intro zmod_le_nonneg_dividend) simp
    also have "\<dots> \<le> uint (req_timeout_secs (request p)) + uint extra * 3"
      using c by (intro add_left_mono mult_left_mono) simp_all
    finally show ?thesis by (simp add: longest_wait_def extra_wait_def Escalate)
  qed (simp_all add: longest_wait_def extra_wait_def effective_timeout_secs_def)
  have "sint ?e = uint ?e"
  proof -
    have "- (2 ^ 63) \<le> uint ?e" by (rule order_trans[OF _ uint_ge_0]) simp
    with wait assms(2) show ?thesis
      by (simp add: sint_uint signed_take_bit_int_eq_self_iff)
  qed
  with wait show ?thesis
    using assms(3) by (simp add: is_overdue_def NANOS_def)
qed

lemma begin_lookup:
  "req_id r \<noteq> i \<Longrightarrow> map_of (pending (fst (begin_request m r now))) i = map_of (pending m) i"
  by (simp add: begin_request_def AList.update_conv')

lemma wake_lookup:
  "manager_ok m \<Longrightarrow> req_id r \<noteq> i \<Longrightarrow> map_of (pending (fst (wake m fb r now))) i = map_of (pending m) i"
  unfolding manager_ok_def
  by (auto simp: wake_def Let_def AList.delete_conv' begin_lookup escalate_def
      split: option.split expiry_outcome.split)

lemma wake_policy [simp]: "policy (fst (wake m fb r now)) = policy m"
  by (auto simp: wake_def Let_def begin_request_def split: option.split expiry_outcome.split)

lemma expire_policy: "policy (manager (foldl (expire_one fb now) s is)) = policy (manager s)"
  by (induction "is" arbitrary: s) (auto simp: expire_one_def Let_def split: option.split expiry_outcome.split)

lemma sweep_policy [simp]: "policy (manager (expire_pending_requests m now)) = policy m"
  by (simp add: expire_pending_requests_def expire_policy)

lemma exec_fallback:
  "undisturbed i x t op \<Longrightarrow> extra_wait (fallback (policy m)) \<le> x \<Longrightarrow>
     extra_wait (fallback (policy (exec_approval m op))) \<le> x"
  by (cases op)
    (auto simp: undisturbed_def submit_request_def begin_request_def resolve_def update_policy_def
      split: option.split)

text \<open>What one operation does to the entry of a request that it does not open anew.\<close>

lemma exec_lookup:
  assumes ok: "manager_ok m" and op: "undisturbed i x limit op"
    and q: "map_of (pending (exec_approval m op)) i = Some q"
  obtains (same) "map_of (pending m) i = Some q"
  | (escalated) p now where "op = Sweep now" "map_of (pending m) i = Some p"
      "timeout_decision (request p) (fallback (policy m)) = DoEscalate"
      "q = p\<lparr>request := escalate (request p), submitted_at := now\<rparr>"
proof (cases op)
  case (Sweep now)
  with q show thesis
    by (auto simp: sweep_lookup[OF ok] expired_entry_def split: bind_splits if_splits expiry_outcome.splits
        intro: same escalated)
next
  case (Submit r dt now)
  with q op show thesis
    by (auto simp: submit_request_def undisturbed_def AList.update_conv' split: if_splits intro: same)
next
  case (Begin r now)
  with q op show thesis by (auto simp: begin_lookup undisturbed_def intro: same)
next
  case (Wake f r now)
  with q op show thesis by (auto simp: wake_lookup[OF ok] undisturbed_def intro: same)
next
  case (Resolve j d who v u t)
  with q show thesis
    by (auto simp: resolve_def AList.delete_conv' split: if_splits option.splits intro: same)
qed (use q in \<open>auto simp: update_policy_def intro: same\<close>)

lemma escalated_by_exec:
  assumes e: "escalated_by i x wait k t u m" and op: "undisturbed i x u op"
  shows "escalated_by i x wait k t u (exec_approval m op)"
proof -
  have ok: "manager_ok m" and fb: "extra_wait (fallback (policy m)) \<le> x" using e by (simp_all add: escalated_by_def)
  have "waits_since k t u q \<and> unat (escalation_count (request q)) \<le> 3
      \<and> uint (req_timeout_secs (request q)) + x = wait"
    if q: "map_of (pending (exec_approval m op)) i = Some q" for q
    using ok op q
  proof (cases rule: exec_lookup)
    case same
    then show ?thesis using e unfolding escalated_by_def by blast
  next
    case (escalated p now)
    then have "waits_since k t u p \<and> uint (req_timeout_secs (request p)) + x = wait"
      using e unfolding escalated_by_def by blast
    moreover have "now \<le> u" using op escalated(1) by (simp add: undisturbed_def)
    ultimately show ?thesis
      using escalate_count[OF escalated(3)] escalated(4) by (auto simp: waits_since_def)
  qed
  moreover have "extra_wait (fallback (policy (exec_approval m op))) \<le> x" using exec_fallback[OF op fb] .
  ultimately show ?thesis using manager_ok_exec[OF ok] by (simp add: escalated_by_def)
qed

lemma escalated_by_run:
  "escalated_by i x wait k t u m \<Longrightarrow> list_all (undisturbed i x u) ops \<Longrightarrow>
     escalated_by i x wait k t u (foldl exec_approval m ops)"
  by (induction ops arbitrary: m) (auto intro: escalated_by_exec)

lemma escalated_by_late_sweep:
  assumes e: "escalated_by i x wait k t now m" and wait: "wait < 2 ^ 63" and late: "t + wait * NANOS < now"
  shows "escalated_by i x wait (Suc k) now u (exec_approval m (Sweep now))"
proof -
  let ?fb = "fallback (policy m)"
  have ok: "manager_ok m" and fb: "extra_wait ?fb \<le> x" using e by (simp_all add: escalated_by_def)
  have "waits_since (Suc k) now u q \<and> unat (escalation_count (request q)) \<le> 3
      \<and> uint (req_timeout_secs (request q)) + x = wait"
    if q: "map_of (pending (exec_approval m (Sweep now))) i = Some q" for q
  proof -
    obtain p where p: "map_of (pending m) i = Some p"
      using q by (auto simp: sweep_lookup[OF ok] split: bind_splits)
    with e have pe: "waits_since k t now p" "unat (escalation_count (request p)) \<le> 3"
        "uint (req_timeout_secs (request p)) + x = wait"
      unfolding escalated_by_def by blast+
    show ?thesis
    proof (cases "is_overdue ?fb now p")
      case True
      with q p have d: "timeout_decision (request p) ?fb = DoEscalate"
          "q = p\<lparr>request := escalate (request p), submitted_at := now\<rparr>"
        by (auto simp: sweep_lookup[OF ok] expired_entry_def split: expiry_outcome.splits)
      with escalate_count[OF d(1)] pe show ?thesis by (auto simp: waits_since_def)
    next
      case False
      have w: "longest_wait (request p) ?fb \<le> wait" using fb pe(3) by (simp add: longest_wait_def)
      then have "longest_wait (request p) ?fb * NANOS \<le> wait * NANOS"
        by (simp add: NANOS_def)
      with False w have "\<not> submitted_at p \<le> t"
        using overdue_after_wait[OF pe(2), of ?fb now] wait late by auto
      with False q p pe show ?thesis by (auto simp: sweep_lookup[OF ok] waits_since_def)
    qed
  qed
  then show ?thesis using manager_ok_exec[OF ok, of "Sweep now"] fb by (simp add: escalated_by_def)
qed

text \<open>
  A schedule: groups of operations, each ended by a sweep that comes more than \<open>wait\<close> seconds
  after the sweep before it.
\<close>

fun sweeps_spaced ::
  "uuid \<Rightarrow> int \<Rightarrow> int \<Rightarrow> instant \<Rightarrow> (('j, 'x) approval_op list \<times> instant) list \<Rightarrow> bool" where
  "sweeps_spaced i x wait t [] \<longleftrightarrow> True"
| "sweeps_spaced i x wait t ((ops, now) # rest) \<longleftrightarrow>
     t + wait * NANOS < now \<and> list_all (undisturbed i x now) ops \<and> sweeps_spaced i x wait now rest"

definition schedule_ops :: "(('j, 'x) approval_op list \<times> instant) list \<Rightarrow> ('j, 'x) approval_op list" where
  "schedule_ops groups = concat (map (\<lambda>(ops, now). ops @ [Sweep now]) groups)"

lemma escalated_by_schedule:
  assumes "escalated_by i x wait k t t m" "wait < 2 ^ 63" "sweeps_spaced i x wait t groups"
  shows "\<exists>u. escalated_by i x wait (k + length groups) u u (foldl exec_approval m (schedule_ops groups))"
  using assms
proof (induction groups arbitrary: k t m)
  case (Cons g groups)
  obtain ops now where g: "g = (ops, now)" by (cases g)
  let ?m = "exec_approval (foldl exec_approval m ops) (Sweep now)"
  have sp: "t + wait * NANOS < now" "list_all (undisturbed i x now) ops" "sweeps_spaced i x wait now groups"
    using Cons.prems(3) unfolding g by auto
  have "escalated_by i x wait k t now m"
    using Cons.prems(1) by (auto simp: escalated_by_def waits_since_def)
  from escalated_by_late_sweep[OF escalated_by_run[OF this sp(2)] Cons.prems(2) sp(1)]
  have "escalated_by i x wait (Suc k) now now ?m" .
  from Cons.IH[OF this Cons.prems(2) sp(3)] show ?case by (simp add: g schedule_ops_def)
qed (auto simp: schedule_ops_def)

section \<open>Nobody waits for a request that is gone\<close>

lemma expire_one_keeps:
  "j \<noteq> i \<Longrightarrow> mailbox (manager (expire_one fb now s j)) i = mailbox (manager s) i"
  "set (expired s) \<subseteq> set (expired (expire_one fb now s j))"
  by (auto simp: expire_one_def Let_def split: option.split expiry_outcome.split)

lemma expire_all_keeps:
  "i \<notin> set is \<Longrightarrow> mailbox (manager (foldl (expire_one fb now) s is)) i = mailbox (manager s) i"
  "set (expired s) \<subseteq> set (expired (foldl (expire_one fb now) s is))"
proof (induction "is" arbitrary: s)
  case (Cons j "is")
  { case 1
    then have "j \<noteq> i" "i \<notin> set is" by auto
    then show ?case using Cons(1) by (simp add: expire_one_keeps(1)) }
  { case 2
    show ?case using Cons(2)[of "expire_one fb now s j"] expire_one_keeps(2)[of s fb now j] by simp }
qed simp_all

lemma expire_one_answers:
  assumes "map_of (pending (manager s)) i = Some p" "timeout_decision (request p) fb = DoResolve d"
  shows "waiting p \<Longrightarrow> mailbox (manager (expire_one fb now s i)) i = Some d"
    and "deferred p = Some dt \<Longrightarrow> (i, d, dt) \<in> set (expired (expire_one fb now s i))"
  using assms by (simp_all add: expire_one_def Let_def)

lemma sweep_answers:
  assumes ok: "manager_ok m" and p: "map_of (pending m) i = Some p"
    and gone: "map_of (pending (manager (expire_pending_requests m now))) i = None"
  shows "\<exists>d \<in> {TimedOut, Skipped}.
     (waiting p \<longrightarrow> mailbox (manager (expire_pending_requests m now)) i = Some d)
     \<and> (\<forall>dt. deferred p = Some dt \<longrightarrow> (i, d, dt) \<in> set (expired (expire_pending_requests m now)))"
proof -
  let ?fb = "fallback (policy m)" and ?s = "\<lparr>manager = m, escalated = [], expired = []\<rparr> :: ('a, 'b) sweep"
  have dist: "distinct (map fst (pending m))" using ok by (simp add: manager_ok_def)
  from gone p have over: "is_overdue ?fb now p" and "expired_entry ?fb now p = None"
    by (auto simp: sweep_lookup[OF ok] split: if_splits)
  then obtain d where d: "timeout_decision (request p) ?fb = DoResolve d"
    by (auto simp: expired_entry_def split: expiry_outcome.splits)
  then have "d \<in> {TimedOut, Skipped}" by (auto simp: timeout_decision_def split: if_splits)
  moreover have "i \<in> set (overdue_ids m now)" using over p by (simp add: overdue_ids_iff[OF dist])
  then obtain a b where ab: "overdue_ids m now = a @ i # b" by (metis split_list)
  have "distinct (overdue_ids m now)" using dist by (simp add: overdue_ids_def distinct_map_filter)
  with ab have nin: "i \<notin> set a" "i \<notin> set b" by auto
  let ?a = "foldl (expire_one ?fb now) ?s a"
  have "map_of (pending (manager ?a)) i = Some p" using p nin(1) by (simp add: expire_others)
  note ans = expire_one_answers[OF this d]
  have "expire_pending_requests m now = foldl (expire_one ?fb now) (expire_one ?fb now ?a i) b"
    by (simp add: expire_pending_requests_def ab)
  ultimately show ?thesis
    using ans expire_all_keeps(1)[OF nin(2), of ?fb now "expire_one ?fb now ?a i"]
      expire_all_keeps(2)[of "expire_one ?fb now ?a i" ?fb now b]
    by (intro bexI[of _ d]) auto
qed

text \<open>
  What an operation that closes a pending request tells: the waiting caller finds the decision in its
  channel or takes the timeout itself, and the stored call is handed back with the decision.
\<close>

definition answered ::
  "('j, 'x) approval_manager \<Rightarrow> ('j, 'x) approval_op \<Rightarrow> uuid \<Rightarrow> ('j, 'x) pending_request \<Rightarrow> bool" where
  "answered m op i p \<longleftrightarrow>
     (case op of
        Sweep now \<Rightarrow>
          \<exists>d \<in> {TimedOut, Skipped}.
            (waiting p \<longrightarrow> mailbox (exec_approval m op) i = Some d)
            \<and> (\<forall>dt. deferred p = Some dt \<longrightarrow> (i, d, dt) \<in> set (expired (expire_pending_requests m now)))
      | Resolve j d who v u now \<Rightarrow>
          j = i \<and> (waiting p \<longrightarrow> mailbox (exec_approval m op) i = Some d)
          \<and> (\<exists>resp. snd (resolve m j d who v u now) = Inr (resp, deferred p) \<and> resp_decision resp = d)
      | Wake fb r now \<Rightarrow>
          req_id r = i \<and> (\<exists>d \<in> {TimedOut, Skipped}. snd (wake m fb r now) = Decided d)
      | _ \<Rightarrow> False)"

lemma gone_answered:
  assumes ok: "manager_ok m" and p: "map_of (pending m) i = Some p"
    and gone: "map_of (pending (exec_approval m op)) i = None"
  shows "answered m op i p"
proof (cases op)
  case (Submit r dt now)
  with p gone show ?thesis by (auto simp: submit_request_def AList.update_conv' split: if_splits)
next
  case (Begin r now)
  with p gone show ?thesis by (auto simp: begin_request_def AList.update_conv' split: if_splits)
next
  case (Wake fb r now)
  have i: "req_id r = i"
    using p gone Wake wake_lookup[OF ok, of r i fb now] by fastforce
  have ri: "req_id (request p) = i" using ok p by (simp add: manager_ok_def)
  have "snd (wake m fb r now) \<in> Decided ` {TimedOut, Skipped}"
    using p gone Wake i ri room_after_drop[OF ok p]
    by (auto simp: wake_def Let_def begin_request_def escalate_def AList.update_conv' timeout_decision_def
        split: option.splits if_splits)
  with Wake i show ?thesis by (auto simp: answered_def)
next
  case (Sweep now)
  with p gone sweep_answers[OF ok p] show ?thesis by (simp add: answered_def)
next
  case (Resolve j d who v u now)
  with p gone show ?thesis
    by (auto simp: answered_def resolve_def AList.delete_conv' split: if_splits option.splits)
qed (use p gone in \<open>auto simp: update_policy_def\<close>)

section \<open>Guessing codes\<close>

text \<open>
  What one sender does through the chat command, and any other operation of the manager in between.
  The list holds the times of the sender's counted failures, newest first, since the last code of
  theirs that was accepted; an accepted code is one that verified, for a tool that asks for a second
  factor, in an approval that went through. (The HTTP route approves under an identity of its
  caller; when it is this sender, its verified approval counts as an accepted code too.)
\<close>

datatype ('j, 'x) guess_op =
  Attempt string bool "string option" instant
| Meanwhile "('j, 'x) approval_op"

definition needs_code :: "('j, 'x) approval_manager \<Rightarrow> uuid \<Rightarrow> bool" where
  "needs_code m i \<longleftrightarrow>
     (case get_pending m i of
        None \<Rightarrow> False
      | Some r \<Rightarrow> tool_requires_totp (policy m) (req_tool_name r))"

definition code_accepted ::
  "chat_env \<Rightarrow> string \<Rightarrow> ('j, 'x) approval_manager \<Rightarrow> string option \<Rightarrow> instant \<Rightarrow> chat_reply \<Rightarrow> bool" where
  "code_accepted env sender m code now reply \<longleftrightarrow>
     (case reply of
        Done True i \<Rightarrow> needs_code m i \<and> snd (check_factor env m sender code now) = Verified True
      | _ \<Rightarrow> False)"

definition accepted_elsewhere :: "string \<Rightarrow> ('j, 'x) approval_manager \<Rightarrow> ('j, 'x) approval_op \<Rightarrow> bool" where
  "accepted_elsewhere sender m op \<longleftrightarrow>
     (case op of
        Resolve i d _ verified user _ \<Rightarrow> d = Approved \<and> verified \<and> user = Some sender \<and> needs_code m i
      | _ \<Rightarrow> False)"

fun guess_step ::
  "chat_env \<Rightarrow> string \<Rightarrow> ('j, 'x) approval_manager \<times> instant list \<Rightarrow> ('j, 'x) guess_op \<Rightarrow>
   ('j, 'x) approval_manager \<times> instant list" where
  "guess_step env sender (m, fails) (Attempt id_prefix approve code now) =
     (let (m', reply) = chat_resolve env m id_prefix approve code sender now
      in (m',
          if reply \<in> {BadCode, BadRecoveryCode, ServiceUnavailable} then now # fails
          else if code_accepted env sender m code now reply then []
          else fails))"
| "guess_step env sender (m, fails) (Meanwhile op) =
     (exec_approval m op, if accepted_elsewhere sender m op then [] else fails)"

definition attempt_times :: "('j, 'x) guess_op list \<Rightarrow> instant list" where
  "attempt_times ops = concat (map (\<lambda>op. case op of Attempt _ _ _ now \<Rightarrow> [now] | Meanwhile _ \<Rightarrow> []) ops)"

text \<open>No other route counts a failure for this sender.\<close>

definition fails_only_by_chat :: "string \<Rightarrow> ('j, 'x) guess_op \<Rightarrow> bool" where
  "fails_only_by_chat sender op \<longleftrightarrow>
     (case op of Meanwhile (TotpFailure s _) \<Rightarrow> s \<noteq> sender | _ \<Rightarrow> True)"

definition LOCKOUT :: int where
  "LOCKOUT = TOTP_LOCKOUT_SECS * NANOS"

text \<open>
  Failures so far, newest first, against the stored counter: the last \<open>n\<close> failures make up the
  current round, the round before them ended at least the lockout time earlier, and a full round is
  locked from its last failure on.
\<close>

fun rounds_ok :: "instant list \<Rightarrow> (u32 \<times> instant option) option \<Rightarrow> bool" where
  "rounds_ok fails None \<longleftrightarrow> fails = []"
| "rounds_ok fails (Some (n, start)) \<longleftrightarrow>
     1 \<le> unat n \<and> unat n \<le> 5 \<and> unat n \<le> length fails
     \<and> start = (if unat n = 5 then Some (hd fails) else None)
     \<and> (unat n < length fails \<longrightarrow> fails ! (unat n - 1) - fails ! unat n \<ge> LOCKOUT)"

definition guesses_bounded :: "instant list \<Rightarrow> bool" where
  "guesses_bounded fails \<longleftrightarrow>
     sorted_wrt (\<ge>) fails \<and> (\<forall>k. k + 5 < length fails \<longrightarrow> fails ! k - fails ! (k + 5) \<ge> LOCKOUT)"

lemma elapsed_less_lockout: "elapsed_secs now t < TOTP_LOCKOUT_SECS \<longleftrightarrow> now - t < LOCKOUT"
  by (simp add: elapsed_secs_def TOTP_LOCKOUT_SECS_def LOCKOUT_def NANOS_def) linarith

lemma guesses_bounded_Cons:
  assumes "guesses_bounded fails" "\<forall>t \<in> set fails. t \<le> now"
    and "5 \<le> length fails \<Longrightarrow> now - fails ! 4 \<ge> LOCKOUT"
  shows "guesses_bounded (now # fails)"
proof -
  have "(now # fails) ! k - (now # fails) ! (k + 5) \<ge> LOCKOUT" if "k + 5 < length (now # fails)" for k
  proof (cases k)
    case 0
    with that assms(3) show ?thesis by simp
  next
    case (Suc k')
    with that assms(1) show ?thesis by (auto simp: guesses_bounded_def add.commute)
  qed
  with assms(1,2) show ?thesis by (simp add: guesses_bounded_def)
qed

lemma bump_below:
  "unat n < 5 \<Longrightarrow> bump_failure now (n, None) = (n + 1, if unat n = 4 then Some now else None)
     \<and> unat (n + 1) = Suc (unat n)"
proof -
  assume n: "unat n < 5"
  then have "unat (n + 1) = Suc (unat n)" by (subst unat_add_no_wrap) simp_all
  with n show ?thesis
    by (auto simp: bump_failure_def TOTP_MAX_FAILURES_def word_le_nat_alt)
qed

lemma bump_full:
  "\<not> now - t < LOCKOUT \<Longrightarrow> bump_failure now (n, Some t) = (1, None)"
  using elapsed_less_lockout[of now t] by (simp add: bump_failure_def TOTP_MAX_FAILURES_def word_le_nat_alt)

lemma bump_rounds:
  assumes r: "rounds_ok fails e" and g: "guesses_bounded fails" and now: "\<forall>t \<in> set fails. t \<le> now"
    and free: "\<And>n t. e = Some (n, Some t) \<Longrightarrow> unat n = 5 \<Longrightarrow> \<not> now - t < LOCKOUT"
  shows "rounds_ok (now # fails) (Some (bump_failure now (case e of Some e \<Rightarrow> e | None \<Rightarrow> (0, None))))
         \<and> guesses_bounded (now # fails)"
proof (cases e)
  case None
  then show ?thesis using r bump_below[of 0 now] by (simp add: guesses_bounded_def)
next
  case (Some e')
  obtain n start where e': "e' = (n, start)" by (cases e')
  note r = r[unfolded Some e', simplified]
  show ?thesis
  proof (cases "unat n = 5")
    case True
    with r obtain t fs where t: "start = Some t" "fails = t # fs" by (cases fails) auto
    with free[of n t] True have gap: "\<not> now - t < LOCKOUT" by (simp add: Some e')
    have "fails ! 4 \<le> t"
      using g r True t by (auto simp: guesses_bounded_def)
    then have "guesses_bounded (now # fails)"
      using gap t by (intro guesses_bounded_Cons[OF g now]) simp
    with gap t show ?thesis by (simp add: Some e' bump_full)
  next
    case False
    then have n: "unat n < 5" "start = None" "1 \<le> unat n" "unat n \<le> length fails" using r by auto
    have "guesses_bounded (now # fails)"
    proof (rule guesses_bounded_Cons[OF g now])
      assume "5 \<le> length fails"
      then have len: "unat n < length fails" "4 < length fails" using n(1) by auto
      then have "LOCKOUT \<le> fails ! (unat n - 1) - fails ! unat n" using r by simp
      moreover have "fails ! 4 \<le> fails ! unat n"
        using g n(1) len by (cases "unat n = 4") (auto simp: guesses_bounded_def sorted_wrt_iff_nth_less)
      moreover have "fails ! (unat n - 1) \<le> now" using now len by simp
      ultimately show "LOCKOUT \<le> now - fails ! 4" by simp
    qed
    then show ?thesis using n r bump_below[OF n(1), of now] by (auto simp: Some e' nth_Cons')
  qed
qed

lemma count_failure_effect:
  "totp_failures (fst (count_failure m sender now reply)) sender
     = Some (bump_failure now (case totp_failures m sender of Some e \<Rightarrow> e | None \<Rightarrow> (0, None)))"
  "\<exists>r. snd (count_failure m sender now reply) = Rejected r \<and> r \<in> {reply, ServiceUnavailable}"
  by (simp_all add: count_failure_def record_totp_failure_def persist_totp_lockout_save_def Let_def)

lemma record_totp_code_used_frame [approval_frame, simp]:
  "totp_failures (record_totp_code_used f c now m) = totp_failures m"
  by (simp add: record_totp_code_used_def)

text \<open>An attempt either leaves the counter alone, or it is a counted failure outside a lockout.\<close>

lemma check_factor_shape:
  obtains (verified) m' v where "check_factor env m sender code now = (m', Verified v)"
      "totp_failures m' = totp_failures m"
  | (refused) r where "check_factor env m sender code now = (m, Rejected r)"
      "r \<notin> {BadCode, BadRecoveryCode, ServiceUnavailable}"
  | (failed) r where "r \<in> {BadCode, BadRecoveryCode}" "\<not> is_totp_locked_out m sender now"
      "check_factor env m sender code now = count_failure m sender now r"
proof (cases "is_totp_locked_out m sender now")
  case True
  show thesis by (rule refused) (simp add: True check_factor_def, simp)
next
  case free: False
  show thesis
  proof (cases code)
    case None
    show thesis by (rule verified[of m False]) (simp_all add: free None check_factor_def)
  next
    case c: (Some c)
    show thesis
    proof (cases "is_recovery_code_format c")
      case rec: True
      consider (yes) "redeem env c = Some True" | (no) "redeem env c = Some False" | (err) "redeem env c = None"
        by (cases "redeem env c") auto
      then show thesis
      proof cases
        case yes
        show thesis by (rule verified[of m True]) (simp_all add: free c rec yes check_factor_def)
      next
        case no
        show thesis by (rule failed[of BadRecoveryCode]) (simp_all add: free c rec no check_factor_def)
      next
        case err
        show thesis by (rule refused) (simp add: free c rec err check_factor_def, simp)
      qed
    next
      case rec: False
      consider (replay) "is_totp_code_used (sha256 env) m c now"
        | (fresh) "\<not> is_totp_code_used (sha256 env) m c now" by blast
      then show thesis
      proof cases
        case replay
        show thesis by (rule refused) (simp add: free c rec replay check_factor_def, simp)
      next
        case fresh
        note code = free c rec fresh
        consider (none) "secret env = None" | (yes) k where "secret env = Some k" "verify env k c = Some True"
          | (no) k where "secret env = Some k" "verify env k c = Some False"
          | (err) k where "secret env = Some k" "verify env k c = None"
          by (cases "secret env"; cases "verify env (the (secret env)) c") auto
        then show thesis
        proof cases
          case none
          show thesis by (rule refused) (simp add: code none check_factor_def, simp)
        next
          case yes
          show thesis
            by (rule verified[of "record_totp_code_used (sha256 env) c now m" True])
              (simp_all add: code yes check_factor_def)
        next
          case no
          show thesis by (rule failed[of BadCode]) (simp_all add: code no check_factor_def)
        next
          case err
          show thesis by (rule refused) (simp add: code err check_factor_def, simp)
        qed
      qed
    qed
  qed
qed

lemma check_factor_frame [simp]:
  "pending (fst (check_factor env m sender code now)) = pending m"
  "policy (fst (check_factor env m sender code now)) = policy m"
  "recent_log (fst (check_factor env m sender code now)) = recent_log m"
  by (auto simp: check_factor_def count_failure_def record_totp_code_used_def case_prod_beta
      split: option.split bool.split)

lemma resolve_failures:
  "totp_failures (fst (resolve m i d who v user now)) sender =
     (if d = Approved \<and> v \<and> user = Some sender \<and> needs_code m i then None else totp_failures m sender)"
  by (auto simp: resolve_def grace_on_approval_def record_totp_grace_def persist_totp_lockout_clear_def
      is_approved_def needs_code_def get_pending_def totp_gate_def split: option.split approval_decision.splits)

lemma wake_failures [simp]: "totp_failures (fst (wake m fb r now)) = totp_failures m"
  by (auto simp: wake_def Let_def begin_request_def split: option.split expiry_outcome.split)

lemma expire_failures: "totp_failures (manager (foldl (expire_one fb now) s is)) = totp_failures (manager s)"
  by (induction "is" arbitrary: s) (auto simp: expire_one_def Let_def split: option.split expiry_outcome.split)

lemma exec_failures:
  assumes "fails_only_by_chat sender (Meanwhile op)"
  shows "totp_failures (exec_approval m op) sender
     = (if accepted_elsewhere sender m op then None else totp_failures m sender)"
proof (cases op)
  case (TotpFailure s t)
  with assms show ?thesis
    by (simp add: fails_only_by_chat_def accepted_elsewhere_def record_totp_failure_def
        persist_totp_lockout_save_def Let_def)
qed (auto simp: accepted_elsewhere_def submit_request_def begin_request_def resolve_failures
      expire_pending_requests_def expire_failures update_policy_def)

lemma guess_step_rounds:
  assumes r: "rounds_ok fails (totp_failures m sender)" and g: "guesses_bounded fails" and ok: "manager_ok m"
    and chat: "fails_only_by_chat sender op"
    and now: "\<forall>t \<in> set fails. \<forall>n \<in> set (attempt_times [op]). t \<le> n"
    and st: "guess_step env sender (m, fails) op = (m', fails')"
  shows "rounds_ok fails' (totp_failures m' sender) \<and> guesses_bounded fails' \<and> manager_ok m'
     \<and> set fails' \<subseteq> set (attempt_times [op]) \<union> set fails"
proof (cases op)
  case (Meanwhile op')
  with chat have c: "fails_only_by_chat sender (Meanwhile op')" by simp
  show ?thesis
    using st r g Meanwhile manager_ok_exec[OF ok, of op'] exec_failures[OF c, of m]
    by (auto simp: guesses_bounded_def)
next
  case (Attempt id_prefix approve code now)
  let ?rs = "filter (\<lambda>r. starts_with id_prefix (show_id env (req_id r))) (list_pending m)"
  have quiet: ?thesis if "m' = m" "fails' = fails" using that r g ok by simp
  obtain reply where cr: "chat_resolve env m id_prefix approve code sender now = (m', reply)"
    and fails': "fails' = (if reply \<in> {BadCode, BadRecoveryCode, ServiceUnavailable} then now # fails
          else if code_accepted env sender m code now reply then [] else fails)"
    using st Attempt by (auto split: prod.splits)
  show ?thesis
  proof (cases "\<exists>r. ?rs = [r]")
    case False
    with cr fails' show ?thesis
      by (intro quiet) (auto simp: chat_resolve_def code_accepted_def split: list.splits)
  next
    case True
    then obtain q where q: "?rs = [q]" by blast
    then have "q \<in> set ?rs" by simp
    then have "q \<in> set (list_pending m)" by simp
    then obtain i p where ip: "(i, p) \<in> set (pending m)" "q = request p"
      by (auto simp: list_pending_def)
    with ok have p: "map_of (pending m) i = Some p" "req_id q = i"
      by (auto simp: manager_ok_def)
    let ?need = "approve \<and> tool_requires_totp (policy m) (req_tool_name q)"
    have need: "needs_code m i \<longleftrightarrow> tool_requires_totp (policy m) (req_tool_name q)"
      using p ip by (simp add: needs_code_def get_pending_def)
    have fin: ?thesis
      if v: "(if ?need then check_factor env m sender code now else (m, Verified False)) = (m1, Verified v)"
        and f1: "totp_failures m1 = totp_failures m" for m1 v
    proof -
      have m1_cases: "m1 = m \<or> m1 = fst (check_factor env m sender code now)"
        using v by (auto split: if_splits)
      have m1: "pending m1 = pending m" "policy m1 = policy m" "recent_log m1 = recent_log m"
        using m1_cases by (elim disjE; simp only: check_factor_frame)+
      have ok1: "manager_ok m1" using ok m1(1,3) by (rule manager_ok_same)
      have nc: "needs_code m1 i \<longleftrightarrow> needs_code m i" by (simp add: needs_code_def get_pending_def m1 split: option.split)
      let ?d = "if approve then Approved else Denied"
      let ?res = "resolve m1 i ?d (Some ''channel'') v (Some sender) now"
      obtain m2 out where R: "?res = (m2, out)" by (rule prod.exhaust)
      have res: "m' = fst ?res"
        "reply = (case snd ?res of Inr _ \<Rightarrow> Done approve i | Inl e \<Rightarrow> if mentions_totp e then NeedCode else Failed e)"
        using cr p(2) R by (auto simp: chat_resolve_def q v split: sum.splits)
      have ok': "manager_ok m'" using manager_ok_exec[OF ok1, of "Resolve i ?d (Some ''channel'') v (Some sender) now"] res(1) by simp
      have vt: "v \<longrightarrow> ?need \<and> snd (check_factor env m sender code now) = Verified True"
        using v by (auto split: if_splits)
      have went: "snd ?res \<in> range Inr" if "v" "approve"
        using that p m1 by (auto simp: resolve_def totp_gate_def)
      have acc: "code_accepted env sender m code now reply \<longleftrightarrow> v \<and> approve"
      proof
        assume "code_accepted env sender m code now reply"
        then have "approve" "needs_code m i" "snd (check_factor env m sender code now) = Verified True"
          using res(2) by (auto simp: code_accepted_def split: chat_reply.splits sum.splits if_splits bool.splits)
        with v need show "v \<and> approve" by auto
      next
        assume va: "v \<and> approve"
        with went res(2) have "reply = Done True i" by auto
        with va vt need show "code_accepted env sender m code now reply" by (simp add: code_accepted_def)
      qed
      have "reply \<notin> {BadCode, BadRecoveryCode, ServiceUnavailable}"
        using res(2) by (auto split: sum.splits if_splits)
      then have "fails' = (if v \<and> approve then [] else fails)" using fails' acc by simp
      moreover have "totp_failures m' sender = (if v \<and> approve then None else totp_failures m sender)"
        using vt need by (auto simp: res(1) resolve_failures nc f1)
      ultimately show ?thesis using r g ok' by (auto simp: guesses_bounded_def)
    qed
    show ?thesis
    proof (cases ?need)
      case False
      then show ?thesis by (intro fin) auto
    next
      case True
      then have n: "(if ?need then check_factor env m sender code now else (m, Verified False))
          = check_factor env m sender code now" by (rule if_P)
      show ?thesis
      proof (cases rule: check_factor_shape[of env m sender code now])
        case (verified m1 v)
        with n show ?thesis by (intro fin[of m1 v]) simp_all
      next
        case (refused reply')
        with cr n have "m' = m" "reply = reply'" by (simp_all add: chat_resolve_def q)
        moreover have "\<not> code_accepted env sender m code now reply'"
          using refused(1) by (auto simp: code_accepted_def split: chat_reply.splits bool.splits)
        ultimately show ?thesis using fails' refused(2) by (intro quiet) auto
      next
        case (failed r0)
        obtain e where cf: "count_failure m sender now r0 = (m', Rejected e)" "e = reply" "fails' = now # fails"
          using cr n failed count_failure_effect(2)[of m sender now r0] fails'
          by (auto simp: chat_resolve_def q split: prod.splits)
        have t: "totp_failures m' sender = Some (bump_failure now (case totp_failures m sender of Some e \<Rightarrow> e | None \<Rightarrow> (0, None)))"
          using count_failure_effect(1)[of m sender now r0] cf by simp
        have free: "\<not> now - t < LOCKOUT" if "totp_failures m sender = Some (n, Some t)" "unat n = 5" for n t
          using failed(2) that elapsed_less_lockout[of now t]
          by (auto simp: is_totp_locked_out_def TOTP_MAX_FAILURES_def word_le_nat_alt)
        have "m' = fst (check_factor env m sender code now)" using failed(3) cf(1) by simp
        then have "pending m' = pending m" "recent_log m' = recent_log m" by simp_all
        then have "manager_ok m'" by (rule manager_ok_same[OF ok])
        moreover have "\<forall>t \<in> set fails. t \<le> now" using now Attempt by (simp add: attempt_times_def)
        ultimately show ?thesis
          using bump_rounds[OF r g _ free] cf(3) t Attempt by (auto simp: attempt_times_def)
      qed
    qed
  qed
qed

lemma attempt_times_Cons: "attempt_times (op # ops) = attempt_times [op] @ attempt_times ops"
  by (simp add: attempt_times_def)

lemma guess_steps_rounds:
  assumes "rounds_ok fails (totp_failures m sender)" "guesses_bounded fails" "manager_ok m"
    and "list_all (fails_only_by_chat sender) ops"
    and "sorted (attempt_times ops)" "\<forall>t \<in> set fails. \<forall>n \<in> set (attempt_times ops). t \<le> n"
  shows "guesses_bounded (snd (foldl (guess_step env sender) (m, fails) ops))"
  using assms
proof (induction ops arbitrary: m fails)
  case (Cons op ops)
  obtain m' fails' where st: "guess_step env sender (m, fails) op = (m', fails')" by fastforce
  have ts: "attempt_times (op # ops) = attempt_times [op] @ attempt_times ops"
    by (rule attempt_times_Cons)
  have n: "rounds_ok fails' (totp_failures m' sender)" "guesses_bounded fails'" "manager_ok m'"
      "set fails' \<subseteq> set (attempt_times [op]) \<union> set fails"
    using guess_step_rounds[OF Cons.prems(1-3) _ _ st] Cons.prems(4,6) by (auto simp: ts)
  have "\<forall>t \<in> set fails'. \<forall>n \<in> set (attempt_times ops). t \<le> n"
    using n(4) Cons.prems(5,6) by (auto simp: ts sorted_append)
  moreover have "sorted (attempt_times ops)" using Cons.prems(5) by (simp add: ts sorted_append)
  ultimately show ?case using Cons.IH[OF n(1-3)] Cons.prems(4) by (simp add: st)
qed simp

end
