(* ===== verification/ApprovalProps.thy ===== *)
theory ApprovalProps
  imports ApprovalSafety
begin

text \<open>
  The database mirrors the waiting requests, so that a restart finds them again, and the properties
  of the approval manager.
\<close>

section \<open>The table of pending requests\<close>

definition table_is :: "('j, 'x) approval_manager \<Rightarrow> (uuid \<rightharpoonup> pending_row) \<Rightarrow> bool" where
  "table_is m g \<longleftrightarrow> (\<exists>d. audit_db m = Some d \<and> db_ok d \<and> map_of (pending_rows d) = g)"

lemma table_is_insert:
  "table_is m g \<Longrightarrow>
     table_is (db_insert_pending r m)
       (if g (req_id r) = None then g(req_id r \<mapsto> row_of_request r) else g)"
  by (auto simp: table_is_def db_insert_pending_def db_write_def insert_or_ignore_def map_add_def
      fun_eq_iff split: option.splits)

lemma table_is_delete: "table_is m g \<Longrightarrow> table_is (db_delete_pending i m) (g(i := None))"
  by (auto simp: table_is_def db_delete_pending_def db_write_def AList.delete_conv')

lemma table_is_keep:
  assumes "table_is m g"
  shows "table_is (put_pending i p m) g" "table_is (drop_pending i m) g" "table_is (send i p d m) g"
    "table_is (m\<lparr>mailbox := b\<rparr>) g" "table_is (m\<lparr>policy := pol\<rparr>) g"
    "table_is (push_recent r d who w sf m) g" "table_is (grace_on_approval d v u tool now m) g"
    "table_is (fst (record_totp_failure m s now)) g" "table_is (fst (prune_audit m days now)) g"
  using assms
  by (auto simp: table_is_def put_pending_def drop_pending_def send_def push_recent_def audit_log_write_def
      db_write_def grace_on_approval_def record_totp_grace_def persist_totp_lockout_clear_def
      record_totp_failure_def persist_totp_lockout_save_def prune_audit_def Let_def split: option.split)

definition waiting_rows :: "('j, 'x) approval_manager \<Rightarrow> uuid \<rightharpoonup> pending_row" where
  "waiting_rows m = (\<lambda>i. map_option (row_of_request \<circ> request) (map_of (pending m) i))"

definition mirrored_db :: "('j, 'x) approval_manager \<Rightarrow> bool" where
  "mirrored_db m \<longleftrightarrow> table_is m (waiting_rows m)"

lemma row_of_escalate [simp]: "row_of_request (escalate r) = row_of_request r" "req_id (escalate r) = req_id r"
  by (simp_all add: row_of_request_def escalate_def)

lemma mirrored_insert:
  assumes "table_is m g" "request p = r"
    and "g (req_id r) \<in> {None, Some (row_of_request r)}"
    and "\<And>i. i \<noteq> req_id r \<Longrightarrow> g i = map_option (row_of_request \<circ> request) (map_of (pending m) i)"
  shows "mirrored_db (put_pending (req_id r) p (db_insert_pending r m))"
proof -
  have "waiting_rows (put_pending (req_id r) p (db_insert_pending r m))
      = (if g (req_id r) = None then g(req_id r \<mapsto> row_of_request r) else g)"
    using assms(2-4) by (auto simp: waiting_rows_def AList.update_conv' fun_eq_iff)
  then show ?thesis
    unfolding mirrored_db_def using table_is_keep(1)[OF table_is_insert[OF assms(1)]] by simp
qed

lemma mirrored_submit:
  assumes "mirrored_db m" "map_of (pending m) (req_id r) = None"
  shows "mirrored_db (fst (submit_request m r dt now))"
proof -
  have "mirrored_db (put_pending (req_id r) p (db_insert_pending r m))" if "request p = r" for p
    using assms that
    by (intro mirrored_insert[where g = "waiting_rows m"]) (auto simp: mirrored_db_def waiting_rows_def)
  with assms(1) show ?thesis by (simp add: submit_request_def)
qed

lemma mirrored_begin_from:
  assumes "table_is m g" "g (req_id r) \<in> {None, Some (row_of_request r)}"
    and "\<And>i. i \<noteq> req_id r \<Longrightarrow> g i = map_option (row_of_request \<circ> request) (map_of (pending m) i)"
    and "pending_count_for_agent m (req_agent_id r) < MAX_PENDING_PER_AGENT"
  shows "mirrored_db (fst (begin_request m r now))"
  unfolding begin_request_def using assms(4)
  by (simp, intro mirrored_insert[where g = g]) (use assms(1-3) table_is_keep(4) in auto)

lemma mirrored_begin:
  assumes "mirrored_db m" "map_of (pending m) (req_id r) = None"
  shows "mirrored_db (fst (begin_request m r now))"
proof (cases "pending_count_for_agent m (req_agent_id r) < MAX_PENDING_PER_AGENT")
  case True
  with assms show ?thesis
    by (intro mirrored_begin_from[of m "waiting_rows m"]) (auto simp: mirrored_db_def waiting_rows_def)
qed (use assms in \<open>simp add: begin_request_def\<close>)

lemma mirrored_resolved:
  assumes "mirrored_db m" "table_is (db_delete_pending i (drop_pending i m)) ((waiting_rows m)(i := None)) \<Longrightarrow>
      table_is m' ((waiting_rows m)(i := None))"
    and "pending m' = AList.delete i (pending m)"
  shows "mirrored_db m'"
proof -
  have "waiting_rows m' = (waiting_rows m)(i := None)"
    using assms(3) by (auto simp: waiting_rows_def AList.delete_conv')
  moreover have "table_is (db_delete_pending i (drop_pending i m)) ((waiting_rows m)(i := None))"
    using assms(1) unfolding mirrored_db_def by (intro table_is_delete table_is_keep(2))
  ultimately show ?thesis using assms(2) by (simp add: mirrored_db_def)
qed

lemma mirrored_same: "mirrored_db m \<Longrightarrow> table_is m' (waiting_rows m) \<Longrightarrow> pending m' = pending m \<Longrightarrow> mirrored_db m'"
  by (simp add: mirrored_db_def waiting_rows_def)

lemma mirrored_wake:
  assumes ok: "manager_ok m" and mir: "mirrored_db m"
  shows "mirrored_db (fst (wake m fb r now))"
proof (cases "mailbox m (req_id r)")
  case (Some d)
  with mir show ?thesis by (simp add: wake_def)
next
  case None
  let ?i = "req_id r" and ?r = "case map_of (pending m) (req_id r) of Some p \<Rightarrow> request p | None \<Rightarrow> r"
  have id: "req_id ?r = ?i" using ok by (auto simp: manager_ok_def split: option.split)
  have mirt: "table_is m (waiting_rows m)" using mir by (simp add: mirrored_db_def)
  show ?thesis
  proof (cases "timeout_decision r fb")
    case DoEscalate
    have "mirrored_db (fst (begin_request (drop_pending ?i m) (escalate ?r) now))"
    proof (cases "pending_count_for_agent (drop_pending ?i m) (req_agent_id (escalate ?r)) < MAX_PENDING_PER_AGENT")
      case True
      then show ?thesis
      proof (rule mirrored_begin_from[rotated 3])
        show "table_is (drop_pending ?i m) (waiting_rows m)" using mirt by (rule table_is_keep(2))
        show "waiting_rows m (req_id (escalate ?r)) \<in> {None, Some (row_of_request (escalate ?r))}"
          using id by (auto simp: waiting_rows_def split: option.splits)
        show "waiting_rows m i = map_option (row_of_request \<circ> request) (map_of (pending (drop_pending ?i m)) i)"
          if "i \<noteq> req_id (escalate ?r)" for i
          using that id by (simp add: waiting_rows_def AList.delete_conv')
      qed
    next
      case False
      then have "map_of (pending m) ?i = None"
        using room_after_drop[OF ok, of ?i] by (auto simp: escalate_def split: option.splits)
      then have "pending (drop_pending ?i m) = pending m"
        by (simp add: map_of_eq_None_iff)
      moreover have "fst (begin_request (drop_pending ?i m) (escalate ?r) now) = drop_pending ?i m"
        using False by (simp add: begin_request_def)
      ultimately show ?thesis
        using mirrored_same[OF mir table_is_keep(2)[OF mirt]] by simp
    qed
    with None DoEscalate show ?thesis by (simp add: wake_def Let_def)
  next
    case (DoResolve d)
    have "mirrored_db (push_recent ?r d None now False (db_delete_pending ?i (drop_pending ?i m)))"
      by (rule mirrored_resolved[OF mir]) (auto intro: table_is_keep)
    with None DoResolve show ?thesis by (simp add: wake_def Let_def)
  qed
qed

lemma mirrored_expire_one:
  assumes mir: "mirrored_db (manager s)"
  shows "mirrored_db (manager (expire_one fb now s i))"
proof (cases "map_of (pending (manager s)) i")
  case (Some p)
  let ?m = "manager s"
  show ?thesis
  proof (cases "timeout_decision (request p) fb")
    case DoEscalate
    let ?m' = "put_pending i (p\<lparr>request := escalate (request p), submitted_at := now\<rparr>) (drop_pending i ?m)"
    have "waiting_rows ?m' = waiting_rows ?m"
      using Some by (auto simp: waiting_rows_def AList.update_conv' AList.delete_conv')
    moreover have "table_is ?m' (waiting_rows ?m)"
      using mir unfolding mirrored_db_def by (intro table_is_keep)
    ultimately have "mirrored_db ?m'" by (simp add: mirrored_db_def)
    with Some DoEscalate show ?thesis by (simp add: expire_one_def Let_def)
  next
    case (DoResolve d)
    have "mirrored_db (send i p d (push_recent (request p) d None now False (db_delete_pending i (drop_pending i ?m))))"
      by (rule mirrored_resolved[OF mir]) (auto intro: table_is_keep)
    with Some DoResolve show ?thesis by (simp add: expire_one_def Let_def)
  qed
qed (simp add: expire_one_def mir)

lemma mirrored_sweep: "mirrored_db m \<Longrightarrow> mirrored_db (manager (expire_pending_requests m now))"
proof -
  assume "mirrored_db m"
  have "mirrored_db (manager s) \<Longrightarrow> mirrored_db (manager (foldl (expire_one fb now) s is))"
    for fb and s :: "('a, 'b) sweep" and "is"
    by (induction "is" arbitrary: s) (auto intro: mirrored_expire_one)
  with \<open>mirrored_db m\<close> show ?thesis by (simp add: expire_pending_requests_def)
qed

text \<open>Request ids are fresh UUIDs: an id that is submitted is not one that is waiting.\<close>

definition fresh_op :: "('j, 'x) approval_manager \<Rightarrow> ('j, 'x) approval_op \<Rightarrow> bool" where
  "fresh_op m op \<longleftrightarrow>
     (case op of
        Submit r _ _ \<Rightarrow> get_pending m (req_id r) = None
      | Begin r _ \<Rightarrow> get_pending m (req_id r) = None
      | _ \<Rightarrow> True)"

fun fresh_run :: "('j, 'x) approval_manager \<Rightarrow> ('j, 'x) approval_op list \<Rightarrow> bool" where
  "fresh_run m [] \<longleftrightarrow> True"
| "fresh_run m (op # ops) \<longleftrightarrow> fresh_op m op \<and> fresh_run (exec_approval m op) ops"

lemma mirrored_exec:
  assumes ok: "manager_ok m" and mir: "mirrored_db m" and fresh: "fresh_op m op"
  shows "mirrored_db (exec_approval m op)"
proof -
  have mirt: "table_is m (waiting_rows m)" using mir by (simp add: mirrored_db_def)
  show ?thesis
  proof (cases op)
    case (Resolve i d who v u now)
    have "mirrored_db (send i p d (push_recent (request p) d who now v
        (grace_on_approval d v u (req_tool_name (request p)) now (db_delete_pending i (drop_pending i m)))))" for p
      by (rule mirrored_resolved[OF mir]) (auto intro: table_is_keep)
    with mir Resolve show ?thesis by (auto simp: resolve_def split: option.split)
  next
    case (SetPolicy p)
    then show ?thesis using mirt by (auto simp: update_policy_def intro!: mirrored_same[OF mir] table_is_keep)
  next
    case (TotpFailure u t)
    then show ?thesis using mirt by (auto intro!: mirrored_same[OF mir] table_is_keep)
  next
    case (PruneAudit n t)
    then show ?thesis using mirt by (auto intro!: mirrored_same[OF mir] table_is_keep)
  qed (use fresh mir in \<open>simp_all add: fresh_op_def get_pending_def mirrored_submit mirrored_begin
    mirrored_wake[OF ok] mirrored_sweep\<close>)
qed

lemma pending_mirrored_run:
  "manager_ok m \<Longrightarrow> mirrored_db m \<Longrightarrow> fresh_run m ops \<Longrightarrow> mirrored_db (foldl exec_approval m ops)"
  by (induction ops arbitrary: m) (auto intro: mirrored_exec manager_ok_exec)

definition empty_db :: approval_db where
  "empty_db = \<lparr>db_ok = True, pending_rows = [], audit_rows = [], lockout_rows = [], used_codes = [], used_nonces = []\<rparr>"

lemma manager_ok_with_empty_db: "manager_ok (new_with_db p empty_db now)"
  by (simp add: manager_ok_def new_with_db_def empty_db_def restore_pending_approvals_def pending_count_for_agent_def)

lemma mirrored_with_empty_db: "mirrored_db (new_with_db p empty_db now)"
  by (simp add: mirrored_db_def table_is_def waiting_rows_def new_with_db_def empty_db_def
      restore_pending_approvals_def fun_eq_iff)

lemma map_of_map_values: "map_of (map (\<lambda>(i, row). (i, f i row)) rows) i = map_option (f i) (map_of rows i)"
  by (induction rows) auto

lemma get_pending_restored:
  "db_ok d \<Longrightarrow> get_pending (new_with_db p d now) i = map_option (restored_request i) (map_of (pending_rows d) i)"
  by (simp add: get_pending_def new_with_db_def restore_pending_approvals_def map_of_map_values
      option.map_comp comp_def)

section \<open>Samples\<close>

definition sample_request :: "uuid \<Rightarrow> approval_request" where
  "sample_request i =
     \<lparr>req_id = i, req_agent_id = ''a'', req_tool_name = ''shell_exec'', req_description = [],
      action_summary = ''ls'', req_risk = Critical, requested_at = 0, req_timeout_secs = 60,
      req_sender_id = None, req_channel = None, route_to = [], escalation_count = 0, req_session_id = None\<rparr>"

definition totp_policy :: approval_policy where
  "totp_policy = default_approval_policy\<lparr>second_factor_mode := Both\<rparr>"

definition sample_ops :: "(unit, unit) approval_op list" where
  "sample_ops = [Begin (sample_request 1) 0, Resolve 1 Approved None True (Some ''op'') 5]"

section \<open>Properties\<close>

text \<open>
  C2: Nothing is approved without an operator, and without the second factor where the policy asks for
  it. In every run from a fresh manager, a waiting caller that finds the decision Approved, and a
  record of the history that says Approved, go back to a resolution of that request by an operator
  while it was pending, with a verified code, or within the grace period after an earlier verified
  approval by the same user, if the policy of that moment asked for a second factor for its tool.
\<close>
theorem approval_is_authorised:
  assumes "mailbox (run_approval p ops) i = Some Approved
    \<or> (\<exists>r \<in> set (recent_log (run_approval p ops)). rec_decision r = Approved \<and> req_id (rec_request r) = i)"
  shows "properly_approved p ops i"
  using assms approved_properly by blast

theorem approval_is_authorised_witness:
  "mailbox (run_approval totp_policy sample_ops) 1 = Some Approved \<and> properly_approved totp_policy sample_ops 1"
proof -
  have "mailbox (run_approval totp_policy sample_ops) 1 = Some Approved" by code_simp
  with approval_is_authorised[of totp_policy sample_ops 1] show ?thesis by blast
qed



text \<open>
  C9: Every request is decided by the sweeps. A pending request that was escalated at most three
  times (the code opens each with no escalation) is gone after four sweeps, the first of them later
  than the request's longest wait, and each later than the one before it by more than that: three
  escalations at most, and then a decision. The longest wait is the request's timeout and \<open>x\<close>
  seconds, where \<open>x\<close> bounds the extra time of the fallback now and of every policy set in
  between (three times its extra seconds; it must fit a signed 64-bit number). In between the manager
  may do anything else with requests, policies that keep to \<open>x\<close>, codes and the history, sweep at
  earlier times included, except that no request is opened under the same id (ids are fresh) and the
  request has no caller whose own timeout fires, as is the case for every deferred request.
\<close>
theorem every_request_is_decided:
  assumes "m = run_approval p ops" "map_of (pending m) i = Some q" "escalation_count (request q) \<le> 3"
    and "extra_wait (fallback (policy m)) \<le> x" "wait = uint (req_timeout_secs (request q)) + x" "wait < 2 ^ 63"
    and "length groups = 4" "sweeps_spaced i x wait (submitted_at q) groups"
  shows "get_pending (foldl exec_approval m (schedule_ops groups)) i = None"
proof -
  have "escalated_by i x wait 0 (submitted_at q) (submitted_at q) m"
    using assms(1-5) run_ok by (auto simp: escalated_by_def waits_since_def word_le_nat_alt)
  from escalated_by_schedule[OF this assms(6,8)] assms(7)
  obtain u where e: "escalated_by i x wait 4 u u (foldl exec_approval m (schedule_ops groups))"
    by auto
  then show ?thesis
    by (cases "map_of (pending (foldl exec_approval m (schedule_ops groups))) i")
      (auto simp: escalated_by_def waits_since_def get_pending_def)
qed

theorem every_request_is_decided_witness:
  "get_pending (foldl exec_approval (run_approval totp_policy [Begin (sample_request 1) 0] :: (unit, unit) approval_manager)
     (schedule_ops [([SetPolicy (totp_policy\<lparr>fallback := Escalate 1\<rparr>)], 64000000000), ([], 128000000000),
        ([Sweep 150000000000], 192000000000), ([], 256000000000)])) 1 = None"
proof (rule every_request_is_decided[OF refl _ _ _ refl])
  let ?m = "run_approval totp_policy [Begin (sample_request 1) 0] :: (unit, unit) approval_manager"
  let ?q = "\<lparr>request = sample_request 1, waiting = True, deferred = None, submitted_at = 0\<rparr> :: (unit, unit) pending_request"
  show "map_of (pending ?m) 1 = Some ?q" by code_simp
  show "escalation_count (request ?q) \<le> 3" by code_simp
  show "extra_wait (fallback (policy ?m)) \<le> 3" by code_simp
  show "uint (req_timeout_secs (request ?q)) + 3 < 2 ^ 63" by code_simp
  show "sweeps_spaced 1 3 (uint (req_timeout_secs (request ?q)) + 3) (submitted_at ?q)
      ([([SetPolicy (totp_policy\<lparr>fallback := Escalate 1\<rparr>)], 64000000000), ([], 128000000000),
        ([Sweep 150000000000], 192000000000), ([], 256000000000)]
        :: ((unit, unit) approval_op list \<times> int) list)"
    by code_simp
qed simp

text \<open>
  Nobody waits for a request that is gone: the operation that closes a pending request puts the
  decision where the waiting caller finds it, or is the caller's own timeout, and hands the stored
  tool call back together with the decision.
\<close>
theorem closing_answers:
  assumes "m = run_approval p ops" "map_of (pending m) i = Some q"
    and "map_of (pending (exec_approval m op)) i = None"
  shows "answered m op i q"
  using gone_answered[OF run_ok] assms by blast

theorem closing_answers_witness:
  "answered (run_approval totp_policy [Begin (sample_request 1) 0]) (Sweep 61000000000) 1
     (\<lparr>request = sample_request 1, waiting = True, deferred = None, submitted_at = 0\<rparr> :: (unit, unit) pending_request)"
proof (rule closing_answers[OF refl])
  let ?m = "run_approval totp_policy [Begin (sample_request 1) 0] :: (unit, unit) approval_manager"
  show "map_of (pending ?m) 1
      = Some \<lparr>request = sample_request 1, waiting = True, deferred = None, submitted_at = 0\<rparr>" by code_simp
  show "map_of (pending (exec_approval ?m (Sweep 61000000000))) 1 = None" by code_simp
qed

text \<open>
  C30: A restart keeps what is waiting. In a run on a database that works, with fresh request ids, a
  manager started on the database left behind has exactly the same requests pending, with their
  agent, tool, input and session.
\<close>
theorem pending_survives_restart:
  assumes "m = foldl exec_approval (new_with_db p empty_db t) ops" "fresh_run (new_with_db p empty_db t) ops"
  shows "\<exists>d. audit_db m = Some d
     \<and> (\<forall>i. get_pending (new_with_db p' d t') i
            = map_option (\<lambda>r. restored_request i (row_of_request r)) (get_pending m i))"
proof -
  have "mirrored_db m"
    using pending_mirrored_run[OF manager_ok_with_empty_db mirrored_with_empty_db] assms by simp
  then obtain d where "audit_db m = Some d" "db_ok d" "map_of (pending_rows d) = waiting_rows m"
    by (auto simp: mirrored_db_def table_is_def)
  then show ?thesis
    by (simp add: get_pending_restored) (simp add: waiting_rows_def get_pending_def option.map_comp comp_def)
qed

theorem pending_survives_restart_witness:
  "\<exists>d. audit_db (foldl exec_approval (new_with_db totp_policy empty_db 0) [Begin (sample_request 1) 0]
          :: (unit, unit) approval_manager) = Some d
     \<and> get_pending (new_with_db totp_policy d 9 :: (unit, unit) approval_manager) 1
          = Some (restored_request 1 (row_of_request (sample_request 1)))"
proof -
  let ?start = "new_with_db totp_policy empty_db 0 :: (unit, unit) approval_manager"
  let ?m = "foldl exec_approval ?start [Begin (sample_request 1) 0]"
  have f: "fresh_run ?start [Begin (sample_request 1) 0]"
    by code_simp
  have "get_pending ?m 1 = Some (sample_request 1)" by code_simp
  with pending_survives_restart[OF refl f, of totp_policy 9] show ?thesis
    by (metis option.map(2))
qed






text \<open>
  The brute-force lockout survives a restart: when the fifth failure in a row is recorded on a working
  database and the daemon restarts within the window, the sender is still locked out for every moment
  up to 299 seconds after that failure (the database keeps whole seconds).
\<close>
theorem lockout_survives_restart:
  assumes "totp_failures m s = Some (4, None)" "audit_db m = Some db" "db_ok db" "0 \<le> t" "t \<le> t'" "t' \<le> now"
    and "now - t < 299 * 1000000000"
  shows "\<exists>d. audit_db (fst (record_totp_failure m s t)) = Some d
     \<and> is_totp_locked_out (new_with_db p d t' :: ('j, 'x) approval_manager) s now"
proof -
  let ?secs = "t div NANOS"
  have b: "bump_failure t (4, None) = (5, Some t)" using bump_below[of 4 t] by simp
  have e0: "max 0 (unix_secs t - elapsed_secs t t) = ?secs"
    using assms(4) by (simp add: unix_secs_def elapsed_secs_def NANOS_def pos_imp_zdiv_nonneg_iff)
  define d where "d = db\<lparr>lockout_rows := AList.update s (5, Some ?secs) (lockout_rows db)\<rparr>"
  have d: "audit_db (fst (record_totp_failure m s t)) = Some d"
    using assms(1-3) b e0
    by (simp add: record_totp_failure_def persist_totp_lockout_save_def db_write_def Let_def d_def)
  define e where "e = t' div NANOS - ?secs"
  have el: "lockout_elapsed (unix_secs t') ?secs = e"
    using assms(4,5) by (simp add: lockout_elapsed_def unix_secs_def e_def NANOS_def
        pos_imp_zdiv_nonneg_iff zdiv_mono1 not_less)
  have parts: "e * NANOS = (t' - t' mod NANOS) - (t - t mod NANOS)" "0 \<le> t' mod NANOS" "t mod NANOS < NANOS"
    by (simp_all add: e_def left_diff_distrib minus_mod_eq_div_mult NANOS_def)
  then have "now - (t' - e * NANOS) < LOCKOUT"
    using assms(7) by (simp add: LOCKOUT_def TOTP_LOCKOUT_SECS_def NANOS_def)
  then have arith: "elapsed_secs now (t' - e * NANOS) < 300"
    using elapsed_less_lockout[of now "t' - e * NANOS"] by (simp add: TOTP_LOCKOUT_SECS_def)
  have "e * NANOS < 300 * NANOS"
    using parts assms(5-7) by (simp add: NANOS_def)
  then have e: "e < 300" by (simp add: NANOS_def)
  have "load_lockout_row t' (5, Some ?secs) = Some (5, Some (t' - e * NANOS))"
    using e by (simp add: load_lockout_row_def el TOTP_LOCKOUT_SECS_def)
  then have "totp_failures (new_with_db p d t' :: ('j, 'x) approval_manager) s = Some (5, Some (t' - e * NANOS))"
    using assms(3) by (simp add: new_with_db_def load_totp_lockout_def d_def AList.update_conv')
  then have "is_totp_locked_out (new_with_db p d t' :: ('j, 'x) approval_manager) s now"
    using arith by (simp add: is_totp_locked_out_def TOTP_MAX_FAILURES_def TOTP_LOCKOUT_SECS_def)
  with d show ?thesis by blast
qed

theorem lockout_survives_restart_witness:
  "\<exists>d. audit_db (fst (record_totp_failure
        ((new_with_db totp_policy empty_db 0 :: (unit, unit) approval_manager)\<lparr>totp_failures := [''s'' \<mapsto> (4, None)]\<rparr>)
        ''s'' 7)) = Some d
     \<and> is_totp_locked_out (new_with_db totp_policy d 8 :: (unit, unit) approval_manager) ''s'' 200000000000"
  by (rule lockout_survives_restart[where db = empty_db])
    (simp_all add: new_with_db_def, simp_all add: empty_db_def)

text \<open>
  Under a validated policy the approval lists mean what they say: a tool needs approval exactly when a
  pattern of the list matches it as a wildcard, and a second factor exactly when the mode covers
  approvals and the list of second-factor tools is empty or has a matching pattern.
\<close>
theorem approval_lists_exact:
  assumes "alnum_ok alnum" "validate_policy alnum (policy m) = None"
  shows "(requires_approval m tool \<longleftrightarrow> (\<exists>pat \<in> set (require_approval (policy m)). wild_match pat tool))
    \<and> (tool_requires_totp (policy m) tool \<longleftrightarrow>
         second_factor_mode (policy m) \<in> {Totp, Both}
         \<and> (totp_tools (policy m) = [] \<or> (\<exists>pat \<in> set (totp_tools (policy m)). wild_match pat tool)))"
  using any_glob_wild[OF assms(1) validate_policy_parts(1)[OF assms(2)], of tool]
    any_glob_wild[OF assms(1) validate_policy_parts(3)[OF assms(2)], of tool]
  by (auto simp: requires_approval_def tool_requires_totp_def requires_approval_totp_def
      split: second_factor.splits)

definition ascii_alnum :: "string \<Rightarrow> bool" where
  "ascii_alnum ch \<longleftrightarrow>
     (case ch of
        [c] \<Rightarrow> is_digit c \<or> (let n = of_char c :: nat in 65 \<le> n \<and> n \<le> 90 \<or> 97 \<le> n \<and> n \<le> 122)
      | _ \<Rightarrow> False)"

lemma ascii_alnum_ok: "alnum_ok ascii_alnum"
  unfolding alnum_ok_def
proof (intro allI impI ballI)
  fix ch c assume a: "ascii_alnum ch" "c \<in> set ch"
  then have "ch = [c]" by (cases ch rule: list.exhaust) (auto simp: ascii_alnum_def split: list.splits)
  with a(1) have "of_char c \<notin> {42, 46, 47, 92 :: nat}" by (auto simp: ascii_alnum_def is_digit_def Let_def)
  then show "\<not> is_path_sep c \<and> c \<noteq> CHR ''.'' \<and> c \<noteq> star" by auto
qed

theorem approval_lists_exact_witness:
  "requires_approval (new_approval_manager totp_policy :: (unit, unit) approval_manager) ''skill_evolve_x''
   \<and> (\<exists>pat \<in> set (require_approval totp_policy). wild_match pat ''skill_evolve_x'')"
proof -
  let ?m = "new_approval_manager totp_policy :: (unit, unit) approval_manager"
  have "requires_approval ?m ''skill_evolve_x''" by code_simp
  moreover have "validate_policy ascii_alnum (policy ?m) = None" by code_simp
  ultimately show ?thesis
    using approval_lists_exact[OF ascii_alnum_ok, of ?m "''skill_evolve_x''"]
    by (simp add: new_approval_manager_def)
qed

text \<open>
  Two findings. With the second factor \<open>Both\<close>, every tool needs a code while
  \<open>requires_totp\<close> says that none does. And the chat command closes a request without its stored
  call being run: the call is in the result that the command drops.
\<close>
theorem requires_totp_misses_both:
  "second_factor_mode (policy m) = Both \<Longrightarrow> totp_tools (policy m) = [] \<Longrightarrow>
     tool_requires_totp (policy m) tool \<and> \<not> requires_totp m"
  by (simp add: requires_totp_def tool_requires_totp_def requires_approval_totp_def)

lemma check_factor_not_done: "snd (check_factor env m sender code now) \<noteq> Rejected (Done a i)"
  by (auto simp: check_factor_def count_failure_def split: option.splits bool.splits prod.splits)

theorem chat_approval_closes:
  assumes "chat_resolve env m id_prefix approve code sender now = (m', Done approve' i)"
  shows "map_of (pending m') i = None"
  using assms check_factor_not_done[of env m sender code now]
  by (auto simp: chat_resolve_def resolve_def AList.delete_conv'
      split: list.splits prod.splits factor.splits if_splits option.splits sum.splits)

text \<open>
  The exemption of hand agents does not reach calls that the user's policy sent to a human: with
  \<open>force_human\<close> a submission is never approved automatically.
\<close>
theorem force_human_is_honoured:
  assumes "force_human dt"
  shows "snd (submit_tool_approval parse_agent display reg m i agent tool summary dt session now) \<noteq> Inr AutoApproved"
  using assms by (auto simp: submit_tool_approval_def split: prod.split sum.split)

end
