(* ===== verification/Events.thy ===== *)
theory Events
  imports Prelude "HOL-Library.AList"
begin

text \<open>
  Events and the bus that carries them: \<open>crates/librefang-types/src/event.rs\<close> and
  \<open>crates/librefang-kernel/src/event_bus.rs\<close>.

  A broadcast channel of the bus is known here by the number of its receivers: sending fails
  exactly when there is none, which is the documented behaviour of the channel. What a receiver
  has in its buffer is not kept; a receiving loop is given the results of its \<open>recv\<close> calls.
  The structured metadata of a message is the type parameter \<open>'j\<close>.
\<close>

section \<open>Event types\<close>

type_synonym event_id = "128 word"

datatype session_mode = Persistent | NewSession

datatype event_target = TargetAgent agent_id | Broadcast | TargetPattern string | TargetSystem

record approval_requested_event =
  arq_request_id :: string
  arq_agent_id :: string
  arq_tool_name :: string
  arq_description :: string
  arq_risk_level :: string

record approval_resolved_event =
  ars_request_id :: string
  ars_agent_id :: string
  ars_tool_name :: string
  ars_decision :: string
  ars_decided_by :: "string option"

datatype message_role = RoleUser | RoleAgent | RoleSystem | RoleTool

record 'j agent_message =
  am_content :: string
  am_metadata :: "(string \<times> 'j) list"
  am_role :: message_role

record tool_output =
  to_tool_id :: string
  to_tool_use_id :: string
  to_content :: string
  to_success :: bool
  to_execution_time_ms :: u64

datatype memory_operation = OpCreated | OpUpdated | OpDeleted

record memory_delta =
  md_operation :: memory_operation
  md_key :: string
  md_agent_id :: agent_id

datatype lifecycle_event =
    Spawned agent_id string
  | Started agent_id
  | AgentSuspended agent_id
  | Resumed agent_id
  | AgentTerminated agent_id string
  | AgentCrashed agent_id string

datatype network_event =
    PeerConnected string
  | PeerDisconnected string
  | MessageReceived string string
  | DiscoveryResult string "string list"

datatype system_event =
    KernelStarted
  | KernelStopping
  | QuotaWarning agent_id string f64
  | HealthCheck string
  | QuotaEnforced agent_id f64 f64
  | ModelRouted agent_id string string
  | UserAction string string string
  | HealthCheckFailed agent_id u64
  | TaskPosted string string "string option" "string option"
  | TaskClaimed string string
  | TaskCompleted string string string

datatype 'j event_payload =
    MessagePayload "'j agent_message"
  | ToolResultPayload tool_output
  | MemoryUpdatePayload memory_delta
  | LifecyclePayload lifecycle_event
  | NetworkPayload network_event
  | SystemPayload system_event
  | ApprovalRequestedPayload approval_requested_event
  | ApprovalResolvedPayload approval_resolved_event
  | CustomPayload string

record 'j event =
  ev_id :: event_id
  ev_source :: agent_id
  ev_target :: event_target
  ev_payload :: "'j event_payload"
  ev_timestamp :: int
  ev_correlation_id :: "event_id option"
  ev_ttl :: "nat option"

definition new_event ::
  "event_id \<Rightarrow> int \<Rightarrow> agent_id \<Rightarrow> event_target \<Rightarrow> 'j event_payload \<Rightarrow> 'j event" where
  "new_event i now source target payload =
     \<lparr>ev_id = i, ev_source = source, ev_target = target, ev_payload = payload,
      ev_timestamp = now, ev_correlation_id = None, ev_ttl = None\<rparr>"

definition with_correlation :: "event_id \<Rightarrow> 'j event \<Rightarrow> 'j event" where
  "with_correlation c e = e\<lparr>ev_correlation_id := Some c\<rparr>"

definition with_ttl :: "nat \<Rightarrow> 'j event \<Rightarrow> 'j event" where
  "with_ttl d e = e\<lparr>ev_ttl := Some d\<rparr>"

section \<open>The bus\<close>

definition HISTORY_SIZE :: nat where "HISTORY_SIZE = 1000"

definition DROP_WARN_GAP :: int where "DROP_WARN_GAP = 10 * 10 ^ 9"

record 'j event_bus =
  global_receivers :: nat
  agent_channels :: "(agent_id \<times> nat) list"
  bus_history :: "'j event list"
  dropped :: u64
  last_drop_warn :: instant

definition new_bus :: "instant \<Rightarrow> 'j event_bus" where
  "new_bus now =
     \<lparr>global_receivers = 0, agent_channels = [], bus_history = [], dropped = 0, last_drop_warn = now\<rparr>"

fun payload_kind :: "'j event_payload \<Rightarrow> string" where
  "payload_kind (MessagePayload _) = ''Message''"
| "payload_kind (ToolResultPayload _) = ''ToolResult''"
| "payload_kind (MemoryUpdatePayload _) = ''MemoryUpdate''"
| "payload_kind (LifecyclePayload _) = ''Lifecycle''"
| "payload_kind (NetworkPayload _) = ''Network''"
| "payload_kind (SystemPayload _) = ''System''"
| "payload_kind (ApprovalRequestedPayload _) = ''ApprovalRequested''"
| "payload_kind (ApprovalResolvedPayload _) = ''ApprovalResolved''"
| "payload_kind (CustomPayload _) = ''Custom''"

text \<open>
  The drop counter and the rate limit of its log line: the clock is set back only when a line is
  written, and a line is written at most every ten seconds.
\<close>

definition count_drops :: "instant \<Rightarrow> u64 \<Rightarrow> 'j event_bus \<Rightarrow> 'j event_bus \<times> bool" where
  "count_drops now n b =
     (let b1 = b\<lparr>dropped := dropped b + n\<rparr>;
          warn = max 0 (now - last_drop_warn b) \<ge> DROP_WARN_GAP
      in (if warn then b1\<lparr>last_drop_warn := now\<rparr> else b1, warn))"

definition store_history :: "'j event \<Rightarrow> 'j event_bus \<Rightarrow> 'j event_bus" where
  "store_history ev b =
     b\<lparr>bus_history :=
         (if length (bus_history b) \<ge> HISTORY_SIZE then drop 1 (bus_history b) else bus_history b)
         @ [ev]\<rparr>"

datatype destination = GlobalChannel | AgentChannel agent_id

definition publish :: "instant \<Rightarrow> 'j event \<Rightarrow> 'j event_bus \<Rightarrow> 'j event_bus \<times> destination list" where
  "publish now ev b0 =
     (let b = store_history ev b0;
          global = (if global_receivers b > 0 then [GlobalChannel] else [])
      in case ev_target ev of
           TargetAgent a \<Rightarrow>
             (case map_of (agent_channels b) a of
                None \<Rightarrow> (b, [])
              | Some n \<Rightarrow> if n > 0 then (b, [AgentChannel a]) else (fst (count_drops now 1 b), []))
         | Broadcast \<Rightarrow>
             let reached = filter (\<lambda>(a, n). n > 0) (agent_channels b);
                 agent_drops = length (agent_channels b) - length reached
             in (if agent_drops > 0 then fst (count_drops now (word_of_nat agent_drops) b) else b,
                 global @ map (\<lambda>(a, n). AgentChannel a) reached)
         | TargetPattern _ \<Rightarrow> (b, global)
         | TargetSystem \<Rightarrow> (b, global))"

definition subscribe_agent :: "agent_id \<Rightarrow> 'j event_bus \<Rightarrow> 'j event_bus" where
  "subscribe_agent a b =
     b\<lparr>agent_channels :=
         (case map_of (agent_channels b) a of
            Some n \<Rightarrow> AList.update a (Suc n) (agent_channels b)
          | None \<Rightarrow> AList.update a 1 (agent_channels b))\<rparr>"

definition subscribe_all :: "'j event_bus \<Rightarrow> 'j event_bus" where
  "subscribe_all b = b\<lparr>global_receivers := Suc (global_receivers b)\<rparr>"

definition history :: "'j event_bus \<Rightarrow> nat \<Rightarrow> 'j event list" where
  "history b limit = take limit (rev (bus_history b))"

definition record_consumer_lag :: "instant \<Rightarrow> u64 \<Rightarrow> 'j event_bus \<Rightarrow> 'j event_bus" where
  "record_consumer_lag now n b = fst (count_drops now n b)"

definition unsubscribe_agent :: "agent_id \<Rightarrow> 'j event_bus \<Rightarrow> 'j event_bus" where
  "unsubscribe_agent a b = b\<lparr>agent_channels := AList.delete a (agent_channels b)\<rparr>"

definition gc_stale_channels :: "agent_id set \<Rightarrow> 'j event_bus \<Rightarrow> 'j event_bus \<times> nat" where
  "gc_stale_channels live b =
     (let stale = filter (\<lambda>a. a \<notin> live) (map fst (agent_channels b))
      in (b\<lparr>agent_channels := fold AList.delete stale (agent_channels b)\<rparr>, length stale))"

datatype 'j recv_result = RecvOk "'j event" | Lagged u64 | Closed

text \<open>
  The loop around \<open>recv\<close> consumes the results the channel gives; an empty list of results is
  a receiver that is still waiting (\<open>None\<close>).
\<close>

fun recv_event_skipping_lag ::
  "instant \<Rightarrow> 'j recv_result list \<Rightarrow> 'j event_bus
   \<Rightarrow> ('j event option \<times> 'j recv_result list \<times> 'j event_bus) option" where
  "recv_event_skipping_lag now [] b = None"
| "recv_event_skipping_lag now (RecvOk ev # rs) b = Some (Some ev, rs, b)"
| "recv_event_skipping_lag now (Lagged n # rs) b =
     recv_event_skipping_lag now rs (record_consumer_lag now n b)"
| "recv_event_skipping_lag now (Closed # rs) b = Some (None, rs, b)"

section \<open>What the bus keeps\<close>

lemma count_drops_keeps [simp]:
  "bus_history (fst (count_drops now n b)) = bus_history b"
  "agent_channels (fst (count_drops now n b)) = agent_channels b"
  "global_receivers (fst (count_drops now n b)) = global_receivers b"
  "dropped (fst (count_drops now n b)) = dropped b + n"
  by (simp_all add: count_drops_def Let_def)

lemma publish_history: "bus_history (fst (publish now ev b)) = bus_history (store_history ev b)"
  by (simp add: publish_def Let_def split: event_target.split option.split)

definition latest :: "nat \<Rightarrow> 'a list \<Rightarrow> 'a list" where
  "latest n xs = drop (length xs - n) xs"

lemma store_history_latest:
  assumes "bus_history b = latest HISTORY_SIZE es"
  shows "bus_history (store_history ev b) = latest HISTORY_SIZE (es @ [ev])"
proof (cases "HISTORY_SIZE \<le> length es")
  case True
  then have "Suc (length es - HISTORY_SIZE) = Suc (length es) - HISTORY_SIZE" by simp
  moreover have "Suc 0 - HISTORY_SIZE = 0" by (simp add: HISTORY_SIZE_def)
  ultimately show ?thesis using assms True by (simp add: store_history_def latest_def)
next
  case False
  then show ?thesis using assms by (simp add: store_history_def latest_def)
qed

definition publish_all :: "(instant \<times> 'j event) list \<Rightarrow> 'j event_bus \<Rightarrow> 'j event_bus" where
  "publish_all es b = foldl (\<lambda>b (now, ev). fst (publish now ev b)) b es"

lemma publish_all_history:
  assumes "bus_history b = latest HISTORY_SIZE old"
  shows "bus_history (publish_all es b) = latest HISTORY_SIZE (old @ map snd es)"
  using assms
proof (induction es arbitrary: b old)
  case Nil
  then show ?case by (simp add: publish_all_def)
next
  case (Cons e es)
  obtain now ev where e: "e = (now, ev)" by (cases e)
  have "bus_history (fst (publish now ev b)) = latest HISTORY_SIZE (old @ [ev])"
    using store_history_latest[OF Cons.prems] by (simp add: publish_history)
  from Cons.IH[OF this] show ?case by (simp add: publish_all_def e)
qed

text \<open>
  The history the bus answers with is exactly the most recent events it published, newest first,
  and never more than its size.
\<close>
theorem bus_history_exact:
  "history (publish_all es (new_bus t)) limit = take (min limit HISTORY_SIZE) (rev (map snd es))"
proof -
  have "bus_history (new_bus t :: 'a event_bus) = latest HISTORY_SIZE []"
    by (simp add: new_bus_def latest_def)
  note hist = publish_all_history[OF this, of es]
  show ?thesis
  proof (cases "length es \<le> HISTORY_SIZE")
    case True
    then show ?thesis by (simp add: history_def hist latest_def min_def)
  next
    case False
    then show ?thesis by (simp add: history_def hist latest_def rev_drop min.commute)
  qed
qed

text \<open>
  A targeted event is delivered on the channel of its agent when somebody listens there, is
  counted as dropped when the channel has no listener, and vanishes without a trace when the
  agent has no channel.
\<close>
theorem targeted_delivery:
  assumes "ev_target ev = TargetAgent a"
  shows "snd (publish now ev b) =
           (case map_of (agent_channels b) a of Some (Suc n) \<Rightarrow> [AgentChannel a] | _ \<Rightarrow> [])"
    and "dropped (fst (publish now ev b)) =
           dropped b + (if map_of (agent_channels b) a = Some 0 then 1 else 0)"
  using assms by (auto simp: publish_def Let_def store_history_def split: option.split nat.split)

lemma gc_keeps_live:
  "map_of (agent_channels (fst (gc_stale_channels live b))) a =
     (if a \<in> live then map_of (agent_channels b) a else None)"
proof -
  have del: "map_of (fold AList.delete ks al) a = (if a \<in> set ks then None else map_of al a)"
    for ks and al :: "(agent_id \<times> nat) list"
    by (induction ks arbitrary: al) (auto simp: AList.delete_conv')
  show ?thesis
    by (auto simp: gc_stale_channels_def Let_def del simp flip: map_of_eq_None_iff)
qed

text \<open>
  Receiving loses no event that the channel delivers: the loop skips exactly the lag reports in
  front of the next event, and adds their sum to the drop counter.
\<close>
lemma recv_skips_lag:
  "recv_event_skipping_lag now (map Lagged ns @ RecvOk ev # rs) b =
     Some (Some ev, rs, foldl (\<lambda>b n. record_consumer_lag now n b) b ns)"
  "dropped (foldl (\<lambda>b n. record_consumer_lag now n b) b ns) = dropped b + sum_list ns"
  by (induction ns arbitrary: b) (auto simp: record_consumer_lag_def algebra_simps)

end
