(* ===== verification/Triggers.thy ===== *)
theory Triggers
  imports Events
begin

text \<open>
  Event triggers, \<open>crates/librefang-kernel/src/triggers.rs\<close>: which agents an event wakes.

  The three tables of the engine are concurrent hash maps; the trigger table is an association
  list, whose order stands for the iteration order of the map, and the other two, which are only
  looked up by key, are functions. The file \<open>trigger_jobs.json\<close> is a component of the
  state. Fresh identifiers and clock readings are arguments.

  Texts come from \<open>event_fmt\<close>: the printed form of an identifier, of a number and of
  the derived debug output of the enums with text fields, and what the JSON parser makes of the
  bytes of a custom event (its \<open>type\<close> when that is a text, and its compact form).
\<close>

section \<open>Data\<close>

type_synonym trigger_id = "128 word"

datatype trigger_pattern =
    OnLifecycle
  | OnAgentSpawned string
  | OnAgentTerminated
  | OnSystem
  | OnSystemKeyword string
  | OnMemoryUpdate
  | OnMemoryKeyPattern string
  | OnAll
  | OnContentMatch string
  | OnTaskPosted "string option"
  | OnTaskClaimed
  | OnTaskCompleted

record trigger =
  trg_id :: trigger_id
  trg_agent :: agent_id
  trg_pattern :: trigger_pattern
  prompt_template :: string
  trg_enabled :: bool
  trg_created_at :: instant
  fire_count :: u64
  max_fires :: u64
  target_agent :: "agent_id option"
  cooldown_secs :: "u64 option"
  trg_session_mode :: "session_mode option"
  last_fired_at :: "instant option"

record trigger_match =
  tm_agent :: agent_id
  tm_message :: string
  tm_session_mode :: "session_mode option"

record trigger_patch =
  p_pattern :: "trigger_pattern option"
  p_prompt_template :: "string option"
  p_enabled :: "bool option"
  p_max_fires :: "u64 option"
  p_cooldown_secs :: "u64 option option"
  p_session_mode :: "session_mode option option"
  p_target_agent :: "agent_id option option"

record triggers_config =
  tc_cooldown_secs :: u64
  tc_max_per_event :: nat
  tc_max_depth :: nat
  tc_max_workflow_secs :: u64

record trigger_engine =
  triggers :: "(trigger_id \<times> trigger) list"
  agent_triggers :: "agent_id \<rightharpoonup> trigger_id list"
  last_fired :: "trigger_id \<rightharpoonup> instant"
  max_triggers_per_event :: nat
  default_cooldown_secs :: u64
  persisted :: bool
  disk :: "trigger list option"

datatype trigger_error = ReadFailed | ParseFailed | WriteFailed

definition DEFAULT_COOLDOWN_SECS :: u64 where "DEFAULT_COOLDOWN_SECS = 5"

definition DEFAULT_MAX_TRIGGERS_PER_EVENT :: nat where "DEFAULT_MAX_TRIGGERS_PER_EVENT = 10"

definition new_engine :: trigger_engine where
  "new_engine =
     \<lparr>triggers = [], agent_triggers = Map.empty, last_fired = Map.empty,
      max_triggers_per_event = DEFAULT_MAX_TRIGGERS_PER_EVENT,
      default_cooldown_secs = DEFAULT_COOLDOWN_SECS, persisted = False, disk = None\<rparr>"

definition with_config :: "triggers_config \<Rightarrow> trigger list option \<Rightarrow> trigger_engine" where
  "with_config c file =
     \<lparr>triggers = [], agent_triggers = Map.empty, last_fired = Map.empty,
      max_triggers_per_event = max (tc_max_per_event c) 1,
      default_cooldown_secs = tc_cooldown_secs c, persisted = True, disk = file\<rparr>"

definition with_max_triggers_per_event :: "nat \<Rightarrow> trigger_engine" where
  "with_max_triggers_per_event n = new_engine\<lparr>max_triggers_per_event := max n 1\<rparr>"

section \<open>Persistence\<close>

definition index_add :: "agent_id \<Rightarrow> trigger_id \<Rightarrow> (agent_id \<rightharpoonup> trigger_id list) \<Rightarrow> (agent_id \<rightharpoonup> trigger_id list)" where
  "index_add a i ix =
     (let ids = (case ix a of Some l \<Rightarrow> l | None \<Rightarrow> [])
      in ix(a \<mapsto> (if i \<in> set ids then ids else ids @ [i])))"

definition load_one :: "trigger \<Rightarrow> trigger_engine \<Rightarrow> trigger_engine" where
  "load_one t e =
     e\<lparr>last_fired :=
         (case last_fired_at t of
            Some ts \<Rightarrow> (last_fired e)(trg_id t \<mapsto> ts)
          | None \<Rightarrow> last_fired e),
       triggers := AList.update (trg_id t) t (triggers e),
       agent_triggers := index_add (trg_agent t) (trg_id t) (agent_triggers e)\<rparr>"

text \<open>
  Reading the file succeeds or not (\<open>read_ok\<close>), and so does parsing it (\<open>parse_ok\<close>); the
  rewriting of the legacy \<open>"task_posted"\<close> pattern belongs to the parser.
\<close>

definition load :: "bool \<Rightarrow> bool \<Rightarrow> trigger_engine \<Rightarrow> (trigger_error + nat) \<times> trigger_engine" where
  "load read_ok parse_ok e =
     (if \<not> persisted e then (Inr 0, e)
      else case disk e of
             None \<Rightarrow> (Inr 0, e)
           | Some ts \<Rightarrow>
               if \<not> read_ok then (Inl ReadFailed, e)
               else if \<not> parse_ok then (Inl ParseFailed, e)
               else (Inr (length ts), fold load_one ts e))"

definition stamp :: "trigger_engine \<Rightarrow> trigger \<Rightarrow> trigger" where
  "stamp e t =
     (case last_fired e (trg_id t) of Some ts \<Rightarrow> t\<lparr>last_fired_at := Some ts\<rparr> | None \<Rightarrow> t)"

definition persist :: "bool \<Rightarrow> trigger_engine \<Rightarrow> (trigger_error + unit) \<times> trigger_engine" where
  "persist write_ok e =
     (if \<not> persisted e then (Inr (), e)
      else if \<not> write_ok then (Inl WriteFailed, e)
      else (Inr (), e\<lparr>disk := Some (map (stamp e \<circ> snd) (triggers e))\<rparr>))"

section \<open>Managing triggers\<close>

definition agent_has_pattern :: "trigger_engine \<Rightarrow> agent_id \<Rightarrow> trigger_pattern \<Rightarrow> bool" where
  "agent_has_pattern e a pat =
     (case agent_triggers e a of
        None \<Rightarrow> False
      | Some ids \<Rightarrow>
          list_ex (\<lambda>i. case map_of (triggers e) i of Some t \<Rightarrow> trg_pattern t = pat | None \<Rightarrow> False) ids)"

definition index_push :: "agent_id \<Rightarrow> trigger_id list \<Rightarrow> (agent_id \<rightharpoonup> trigger_id list) \<Rightarrow> (agent_id \<rightharpoonup> trigger_id list)" where
  "index_push a is ix = ix(a \<mapsto> (case ix a of Some l \<Rightarrow> l | None \<Rightarrow> []) @ is)"

definition insert_trigger :: "trigger \<Rightarrow> trigger_engine \<Rightarrow> trigger_engine" where
  "insert_trigger t e =
     e\<lparr>triggers := AList.update (trg_id t) t (triggers e),
       agent_triggers := index_push (trg_agent t) [trg_id t] (agent_triggers e)\<rparr>"

definition register_with_target ::
  "trigger_id \<Rightarrow> instant \<Rightarrow> agent_id \<Rightarrow> trigger_pattern \<Rightarrow> string \<Rightarrow> u64 \<Rightarrow> agent_id option
   \<Rightarrow> u64 option \<Rightarrow> session_mode option \<Rightarrow> trigger_engine \<Rightarrow> trigger_engine" where
  "register_with_target i now a pat prompt maxf target cooldown mode e =
     insert_trigger
       \<lparr>trg_id = i, trg_agent = a, trg_pattern = pat, prompt_template = prompt, trg_enabled = True,
        trg_created_at = now, fire_count = 0, max_fires = maxf, target_agent = target,
        cooldown_secs = cooldown, trg_session_mode = mode, last_fired_at = None\<rparr> e"

definition register ::
  "trigger_id \<Rightarrow> instant \<Rightarrow> agent_id \<Rightarrow> trigger_pattern \<Rightarrow> string \<Rightarrow> u64 \<Rightarrow> trigger_engine \<Rightarrow> trigger_engine" where
  "register i now a pat prompt maxf e = register_with_target i now a pat prompt maxf None None None e"

definition register_cross_agent_trigger ::
  "trigger_id \<Rightarrow> instant \<Rightarrow> agent_id \<Rightarrow> agent_id \<Rightarrow> trigger_pattern \<Rightarrow> string \<Rightarrow> trigger_engine \<Rightarrow> trigger_engine" where
  "register_cross_agent_trigger i now owner target pat prompt e =
     register_with_target i now owner pat prompt 0 (Some target) None None e"

definition remove :: "trigger_id \<Rightarrow> trigger_engine \<Rightarrow> bool \<times> trigger_engine" where
  "remove i e =
     (case map_of (triggers e) i of
        None \<Rightarrow> (False, e)
      | Some t \<Rightarrow>
          (True,
           e\<lparr>triggers := AList.delete i (triggers e),
             agent_triggers :=
               (case agent_triggers e (trg_agent t) of
                  Some l \<Rightarrow> (agent_triggers e)(trg_agent t \<mapsto> filter (\<lambda>j. j \<noteq> i) l)
                | None \<Rightarrow> agent_triggers e),
             last_fired := (last_fired e)(i := None)\<rparr>))"

definition drop_trigger :: "trigger_id \<Rightarrow> trigger_engine \<Rightarrow> trigger_engine" where
  "drop_trigger i e =
     e\<lparr>triggers := AList.delete i (triggers e), last_fired := (last_fired e)(i := None)\<rparr>"

definition remove_agent_triggers :: "agent_id \<Rightarrow> trigger_engine \<Rightarrow> trigger_engine" where
  "remove_agent_triggers a e =
     (case agent_triggers e a of
        None \<Rightarrow> e
      | Some ids \<Rightarrow> fold drop_trigger ids (e\<lparr>agent_triggers := (agent_triggers e)(a := None)\<rparr>))"

fun take_triggers :: "trigger_id list \<Rightarrow> trigger_engine \<Rightarrow> trigger list \<times> trigger_engine" where
  "take_triggers [] e = ([], e)"
| "take_triggers (i # is) e =
     (case map_of (triggers e) i of
        None \<Rightarrow> take_triggers is e
      | Some t \<Rightarrow> (let (ts, e') = take_triggers is (drop_trigger i e) in (t # ts, e')))"

definition take_agent_triggers :: "agent_id \<Rightarrow> trigger_engine \<Rightarrow> trigger list \<times> trigger_engine" where
  "take_agent_triggers a e =
     take_triggers (case agent_triggers e a of Some ids \<Rightarrow> ids | None \<Rightarrow> [])
       (e\<lparr>agent_triggers := (agent_triggers e)(a := None)\<rparr>)"

definition restore_triggers ::
  "agent_id \<Rightarrow> (trigger_id \<times> trigger) list \<Rightarrow> trigger_engine \<Rightarrow> trigger_engine" where
  "restore_triggers a olds e =
     fold (\<lambda>(new_id, old). insert_trigger (old\<lparr>trg_id := new_id, trg_agent := a\<rparr>)) olds e"

definition modify_trigger :: "trigger_id \<Rightarrow> (trigger \<Rightarrow> trigger) \<Rightarrow> trigger_engine \<Rightarrow> trigger_engine" where
  "modify_trigger i f e =
     (case map_of (triggers e) i of
        Some t \<Rightarrow> e\<lparr>triggers := AList.update i (f t) (triggers e)\<rparr>
      | None \<Rightarrow> e)"

definition reassign_agent_triggers :: "agent_id \<Rightarrow> agent_id \<Rightarrow> trigger_engine \<Rightarrow> nat \<times> trigger_engine" where
  "reassign_agent_triggers old_agent new_agent e =
     (let ids = (case agent_triggers e old_agent of Some l \<Rightarrow> l | None \<Rightarrow> []);
          e1 = fold (\<lambda>i. modify_trigger i (\<lambda>t. t\<lparr>trg_agent := new_agent\<rparr>)) ids
                 (e\<lparr>agent_triggers := (agent_triggers e)(old_agent := None)\<rparr>)
      in (length ids,
          if ids = [] then e1
          else e1\<lparr>agent_triggers := index_push new_agent ids (agent_triggers e1)\<rparr>))"

definition set_enabled :: "trigger_id \<Rightarrow> bool \<Rightarrow> trigger_engine \<Rightarrow> bool \<times> trigger_engine" where
  "set_enabled i b e =
     (map_of (triggers e) i \<noteq> None, modify_trigger i (\<lambda>t. t\<lparr>trg_enabled := b\<rparr>) e)"

definition patched :: "'a \<Rightarrow> 'a option \<Rightarrow> 'a" where
  "patched old new = (case new of Some v \<Rightarrow> v | None \<Rightarrow> old)"

definition apply_patch :: "trigger_patch \<Rightarrow> trigger \<Rightarrow> trigger" where
  "apply_patch p t =
     t\<lparr>trg_pattern := patched (trg_pattern t) (p_pattern p),
       prompt_template := patched (prompt_template t) (p_prompt_template p),
       trg_enabled := patched (trg_enabled t) (p_enabled p),
       max_fires := patched (max_fires t) (p_max_fires p),
       cooldown_secs := patched (cooldown_secs t) (p_cooldown_secs p),
       trg_session_mode := patched (trg_session_mode t) (p_session_mode p),
       target_agent := patched (target_agent t) (p_target_agent p)\<rparr>"

definition update_trigger :: "trigger_id \<Rightarrow> trigger_patch \<Rightarrow> trigger_engine \<Rightarrow> trigger option \<times> trigger_engine" where
  "update_trigger i p e =
     (case map_of (triggers e) i of
        None \<Rightarrow> (None, e)
      | Some t \<Rightarrow>
          let e1 = modify_trigger i (apply_patch p) e;
              e2 = (if p_pattern p \<noteq> None
                    then e1\<lparr>last_fired := (last_fired e1)(trg_id t := None)\<rparr> else e1)
          in (map_of (triggers e2) (trg_id t), e2))"

definition get_trigger :: "trigger_engine \<Rightarrow> trigger_id \<Rightarrow> trigger option" where
  "get_trigger e i = map_of (triggers e) i"

definition list_agent_triggers :: "trigger_engine \<Rightarrow> agent_id \<Rightarrow> trigger list" where
  "list_agent_triggers e a =
     (case agent_triggers e a of
        Some ids \<Rightarrow> List.map_filter (map_of (triggers e)) ids
      | None \<Rightarrow> [])"

definition list_all_triggers :: "trigger_engine \<Rightarrow> trigger list" where
  "list_all_triggers e = map snd (triggers e)"

section \<open>Describing an event\<close>

record event_fmt =
  uuid_str :: "128 word \<Rightarrow> string"
  fixed_str :: "nat \<Rightarrow> f64 \<Rightarrow> string"
  debug_network :: "network_event \<Rightarrow> string"
  debug_system :: "system_event \<Rightarrow> string"
  parse_custom :: "string \<Rightarrow> (string option \<times> string) option"

fun debug_role :: "message_role \<Rightarrow> string" where
  "debug_role RoleUser = ''User''"
| "debug_role RoleAgent = ''Agent''"
| "debug_role RoleSystem = ''System''"
| "debug_role RoleTool = ''Tool''"

fun debug_operation :: "memory_operation \<Rightarrow> string" where
  "debug_operation OpCreated = ''Created''"
| "debug_operation OpUpdated = ''Updated''"
| "debug_operation OpDeleted = ''Deleted''"

fun describe_lifecycle :: "event_fmt \<Rightarrow> lifecycle_event \<Rightarrow> string" where
  "describe_lifecycle fm (Spawned a n) = ''Agent '' @ [CHR 0x27] @ n @ [CHR 0x27] @ '' (id: '' @ uuid_str fm a @ '') was spawned''"
| "describe_lifecycle fm (Started a) = ''Agent '' @ uuid_str fm a @ '' started''"
| "describe_lifecycle fm (AgentSuspended a) = ''Agent '' @ uuid_str fm a @ '' suspended''"
| "describe_lifecycle fm (Resumed a) = ''Agent '' @ uuid_str fm a @ '' resumed''"
| "describe_lifecycle fm (AgentTerminated a reason) = ''Agent '' @ uuid_str fm a @ '' terminated: '' @ reason"
| "describe_lifecycle fm (AgentCrashed a err) = ''Agent '' @ uuid_str fm a @ '' crashed: '' @ err"

fun describe_system :: "event_fmt \<Rightarrow> system_event \<Rightarrow> string" where
  "describe_system fm KernelStarted = ''Kernel started''"
| "describe_system fm KernelStopping = ''Kernel stopping''"
| "describe_system fm (QuotaWarning a resource pct) =
     ''Quota warning: agent '' @ uuid_str fm a @ '', '' @ resource @ '' at '' @ fixed_str fm 1 pct @ ''%''"
| "describe_system fm (HealthCheck status) = ''Health check: '' @ status"
| "describe_system fm (QuotaEnforced a spent limit) =
     ''Quota enforced: agent '' @ uuid_str fm a @ '', spent $'' @ fixed_str fm 4 spent
     @ '' / $'' @ fixed_str fm 4 limit"
| "describe_system fm (ModelRouted a complexity model) =
     ''Model routed: agent '' @ uuid_str fm a @ '', complexity='' @ complexity @ '', model='' @ model"
| "describe_system fm (UserAction user act result) =
     ''User action: '' @ user @ '' '' @ act @ '' -> '' @ result"
| "describe_system fm (HealthCheckFailed a secs) =
     ''Health check failed: agent '' @ uuid_str fm a @ '', unresponsive for '' @ show_nat (unat secs) @ ''s''"
| "describe_system fm (TaskPosted task title assigned creator) =
     ''Task posted: '' @ task @ '' '' @ [CHR 0x22] @ title @ [CHR 0x22]"
| "describe_system fm (TaskClaimed task who) = ''Task claimed: '' @ task @ '' by '' @ who"
| "describe_system fm (TaskCompleted task who result) =
     ''Task completed: '' @ task @ '' by '' @ who @ '' result='' @ result"

text \<open>
  \<open>None\<close> is the panic of slicing a text at a byte that is not a character boundary, which is
  how the summary of a custom event is cut.
\<close>

definition custom_summary :: "string \<Rightarrow> string option" where
  "custom_summary s =
     (if length s > 300 then
        if is_char_boundary s 300 then Some (take 300 s @ ''...'') else None
      else Some s)"

fun describe_payload :: "event_fmt \<Rightarrow> 'j event_payload \<Rightarrow> string option" where
  "describe_payload fm (MessagePayload m) =
     Some (''Message from '' @ debug_role (am_role m) @ '': '' @ am_content m)"
| "describe_payload fm (ToolResultPayload tr) =
     Some (''Tool '' @ [CHR 0x27] @ to_tool_id tr @ [CHR 0x27] @ '' ''
           @ (if to_success tr then ''succeeded'' else ''failed'') @ '' (''
           @ show_nat (unat (to_execution_time_ms tr)) @ ''ms): '' @ safe_truncate_str (to_content tr) 200)"
| "describe_payload fm (MemoryUpdatePayload d) =
     Some (''Memory '' @ debug_operation (md_operation d) @ '' on key '' @ [CHR 0x27] @ md_key d
           @ [CHR 0x27] @ '' for agent '' @ uuid_str fm (md_agent_id d))"
| "describe_payload fm (LifecyclePayload le) = Some (describe_lifecycle fm le)"
| "describe_payload fm (NetworkPayload ne) = Some (''Network event: '' @ debug_network fm ne)"
| "describe_payload fm (SystemPayload se) = Some (describe_system fm se)"
| "describe_payload fm (ApprovalRequestedPayload ar) =
     Some (''Approval requested: agent '' @ arq_agent_id ar @ '' wants to use tool '' @ [CHR 0x27]
           @ arq_tool_name ar @ [CHR 0x27] @ '' (risk: '' @ arq_risk_level ar @ ''): '' @ arq_description ar)"
| "describe_payload fm (ApprovalResolvedPayload ar) =
     Some (''Approval resolved: request '' @ ars_request_id ar @ '' ''
           @ [CHR 0xE2, CHR 0x80, CHR 0x94] @ '' '' @ ars_decision ar)"
| "describe_payload fm (CustomPayload data) =
     (case parse_custom fm data of
        Some (ty, json_text) \<Rightarrow>
          map_option
            (\<lambda>summary. ''Custom event: type='' @ (case ty of Some t \<Rightarrow> t | None \<Rightarrow> ''unknown'')
                        @ '', payload='' @ summary)
            (custom_summary json_text)
      | None \<Rightarrow> Some (''Custom event ('' @ show_nat (length data) @ '' bytes)''))"

definition describe_event :: "event_fmt \<Rightarrow> 'j event \<Rightarrow> string option" where
  "describe_event fm ev = describe_payload fm (ev_payload ev)"

section \<open>Matching\<close>

definition assignee_matches ::
  "event_fmt \<Rightarrow> string option \<Rightarrow> string option \<Rightarrow> (agent_id \<times> string option) option \<Rightarrow> bool" where
  "assignee_matches fm assignee assigned_to owner =
     (case assignee of
        None \<Rightarrow> True
      | Some flt \<Rightarrow>
          (case assigned_to of
             None \<Rightarrow> False
           | Some assigned \<Rightarrow>
               if flt = ''self'' then
                 (case owner of
                    Some (a, name) \<Rightarrow> assigned = uuid_str fm a \<or> name = Some assigned
                  | None \<Rightarrow> False)
               else assigned = flt))"

fun matches_pattern ::
  "event_fmt \<Rightarrow> trigger_pattern \<Rightarrow> 'j event \<Rightarrow> string \<Rightarrow> (agent_id \<times> string option) option \<Rightarrow> bool" where
  "matches_pattern fm OnAll ev desc owner \<longleftrightarrow> True"
| "matches_pattern fm OnLifecycle ev desc owner \<longleftrightarrow>
     (case ev_payload ev of LifecyclePayload _ \<Rightarrow> True | _ \<Rightarrow> False)"
| "matches_pattern fm (OnAgentSpawned name_pattern) ev desc owner \<longleftrightarrow>
     (case ev_payload ev of
        LifecyclePayload (Spawned _ name) \<Rightarrow> contains_str name_pattern name \<or> name_pattern = ''*''
      | _ \<Rightarrow> False)"
| "matches_pattern fm OnAgentTerminated ev desc owner \<longleftrightarrow>
     (case ev_payload ev of
        LifecyclePayload (AgentTerminated _ _) \<Rightarrow> True
      | LifecyclePayload (AgentCrashed _ _) \<Rightarrow> True
      | _ \<Rightarrow> False)"
| "matches_pattern fm OnSystem ev desc owner \<longleftrightarrow>
     (case ev_payload ev of SystemPayload _ \<Rightarrow> True | _ \<Rightarrow> False)"
| "matches_pattern fm (OnSystemKeyword keyword) ev desc owner \<longleftrightarrow>
     (case ev_payload ev of
        SystemPayload se \<Rightarrow> contains_str (to_lowercase keyword) (to_lowercase (debug_system fm se))
      | _ \<Rightarrow> False)"
| "matches_pattern fm OnMemoryUpdate ev desc owner \<longleftrightarrow>
     (case ev_payload ev of MemoryUpdatePayload _ \<Rightarrow> True | _ \<Rightarrow> False)"
| "matches_pattern fm (OnMemoryKeyPattern key_pattern) ev desc owner \<longleftrightarrow>
     (case ev_payload ev of
        MemoryUpdatePayload d \<Rightarrow> contains_str key_pattern (md_key d) \<or> key_pattern = ''*''
      | _ \<Rightarrow> False)"
| "matches_pattern fm (OnContentMatch substring) ev desc owner \<longleftrightarrow>
     contains_str (to_lowercase substring) (to_lowercase desc)"
| "matches_pattern fm (OnTaskPosted assignee) ev desc owner \<longleftrightarrow>
     (case ev_payload ev of
        SystemPayload (TaskPosted _ _ assigned_to _) \<Rightarrow> assignee_matches fm assignee assigned_to owner
      | _ \<Rightarrow> False)"
| "matches_pattern fm OnTaskClaimed ev desc owner \<longleftrightarrow>
     (case ev_payload ev of SystemPayload (TaskClaimed _ _) \<Rightarrow> True | _ \<Rightarrow> False)"
| "matches_pattern fm OnTaskCompleted ev desc owner \<longleftrightarrow>
     (case ev_payload ev of SystemPayload (TaskCompleted _ _ _) \<Rightarrow> True | _ \<Rightarrow> False)"

section \<open>Evaluation\<close>

definition EVENT_SLOT :: string where "EVENT_SLOT = ''{{event}}''"

definition cooldown_of :: "trigger_engine \<Rightarrow> trigger \<Rightarrow> int" where
  "cooldown_of e t =
     10 ^ 9 * uint (case cooldown_secs t of Some s \<Rightarrow> s | None \<Rightarrow> default_cooldown_secs e)"

definition cooling_down :: "trigger_engine \<Rightarrow> trigger \<Rightarrow> instant \<Rightarrow> bool" where
  "cooling_down e t now \<longleftrightarrow>
     cooldown_of e t \<noteq> 0
     \<and> (case last_fired e (trg_id t) of
          Some fired \<Rightarrow> max 0 (now - fired) < cooldown_of e t
        | None \<Rightarrow> False)"

definition spent :: "trigger \<Rightarrow> bool" where
  "spent t \<longleftrightarrow> max_fires t > 0 \<and> fire_count t \<ge> max_fires t"

definition render :: "string \<Rightarrow> trigger \<Rightarrow> trigger_match" where
  "render desc t =
     \<lparr>tm_agent = (case target_agent t of Some a \<Rightarrow> a | None \<Rightarrow> trg_agent t),
      tm_message = replace_str EVENT_SLOT desc (prompt_template t),
      tm_session_mode = trg_session_mode t\<rparr>"

definition fire :: "trigger_id \<Rightarrow> trigger \<Rightarrow> instant \<Rightarrow> trigger_engine \<Rightarrow> trigger_engine" where
  "fire i t now e =
     e\<lparr>triggers := AList.update i (t\<lparr>fire_count := fire_count t + 1\<rparr>) (triggers e),
       last_fired := (last_fired e)(trg_id t \<mapsto> now)\<rparr>"

fun evaluate_loop ::
  "event_fmt \<Rightarrow> 'j event \<Rightarrow> string \<Rightarrow> (agent_id \<Rightarrow> string option) \<Rightarrow> instant \<Rightarrow> nat \<Rightarrow> trigger_id list
   \<Rightarrow> trigger_engine \<Rightarrow> trigger_match list \<times> bool \<times> trigger_engine" where
  "evaluate_loop fm ev desc name now n [] e = ([], False, e)"
| "evaluate_loop fm ev desc name now n (i # is) e =
     (case map_of (triggers e) i of
        None \<Rightarrow> evaluate_loop fm ev desc name now n is e
      | Some t \<Rightarrow>
          if \<not> trg_enabled t then evaluate_loop fm ev desc name now n is e
          else if spent t then
            (let (ms, _, e') =
               evaluate_loop fm ev desc name now n is
                 (e\<lparr>triggers := AList.update i (t\<lparr>trg_enabled := False\<rparr>) (triggers e)\<rparr>)
             in (ms, True, e'))
          else if cooling_down e t now then evaluate_loop fm ev desc name now n is e
          else if matches_pattern fm (trg_pattern t) ev desc (Some (trg_agent t, name (trg_agent t))) then
            (if n \<ge> max_triggers_per_event e then ([], False, e)
             else
               (let (ms, _, e') = evaluate_loop fm ev desc name now (Suc n) is (fire i t now e)
                in (render desc t # ms, True, e')))
          else evaluate_loop fm ev desc name now n is e)"

definition evaluate_with_resolver ::
  "event_fmt \<Rightarrow> 'j event \<Rightarrow> (agent_id \<Rightarrow> string option) \<Rightarrow> instant \<Rightarrow> trigger_engine
   \<Rightarrow> (trigger_match list \<times> bool \<times> trigger_engine) option" where
  "evaluate_with_resolver fm ev name now e =
     map_option
       (\<lambda>desc. evaluate_loop fm ev desc name now 0 (sort (map fst (triggers e))) e)
       (describe_event fm ev)"

definition evaluate ::
  "event_fmt \<Rightarrow> 'j event \<Rightarrow> instant \<Rightarrow> trigger_engine \<Rightarrow> (trigger_match list \<times> bool \<times> trigger_engine) option" where
  "evaluate fm ev now e = evaluate_with_resolver fm ev (\<lambda>_. None) now e"

section \<open>The kernel's entry points\<close>

text \<open>
  The kernel saves the triggers after every change and only logs a failure to do so. Publishing
  an event evaluates the triggers first, then hands the event to the bus; inside a chain of
  triggered messages it does neither once the chain is \<open>max_depth\<close> deep.
\<close>

datatype kernel_trigger_error = AgentNotFound agent_id

definition saved :: "bool \<Rightarrow> trigger_engine \<Rightarrow> trigger_engine" where
  "saved write_ok e = snd (persist write_ok e)"

definition register_trigger_with_target ::
  "(agent_id \<Rightarrow> bool) \<Rightarrow> bool \<Rightarrow> trigger_id \<Rightarrow> instant \<Rightarrow> agent_id \<Rightarrow> trigger_pattern \<Rightarrow> string \<Rightarrow> u64
   \<Rightarrow> agent_id option \<Rightarrow> u64 option \<Rightarrow> session_mode option \<Rightarrow> trigger_engine
   \<Rightarrow> (kernel_trigger_error + trigger_id) \<times> trigger_engine" where
  "register_trigger_with_target exists write_ok i now a pat prompt maxf target cooldown mode e =
     (if \<not> exists a then (Inl (AgentNotFound a), e)
      else case target of
             Some b \<Rightarrow>
               if \<not> exists b then (Inl (AgentNotFound b), e)
               else (Inr i, saved write_ok (register_with_target i now a pat prompt maxf target cooldown mode e))
           | None \<Rightarrow>
               (Inr i, saved write_ok (register_with_target i now a pat prompt maxf target cooldown mode e)))"

definition remove_trigger :: "bool \<Rightarrow> trigger_id \<Rightarrow> trigger_engine \<Rightarrow> bool \<times> trigger_engine" where
  "remove_trigger write_ok i e =
     (let (removed, e') = remove i e in (removed, if removed then saved write_ok e' else e'))"

definition set_trigger_enabled :: "bool \<Rightarrow> trigger_id \<Rightarrow> bool \<Rightarrow> trigger_engine \<Rightarrow> bool \<times> trigger_engine" where
  "set_trigger_enabled write_ok i b e =
     (let (found, e') = set_enabled i b e in (found, if found then saved write_ok e' else e'))"

definition list_triggers :: "trigger_engine \<Rightarrow> agent_id option \<Rightarrow> trigger list" where
  "list_triggers e a =
     (case a of Some i \<Rightarrow> list_agent_triggers e i | None \<Rightarrow> list_all_triggers e)"

definition kernel_update_trigger ::
  "bool \<Rightarrow> trigger_id \<Rightarrow> trigger_patch \<Rightarrow> trigger_engine \<Rightarrow> trigger option \<times> trigger_engine" where
  "kernel_update_trigger write_ok i p e =
     (let (r, e') = update_trigger i p e in (r, if r \<noteq> None then saved write_ok e' else e'))"

definition publish_event_inner ::
  "event_fmt \<Rightarrow> nat \<Rightarrow> (agent_id \<Rightarrow> string option) \<Rightarrow> bool \<Rightarrow> instant \<Rightarrow> u32 \<Rightarrow> 'j event
   \<Rightarrow> trigger_engine \<times> 'j event_bus
   \<Rightarrow> (trigger_match list \<times> trigger_engine \<times> 'j event_bus) option" where
  "publish_event_inner fm max_depth name write_ok now depth ev s =
     (let (e, b) = s
      in if depth \<ge> word_of_nat max_depth then Some ([], e, b)
         else map_option
           (\<lambda>(triggered, mutated, e').
              (triggered,
               if triggered \<noteq> [] \<or> mutated then saved write_ok e' else e',
               fst (publish now ev b)))
           (evaluate_with_resolver fm ev name now e))"

end
