(* ===== verification/TriggerProps.thy ===== *)
theory TriggerProps
  imports Triggers "HOL-Library.Multiset"
begin

text \<open>
  Properties of the trigger engine: the table and its index agree in every reachable state, an
  evaluation fires exactly the first eligible triggers in the order of their identifiers, and
  over any run of the kernel's operations, restarts included, a trigger fires no more often than
  its limit and never twice within its cooldown.
\<close>

lemmas table_simps = AList.update_conv' AList.delete_conv'

section \<open>The table and its index\<close>

definition owned :: "trigger_engine \<Rightarrow> agent_id \<Rightarrow> trigger_id list" where
  "owned e a = (case agent_triggers e a of Some l \<Rightarrow> l | None \<Rightarrow> [])"

abbreviation lookup_trigger :: "trigger_engine \<Rightarrow> trigger_id \<Rightarrow> trigger option" where
  "lookup_trigger e \<equiv> map_of (triggers e)"

definition table_ok :: "trigger_engine \<Rightarrow> bool" where
  "table_ok e \<longleftrightarrow>
     distinct (map fst (triggers e)) \<and> (\<forall>i t. lookup_trigger e i = Some t \<longrightarrow> trg_id t = i)"

definition index_ok :: "trigger_engine \<Rightarrow> bool" where
  "index_ok e \<longleftrightarrow>
     (\<forall>a. distinct (owned e a)
          \<and> set (owned e a) = {i. \<exists>t. lookup_trigger e i = Some t \<and> trg_agent t = a})"

definition engine_ok :: "trigger_engine \<Rightarrow> bool" where
  "engine_ok e \<longleftrightarrow> table_ok e \<and> index_ok e"

lemma engine_okD:
  assumes "engine_ok e"
  shows "distinct (map fst (triggers e))"
    and "lookup_trigger e i = Some t \<Longrightarrow> trg_id t = i"
    and "distinct (owned e a)"
    and "i \<in> set (owned e a) \<longleftrightarrow> (\<exists>t. lookup_trigger e i = Some t \<and> trg_agent t = a)"
  using assms by (auto simp: engine_ok_def table_ok_def index_ok_def)

lemma engine_okI:
  assumes "distinct (map fst (triggers e))"
    and "\<And>i t. lookup_trigger e i = Some t \<Longrightarrow> trg_id t = i"
    and "\<And>a. distinct (owned e a)"
    and "\<And>a i. i \<in> set (owned e a) \<longleftrightarrow> (\<exists>t. lookup_trigger e i = Some t \<and> trg_agent t = a)"
  shows "engine_ok e"
  using assms by (auto simp: engine_ok_def table_ok_def index_ok_def)

lemma owned_push:
  "owned (e\<lparr>agent_triggers := index_push a is (agent_triggers e)\<rparr>) b =
     owned e b @ (if b = a then is else [])"
  by (simp add: owned_def index_push_def split: option.split)

lemma insert_trigger_ok:
  assumes "engine_ok e" and "lookup_trigger e (trg_id t) = None"
  shows "engine_ok (insert_trigger t e)"
proof (rule engine_okI)
  show "distinct (map fst (triggers (insert_trigger t e)))"
    using engine_okD(1)[OF assms(1)] by (simp add: insert_trigger_def distinct_update)
  have fresh: "trg_id t \<notin> set (owned e a)" for a
    using assms by (simp add: engine_okD(4))
  have ow: "owned (insert_trigger t e) a = owned e a @ (if a = trg_agent t then [trg_id t] else [])" for a
    by (simp add: insert_trigger_def owned_def index_push_def split: option.split)
  have look: "lookup_trigger (insert_trigger t e) = (lookup_trigger e)(trg_id t \<mapsto> t)"
    by (simp add: insert_trigger_def table_simps)
  show "distinct (owned (insert_trigger t e) a)" for a
    using engine_okD(3)[OF assms(1), of a] fresh by (simp add: ow)
  show "i \<in> set (owned (insert_trigger t e) a) \<longleftrightarrow>
      (\<exists>t'. lookup_trigger (insert_trigger t e) i = Some t' \<and> trg_agent t' = a)" for a i
    using assms(2) engine_okD(4)[OF assms(1), of i a] by (auto simp: ow look)
  show "lookup_trigger (insert_trigger t e) i = Some t' \<Longrightarrow> trg_id t' = i" for i t'
    using engine_okD(2)[OF assms(1), of i t'] by (auto simp: look split: if_splits)
qed

text \<open>
  Rewriting an entry in place keeps the index when the entry keeps its identifier and its owner.
\<close>

lemma put_entry_ok:
  assumes "engine_ok e" and "lookup_trigger e i = Some t" and "trg_id t' = i" "trg_agent t' = trg_agent t"
    and "triggers e' = AList.update i t' (triggers e)" and "agent_triggers e' = agent_triggers e"
  shows "engine_ok e'"
proof (rule engine_okI)
  show "distinct (map fst (triggers e'))"
    using engine_okD(1)[OF assms(1)] by (simp add: assms(5) distinct_update)
  have ow: "owned e' a = owned e a" for a by (simp add: owned_def assms(6))
  show "distinct (owned e' a)" for a using engine_okD(3)[OF assms(1)] by (simp add: ow)
  show "j \<in> set (owned e' a) \<longleftrightarrow> (\<exists>u. lookup_trigger e' j = Some u \<and> trg_agent u = a)" for a j
    using assms engine_okD(4)[OF assms(1), of j a] by (auto simp: ow table_simps)
  show "lookup_trigger e' j = Some u \<Longrightarrow> trg_id u = j" for j u
    using engine_okD(2)[OF assms(1), of j u] assms(3) by (auto simp: assms(5) table_simps split: if_splits)
qed

lemma same_tables_ok:
  "engine_ok e \<Longrightarrow> triggers e' = triggers e \<Longrightarrow> agent_triggers e' = agent_triggers e \<Longrightarrow> engine_ok e'"
  by (simp add: engine_ok_def table_ok_def index_ok_def owned_def)

lemma modify_trigger_ok:
  assumes "engine_ok e" and "\<And>t. trg_id (f t) = trg_id t \<and> trg_agent (f t) = trg_agent t"
  shows "engine_ok (modify_trigger i f e)"
proof (cases "lookup_trigger e i")
  case None
  then show ?thesis using assms by (simp add: modify_trigger_def)
next
  case (Some t)
  then show ?thesis
    using put_entry_ok[OF assms(1) Some, of "f t"] assms(2) engine_okD(2)[OF assms(1) Some]
    by (simp add: modify_trigger_def)
qed

lemma remove_ok:
  assumes "engine_ok e"
  shows "engine_ok (snd (remove i e))"
proof (cases "lookup_trigger e i")
  case None
  then show ?thesis using assms by (simp add: remove_def)
next
  case (Some t)
  define e' where "e' = snd (remove i e)"
  have look: "lookup_trigger e' = (lookup_trigger e)(i := None)"
    by (simp add: e'_def remove_def Some table_simps)
  have ow: "owned e' a = filter (\<lambda>j. j \<noteq> i) (owned e a)" for a
  proof (cases "a = trg_agent t")
    case True
    then show ?thesis by (simp add: e'_def remove_def Some owned_def split: option.split)
  next
    case False
    then have "i \<notin> set (owned e a)" using Some by (simp add: engine_okD(4)[OF assms])
    then have "filter (\<lambda>j. j \<noteq> i) (owned e a) = owned e a" by (auto intro: filter_True)
    then show ?thesis using False by (simp add: e'_def remove_def Some owned_def split: option.split)
  qed
  have "engine_ok e'"
  proof (rule engine_okI)
    show "distinct (map fst (triggers e'))"
      using engine_okD(1)[OF assms] by (simp add: e'_def remove_def Some distinct_delete)
    show "distinct (owned e' a)" for a using engine_okD(3)[OF assms] by (simp add: ow)
    show "j \<in> set (owned e' a) \<longleftrightarrow> (\<exists>u. lookup_trigger e' j = Some u \<and> trg_agent u = a)" for a j
      using engine_okD(4)[OF assms, of j a] by (auto simp: ow look)
    show "lookup_trigger e' j = Some u \<Longrightarrow> trg_id u = j" for j u
      using engine_okD(2)[OF assms, of j u] by (auto simp: look split: if_splits)
  qed
  then show ?thesis by (simp add: e'_def)
qed

lemma fold_drop:
  "lookup_trigger (fold drop_trigger is e) = (lookup_trigger e) |` (- set is)"
  "last_fired (fold drop_trigger is e) = (last_fired e) |` (- set is)"
  "agent_triggers (fold drop_trigger is e) = agent_triggers e"
  "distinct (map fst (triggers e)) \<Longrightarrow> distinct (map fst (triggers (fold drop_trigger is e)))"
     apply (induction "is" arbitrary: e)
  by (auto simp: drop_trigger_def table_simps restrict_map_def fun_eq_iff distinct_delete)

lemma dropped_agent_ok:
  assumes "engine_ok e" and "e0 = e\<lparr>agent_triggers := (agent_triggers e)(a := None)\<rparr>"
  shows "engine_ok (fold drop_trigger (owned e a) e0)"
proof (rule engine_okI)
  let ?e = "fold drop_trigger (owned e a) e0"
  have look: "lookup_trigger ?e = (lookup_trigger e) |` (- set (owned e a))"
    by (simp add: fold_drop assms(2))
  have ow: "owned ?e b = (if b = a then [] else owned e b)" for b
    by (simp add: owned_def fold_drop assms(2))
  show "distinct (map fst (triggers ?e))"
    using engine_okD(1)[OF assms(1)] by (intro fold_drop) (simp add: assms(2))
  show "distinct (owned ?e b)" for b using engine_okD(3)[OF assms(1)] by (simp add: ow)
  show "j \<in> set (owned ?e b) \<longleftrightarrow> (\<exists>u. lookup_trigger ?e j = Some u \<and> trg_agent u = b)" for b j
    using engine_okD(4)[OF assms(1)] by (auto simp: ow look restrict_map_def)
  show "lookup_trigger ?e j = Some u \<Longrightarrow> trg_id u = j" for j u
    using engine_okD(2)[OF assms(1), of j u] by (auto simp: look restrict_map_def split: if_splits)
qed

lemma remove_agent_triggers_ok:
  assumes "engine_ok e" shows "engine_ok (remove_agent_triggers a e)"
proof (cases "agent_triggers e a")
  case None
  then show ?thesis using assms by (simp add: remove_agent_triggers_def)
next
  case (Some ids)
  then show ?thesis using dropped_agent_ok[OF assms refl, of a]
    by (simp add: remove_agent_triggers_def owned_def)
qed

lemma take_triggers_eq:
  assumes "\<forall>i \<in> set is. lookup_trigger e i \<noteq> None" and "distinct is"
  shows "take_triggers is e = (map (the \<circ> lookup_trigger e) is, fold drop_trigger is e)"
  using assms
proof (induction "is" arbitrary: e)
  case (Cons i "is")
  obtain t where t: "lookup_trigger e i = Some t" using Cons.prems by auto
  have look: "lookup_trigger (drop_trigger i e) j = lookup_trigger e j" if "j \<in> set is" for j
    using Cons.prems that by (auto simp: drop_trigger_def table_simps)
  then have "take_triggers is (drop_trigger i e) =
      (map (the \<circ> lookup_trigger (drop_trigger i e)) is, fold drop_trigger is (drop_trigger i e))"
    using Cons.prems by (intro Cons.IH) simp_all
  with look show ?case by (simp add: t)
qed simp

lemma take_agent_triggers_eq:
  assumes "engine_ok e"
  shows "take_agent_triggers a e =
     (list_agent_triggers e a,
      fold drop_trigger (owned e a) (e\<lparr>agent_triggers := (agent_triggers e)(a := None)\<rparr>))"
proof -
  let ?e = "e\<lparr>agent_triggers := (agent_triggers e)(a := None)\<rparr>"
  have present: "\<forall>i \<in> set (owned e a). lookup_trigger ?e i \<noteq> None"
    using engine_okD(4)[OF assms, of _ a] by auto
  have "take_agent_triggers a e = take_triggers (owned e a) ?e"
    by (simp add: take_agent_triggers_def owned_def)
  also have "\<dots> = (map (the \<circ> lookup_trigger e) (owned e a), fold drop_trigger (owned e a) ?e)"
    using take_triggers_eq[OF present engine_okD(3)[OF assms]] by simp
  also have "map (the \<circ> lookup_trigger e) (owned e a) = List.map_filter (lookup_trigger e) (owned e a)"
    using present by (induction "owned e a") (auto simp: List.map_filter_def intro!: filter_True[symmetric] map_cong)
  also have "List.map_filter (lookup_trigger e) (owned e a) = list_agent_triggers e a"
    by (simp add: list_agent_triggers_def owned_def List.map_filter_simps split: option.split)
  finally show ?thesis .
qed

lemma restore_triggers_ok:
  assumes "engine_ok e" and "distinct (map fst olds)" and "\<forall>i \<in> set (map fst olds). lookup_trigger e i = None"
  shows "engine_ok (restore_triggers a olds e)"
  using assms
proof (induction olds arbitrary: e)
  case Nil
  then show ?case by (simp add: restore_triggers_def)
next
  case (Cons x olds)
  obtain i t where x: "x = (i, t)" by (cases x)
  let ?e = "insert_trigger (t\<lparr>trg_id := i, trg_agent := a\<rparr>) e"
  have "engine_ok ?e" using Cons.prems by (intro insert_trigger_ok) (simp_all add: x)
  moreover have "\<forall>j \<in> set (map fst olds). lookup_trigger ?e j = None"
    using Cons.prems by (auto simp: x insert_trigger_def table_simps)
  ultimately have "engine_ok (restore_triggers a olds ?e)" using Cons.prems by (intro Cons.IH) simp_all
  then show ?case by (simp add: restore_triggers_def x)
qed

lemma fold_modify_lookup:
  "distinct is \<Longrightarrow> lookup_trigger (fold (\<lambda>i. modify_trigger i f) is e) j =
     (if j \<in> set is then map_option f (lookup_trigger e j) else lookup_trigger e j)"
  by (induction "is" arbitrary: e) (auto simp: modify_trigger_def table_simps split: option.split)

lemma fold_modify_keeps:
  "agent_triggers (fold (\<lambda>i. modify_trigger i f) is e) = agent_triggers e"
  "distinct (map fst (triggers e)) \<Longrightarrow> distinct (map fst (triggers (fold (\<lambda>i. modify_trigger i f) is e)))"
  by (induction "is" arbitrary: e) (simp_all add: modify_trigger_def distinct_update split: option.split)

lemma reassign_ok:
  assumes "engine_ok e"
  shows "engine_ok (snd (reassign_agent_triggers a b e))"
proof -
  let ?ids = "owned e a"
  let ?f = "\<lambda>t. t\<lparr>trg_agent := b\<rparr>"
  define e1 where "e1 = fold (\<lambda>i. modify_trigger i ?f) ?ids (e\<lparr>agent_triggers := (agent_triggers e)(a := None)\<rparr>)"
  define e2 where "e2 = snd (reassign_agent_triggers a b e)"
  have e2: "e2 = (if ?ids = [] then e1 else e1\<lparr>agent_triggers := index_push b ?ids (agent_triggers e1)\<rparr>)"
    by (simp add: e2_def e1_def reassign_agent_triggers_def Let_def owned_def)
  have look: "lookup_trigger e2 j =
      (if j \<in> set ?ids then map_option ?f (lookup_trigger e j) else lookup_trigger e j)" for j
    using fold_modify_lookup[OF engine_okD(3)[OF assms, of a]] by (simp add: e2 e1_def)
  have ow1: "owned e1 c = (if c = a then [] else owned e c)" for c
    by (simp add: owned_def e1_def fold_modify_keeps)
  have ow: "owned e2 c = (if c = a then [] else owned e c) @ (if c = b then ?ids else [])" for c
    by (simp add: e2 owned_push ow1)
  have "engine_ok e2"
  proof (rule engine_okI)
    show "distinct (map fst (triggers e2))"
      using engine_okD(1)[OF assms] by (simp add: e2 e1_def fold_modify_keeps)
    have "set (owned e b) \<inter> set ?ids = {}" if "b \<noteq> a"
      using that engine_okD(4)[OF assms] by auto
    then show "distinct (owned e2 c)" for c using engine_okD(3)[OF assms] by (simp add: ow)
    show "j \<in> set (owned e2 c) \<longleftrightarrow> (\<exists>u. lookup_trigger e2 j = Some u \<and> trg_agent u = c)" for c j
      using engine_okD(4)[OF assms, of j] by (auto simp: ow look)
    show "lookup_trigger e2 j = Some u \<Longrightarrow> trg_id u = j" for j u
      using engine_okD(2)[OF assms, of j] by (auto simp: look split: if_splits)
  qed
  then show ?thesis by (simp add: e2_def)
qed

section \<open>What an evaluation does\<close>

definition eligible ::
  "event_fmt \<Rightarrow> 'j event \<Rightarrow> string \<Rightarrow> (agent_id \<Rightarrow> string option) \<Rightarrow> instant \<Rightarrow> trigger_engine \<Rightarrow> trigger \<Rightarrow> bool" where
  "eligible fm ev desc name now e t \<longleftrightarrow>
     trg_enabled t \<and> \<not> spent t \<and> \<not> cooling_down e t now
     \<and> matches_pattern fm (trg_pattern t) ev desc (Some (trg_agent t, name (trg_agent t)))"

definition selected ::
  "event_fmt \<Rightarrow> 'j event \<Rightarrow> string \<Rightarrow> (agent_id \<Rightarrow> string option) \<Rightarrow> instant \<Rightarrow> nat \<Rightarrow> trigger_id list
   \<Rightarrow> trigger_engine \<Rightarrow> trigger list" where
  "selected fm ev desc name now n is e =
     take (max_triggers_per_event e - n)
       (filter (eligible fm ev desc name now e) (List.map_filter (lookup_trigger e) is))"

definition same_frame :: "trigger_engine \<Rightarrow> trigger_engine \<Rightarrow> bool" where
  "same_frame e e' \<longleftrightarrow>
     agent_triggers e' = agent_triggers e
     \<and> max_triggers_per_event e' = max_triggers_per_event e
     \<and> default_cooldown_secs e' = default_cooldown_secs e
     \<and> persisted e' = persisted e \<and> disk e' = disk e"

text \<open>
  What may happen to an entry: it fires, or it is switched off because its limit is reached.
\<close>

definition entry_step :: "bool \<Rightarrow> trigger \<Rightarrow> trigger \<Rightarrow> bool" where
  "entry_step fired t t' \<longleftrightarrow>
     (if fired then t' = t\<lparr>fire_count := fire_count t + 1\<rparr>
      else t' = t \<or> spent t \<and> t' = t\<lparr>trg_enabled := False\<rparr>)"

lemma selected_cong:
  assumes "table_ok e" and "i \<notin> set is"
    and "lookup_trigger e1 = (lookup_trigger e)(i \<mapsto> u)" and "\<And>j. j \<noteq> i \<Longrightarrow> last_fired e1 j = last_fired e j"
    and "max_triggers_per_event e1 = max_triggers_per_event e"
    and "default_cooldown_secs e1 = default_cooldown_secs e"
  shows "selected fm ev desc name now n is e1 = selected fm ev desc name now n is e"
proof -
  have mf: "List.map_filter (lookup_trigger e1) is = List.map_filter (lookup_trigger e) is"
    using assms(2,3) unfolding List.map_filter_def by (intro map_cong filter_cong) auto
  have "eligible fm ev desc name now e1 t = eligible fm ev desc name now e t"
    if "t \<in> set (List.map_filter (lookup_trigger e) is)" for t
  proof -
    from that obtain j where j: "j \<in> set is" "lookup_trigger e j = Some t"
      by (auto simp: List.map_filter_def)
    then have "trg_id t = j" using assms(1) by (simp add: table_ok_def)
    then have "last_fired e1 (trg_id t) = last_fired e (trg_id t)" using assms(2) j(1) by (intro assms(4)) auto
    moreover have "cooldown_of e1 t = cooldown_of e t" by (simp add: cooldown_of_def assms(6) cong: option.case_cong)
    ultimately show ?thesis by (simp add: eligible_def cooling_down_def cong: option.case_cong)
  qed
  then show ?thesis unfolding selected_def mf assms(5) by (intro arg_cong2[where f = take] filter_cong) auto
qed

lemma selected_ids:
  assumes "table_ok e" and "t \<in> set (selected fm ev desc name now n is e)"
  shows "trg_id t \<in> set is" and "lookup_trigger e (trg_id t) = Some t" and "eligible fm ev desc name now e t"
proof -
  from assms(2) have "t \<in> set (List.map_filter (lookup_trigger e) is)" and *: "eligible fm ev desc name now e t"
    by (auto simp: selected_def dest: in_set_takeD)
  then obtain j where "j \<in> set is" "lookup_trigger e j = Some t" by (auto simp: List.map_filter_def)
  with assms(1) show "trg_id t \<in> set is" "lookup_trigger e (trg_id t) = Some t" by (auto simp: table_ok_def)
  show "eligible fm ev desc name now e t" by (fact *)
qed

definition loop_spec ::
  "trigger_id list \<Rightarrow> trigger list \<Rightarrow> string \<Rightarrow> instant \<Rightarrow> trigger_engine
   \<Rightarrow> trigger_match list \<times> bool \<times> trigger_engine \<Rightarrow> bool" where
  "loop_spec is sel desc now e r \<longleftrightarrow>
     (case r of (ms, mutated, e') \<Rightarrow>
        ms = map (render desc) sel
        \<and> last_fired e' = override_on (last_fired e) (\<lambda>_. Some now) (trg_id ` set sel)
        \<and> (\<forall>j \<in> set is. rel_option (entry_step (j \<in> trg_id ` set sel)) (lookup_trigger e j) (lookup_trigger e' j))
        \<and> (\<forall>j. j \<notin> set is \<longrightarrow> lookup_trigger e' j = lookup_trigger e j)
        \<and> same_frame e e' \<and> (\<not> mutated \<longrightarrow> e' = e)
        \<and> map fst (triggers e') = map fst (triggers e))"

lemma loop_spec_refl: "loop_spec is [] desc now e ([], False, e)"
  by (simp add: loop_spec_def same_frame_def entry_step_def option.rel_refl)

lemma loop_spec_Cons:
  "loop_spec is sel desc now e (ms, b, e') \<Longrightarrow> i \<notin> set is \<Longrightarrow> i \<notin> trg_id ` set sel
   \<Longrightarrow> loop_spec (i # is) sel desc now e (ms, b, e')"
  by (auto simp: loop_spec_def entry_step_def option.rel_refl)

lemma table_ok_put:
  assumes "table_ok e" and "lookup_trigger e i = Some t" and "trg_id u = i"
    and "triggers e1 = AList.update i u (triggers e)"
  shows "table_ok e1" and "map fst (triggers e1) = map fst (triggers e)"
proof -
  have "i \<in> fst ` set (triggers e)" using assms(2) by (metis domI dom_map_of_conv_image_fst)
  then show "map fst (triggers e1) = map fst (triggers e)" by (simp add: assms(4) update_keys)
  then show "table_ok e1" using assms by (auto simp: table_ok_def table_simps split: if_splits)
qed

lemma loop_spec_disable:
  assumes "loop_spec is sel desc now (e\<lparr>triggers := AList.update i (t\<lparr>trg_enabled := False\<rparr>) (triggers e)\<rparr>) (ms, b, e')"
    and "lookup_trigger e i = Some t" and "spent t" and "i \<notin> set is" and "i \<notin> trg_id ` set sel"
  shows "loop_spec (i # is) sel desc now e (ms, True, e')"
proof -
  have "map fst (AList.update i u (triggers e)) = map fst (triggers e)" for u
    using assms(2) by (simp add: update_keys) (metis domI dom_map_of_conv_image_fst)
  moreover have "lookup_trigger e' i = Some (t\<lparr>trg_enabled := False\<rparr>)"
    using assms(1,4) by (simp add: loop_spec_def table_simps)
  moreover have "\<forall>j \<in> set is. lookup_trigger e j =
      lookup_trigger (e\<lparr>triggers := AList.update i (t\<lparr>trg_enabled := False\<rparr>) (triggers e)\<rparr>) j"
    using assms(4) by (auto simp: table_simps)
  ultimately show ?thesis using assms
    by (simp add: loop_spec_def same_frame_def entry_step_def table_simps)
qed

lemma loop_spec_fire:
  assumes "loop_spec is sel desc now (fire i t now e) (ms, b, e')"
    and "lookup_trigger e i = Some t" and "trg_id t = i" and "i \<notin> set is" and "i \<notin> trg_id ` set sel"
  shows "loop_spec (i # is) (t # sel) desc now e (render desc t # ms, True, e')"
proof -
  have "map fst (AList.update i u (triggers e)) = map fst (triggers e)" for u
    using assms(2) by (simp add: update_keys) (metis domI dom_map_of_conv_image_fst)
  moreover have "lookup_trigger e' i = Some (t\<lparr>fire_count := fire_count t + 1\<rparr>)"
    using assms(1,4) by (simp add: loop_spec_def fire_def table_simps)
  moreover have "j \<in> set is \<Longrightarrow> j \<noteq> i" for j using assms(4) by auto
  moreover have "\<forall>j \<in> set is. lookup_trigger e j = lookup_trigger (fire i t now e) j"
    using assms(4) by (auto simp: fire_def table_simps)
  ultimately show ?thesis using assms
    by (simp add: loop_spec_def fire_def same_frame_def entry_step_def table_simps override_on_insert')
qed

lemma evaluate_loop_spec:
  assumes "table_ok e" and "distinct is"
  shows "loop_spec is (selected fm ev desc name now n is e) desc now e
           (evaluate_loop fm ev desc name now n is e)"
  using assms
proof (induction "is" arbitrary: n e)
  case Nil
  then show ?case by (simp add: selected_def List.map_filter_simps loop_spec_refl)
next
  case (Cons i "is")
  let ?sel = "selected fm ev desc name now"
  let ?loop = "evaluate_loop fm ev desc name now"
  from Cons.prems have i: "i \<notin> set is" "distinct is" by simp_all
  have notin: "i \<notin> trg_id ` set (?sel k is e)" for k
    using selected_ids(1)[OF Cons.prems(1)] i(1) by blast
  show ?case
  proof (cases "lookup_trigger e i")
    case None
    then have "?sel n (i # is) e = ?sel n is e" by (simp add: selected_def List.map_filter_simps)
    then show ?thesis using Cons.IH[OF Cons.prems(1) i(2), of n] None notin[of n] i(1)
      by (cases "?loop n is e") (simp add: loop_spec_Cons)
  next
    case (Some t)
    then have tid: "trg_id t = i" using Cons.prems(1) by (simp add: table_ok_def)
    have skip: "?sel n (i # is) e = ?sel n is e" if "\<not> eligible fm ev desc name now e t"
      using that Some by (simp add: selected_def List.map_filter_simps)
    consider (off) "\<not> trg_enabled t" | (spent) "trg_enabled t" "spent t"
      | (quiet) "trg_enabled t" "\<not> spent t" "\<not> eligible fm ev desc name now e t"
      | (fires) "eligible fm ev desc name now e t" by blast
    then show ?thesis
    proof cases
      case off
      then have "\<not> eligible fm ev desc name now e t" by (simp add: eligible_def)
      from skip[OF this] off show ?thesis using Cons.IH[OF Cons.prems(1) i(2), of n] Some notin[of n] i(1)
        by (cases "?loop n is e") (simp add: loop_spec_Cons)
    next
      case quiet
      from skip[OF quiet(3)] quiet show ?thesis using Cons.IH[OF Cons.prems(1) i(2), of n] Some notin[of n] i(1)
        by (cases "?loop n is e") (auto simp: loop_spec_Cons eligible_def)
    next
      case spent
      let ?e = "e\<lparr>triggers := AList.update i (t\<lparr>trg_enabled := False\<rparr>) (triggers e)\<rparr>"
      have ok: "table_ok ?e" using table_ok_put(1)[OF Cons.prems(1) Some, of "t\<lparr>trg_enabled := False\<rparr>"] tid by simp
      have eq: "?sel n is ?e = ?sel n is e"
        by (rule selected_cong[OF Cons.prems(1) i(1)]) (simp_all add: table_simps)
      have sp: "\<not> eligible fm ev desc name now e t" using spent by (simp add: eligible_def)
      obtain ms b e' where r: "?loop n is ?e = (ms, b, e')" by (cases "?loop n is ?e")
      have "loop_spec is (?sel n is e) desc now ?e (ms, b, e')"
        using Cons.IH[OF ok i(2), of n] by (simp add: r eq)
      from loop_spec_disable[OF this Some spent(2) i(1) notin] show ?thesis
        using spent Some by (simp add: skip[OF sp] r)
    next
      case fires
      show ?thesis
      proof (cases "n \<ge> max_triggers_per_event e")
        case True
        then have "?sel n (i # is) e = []" by (simp add: selected_def)
        then show ?thesis using True Some fires by (simp add: loop_spec_refl eligible_def)
      next
        case False
        have ok: "table_ok (fire i t now e)"
          using table_ok_put(1)[OF Cons.prems(1) Some, of "t\<lparr>fire_count := fire_count t + 1\<rparr>"] tid
          by (simp add: fire_def)
        have eq: "?sel (Suc n) is (fire i t now e) = ?sel (Suc n) is e"
          by (rule selected_cong[OF Cons.prems(1) i(1)]) (simp_all add: fire_def table_simps tid)
        have sel: "?sel n (i # is) e = t # ?sel (Suc n) is e"
          using False fires Some by (simp add: selected_def List.map_filter_simps take_Cons' Suc_diff_Suc)
        obtain ms b e' where r: "?loop (Suc n) is (fire i t now e) = (ms, b, e')"
          by (cases "?loop (Suc n) is (fire i t now e)")
        have "loop_spec is (?sel (Suc n) is e) desc now (fire i t now e) (ms, b, e')"
          using Cons.IH[OF ok i(2), of "Suc n"] by (simp add: r eq)
        from loop_spec_fire[OF this Some tid i(1) notin] show ?thesis
          using False Some fires by (simp add: sel r eligible_def)
      qed
    qed
  qed
qed

lemma map_filter_keys:
  "distinct (map fst xs) \<Longrightarrow> List.map_filter (map_of xs) (map fst (sort_key fst xs)) = map snd (sort_key fst xs)"
  for xs :: "('a::linorder \<times> 'b) list"
proof -
  assume d: "distinct (map fst xs)"
  have "List.map_filter (map_of xs) (map fst ys) = map snd ys" if "set ys \<subseteq> set xs" for ys
    using that d by (induction ys) (auto simp: List.map_filter_simps)
  then show ?thesis by simp
qed

lemma sort_map_fst: "sort (map fst xs) = map fst (sort_key fst xs)" for xs :: "('a::linorder \<times> 'b) list"
  by (rule properties_for_sort) simp_all

text \<open>
  The reference: of the triggers in the order of their identifiers, the first that are eligible,
  as many as one event may fire.
\<close>

definition first_eligible ::
  "event_fmt \<Rightarrow> 'j event \<Rightarrow> string \<Rightarrow> (agent_id \<Rightarrow> string option) \<Rightarrow> instant \<Rightarrow> trigger_engine \<Rightarrow> trigger list" where
  "first_eligible fm ev desc name now e =
     take (max_triggers_per_event e)
       (filter (eligible fm ev desc name now e) (map snd (sort_key fst (triggers e))))"

lemma evaluate_spec:
  assumes "table_ok e" and "describe_event fm ev = Some desc"
  obtains r where "evaluate_with_resolver fm ev name now e = Some r"
    and "loop_spec (map fst (sort_key fst (triggers e))) (first_eligible fm ev desc name now e) desc now e r"
proof -
  let ?ids = "map fst (sort_key fst (triggers e))"
  have "distinct ?ids" using assms(1) by (simp add: table_ok_def flip: sort_map_fst)
  moreover have "selected fm ev desc name now 0 ?ids e = first_eligible fm ev desc name now e"
    using assms(1) by (simp add: selected_def first_eligible_def table_ok_def map_filter_keys)
  ultimately have "loop_spec ?ids (first_eligible fm ev desc name now e) desc now e
      (evaluate_loop fm ev desc name now 0 ?ids e)"
    using evaluate_loop_spec[OF assms(1), of ?ids fm ev desc name now 0] by simp
  then show ?thesis using that assms(2) by (simp add: evaluate_with_resolver_def sort_map_fst)
qed

lemma evaluate_effect:
  assumes "table_ok e" and "describe_event fm ev = Some desc"
    and "evaluate_with_resolver fm ev name now e = Some (ms, mutated, e')"
  defines "fired \<equiv> first_eligible fm ev desc name now e"
  shows "ms = map (render desc) fired"
    and "last_fired e' = override_on (last_fired e) (\<lambda>_. Some now) (trg_id ` set fired)"
    and "rel_option (entry_step (j \<in> trg_id ` set fired)) (lookup_trigger e j) (lookup_trigger e' j)"
    and "same_frame e e'" and "\<not> mutated \<Longrightarrow> e' = e" and "map fst (triggers e') = map fst (triggers e)"
proof -
  obtain r where "evaluate_with_resolver fm ev name now e = Some r"
    and "loop_spec (map fst (sort_key fst (triggers e))) fired desc now e r"
    unfolding fired_def by (rule evaluate_spec[OF assms(1,2)])
  then have spec: "loop_spec (map fst (sort_key fst (triggers e))) fired desc now e (ms, mutated, e')"
    using assms(3) by simp
  from spec show "ms = map (render desc) fired" "last_fired e' = override_on (last_fired e) (\<lambda>_. Some now) (trg_id ` set fired)"
    "same_frame e e'" "\<not> mutated \<Longrightarrow> e' = e" and keys: "map fst (triggers e') = map fst (triggers e)"
    by (simp_all add: loop_spec_def)
  show "rel_option (entry_step (j \<in> trg_id ` set fired)) (lookup_trigger e j) (lookup_trigger e' j)"
  proof (cases "j \<in> fst ` set (triggers e)")
    case True
    then show ?thesis using spec by (auto simp: loop_spec_def)
  next
    case False
    moreover from False have "j \<notin> fst ` set (triggers e')" using arg_cong[OF keys, of set] by simp
    ultimately show ?thesis by (simp add: map_of_eq_None_iff[THEN iffD2])
  qed
qed

lemma evaluate_ok:
  assumes "engine_ok e" and "evaluate_with_resolver fm ev name now e = Some (ms, mutated, e')"
  shows "engine_ok e'"
proof -
  from assms(2) obtain desc where d: "describe_event fm ev = Some desc"
    by (auto simp: evaluate_with_resolver_def)
  from assms(1) have t: "table_ok e" by (simp add: engine_ok_def)
  note eff = evaluate_effect[OF t d assms(2)]
  have same: "map_option (\<lambda>t. (trg_id t, trg_agent t)) (lookup_trigger e' j) =
      map_option (\<lambda>t. (trg_id t, trg_agent t)) (lookup_trigger e j)" for j
    using eff(3)[of j] by (auto simp: entry_step_def option_rel_Some1 option_rel_Some2 elim!: option.rel_cases split: if_splits)
  have ow: "owned e' a = owned e a" for a using eff(4) by (simp add: owned_def same_frame_def)
  show ?thesis
  proof (rule engine_okI)
    show "distinct (map fst (triggers e'))" using eff(6) engine_okD(1)[OF assms(1)] by simp
    show "distinct (owned e' a)" for a using engine_okD(3)[OF assms(1)] by (simp add: ow)
    show "lookup_trigger e' j = Some u \<Longrightarrow> trg_id u = j" for j u
      using same[of j] engine_okD(2)[OF assms(1), of j] by (cases "lookup_trigger e j") auto
    show "j \<in> set (owned e' a) \<longleftrightarrow> (\<exists>u. lookup_trigger e' j = Some u \<and> trg_agent u = a)" for a j
      using same[of j] engine_okD(4)[OF assms(1), of j a]
      by (cases "lookup_trigger e j"; cases "lookup_trigger e' j") (auto simp: ow)
  qed
qed

section \<open>Runs of the kernel's operations\<close>

text \<open>
  One operation of the kernel on the engine. Revival is what reactivating a hand does: the
  triggers of the old agent are taken out and put back, under new identifiers, for the new
  one. A restart builds a new engine from the configuration and the file.
\<close>

datatype 'j trigger_op =
    KPublish "'j event" "agent_id \<Rightarrow> string option" u32 bool instant
  | KRegister "agent_id \<Rightarrow> bool" bool trigger_id instant agent_id trigger_pattern string u64 "agent_id option" "u64 option" "session_mode option"
  | KRemove bool trigger_id
  | KEnable bool trigger_id bool
  | KUpdate bool trigger_id trigger_patch
  | KKill bool agent_id
  | KRevive bool agent_id agent_id "trigger_id list"
  | KReassign bool agent_id agent_id
  | KRestart bool bool

fun exec_trigger_op :: "event_fmt \<Rightarrow> triggers_config \<Rightarrow> 'j trigger_op \<Rightarrow> trigger_engine \<Rightarrow> trigger_engine" where
  "exec_trigger_op fm c (KPublish ev name depth w now) e =
     (case publish_event_inner fm (tc_max_depth c) name w now depth ev (e, new_bus 0) of
        Some (_, e', _) \<Rightarrow> e' | None \<Rightarrow> e)"
| "exec_trigger_op fm c (KRegister exists w i now a pat prompt maxf target cooldown mode) e =
     snd (register_trigger_with_target exists w i now a pat prompt maxf target cooldown mode e)"
| "exec_trigger_op fm c (KRemove w i) e = snd (remove_trigger w i e)"
| "exec_trigger_op fm c (KEnable w i b) e = snd (set_trigger_enabled w i b e)"
| "exec_trigger_op fm c (KUpdate w i p) e = snd (kernel_update_trigger w i p e)"
| "exec_trigger_op fm c (KKill w a) e = saved w (remove_agent_triggers a e)"
| "exec_trigger_op fm c (KRevive w a b is) e =
     (let (olds, e1) = take_agent_triggers a e in saved w (restore_triggers b (zip is olds) e1))"
| "exec_trigger_op fm c (KReassign w a b) e = saved w (snd (reassign_agent_triggers a b e))"
| "exec_trigger_op fm c (KRestart read_ok parse_ok) e = snd (load read_ok parse_ok (with_config c (disk e)))"

text \<open>
  New identifiers are random, so an operation that draws them never draws one in use.
\<close>

fun draws_fresh :: "'j trigger_op \<Rightarrow> trigger_engine \<Rightarrow> bool" where
  "draws_fresh (KRegister _ _ i _ _ _ _ _ _ _ _) e \<longleftrightarrow> lookup_trigger e i = None"
| "draws_fresh (KRevive _ _ _ is) e \<longleftrightarrow> distinct is \<and> list_all (\<lambda>i. lookup_trigger e i = None) is"
| "draws_fresh _ e \<longleftrightarrow> True"

inductive reachable_engine :: "event_fmt \<Rightarrow> triggers_config \<Rightarrow> 'j trigger_op list \<Rightarrow> trigger_engine \<Rightarrow> bool"
  for fm :: event_fmt and c :: triggers_config where
  fresh_start: "reachable_engine fm c [] (with_config c None)"
| kernel_op: "reachable_engine fm c ops e \<Longrightarrow> draws_fresh op e
    \<Longrightarrow> reachable_engine fm c (ops @ [op]) (exec_trigger_op fm c op e)"

definition disk_ok :: "trigger_engine \<Rightarrow> bool" where
  "disk_ok e \<longleftrightarrow> (case disk e of Some ts \<Rightarrow> distinct (map trg_id ts) | None \<Rightarrow> True)"

lemma stamp_keeps [simp]: "trg_id (stamp e t) = trg_id t" "trg_agent (stamp e t) = trg_agent t"
  by (simp_all add: stamp_def split: option.split)

lemma table_ids:
  assumes "table_ok e" shows "map (trg_id \<circ> snd) (triggers e) = map fst (triggers e)"
  using assms by (auto simp: table_ok_def intro: map_of_is_SomeI)

lemma saved_ok:
  assumes "engine_ok e" and "disk_ok e"
  shows "engine_ok (saved w e)" and "disk_ok (saved w e)"
proof -
  show "engine_ok (saved w e)"
    by (rule same_tables_ok[OF assms(1)]) (simp_all add: saved_def persist_def)
  have "map trg_id (map (stamp e \<circ> snd) (triggers e)) = map fst (triggers e)"
    using table_ids[of e] assms(1) by (simp add: engine_ok_def comp_def)
  then have "distinct (map trg_id (map (stamp e \<circ> snd) (triggers e)))"
    using engine_okD(1)[OF assms(1)] by (simp only:)
  then show "disk_ok (saved w e)" using assms(2)
    by (simp only: saved_def persist_def disk_ok_def) simp
qed

lemma load_one_insert:
  assumes "lookup_trigger e (trg_id t) = None" and "engine_ok e"
  shows "triggers (load_one t e) = triggers (insert_trigger t e)"
    and "agent_triggers (load_one t e) = agent_triggers (insert_trigger t e)"
proof -
  have "trg_id t \<notin> set (owned e (trg_agent t))" using assms by (simp add: engine_okD(4))
  then show "agent_triggers (load_one t e) = agent_triggers (insert_trigger t e)"
    by (simp add: load_one_def insert_trigger_def index_add_def index_push_def owned_def split: option.split)
qed (simp add: load_one_def insert_trigger_def)

lemma load_all_ok:
  "engine_ok e \<Longrightarrow> distinct (map trg_id ts) \<Longrightarrow> \<forall>t \<in> set ts. lookup_trigger e (trg_id t) = None
   \<Longrightarrow> engine_ok (fold load_one ts e)"
proof (induction ts arbitrary: e)
  case (Cons t ts)
  have "engine_ok (insert_trigger t e)" using Cons.prems by (intro insert_trigger_ok) simp_all
  then have "engine_ok (load_one t e)"
    by (rule same_tables_ok) (use Cons.prems in \<open>simp_all add: load_one_insert\<close>)
  moreover have "\<forall>u \<in> set ts. lookup_trigger (load_one t e) (trg_id u) = None"
    using Cons.prems by (auto simp: load_one_def table_simps) (metis image_eqI)
  ultimately show ?case using Cons.prems by (simp add: Cons.IH)
qed simp

lemma load_all_keeps [simp]:
  "disk (fold load_one ts e) = disk e" "persisted (fold load_one ts e) = persisted e"
  "max_triggers_per_event (fold load_one ts e) = max_triggers_per_event e"
  "default_cooldown_secs (fold load_one ts e) = default_cooldown_secs e"
  by (induction ts arbitrary: e) (simp_all add: load_one_def)

lemma with_config_ok: "engine_ok (with_config c f)"
  by (rule engine_okI) (simp_all add: with_config_def owned_def)

lemma restart_ok:
  assumes "disk_ok e"
  shows "engine_ok (snd (load r p (with_config c (disk e))))" and "disk_ok (snd (load r p (with_config c (disk e))))"
proof -
  have "engine_ok (fold load_one ts (with_config c (disk e)))" if "disk e = Some ts" for ts
    using that assms by (intro load_all_ok with_config_ok) (simp_all add: disk_ok_def with_config_def)
  then show "engine_ok (snd (load r p (with_config c (disk e))))"
    using with_config_ok[of c] by (auto simp: load_def with_config_def split: option.split)
  show "disk_ok (snd (load r p (with_config c (disk e))))"
    using assms by (auto simp: load_def disk_ok_def with_config_def split: option.split)
qed

lemma disk_unchanged:
  "disk (insert_trigger t e) = disk e" "disk (snd (remove i e)) = disk e"
  "disk (modify_trigger i f e) = disk e" "disk (snd (update_trigger i p e)) = disk e"
  "disk (fold drop_trigger is e) = disk e" "disk (restore_triggers a olds e) = disk e"
  "disk (fold (\<lambda>i. modify_trigger i f) is e) = disk e"
proof -
  show *: "disk (modify_trigger i f e) = disk e" for i f e by (simp add: modify_trigger_def split: option.split)
  show "disk (insert_trigger t e) = disk e" for t e by (simp add: insert_trigger_def)
  then show "disk (restore_triggers a olds e) = disk e"
    by (induction olds arbitrary: e) (simp_all add: restore_triggers_def split: prod.split)
  show "disk (snd (remove i e)) = disk e" by (simp add: remove_def split: option.split)
  show "disk (snd (update_trigger i p e)) = disk e" by (simp add: update_trigger_def Let_def * split: option.split)
  show "disk (fold drop_trigger is e) = disk e" by (induction "is" arbitrary: e) (simp_all add: drop_trigger_def)
  show "disk (fold (\<lambda>i. modify_trigger i f) is e) = disk e" by (induction "is" arbitrary: e) (simp_all add: *)
qed

lemma disk_same_ok: "disk_ok e \<Longrightarrow> disk e' = disk e \<Longrightarrow> disk_ok e'"
  by (simp add: disk_ok_def)

lemma update_trigger_ok:
  assumes "engine_ok e" shows "engine_ok (snd (update_trigger i p e))"
proof (cases "lookup_trigger e i")
  case None
  then show ?thesis using assms by (simp add: update_trigger_def)
next
  case (Some t)
  have "engine_ok (modify_trigger i (apply_patch p) e)"
    by (rule modify_trigger_ok[OF assms]) (simp add: apply_patch_def)
  then show ?thesis by (rule same_tables_ok) (simp_all add: update_trigger_def Some Let_def)
qed

lemma revive_ok:
  assumes "engine_ok e" and "distinct is" and "list_all (\<lambda>i. lookup_trigger e i = None) is"
  shows "engine_ok (restore_triggers b (zip is (fst (take_agent_triggers a e))) (snd (take_agent_triggers a e)))"
proof (rule restore_triggers_ok)
  show "engine_ok (snd (take_agent_triggers a e))"
    using dropped_agent_ok[OF assms(1) refl, of a] by (simp add: take_agent_triggers_eq[OF assms(1)])
  show "distinct (map fst (zip is (fst (take_agent_triggers a e))))"
    using assms(2) by (simp add: map_fst_zip_take)
  show "\<forall>i \<in> set (map fst (zip is (fst (take_agent_triggers a e)))).
      lookup_trigger (snd (take_agent_triggers a e)) i = None"
    using assms(3)
    by (auto simp: take_agent_triggers_eq[OF assms(1)] fold_drop restrict_map_def list_all_iff dest: set_zip_leftD)
qed

definition sound :: "trigger_engine \<Rightarrow> bool" where
  "sound e \<longleftrightarrow> engine_ok e \<and> disk_ok e"

lemma sound_saved: "engine_ok e' \<Longrightarrow> sound e \<Longrightarrow> disk e' = disk e \<Longrightarrow> sound (saved w e')"
  using disk_same_ok[of e e'] by (auto simp: sound_def intro: saved_ok)

lemma publish_engine:
  assumes "publish_event_inner fm d name w now depth ev (e, b) = Some (ms, e2, b')"
  obtains "e2 = e" "ms = []" "depth \<ge> word_of_nat d"
  | mutated e1 where "evaluate_with_resolver fm ev name now e = Some (ms, mutated, e1)"
      "e2 = (if ms \<noteq> [] \<or> mutated then saved w e1 else e1)" "depth < word_of_nat d"
proof (cases "depth \<ge> word_of_nat d")
  case True
  then show ?thesis using assms that(1) by (simp add: publish_event_inner_def)
next
  case False
  then obtain mutated e1 where "evaluate_with_resolver fm ev name now e = Some (ms, mutated, e1)"
    "e2 = (if ms \<noteq> [] \<or> mutated then saved w e1 else e1)"
    using assms by (auto simp: publish_event_inner_def)
  then show ?thesis using False that(2) by (simp add: not_le)
qed

lemma exec_sound:
  assumes "sound e" and "draws_fresh op e"
  shows "sound (exec_trigger_op fm c op e)"
proof (cases op)
  case (KPublish ev name depth w now)
  show ?thesis
  proof (cases "publish_event_inner fm (tc_max_depth c) name w now depth ev (e, new_bus 0)")
    case None
    then show ?thesis using assms by (simp add: KPublish)
  next
    case (Some r)
    obtain ms e2 b' where r: "r = (ms, e2, b')" by (cases r)
    from Some show ?thesis unfolding r
    proof (cases rule: publish_engine)
      case 1
      then show ?thesis using assms Some r by (simp add: KPublish)
    next
      case (2 mutated e1)
      have ok: "engine_ok e1" using evaluate_ok[OF _ 2(1)] assms(1) by (simp add: sound_def)
      obtain desc where d: "describe_event fm ev = Some desc"
        using 2(1) by (auto simp: evaluate_with_resolver_def)
      have "disk e1 = disk e"
        using evaluate_effect(4)[OF _ d 2(1)] assms(1) by (simp add: sound_def engine_ok_def same_frame_def)
      then show ?thesis using 2 ok Some r assms(1) sound_saved[OF ok assms(1)]
        by (simp add: KPublish sound_def disk_ok_def)
    qed
  qed
next
  case (KRegister exists w i now a pat prompt maxf target cooldown mode)
  let ?e = "register_with_target i now a pat prompt maxf target cooldown mode e"
  have "engine_ok ?e" unfolding register_with_target_def
    by (rule insert_trigger_ok) (use assms KRegister in \<open>simp_all add: sound_def\<close>)
  then have "sound (saved w ?e)"
    by (rule sound_saved[OF _ assms(1)]) (simp add: register_with_target_def disk_unchanged)
  then show ?thesis using assms(1)
    by (cases target) (simp_all add: KRegister register_trigger_with_target_def)
next
  case (KRemove w i)
  have "engine_ok (snd (remove i e))" using assms(1) by (simp add: sound_def remove_ok)
  then show ?thesis using assms(1) sound_saved[OF _ assms(1), of "snd (remove i e)" w]
    by (auto simp: KRemove remove_trigger_def case_prod_beta Let_def sound_def disk_unchanged intro: disk_same_ok)
next
  case (KEnable w i b)
  have "engine_ok (snd (set_enabled i b e))"
    using assms(1) by (simp add: set_enabled_def sound_def modify_trigger_ok)
  then show ?thesis using assms(1) sound_saved[OF _ assms(1), of "snd (set_enabled i b e)" w]
    by (auto simp: KEnable set_trigger_enabled_def set_enabled_def sound_def disk_unchanged disk_same_ok)
next
  case (KUpdate w i p)
  have "engine_ok (snd (update_trigger i p e))" using assms(1) by (simp add: sound_def update_trigger_ok)
  then show ?thesis using assms(1) sound_saved[OF _ assms(1), of "snd (update_trigger i p e)" w]
    by (auto simp: KUpdate kernel_update_trigger_def case_prod_beta Let_def sound_def disk_unchanged intro: disk_same_ok)
next
  case (KKill w a)
  have "engine_ok (remove_agent_triggers a e)" using assms(1) by (simp add: sound_def remove_agent_triggers_ok)
  then show ?thesis unfolding KKill exec_trigger_op.simps
    by (rule sound_saved[OF _ assms(1)]) (simp add: remove_agent_triggers_def disk_unchanged split: option.split)
next
  case (KRevive w a b "is")
  have ok: "engine_ok e" using assms(1) by (simp add: sound_def)
  then show ?thesis
    using assms revive_ok[OF ok, of "is" b a]
    by (auto simp: KRevive take_agent_triggers_eq[OF ok] disk_unchanged intro!: sound_saved[OF _ assms(1)])
next
  case (KReassign w a b)
  have "engine_ok (snd (reassign_agent_triggers a b e))" using assms(1) by (simp add: sound_def reassign_ok)
  then show ?thesis unfolding KReassign exec_trigger_op.simps
    by (rule sound_saved[OF _ assms(1)]) (simp add: reassign_agent_triggers_def Let_def disk_unchanged)
next
  case (KRestart r p)
  then show ?thesis using restart_ok[of e] assms(1) by (simp add: sound_def)
qed

lemma reachable_sound: "reachable_engine fm c ops e \<Longrightarrow> sound e"
proof (induction rule: reachable_engine.induct)
  case fresh_start
  show ?case using with_config_ok by (simp add: sound_def disk_ok_def with_config_def)
next
  case (kernel_op ops e op)
  then show ?case by (simp add: exec_sound)
qed

section \<open>Limits over a run\<close>

text \<open>
  A healthy run is one in which every write and read of the trigger file succeeds. The engine and
  its file then agree after every operation.
\<close>

fun writes_ok :: "'j trigger_op \<Rightarrow> bool" where
  "writes_ok (KPublish _ _ _ w _) \<longleftrightarrow> w"
| "writes_ok (KRegister _ w _ _ _ _ _ _ _ _ _) \<longleftrightarrow> w"
| "writes_ok (KRemove w _) \<longleftrightarrow> w"
| "writes_ok (KEnable w _ _) \<longleftrightarrow> w"
| "writes_ok (KUpdate w _ _) \<longleftrightarrow> w"
| "writes_ok (KKill w _) \<longleftrightarrow> w"
| "writes_ok (KRevive w _ _ _) \<longleftrightarrow> w"
| "writes_ok (KReassign w _ _) \<longleftrightarrow> w"
| "writes_ok (KRestart r p) \<longleftrightarrow> r \<and> p"

definition synced :: "trigger_engine \<Rightarrow> bool" where
  "synced e \<longleftrightarrow>
     (case disk e of None \<Rightarrow> triggers e = [] | Some ts \<Rightarrow> ts = map (stamp e \<circ> snd) (triggers e))"

definition configured :: "triggers_config \<Rightarrow> trigger_engine \<Rightarrow> bool" where
  "configured c e \<longleftrightarrow>
     persisted e \<and> max_triggers_per_event e = max (tc_max_per_event c) 1
     \<and> default_cooldown_secs e = tc_cooldown_secs c"

definition in_sync :: "triggers_config \<Rightarrow> trigger_engine \<Rightarrow> bool" where
  "in_sync c e \<longleftrightarrow> sound e \<and> synced e \<and> configured c e"

lemma stamp_disk [simp]: "stamp (e\<lparr>disk := d\<rparr>) = stamp e"
  by (simp add: stamp_def fun_eq_iff split: option.split)

lemma saved_synced:
  assumes "configured c e" shows "synced (saved True e)" and "configured c (saved True e)"
proof -
  show "synced (saved True e)"
    using assms by (simp add: saved_def persist_def synced_def configured_def)
  show "configured c (saved True e)"
    using assms by (simp add: saved_def persist_def configured_def)
qed

lemma saved_tables [simp]:
  "triggers (saved w e) = triggers e" "last_fired (saved w e) = last_fired e"
  by (simp_all add: saved_def persist_def)

lemma configured_unchanged:
  "configured c (insert_trigger t e) = configured c e" "configured c (snd (remove i e)) = configured c e"
  "configured c (modify_trigger i f e) = configured c e"
  "configured c (snd (update_trigger i p e)) = configured c e"
  "configured c (fold drop_trigger is e) = configured c e"
  "configured c (restore_triggers a olds e) = configured c e"
  "configured c (fold (\<lambda>i. modify_trigger i f) is e) = configured c e"
proof -
  show *: "configured c (modify_trigger i f e) = configured c e" for i f e
    by (simp add: modify_trigger_def configured_def split: option.split)
  show "configured c (insert_trigger t e) = configured c e" for t e
    by (simp add: insert_trigger_def configured_def)
  then show "configured c (restore_triggers a olds e) = configured c e"
    by (induction olds arbitrary: e) (simp_all add: restore_triggers_def split: prod.split)
  show "configured c (snd (remove i e)) = configured c e"
    by (simp add: remove_def configured_def split: option.split)
  show "configured c (snd (update_trigger i p e)) = configured c e"
    using *[of i "apply_patch p" e]
    by (simp add: update_trigger_def Let_def configured_def split: option.split)
  show "configured c (fold drop_trigger is e) = configured c e"
    by (induction "is" arbitrary: e) (simp_all add: drop_trigger_def configured_def)
  show "configured c (fold (\<lambda>i. modify_trigger i f) is e) = configured c e"
    by (induction "is" arbitrary: e) (simp_all add: *)
qed

lemma load_all_tables:
  "distinct (map trg_id ts) \<Longrightarrow>
   triggers (fold load_one ts e) = fold (\<lambda>t. AList.update (trg_id t) t) ts (triggers e)
   \<and> last_fired (fold load_one ts e) i =
       (case find (\<lambda>t. trg_id t = i) ts of
          Some t \<Rightarrow> if last_fired_at t \<noteq> None then last_fired_at t else last_fired e i
        | None \<Rightarrow> last_fired e i)"
proof (induction ts arbitrary: e)
  case (Cons t ts)
  have "find (\<lambda>u. trg_id u = trg_id t) ts = None" using Cons.prems by (auto simp: find_None_iff) (metis image_eqI)
  moreover have "triggers (load_one t e) = AList.update (trg_id t) t (triggers e)" by (simp add: load_one_def)
  moreover have "last_fired (load_one t e) i =
      (if trg_id t = i \<and> last_fired_at t \<noteq> None then last_fired_at t else last_fired e i)"
    by (auto simp: load_one_def split: option.split)
  ultimately show ?case using Cons.IH[of "load_one t e"] Cons.prems by (auto split: option.split)
qed simp

text \<open>
  A restart in step with the file rebuilds the table as it was, with the time of the last firing
  written into each entry.
\<close>

lemma restart_tables:
  assumes "in_sync c e"
  defines "e' \<equiv> snd (load True True (with_config c (disk e)))"
  shows "triggers e' = map (\<lambda>(i, t). (i, stamp e t)) (triggers e)"
    and "last_fired e' i = (case lookup_trigger e i of Some t \<Rightarrow> last_fired_at (stamp e t) | None \<Rightarrow> None)"
    and "in_sync c e'"
proof -
  from assms(1) have ok: "sound e" "synced e" "engine_ok e" "table_ok e" "disk_ok e"
    by (simp_all add: in_sync_def sound_def engine_ok_def)
  have ids: "map (trg_id \<circ> snd) (triggers e) = map fst (triggers e)" by (rule table_ids[OF ok(4)])
  have id_of: "trg_id t = j" if "(j, t) \<in> set (triggers e)" for j t
    using that ok(4) by (auto simp: table_ok_def)
  show tab: "triggers e' = map (\<lambda>(i, t). (i, stamp e t)) (triggers e)"
  proof (cases "disk e")
    case None
    then show ?thesis using ok(2) by (simp add: e'_def load_def with_config_def synced_def)
  next
    case (Some ts)
    then have ts: "ts = map (stamp e \<circ> snd) (triggers e)" "distinct (map trg_id ts)"
      using ok(2,5) by (simp_all add: synced_def disk_ok_def)
    have "triggers e' = map (\<lambda>t. (trg_id t, t)) ts"
      using load_all_tables[OF ts(2), of "with_config c (Some ts)"] fold_update_distinct[of trg_id, OF ts(2), of "[]"]
      by (simp add: e'_def load_def Some with_config_def)
    then show ?thesis by (auto simp: ts(1) dest: id_of)
  qed
  show lf: "last_fired e' i =
      (case lookup_trigger e i of Some t \<Rightarrow> last_fired_at (stamp e t) | None \<Rightarrow> None)" for i
  proof (cases "disk e")
    case None
    then show ?thesis using ok(2) by (simp add: e'_def load_def with_config_def synced_def)
  next
    case (Some ts)
    then have ts: "ts = map (stamp e \<circ> snd) (triggers e)" "distinct (map trg_id ts)"
      using ok(2,5) by (simp_all add: synced_def disk_ok_def)
    have "find (\<lambda>t. trg_id t = i) (map (stamp e \<circ> snd) xs) = map_option (stamp e) (map_of xs i)"
      if "set xs \<subseteq> set (triggers e)" for xs
      using that by (induction xs) (auto dest: id_of)
    then have "find (\<lambda>t. trg_id t = i) ts = map_option (stamp e) (lookup_trigger e i)" by (simp add: ts(1))
    then show ?thesis
      using conjunct2[OF load_all_tables[OF ts(2), of "with_config c (Some ts)" i]]
      by (auto simp: e'_def load_def Some with_config_def split: option.split)
  qed
  have restamp: "stamp e' (stamp e t) = stamp e t" if "(j, t) \<in> set (triggers e)" for j t
  proof -
    have "lookup_trigger e (trg_id t) = Some t"
      using that id_of[OF that] engine_okD(1)[OF ok(3)] by simp
    then have "last_fired e' (trg_id t) = last_fired_at (stamp e t)" by (simp add: lf)
    then show ?thesis
      unfolding stamp_def[of e' "stamp e t"] by (cases "last_fired_at (stamp e t)") simp_all
  qed
  have "disk e' = disk e" by (auto simp: e'_def load_def with_config_def split: option.split)
  then have "synced e'"
    using ok(2) by (auto simp: synced_def tab restamp split: option.splits)
  moreover have "configured c e'"
    by (auto simp: e'_def load_def with_config_def configured_def split: option.split)
  moreover have "sound e'" using restart_ok[OF ok(5)] by (simp add: e'_def sound_def)
  ultimately show "in_sync c e'" by (simp add: in_sync_def)
qed

lemma update_found:
  assumes "table_ok e" and "lookup_trigger e i = Some t"
  shows "fst (update_trigger i p e) = Some (apply_patch p t)"
    and "lookup_trigger (snd (update_trigger i p e)) = (lookup_trigger e)(i \<mapsto> apply_patch p t)"
    and "last_fired (snd (update_trigger i p e)) =
           (if p_pattern p \<noteq> None then (last_fired e)(i := None) else last_fired e)"
proof -
  have "trg_id t = i" using assms by (simp add: table_ok_def)
  then show "fst (update_trigger i p e) = Some (apply_patch p t)"
    "lookup_trigger (snd (update_trigger i p e)) = (lookup_trigger e)(i \<mapsto> apply_patch p t)"
    "last_fired (snd (update_trigger i p e)) =
       (if p_pattern p \<noteq> None then (last_fired e)(i := None) else last_fired e)"
    using assms(2) by (simp_all add: update_trigger_def modify_trigger_def Let_def table_simps)
qed

lemma exec_in_sync:
  assumes "in_sync c e" and "draws_fresh op e" and "writes_ok op"
  shows "in_sync c (exec_trigger_op fm c op e)"
proof -
  have snd': "sound (exec_trigger_op fm c op e)" using exec_sound[OF _ assms(2)] assms(1) by (simp add: in_sync_def)
  have cfg: "configured c e" and syn: "synced e" using assms by (simp_all add: in_sync_def)
  have "synced (exec_trigger_op fm c op e) \<and> configured c (exec_trigger_op fm c op e)"
  proof (cases op)
    case (KPublish ev name depth w now)
    show ?thesis
    proof (cases "publish_event_inner fm (tc_max_depth c) name w now depth ev (e, new_bus 0)")
      case None
      then show ?thesis using cfg syn by (simp add: KPublish)
    next
      case (Some r)
      obtain ms e2 b' where r: "r = (ms, e2, b')" by (cases r)
      from Some show ?thesis unfolding r
      proof (cases rule: publish_engine)
        case 1
        then show ?thesis using cfg syn Some r by (simp add: KPublish)
      next
        case (2 mutated e1)
        obtain desc where d: "describe_event fm ev = Some desc"
          using 2(1) by (auto simp: evaluate_with_resolver_def)
        have t: "table_ok e" using assms(1) by (simp add: in_sync_def sound_def engine_ok_def)
        note eff = evaluate_effect[OF t d 2(1)]
        have "configured c e1" using eff(4) cfg by (simp add: same_frame_def configured_def)
        then show ?thesis using saved_synced[of c e1] eff(5) 2(2) Some r syn cfg assms(3)
          by (auto simp: KPublish)
      qed
    qed
  next
    case (KRegister exists w i now a pat prompt maxf target cooldown mode)
    then show ?thesis using assms(3) cfg syn
        saved_synced[of c "register_with_target i now a pat prompt maxf target cooldown mode e"]
      by (cases target)
        (simp_all add: register_trigger_with_target_def register_with_target_def configured_unchanged)
  next
    case (KRemove w i)
    then show ?thesis using assms(3) cfg syn saved_synced[of c "snd (remove i e)"]
      by (auto simp: remove_trigger_def case_prod_beta Let_def configured_unchanged)
        (auto simp: remove_def split: option.splits)
  next
    case (KEnable w i b)
    then show ?thesis using assms(3) cfg syn saved_synced[of c "snd (set_enabled i b e)"]
      by (auto simp: set_trigger_enabled_def set_enabled_def modify_trigger_def configured_def split: option.splits)
  next
    case (KUpdate w i p)
    have t: "table_ok e" using assms(1) by (simp add: in_sync_def sound_def engine_ok_def)
    show ?thesis
    proof (cases "lookup_trigger e i")
      case None
      then show ?thesis using cfg syn by (simp add: KUpdate kernel_update_trigger_def update_trigger_def)
    next
      case (Some u)
      then show ?thesis using KUpdate assms(3) cfg saved_synced[of c "snd (update_trigger i p e)"]
        by (simp add: kernel_update_trigger_def case_prod_beta Let_def configured_unchanged update_found[OF t])
    qed
  next
    case (KKill w a)
    have "configured c (remove_agent_triggers a e)"
      using cfg configured_unchanged(5)[of c _ "e\<lparr>agent_triggers := (agent_triggers e)(a := None)\<rparr>"]
      by (auto simp: remove_agent_triggers_def configured_def split: option.split)
    then show ?thesis using assms(3) saved_synced[of c] by (simp add: KKill)
  next
    case (KRevive w a b "is")
    have "configured c (snd (take_agent_triggers a e))"
      using assms(1) cfg configured_unchanged(5)[of c _ "e\<lparr>agent_triggers := (agent_triggers e)(a := None)\<rparr>"]
      by (simp add: in_sync_def sound_def take_agent_triggers_eq configured_def)
    then show ?thesis using assms(3) saved_synced[of c]
      by (simp add: KRevive case_prod_beta configured_unchanged)
  next
    case (KReassign w a b)
    have "configured c (snd (reassign_agent_triggers a b e))"
      using cfg configured_unchanged(7)[of c _ _ "e\<lparr>agent_triggers := (agent_triggers e)(a := None)\<rparr>"]
      by (simp add: reassign_agent_triggers_def Let_def configured_def)
    then show ?thesis using assms(3) saved_synced[of c] by (simp add: KReassign)
  next
    case (KRestart r p)
    then show ?thesis using assms(3) restart_tables(3)[OF assms(1)] by (simp add: in_sync_def)
  qed
  with snd' show ?thesis by (simp add: in_sync_def)
qed

text \<open>
  The times at which the trigger \<open>i\<close> fires along a run: it fires when its counter moves.
\<close>

fun fire_times :: "event_fmt \<Rightarrow> triggers_config \<Rightarrow> trigger_id \<Rightarrow> 'j trigger_op \<Rightarrow> trigger_engine \<Rightarrow> instant list" where
  "fire_times fm c i (KPublish ev name depth w now) e =
     (case (lookup_trigger e i, lookup_trigger (exec_trigger_op fm c (KPublish ev name depth w now) e) i) of
        (Some t, Some t') \<Rightarrow> if fire_count t' \<noteq> fire_count t then [now] else []
      | _ \<Rightarrow> [])"
| "fire_times fm c i op e = []"

fun fire_log :: "event_fmt \<Rightarrow> triggers_config \<Rightarrow> trigger_id \<Rightarrow> 'j trigger_op list \<Rightarrow> trigger_engine \<Rightarrow> instant list" where
  "fire_log fm c i [] e = []"
| "fire_log fm c i (op # ops) e = fire_times fm c i op e @ fire_log fm c i ops (exec_trigger_op fm c op e)"

text \<open>
  Operations that leave the limits of the trigger \<open>i\<close> as they are: a patch of \<open>i\<close> changes
  neither its pattern nor its limits, and no new trigger gets its identifier.
\<close>

fun leaves_limits :: "trigger_id \<Rightarrow> 'j trigger_op \<Rightarrow> bool" where
  "leaves_limits i (KRegister _ _ j _ _ _ _ _ _ _ _) \<longleftrightarrow> j \<noteq> i"
| "leaves_limits i (KUpdate _ j p) \<longleftrightarrow>
     (j = i \<longrightarrow> p_pattern p = None \<and> p_max_fires p = None \<and> p_cooldown_secs p = None)"
| "leaves_limits i (KRevive _ _ _ is) \<longleftrightarrow> i \<notin> set is"
| "leaves_limits i _ \<longleftrightarrow> True"

fun healthy_run :: "event_fmt \<Rightarrow> triggers_config \<Rightarrow> ('j trigger_op \<Rightarrow> bool) \<Rightarrow> 'j trigger_op list \<Rightarrow> trigger_engine \<Rightarrow> bool" where
  "healthy_run fm c P [] e \<longleftrightarrow> True"
| "healthy_run fm c P (op # ops) e \<longleftrightarrow>
     draws_fresh op e \<and> writes_ok op \<and> P op \<and> healthy_run fm c P ops (exec_trigger_op fm c op e)"

definition run_triggers :: "event_fmt \<Rightarrow> triggers_config \<Rightarrow> 'j trigger_op list \<Rightarrow> trigger_engine \<Rightarrow> trigger_engine" where
  "run_triggers fm c ops e = foldl (\<lambda>e op. exec_trigger_op fm c op e) e ops"

lemma run_in_sync: "in_sync c e \<Longrightarrow> healthy_run fm c P ops e \<Longrightarrow> in_sync c (run_triggers fm c ops e)"
  by (induction ops arbitrary: e) (simp_all add: run_triggers_def exec_in_sync)

lemma fresh_engine_in_sync: "in_sync c (with_config c None)"
  using with_config_ok[of c None]
  by (simp add: in_sync_def sound_def disk_ok_def synced_def configured_def with_config_def)

text \<open>
  The entry of \<open>i\<close> after an operation that did not fire it.
\<close>

definition untouched :: "trigger_id \<Rightarrow> trigger_engine \<Rightarrow> trigger_engine \<Rightarrow> bool" where
  "untouched i e e' \<longleftrightarrow>
     lookup_trigger e' i = None
     \<or> (\<exists>t t'. lookup_trigger e i = Some t \<and> lookup_trigger e' i = Some t'
          \<and> max_fires t' = max_fires t \<and> cooldown_secs t' = cooldown_secs t \<and> fire_count t' = fire_count t
          \<and> (last_fired_at t' = last_fired_at t \<or> last_fired_at t' = last_fired e i)
          \<and> (last_fired e' i = last_fired e i \<or> last_fired e i = None \<and> last_fired e' i = last_fired_at t))"

lemma untouched_refl: "untouched i e e"
  by (cases "lookup_trigger e i") (auto simp: untouched_def)

lemma untouched_saved [simp]: "untouched i e (saved w e') = untouched i e e'"
  by (simp add: untouched_def)

lemma untouched_same:
  "lookup_trigger e' i = lookup_trigger e i \<Longrightarrow> last_fired e' i = last_fired e i \<Longrightarrow> untouched i e e'"
  by (cases "lookup_trigger e i") (auto simp: untouched_def)

lemma untouched_gone: "lookup_trigger e' i = None \<Longrightarrow> untouched i e e'"
  by (simp add: untouched_def)

lemma restore_keeps:
  "i \<notin> fst ` set olds \<Longrightarrow> lookup_trigger (restore_triggers a olds e) i = lookup_trigger e i"
  "last_fired (restore_triggers a olds e) = last_fired e"
  by (induction olds arbitrary: e)
    (auto simp: restore_triggers_def insert_trigger_def table_simps split: prod.split)

lemma fold_modify_last_fired: "last_fired (fold (\<lambda>i. modify_trigger i f) is e) = last_fired e"
  by (induction "is" arbitrary: e) (simp_all add: modify_trigger_def split: option.split)

lemma publish_effect:
  assumes "table_ok e"
    and e': "e' = exec_trigger_op fm c (KPublish ev name depth w now) e"
  obtains "e' = e"
  | desc fired where "last_fired e' = override_on (last_fired e) (\<lambda>_. Some now) (trg_id ` set fired)"
      "\<And>j. rel_option (entry_step (j \<in> trg_id ` set fired)) (lookup_trigger e j) (lookup_trigger e' j)"
      "\<And>t. t \<in> set fired \<Longrightarrow> lookup_trigger e (trg_id t) = Some t \<and> eligible fm ev desc name now e t"
proof (cases "publish_event_inner fm (tc_max_depth c) name w now depth ev (e, new_bus 0)")
  case None
  then show ?thesis using that(1) by (simp add: e')
next
  case (Some r)
  obtain ms e2 b' where r: "r = (ms, e2, b')" by (cases r)
  have e2: "e' = e2" using Some r by (simp add: e')
  from Some show ?thesis unfolding r
  proof (cases rule: publish_engine)
    case 1
    then show ?thesis using that(1) e2 by simp
  next
    case (2 mutated e1)
    obtain desc where d: "describe_event fm ev = Some desc"
      using 2(1) by (auto simp: evaluate_with_resolver_def)
    let ?fired = "first_eligible fm ev desc name now e"
    note eff = evaluate_effect[OF assms(1) d 2(1)]
    have same: "triggers e' = triggers e1" "last_fired e' = last_fired e1" using 2(2) e2 by simp_all
    have "lookup_trigger e (trg_id t) = Some t \<and> eligible fm ev desc name now e t" if "t \<in> set ?fired" for t
    proof -
      from that have "t \<in> snd ` set (triggers e)" "eligible fm ev desc name now e t"
        by (auto simp: first_eligible_def dest!: in_set_takeD)
      with assms(1) show ?thesis by (auto simp: table_ok_def)
    qed
    then show ?thesis using that(2)[of ?fired desc] eff(2,3) same by simp
  qed
qed

lemma exec_untouched:
  assumes "in_sync c e" and "draws_fresh op e" and "writes_ok op" and "leaves_limits i op"
    and "fire_times fm c i op e = []"
  shows "untouched i e (exec_trigger_op fm c op e)"
proof -
  have ok: "engine_ok e" "table_ok e" using assms(1) by (simp_all add: in_sync_def sound_def engine_ok_def)
  show ?thesis
  proof (cases op)
    case (KRegister exists w j now a pat prompt maxf target cooldown mode)
    have "untouched i e (saved w (register_with_target j now a pat prompt maxf target cooldown mode e))"
      using KRegister assms(4)
      by (auto simp: register_with_target_def insert_trigger_def table_simps intro!: untouched_same)
    then show ?thesis
      by (cases target) (simp_all add: KRegister register_trigger_with_target_def untouched_refl)
  next
    case (KRemove w j)
    have "untouched i e (snd (remove j e))"
    proof (cases "lookup_trigger e j")
      case None
      then show ?thesis by (simp add: remove_def untouched_refl)
    next
      case (Some t)
      show ?thesis
      proof (cases "j = i")
        case True
        with Some show ?thesis by (intro untouched_gone) (simp add: remove_def table_simps)
      next
        case False
        with Some show ?thesis by (intro untouched_same) (simp_all add: remove_def table_simps)
      qed
    qed
    then show ?thesis by (simp add: KRemove remove_trigger_def case_prod_beta Let_def)
  next
    case (KEnable w j b)
    have "untouched i e (modify_trigger j (\<lambda>t. t\<lparr>trg_enabled := b\<rparr>) e)"
      by (cases "j = i"; cases "lookup_trigger e i") (auto simp: modify_trigger_def table_simps untouched_def split: option.split)
    then show ?thesis by (simp add: KEnable set_trigger_enabled_def set_enabled_def Let_def)
  next
    case (KKill w a)
    have "untouched i e (remove_agent_triggers a e)"
    proof (cases "i \<in> set (owned e a)")
      case True
      then show ?thesis
        by (intro untouched_gone)
          (auto simp: remove_agent_triggers_def owned_def fold_drop split: option.splits)
    next
      case False
      then show ?thesis
        by (intro untouched_same)
          (auto simp: remove_agent_triggers_def owned_def fold_drop split: option.splits)
    qed
    then show ?thesis by (simp add: KKill)
  next
    case (KReassign w a b)
    let ?e = "snd (reassign_agent_triggers a b e)"
    have "lookup_trigger ?e i =
        (if i \<in> set (owned e a) then map_option (\<lambda>t. t\<lparr>trg_agent := b\<rparr>) (lookup_trigger e i) else lookup_trigger e i)"
      using engine_okD(3)[OF ok(1), of a]
      by (simp add: reassign_agent_triggers_def Let_def fold_modify_lookup flip: owned_def)
    moreover have "last_fired ?e = last_fired e"
      by (simp add: reassign_agent_triggers_def Let_def fold_modify_last_fired)
    ultimately have "untouched i e ?e" by (cases "lookup_trigger e i") (auto simp: untouched_def)
    then show ?thesis by (simp add: KReassign)
  next
    case (KRestart r p)
    note rt = restart_tables[OF assms(1)]
    let ?e = "snd (load True True (with_config c (disk e)))"
    have "lookup_trigger ?e i = map_option (stamp e) (lookup_trigger e i)"
      by (simp add: rt(1) map_of_map)
    then have "untouched i e ?e"
      using rt(2)[of i] engine_okD(2)[OF ok(1), of i]
      by (cases "lookup_trigger e i"; cases "last_fired e i") (auto simp: untouched_def stamp_def)
    then show ?thesis using assms(3) by (simp add: KRestart)
  next
    case (KUpdate w j p)
    have "untouched i e (snd (update_trigger j p e))"
    proof (cases "lookup_trigger e j")
      case None
      then show ?thesis by (simp add: update_trigger_def untouched_refl)
    next
      case (Some t)
      show ?thesis
      proof (cases "j = i")
        case True
        then show ?thesis using KUpdate assms(4) Some
          by (simp add: untouched_def update_found[OF ok(2), of i t] apply_patch_def patched_def)
      next
        case False
        then show ?thesis by (intro untouched_same) (simp_all add: update_found[OF ok(2) Some])
      qed
    qed
    then show ?thesis by (simp add: KUpdate kernel_update_trigger_def case_prod_beta Let_def)
  next
    case (KRevive w a b "is")
    let ?e = "restore_triggers b (zip is (fst (take_agent_triggers a e))) (snd (take_agent_triggers a e))"
    have "i \<notin> fst ` set (zip is (fst (take_agent_triggers a e)))"
      using KRevive assms(4) by (auto dest: set_zip_leftD)
    then have "lookup_trigger ?e i = ((lookup_trigger e) |` (- set (owned e a))) i"
      "last_fired ?e i = ((last_fired e) |` (- set (owned e a))) i"
      by (simp_all add: restore_keeps take_agent_triggers_eq[OF ok(1)] fold_drop)
    then have "untouched i e ?e"
      by (cases "i \<in> set (owned e a)") (auto intro: untouched_same untouched_gone)
    then show ?thesis by (simp add: KRevive case_prod_beta)
  next
    case (KPublish ev name depth w now)
    from ok(2) refl show ?thesis
    proof (cases rule: publish_effect[of e _ fm c ev name depth w now])
      case 1
      then show ?thesis by (simp add: KPublish untouched_refl del: exec_trigger_op.simps)
    next
      case (2 desc fired)
      let ?e = "exec_trigger_op fm c (KPublish ev name depth w now) e"
      have "i \<notin> trg_id ` set fired"
        using 2(2)[of i] assms(5) KPublish 2(3)
        by (auto simp: entry_step_def option_rel_Some1 simp del: exec_trigger_op.simps split: option.splits)
      then have "last_fired ?e i = last_fired e i" "rel_option (entry_step False) (lookup_trigger e i) (lookup_trigger ?e i)"
        using 2(1) 2(2)[of i] by (simp_all add: override_on_def del: exec_trigger_op.simps)
      then show ?thesis unfolding KPublish untouched_def
        by (cases "lookup_trigger e i"; cases "lookup_trigger ?e i") (auto simp: entry_step_def simp del: exec_trigger_op.simps)
    qed
  qed
qed

lemma gone_never_fires:
  "in_sync c e \<Longrightarrow> healthy_run fm c (leaves_limits i) ops e \<Longrightarrow> lookup_trigger e i = None
   \<Longrightarrow> fire_log fm c i ops e = []"
proof (induction ops arbitrary: e)
  case (Cons op ops)
  have quiet: "fire_times fm c i op e = []" using Cons.prems(3) by (cases op) (simp_all del: exec_trigger_op.simps)
  have "untouched i e (exec_trigger_op fm c op e)"
    using Cons.prems quiet by (intro exec_untouched) simp_all
  then have "lookup_trigger (exec_trigger_op fm c op e) i = None" using Cons.prems(3) by (simp add: untouched_def)
  then show ?case using Cons quiet by (simp add: exec_in_sync)
qed simp

lemma fired_publish:
  assumes "table_ok e" and "fire_times fm c i op e \<noteq> []"
  obtains now t where "fire_times fm c i op e = [now]" "lookup_trigger e i = Some t"
    "lookup_trigger (exec_trigger_op fm c op e) i = Some (t\<lparr>fire_count := fire_count t + 1\<rparr>)"
    "last_fired (exec_trigger_op fm c op e) i = Some now" "\<not> spent t" "\<not> cooling_down e t now"
proof -
  obtain ev name depth w now where op: "op = KPublish ev name depth w now"
    using assms(2) by (cases op) simp_all
  let ?e = "exec_trigger_op fm c op e"
  obtain t t' where look: "lookup_trigger e i = Some t" "lookup_trigger ?e i = Some t'"
    and ne: "fire_count t' \<noteq> fire_count t" and times: "fire_times fm c i op e = [now]"
    using assms(2) by (auto simp: op simp del: exec_trigger_op.simps split: option.splits if_splits)
  have "?e = exec_trigger_op fm c (KPublish ev name depth w now) e" by (simp only: op)
  with assms(1) show ?thesis
  proof (cases rule: publish_effect)
    case 1
    then show ?thesis using look ne by simp
  next
    case (2 desc fired)
    have "i \<in> trg_id ` set fired"
      using 2(2)[of i] look ne by (auto simp: entry_step_def split: if_splits)
    moreover from this 2(3) look(1) have "eligible fm ev desc name now e t" by auto
    ultimately show ?thesis using that[OF times look(1)] 2(1) 2(2)[of i] look
      by (simp add: entry_step_def eligible_def override_on_def)
  qed
qed

definition spaced :: "int \<Rightarrow> instant list \<Rightarrow> bool" where
  "spaced d = successively (\<lambda>s u. s + d \<le> u)"

lemma limits_along_run:
  assumes "in_sync c e" and "healthy_run fm c (leaves_limits i) ops e" and "lookup_trigger e i = Some t"
    and "last_fired_at t \<noteq> None \<Longrightarrow> last_fired e i \<noteq> None"
    and "0 < max_fires t \<Longrightarrow> fire_count t \<le> max_fires t"
  defines "ts \<equiv> fire_log fm c i ops e"
  shows "(0 < max_fires t \<longrightarrow> unat (fire_count t) + length ts \<le> unat (max_fires t))
    \<and> (0 < cooldown_of e t \<longrightarrow> spaced (cooldown_of e t) ts)
    \<and> (0 < cooldown_of e t \<longrightarrow> ts \<noteq> [] \<longrightarrow> (\<forall>s. last_fired e i = Some s \<longrightarrow> s + cooldown_of e t \<le> hd ts))"
  using assms(1-5) unfolding ts_def
proof (induction ops arbitrary: e t)
  case Nil
  then show ?case by (simp add: word_le_nat_alt spaced_def)
next
  case (Cons op ops)
  let ?e = "exec_trigger_op fm c op e"
  have sync: "in_sync c ?e" using Cons.prems by (simp add: exec_in_sync)
  have tab: "table_ok e" using Cons.prems(1) by (simp add: in_sync_def sound_def engine_ok_def)
  have cd: "cooldown_of ?e t' = cooldown_of e t" if "cooldown_secs t' = cooldown_secs t" for t'
    using sync Cons.prems(1) that by (simp add: cooldown_of_def in_sync_def configured_def cong: option.case_cong)
  have run: "healthy_run fm c (leaves_limits i) ops ?e" using Cons.prems(2) by simp
  show ?case
  proof (cases "fire_times fm c i op e = []")
    case True
    have un: "untouched i e ?e" using Cons.prems True by (intro exec_untouched) simp_all
    show ?thesis
    proof (cases "lookup_trigger ?e i")
      case None
      then show ?thesis using gone_never_fires[OF sync run] True Cons.prems(5)
        by (simp add: word_le_nat_alt spaced_def)
    next
      case (Some t')
      with un Cons.prems(3) have same: "max_fires t' = max_fires t" "cooldown_secs t' = cooldown_secs t"
          "fire_count t' = fire_count t" "last_fired_at t' = last_fired_at t \<or> last_fired_at t' = last_fired e i"
          "last_fired ?e i = last_fired e i \<or> last_fired e i = None \<and> last_fired ?e i = last_fired_at t"
        by (auto simp: untouched_def)
      have lf: "last_fired ?e i = last_fired e i" using same(5) Cons.prems(4) by (cases "last_fired_at t") auto
      have "last_fired_at t' \<noteq> None \<Longrightarrow> last_fired ?e i \<noteq> None" using same(4) lf Cons.prems(4) by auto
      from Cons.IH[OF sync run Some this] show ?thesis
        using True Cons.prems(5) by (simp add: same(1,3) cd[OF same(2)] lf)
    qed
  next
    case False
    obtain now u where f: "fire_times fm c i op e = [now]" and u: "lookup_trigger e i = Some u"
      and up': "lookup_trigger ?e i = Some (u\<lparr>fire_count := fire_count u + 1\<rparr>)"
      and lf: "last_fired ?e i = Some now" and go': "\<not> spent u" "\<not> cooling_down e u now"
      by (rule fired_publish[OF tab False])
    have "u = t" using u Cons.prems(3) by simp
    then have up: "lookup_trigger ?e i = Some (t\<lparr>fire_count := fire_count t + 1\<rparr>)" "last_fired ?e i = Some now"
      and go: "\<not> spent t" "\<not> cooling_down e t now" using up' lf go' by simp_all
    let ?t = "t\<lparr>fire_count := fire_count t + 1\<rparr>"
    have cd': "cooldown_of ?e ?t = cooldown_of e t" by (rule cd) simp
    have lt: "fire_count t < max_fires t" if "0 < max_fires t" using go(1) that by (simp add: spent_def not_le)
    then have cnt: "unat (fire_count t + 1) = Suc (unat (fire_count t))" if "0 < max_fires t"
    proof -
      have "unat (max_fires t) < 2 ^ LENGTH(64)" by (rule unsigned_less)
      with lt[OF that] show ?thesis
        using unat_add_no_wrap[of "fire_count t" 1] by (simp add: word_less_nat_alt)
    qed
    have le: "0 < max_fires ?t \<Longrightarrow> fire_count ?t \<le> max_fires ?t"
      using lt cnt by (simp add: word_le_nat_alt word_less_nat_alt)
    note IH = Cons.IH[OF sync run up(1) _ le, unfolded cd']
    have first: "s + cooldown_of e t \<le> now" if "last_fired e i = Some s" "0 < cooldown_of e t" for s
      using go(2) that Cons.prems(3) tab by (auto simp: cooling_down_def table_ok_def)
    show ?thesis using IH up(2) f first cnt
      by (auto simp: spaced_def successively_Cons) 
  qed
qed

section \<open>The properties\<close>

lemma listed_triggers:
  assumes "engine_ok e"
  shows "list_agent_triggers e a = map (the \<circ> lookup_trigger e) (owned e a)"
proof -
  have "List.map_filter (lookup_trigger e) is = map (the \<circ> lookup_trigger e) is"
    if "\<forall>i \<in> set is. lookup_trigger e i \<noteq> None" for "is"
    using that by (induction "is") (auto simp: List.map_filter_simps)
  moreover have "\<forall>i \<in> set (owned e a). lookup_trigger e i \<noteq> None"
    using engine_okD(4)[OF assms, of _ a] by auto
  moreover have "list_agent_triggers e a = List.map_filter (lookup_trigger e) (owned e a)"
    by (simp add: list_agent_triggers_def owned_def List.map_filter_simps split: option.split)
  ultimately show ?thesis by simp
qed

text \<open>
  C24: In every state the kernel can reach, whatever operations ran and whichever writes failed, the
  index of an agent lists exactly the triggers the agent owns, each once, and no two triggers
  share an identifier.
\<close>
theorem trigger_index_exact:
  assumes "reachable_engine fm c ops e"
  shows "distinct (map trg_id (list_all_triggers e))
    \<and> distinct (map trg_id (list_agent_triggers e a))
    \<and> set (list_agent_triggers e a) = {t \<in> set (list_all_triggers e). trg_agent t = a}
    \<and> (\<forall>t \<in> set (list_all_triggers e). get_trigger e (trg_id t) = Some t)"
proof -
  have ok: "engine_ok e" "table_ok e" using reachable_sound[OF assms] by (simp_all add: sound_def engine_ok_def)
  have all: "t \<in> set (list_all_triggers e) \<longleftrightarrow> lookup_trigger e (trg_id t) = Some t" for t
  proof
    assume "t \<in> set (list_all_triggers e)"
    then obtain i where "(i, t) \<in> set (triggers e)" by (auto simp: list_all_triggers_def)
    then have "lookup_trigger e i = Some t" using engine_okD(1)[OF ok(1)] by simp
    with engine_okD(2)[OF ok(1) this] show "lookup_trigger e (trg_id t) = Some t" by (simp only:)
  next
    assume "lookup_trigger e (trg_id t) = Some t"
    from map_of_SomeD[OF this] show "t \<in> set (list_all_triggers e)"
      by (force simp: list_all_triggers_def)
  qed
  have "map trg_id (list_all_triggers e) = map fst (triggers e)"
    using table_ids[OF ok(2)] by (simp add: list_all_triggers_def comp_def)
  moreover have "map trg_id (list_agent_triggers e a) = owned e a"
    using engine_okD(2,4)[OF ok(1)] by (auto simp: listed_triggers[OF ok(1)] intro!: map_idI)
  moreover have "set (list_agent_triggers e a) = {t \<in> set (list_all_triggers e). trg_agent t = a}"
  proof (intro set_eqI iffI)
    fix t assume "t \<in> set (list_agent_triggers e a)"
    then obtain i where i: "i \<in> set (owned e a)" "t = the (lookup_trigger e i)"
      by (auto simp: listed_triggers[OF ok(1)])
    then obtain u where "lookup_trigger e i = Some u" "trg_agent u = a"
      using engine_okD(4)[OF ok(1)] by blast
    then show "t \<in> {t \<in> set (list_all_triggers e). trg_agent t = a}"
      using i(2) engine_okD(2)[OF ok(1), of i u] by (simp only: all mem_Collect_eq option.sel simp_thms)
  next
    fix t assume "t \<in> {t \<in> set (list_all_triggers e). trg_agent t = a}"
    then have "lookup_trigger e (trg_id t) = Some t" "trg_id t \<in> set (owned e a)"
      using engine_okD(4)[OF ok(1), of "trg_id t" a] all[of t] by auto
    then show "t \<in> set (list_agent_triggers e a)"
      by (auto simp: listed_triggers[OF ok(1)] simp del: map_of_eq_Some_iff intro!: image_eqI[of _ _ "trg_id t"])
  qed
  ultimately show ?thesis using engine_okD(1,3)[OF ok(1)] by (simp add: all get_trigger_def)
qed

definition sample_fmt :: event_fmt where
  "sample_fmt =
     \<lparr>uuid_str = (\<lambda>w. show_nat (unat w)), fixed_str = (\<lambda>_ _. ''0''), debug_network = (\<lambda>_. []),
      debug_system = (\<lambda>_. []), parse_custom = (\<lambda>_. None)\<rparr>"

definition sample_config :: triggers_config where
  "sample_config = \<lparr>tc_cooldown_secs = 5, tc_max_per_event = 10, tc_max_depth = 5, tc_max_workflow_secs = 3600\<rparr>"

definition sample_event :: "unit event" where
  "sample_event = new_event 1 0 2 TargetSystem (SystemPayload KernelStarted)"

definition sample_registration :: "unit trigger_op" where
  "sample_registration =
     KRegister (\<lambda>_. True) True 9 0 2 OnSystem ''woken by {{event}}'' 3 None None None"

abbreviation sample_engine :: trigger_engine where
  "sample_engine \<equiv> exec_trigger_op sample_fmt sample_config sample_registration (with_config sample_config None)"

lemma sample_reachable: "reachable_engine sample_fmt sample_config ([] @ [sample_registration]) sample_engine"
  by (rule reachable_engine.kernel_op[OF reachable_engine.fresh_start])
    (simp add: sample_registration_def with_config_def)

theorem trigger_index_exact_witness:
  "set (list_agent_triggers sample_engine 2) = {t \<in> set (list_all_triggers sample_engine). trg_agent t = 2}"
  using trigger_index_exact[OF sample_reachable, of 2] by blast

text \<open>
  C31: An event whose description can be built fires the first eligible triggers in the order of
  their identifiers, as many as the budget allows, with one message each; the counters and the
  times of exactly those triggers move, and the only other change is that a trigger whose limit
  is reached is switched off.
\<close>
theorem evaluation_exact:
  fixes name :: "agent_id \<Rightarrow> string option" and now :: instant
  assumes "reachable_engine fm c ops e" and "describe_event fm ev = Some desc"
  defines "fired \<equiv> first_eligible fm ev desc name now e"
  shows "\<exists>mutated e'. evaluate_with_resolver fm ev name now e = Some (map (render desc) fired, mutated, e')
    \<and> (\<forall>i t. get_trigger e i = Some t \<longrightarrow>
         (\<exists>t'. get_trigger e' i = Some t' \<and> entry_step (t \<in> set fired) t t'
           \<and> last_fired e' i = (if t \<in> set fired then Some now else last_fired e i)))"
proof -
  have tab: "table_ok e" using reachable_sound[OF assms(1)] by (simp add: sound_def engine_ok_def)
  obtain r where r: "evaluate_with_resolver fm ev name now e = Some r" using evaluate_spec[OF tab assms(2)] .
  obtain ms mutated e' where eq: "r = (ms, mutated, e')" by (cases r)
  note eff = evaluate_effect[OF tab assms(2) r[unfolded eq], folded fired_def]
  have listed: "lookup_trigger e (trg_id u) = Some u" if "u \<in> set fired" for u
    using that tab by (auto simp: fired_def first_eligible_def table_ok_def dest!: in_set_takeD)
  have "\<exists>t'. get_trigger e' i = Some t' \<and> entry_step (t \<in> set fired) t t'
      \<and> last_fired e' i = (if t \<in> set fired then Some now else last_fired e i)"
    if t: "get_trigger e i = Some t" for i t
  proof -
    have tid: "trg_id t = i" using t tab by (simp add: get_trigger_def table_ok_def)
    have "u = t" if "u \<in> set fired" "trg_id u = i" for u
      using listed[OF that(1)] t that(2) unfolding get_trigger_def by simp
    with tid have "i \<in> trg_id ` set fired \<longleftrightarrow> t \<in> set fired" by blast
    then show ?thesis using eff(2) eff(3)[of i] t
      by (auto simp: get_trigger_def override_on_def option_rel_Some1)
  qed
  then show ?thesis using r eq eff(1) by auto
qed

theorem evaluation_exact_witness:
  "\<exists>mutated e'. evaluate_with_resolver sample_fmt sample_event (\<lambda>_. None) 100 sample_engine =
     Some (map (render ''Kernel started'')
             (first_eligible sample_fmt sample_event ''Kernel started'' (\<lambda>_. None) 100 sample_engine), mutated, e')"
proof -
  have "describe_event sample_fmt sample_event = Some ''Kernel started''"
    by (simp add: describe_event_def sample_event_def new_event_def)
  from evaluation_exact[OF sample_reachable this, of "\<lambda>_. None" 100] show ?thesis by blast
qed

text \<open>
  C11: A trigger that a registration for existing agents puts in, with a limit and a cooldown, keeps
  both under its identifier, over every further run in which the trigger file can be read and written,
  new identifiers are drawn fresh, and no patch touches this trigger's pattern, limit or cooldown:
  whatever events arrive, however the trigger is switched on and off, removed, patched otherwise,
  reassigned to another agent or reloaded by a restart, it fires no more often than its limit, and any
  firing comes at least the cooldown after the one before; a limit or cooldown of 0 means none. (A
  patch of the pattern clears the cooldown, since the trigger then counts as a new one, and so does a
  revival of the agent's triggers, which also gives the trigger a new identifier:
  \<open>revival_clears_cooldown\<close>.)
\<close>
theorem trigger_limits_hold:
  assumes "healthy_run fm c (\<lambda>_. True) before (with_config c None)"
    and "e0 = run_triggers fm c before (with_config c None)"
    and "reg = KRegister exists True i now a pat prompt maxf target cooldown mode"
    and "draws_fresh reg e0" and "exists a" and "pred_option exists target"
    and "healthy_run fm c (leaves_limits i) later (exec_trigger_op fm c reg e0)"
    and "firings = fire_log fm c i later (exec_trigger_op fm c reg e0)"
    and "gap = 10 ^ 9 * uint (case cooldown of Some s \<Rightarrow> s | None \<Rightarrow> tc_cooldown_secs c)"
  shows "(0 < maxf \<longrightarrow> length firings \<le> unat maxf) \<and> (0 < gap \<longrightarrow> spaced gap firings)"
proof -
  let ?e = "exec_trigger_op fm c reg e0"
  have sync0: "in_sync c e0" using run_in_sync[OF fresh_engine_in_sync assms(1)] by (simp add: assms(2))
  have sync: "in_sync c ?e" using sync0 assms(3,4) by (intro exec_in_sync) simp_all
  let ?t = "\<lparr>trg_id = i, trg_agent = a, trg_pattern = pat, prompt_template = prompt, trg_enabled = True,
        trg_created_at = now, fire_count = 0, max_fires = maxf, target_agent = target,
        cooldown_secs = cooldown, trg_session_mode = mode, last_fired_at = None\<rparr>"
  have look: "lookup_trigger ?e i = Some ?t"
    using assms(5,6)
    by (cases target) (simp_all add: assms(3) register_trigger_with_target_def register_with_target_def insert_trigger_def table_simps)
  have "default_cooldown_secs ?e = tc_cooldown_secs c" using sync by (simp add: in_sync_def configured_def)
  then have "cooldown_of ?e ?t = gap" by (simp add: cooldown_of_def assms(9) cong: option.case_cong)
  with limits_along_run[OF sync assms(7) look] show ?thesis by (simp add: assms(8))
qed

theorem trigger_limits_hold_witness:
  "length (fire_log sample_fmt sample_config 9
     [KPublish sample_event (\<lambda>_. None) 0 True 100, KRestart True True,
      KPublish sample_event (\<lambda>_. None) 0 True (10 ^ 10)] sample_engine) \<le> 3"
proof -
  let ?later = "[KPublish sample_event (\<lambda>_. None) 0 True 100, KRestart True True,
      KPublish sample_event (\<lambda>_. None) 0 True (10 ^ 10)]"
  have "healthy_run sample_fmt sample_config (leaves_limits 9) ?later sample_engine"
    by (simp del: exec_trigger_op.simps)
  moreover have "draws_fresh sample_registration (with_config sample_config None)"
    by (simp add: sample_registration_def with_config_def)
  ultimately show ?thesis
    using trigger_limits_hold[of sample_fmt sample_config "[] :: unit trigger_op list" "with_config sample_config None"
        sample_registration "\<lambda>_. True" 9 0 2 OnSystem "''woken by {{event}}''" 3 None None None ?later
        "fire_log sample_fmt sample_config 9 ?later sample_engine" "5 * 10 ^ 9"]
    by (simp add: run_triggers_def sample_registration_def[symmetric] sample_config_def del: exec_trigger_op.simps fire_log.simps)
qed

section \<open>Where the engine is weaker than its comments\<close>

text \<open>
  Building the description of an event fails only for a custom event whose JSON text is longer
  than 300 bytes and has a character across byte 300; publishing such an event stops before it
  reaches the triggers or the bus.
\<close>

lemma description_fails_iff:
  "describe_event fm ev = None \<longleftrightarrow>
     (\<exists>data ty txt. ev_payload ev = CustomPayload data \<and> parse_custom fm data = Some (ty, txt)
        \<and> 300 < length txt \<and> \<not> is_char_boundary txt 300)"
  by (cases "ev_payload ev")
    (auto simp: describe_event_def custom_summary_def split: option.splits if_splits)

theorem custom_event_lost:
  "publish_event_inner fm d name w now depth ev (e, b) = None \<longleftrightarrow>
     depth < word_of_nat d
     \<and> (\<exists>data ty txt. ev_payload ev = CustomPayload data \<and> parse_custom fm data = Some (ty, txt)
          \<and> 300 < length txt \<and> \<not> is_char_boundary txt 300)"
  unfolding description_fails_iff[symmetric]
  by (auto simp: publish_event_inner_def evaluate_with_resolver_def not_le)

text \<open>
  Reviving an agent's triggers under new identifiers starts their cooldown anew: no restored
  trigger has a time of last firing.
\<close>

theorem revival_clears_cooldown:
  assumes "engine_ok e" and "list_all (\<lambda>i. last_fired e i = None) is"
    and "i \<in> set is"
  shows "last_fired (exec_trigger_op fm c (KRevive w a b is) e) i = None"
proof -
  have "last_fired (exec_trigger_op fm c (KRevive w a b is) e) = (last_fired e) |` (- set (owned e a))"
    by (simp add: case_prod_beta take_agent_triggers_eq[OF assms(1)] restore_keeps fold_drop)
  then show ?thesis using assms(2,3) by (simp add: restrict_map_def list_all_iff)
qed

text \<open>
  The check that guards against registering a proactive trigger twice also counts a trigger that
  is switched off.
\<close>

lemma has_pattern_ignores_enabled:
  "agent_has_pattern (snd (set_enabled i False e)) a pat = agent_has_pattern e a pat"
proof -
  have "(case lookup_trigger (modify_trigger i (\<lambda>t. t\<lparr>trg_enabled := False\<rparr>) e) j of
          Some t \<Rightarrow> trg_pattern t = pat | None \<Rightarrow> False) \<longleftrightarrow>
        (case lookup_trigger e j of Some t \<Rightarrow> trg_pattern t = pat | None \<Rightarrow> False)" for j
    by (auto simp: modify_trigger_def table_simps split: option.splits)
  moreover have "agent_triggers (modify_trigger i f e) = agent_triggers e" for f
    by (simp add: modify_trigger_def split: option.split)
  ultimately show ?thesis by (simp add: agent_has_pattern_def set_enabled_def cong: option.case_cong)
qed

end
