(* ===== verification/Taint.thy ===== *)
theory Taint
  imports Prelude
begin

text \<open>
  Taint labels and the outbound text filter, \<open>crates/librefang-types/src/taint.rs\<close>.

  The regular expressions belong to a library; a \<open>regex_set\<close> holds what matching and
  replacing with each of the five built-in expressions gives. The labels of a value and of a
  sink are hash sets, kept here as lists without duplicates; the order of a list stands for the
  iteration order.
\<close>

section \<open>Labels, values and sinks\<close>

datatype taint_rule_id =
    AuthorizationLiteral
  | KeyValueSecret
  | WellKnownPrefix
  | OpaqueToken
  | PiiEmail
  | PiiPhone
  | PiiCreditCard
  | PiiSsn
  | SensitiveKeyName

datatype taint_label = ExternalNetwork | UserInput | Pii | Secret | UntrustedAgent

fun show_label :: "taint_label \<Rightarrow> string" where
  "show_label ExternalNetwork = ''ExternalNetwork''"
| "show_label UserInput = ''UserInput''"
| "show_label Pii = ''Pii''"
| "show_label Secret = ''Secret''"
| "show_label UntrustedAgent = ''UntrustedAgent''"

record tainted_value =
  tv_value :: string
  labels :: "taint_label list"
  tv_source :: string

record taint_sink =
  sink_name :: string
  blocked_labels :: "taint_label list"

record taint_violation =
  viol_label :: taint_label
  viol_sink_name :: string
  viol_source :: string

definition show_violation :: "taint_violation \<Rightarrow> string" where
  "show_violation v =
     ''taint violation: label '' @ [CHR 0x27] @ show_label (viol_label v) @ [CHR 0x27] @ '' from source ''
     @ [CHR 0x27] @ viol_source v @ [CHR 0x27] @ '' is not allowed to reach sink ''
     @ [CHR 0x27] @ viol_sink_name v @ [CHR 0x27]"

definition tainted :: "string \<Rightarrow> taint_label list \<Rightarrow> string \<Rightarrow> tainted_value" where
  "tainted v ls source = \<lparr>tv_value = v, labels = ls, tv_source = source\<rparr>"

definition clean :: "string \<Rightarrow> string \<Rightarrow> tainted_value" where
  "clean v source = \<lparr>tv_value = v, labels = [], tv_source = source\<rparr>"

definition merge_taint :: "tainted_value \<Rightarrow> tainted_value \<Rightarrow> tainted_value" where
  "merge_taint v other = v\<lparr>labels := fold List.insert (labels other) (labels v)\<rparr>"

definition check_sink :: "tainted_value \<Rightarrow> taint_sink \<Rightarrow> taint_violation + unit" where
  "check_sink v sink =
     (case find (\<lambda>l. l \<in> set (blocked_labels sink)) (labels v) of
        Some l \<Rightarrow> Inl \<lparr>viol_label = l, viol_sink_name = sink_name sink, viol_source = tv_source v\<rparr>
      | None \<Rightarrow> Inr ())"

definition declassify :: "tainted_value \<Rightarrow> taint_label \<Rightarrow> tainted_value" where
  "declassify v l = v\<lparr>labels := removeAll l (labels v)\<rparr>"

definition is_tainted :: "tainted_value \<Rightarrow> bool" where
  "is_tainted v \<longleftrightarrow> labels v \<noteq> []"

definition shell_exec :: taint_sink where
  "shell_exec = \<lparr>sink_name = ''shell_exec'', blocked_labels = [ExternalNetwork, UntrustedAgent, UserInput]\<rparr>"

definition net_fetch :: taint_sink where
  "net_fetch = \<lparr>sink_name = ''net_fetch'', blocked_labels = [Secret, Pii]\<rparr>"

definition agent_message :: taint_sink where
  "agent_message = \<lparr>sink_name = ''agent_message'', blocked_labels = [Secret]\<rparr>"

definition mcp_tool_call :: taint_sink where
  "mcp_tool_call = \<lparr>sink_name = ''mcp_tool_call'', blocked_labels = [Secret, Pii]\<rparr>"

section \<open>The detectors\<close>

record regex_set =
  date_component_match :: "string \<Rightarrow> bool"
  email_match :: "string \<Rightarrow> bool"
  phone_match :: "string \<Rightarrow> bool"
  credit_card_match :: "string \<Rightarrow> bool"
  ssn_match :: "string \<Rightarrow> bool"
  email_replace :: "string \<Rightarrow> string \<Rightarrow> string"
  phone_replace :: "string \<Rightarrow> string \<Rightarrow> string"
  credit_card_replace :: "string \<Rightarrow> string \<Rightarrow> string"
  ssn_replace :: "string \<Rightarrow> string \<Rightarrow> string"

definition redact_pii_in_text :: "regex_set \<Rightarrow> string \<Rightarrow> string \<Rightarrow> string" where
  "redact_pii_in_text rx text replacement =
     (let t1 = email_replace rx text replacement;
          t2 = phone_replace rx t1 replacement;
          t3 = credit_card_replace rx t2 replacement
      in ssn_replace rx t3 replacement)"

definition SECRET_KEYS :: "string list" where
  "SECRET_KEYS =
     [''api_key'', ''apikey'', ''api-key'', ''authorization'', ''proxy-authorization'', ''access_token'',
      ''refresh_token'', ''token'', ''secret'', ''password'', ''passwd'', ''bearer'', ''x-api-key'']"

definition SEPARATORS :: "string list" where
  "SEPARATORS = [''='', '':'', [CHR 0x22] @ '':'', [CHR 0x27] @ '':'']"

definition collapse_separators :: "string \<Rightarrow> string" where
  "collapse_separators lower =
     (let n1 = replace_str '' = '' ''='' lower;
          n2 = replace_str '' ='' ''='' n1;
          n3 = replace_str ''= '' ''='' n2;
          n4 = replace_str '' : '' '':'' n3;
          n5 = replace_str '' :'' '':'' n4
      in replace_str '': '' '':'' n5)"

definition has_key_value_secret :: "string \<Rightarrow> bool" where
  "has_key_value_secret lower =
     (let normalized = collapse_separators lower
      in list_ex (\<lambda>k. list_ex (\<lambda>sep. contains_str (k @ sep) normalized) SEPARATORS) SECRET_KEYS)"

definition is_token_char :: "char \<Rightarrow> bool" where
  "is_token_char c \<longleftrightarrow> is_ascii_alphabetic c \<or> is_digit c \<or> c \<in> set ''-_./+=''"

definition has_whitespace :: "string \<Rightarrow> bool" where
  "has_whitespace s \<longleftrightarrow> list_ex (\<lambda>c. c \<in> set WHITE_SPACE) (chars_of s)"

definition rfind_char :: "char \<Rightarrow> string \<Rightarrow> nat option" where
  "rfind_char c s = map_option (\<lambda>k. length s - 1 - k) (find_char c (rev s))"

definition looks_like_path :: "string \<Rightarrow> bool" where
  "looks_like_path t \<longleftrightarrow>
     starts_with ''/'' t
     \<or> length t \<ge> 3 \<and> t ! 1 = CHR '':'' \<and> t ! 2 = CHR 0x5C
     \<or> starts_with [CHR 0x5C, CHR 0x5C] t
     \<or> contains_str ''/'' t
        \<and> (case rfind_char (CHR ''.'') t of
             None \<Rightarrow> False
           | Some dot \<Rightarrow> dot > (case rfind_char (CHR ''/'') t of Some k \<Rightarrow> k | None \<Rightarrow> 0))"

definition looks_opaque :: "regex_set \<Rightarrow> string \<Rightarrow> bool" where
  "looks_opaque rx t =
     (let charset_ok = \<not> has_whitespace t \<and> list_all is_token_char t;
          has_letter = list_ex is_ascii_alphabetic t;
          has_digit = list_ex is_digit t;
          is_hex_only = list_all is_ascii_hexdigit t;
          mixed_enough = has_letter \<and> has_digit \<and> \<not> is_hex_only
      in length t \<ge> 32 \<and> charset_ok \<and> mixed_enough \<and> \<not> date_component_match rx t \<and> \<not> looks_like_path t)"

definition WELL_KNOWN_PREFIXES :: "string list" where
  "WELL_KNOWN_PREFIXES = [''sk-'', ''ghp_'', ''github_pat_'', ''xoxp-'', ''xoxb-'', ''AKIA'', ''AIza'']"

definition has_well_known_prefix :: "string \<Rightarrow> bool" where
  "has_well_known_prefix t = list_ex (\<lambda>p. starts_with p t) WELL_KNOWN_PREFIXES"

definition detect_secret_rule_with_skip ::
  "regex_set \<Rightarrow> string \<Rightarrow> taint_rule_id set \<Rightarrow> taint_rule_id option" where
  "detect_secret_rule_with_skip rx payload skip_rules =
     (let lower = to_lowercase payload;
          trimmed = trim payload
      in if AuthorizationLiteral \<notin> skip_rules \<and> contains_str ''authorization:'' lower
         then Some AuthorizationLiteral
         else if KeyValueSecret \<notin> skip_rules \<and> has_key_value_secret lower
         then Some KeyValueSecret
         else if OpaqueToken \<notin> skip_rules \<and> looks_opaque rx trimmed
         then Some OpaqueToken
         else if WellKnownPrefix \<notin> skip_rules \<and> has_well_known_prefix trimmed
         then Some WellKnownPrefix
         else None)"

definition tokenish_mixed :: "string \<Rightarrow> bool" where
  "tokenish_mixed t \<longleftrightarrow>
     t \<noteq> [] \<and> CHR ''@'' \<notin> set t \<and> \<not> has_whitespace t \<and> list_all is_token_char t \<and> list_ex is_ascii_alphabetic t"

definition is_numeric_timestamp :: "string \<Rightarrow> bool" where
  "is_numeric_timestamp t \<longleftrightarrow>
     length (filter (\<lambda>c. c = CHR ''.'') t) = 1
     \<and> list_all (\<lambda>c. is_digit c \<or> c = CHR ''.'') t
     \<and> (case find_char (CHR ''.'') t of
          Some k \<Rightarrow> length (take k t) \<ge> 9 \<and> drop (Suc k) t \<noteq> []
        | None \<Rightarrow> False)"

definition detect_pii_rule_with_skip ::
  "regex_set \<Rightarrow> string \<Rightarrow> taint_rule_id set \<Rightarrow> taint_rule_id option" where
  "detect_pii_rule_with_skip rx payload skip_rules =
     (let trimmed = trim payload
      in if tokenish_mixed trimmed then None
         else if is_numeric_timestamp trimmed then None
         else if PiiEmail \<notin> skip_rules \<and> email_match rx payload then Some PiiEmail
         else if PiiPhone \<notin> skip_rules \<and> phone_match rx payload then Some PiiPhone
         else if PiiCreditCard \<notin> skip_rules \<and> credit_card_match rx payload then Some PiiCreditCard
         else if PiiSsn \<notin> skip_rules \<and> ssn_match rx payload then Some PiiSsn
         else None)"

definition detect_outbound_text_violation_rules_with_skip ::
  "regex_set \<Rightarrow> string \<Rightarrow> taint_sink \<Rightarrow> taint_rule_id set \<Rightarrow> taint_rule_id list" where
  "detect_outbound_text_violation_rules_with_skip rx payload sink skip_rules =
     (case detect_secret_rule_with_skip rx payload skip_rules of
        Some rule \<Rightarrow>
          (case check_sink (tainted payload [Secret] ''llm_tool_call'') sink of
             Inl _ \<Rightarrow> [rule] | Inr _ \<Rightarrow> [])
      | None \<Rightarrow> [])
     @ (if Pii \<in> set (blocked_labels sink) then
          (case detect_pii_rule_with_skip rx payload skip_rules of
             Some rule \<Rightarrow>
               (case check_sink (tainted payload [Pii] ''llm_tool_call'') sink of
                  Inl _ \<Rightarrow> [rule] | Inr _ \<Rightarrow> [])
           | None \<Rightarrow> [])
        else [])"

definition detect_outbound_text_violation_with_skip ::
  "regex_set \<Rightarrow> string \<Rightarrow> taint_sink \<Rightarrow> taint_rule_id set \<Rightarrow> taint_rule_id option" where
  "detect_outbound_text_violation_with_skip rx payload sink skip_rules =
     (case detect_outbound_text_violation_rules_with_skip rx payload sink skip_rules of
        rule # _ \<Rightarrow> Some rule | [] \<Rightarrow> None)"

definition check_outbound_text_violation_with_skip ::
  "regex_set \<Rightarrow> string \<Rightarrow> taint_sink \<Rightarrow> taint_rule_id set \<Rightarrow> string option" where
  "check_outbound_text_violation_with_skip rx payload sink skip_rules =
     (let ls1 = (if detect_secret_rule_with_skip rx payload skip_rules \<noteq> None then [Secret] else []);
          ls = (if Pii \<in> set (blocked_labels sink) \<and> detect_pii_rule_with_skip rx payload skip_rules \<noteq> None
                then ls1 @ [Pii] else ls1)
      in if ls = [] then None
         else (case check_sink (tainted payload ls ''llm_tool_call'') sink of
                 Inl violation \<Rightarrow> Some (show_violation violation)
               | Inr _ \<Rightarrow> None))"

definition check_outbound_text_violation :: "regex_set \<Rightarrow> string \<Rightarrow> taint_sink \<Rightarrow> string option" where
  "check_outbound_text_violation rx payload sink = check_outbound_text_violation_with_skip rx payload sink {}"

section \<open>Facts on labels and detectors\<close>

lemma find_eq_None: "find P xs = None \<longleftrightarrow> (\<forall>x \<in> set xs. \<not> P x)"
  by (induction xs) auto

lemma check_sink_ok_iff: "check_sink v sink = Inr () \<longleftrightarrow> set (labels v) \<inter> set (blocked_labels sink) = {}"
  using find_eq_None[of "\<lambda>l. l \<in> set (blocked_labels sink)" "labels v"]
  by (auto simp: check_sink_def disjoint_iff split: option.split)

lemma check_sink_error:
  "check_sink v sink = Inl e \<Longrightarrow>
     viol_label e \<in> set (labels v) \<inter> set (blocked_labels sink)
     \<and> viol_source e = tv_source v \<and> viol_sink_name e = sink_name sink"
  by (auto simp: check_sink_def find_Some_iff split: option.splits)

lemma merge_taint_labels: "set (labels (merge_taint v w)) = set (labels v) \<union> set (labels w)"
proof -
  have "set (fold List.insert xs ys) = set ys \<union> set xs" for xs ys :: "taint_label list"
    by (induction xs arbitrary: ys) auto
  then show ?thesis by (simp add: merge_taint_def)
qed

lemma declassify_labels: "set (labels (declassify v l)) = set (labels v) - {l}"
  by (simp add: declassify_def)

text \<open>
  What each rule looks for, and the detectors as the first rule in their order that is not
  skipped and fires.
\<close>

fun rule_fires :: "regex_set \<Rightarrow> string \<Rightarrow> taint_rule_id \<Rightarrow> bool" where
  "rule_fires rx p AuthorizationLiteral \<longleftrightarrow> contains_str ''authorization:'' (to_lowercase p)"
| "rule_fires rx p KeyValueSecret \<longleftrightarrow> has_key_value_secret (to_lowercase p)"
| "rule_fires rx p OpaqueToken \<longleftrightarrow> looks_opaque rx (trim p)"
| "rule_fires rx p WellKnownPrefix \<longleftrightarrow> has_well_known_prefix (trim p)"
| "rule_fires rx p PiiEmail \<longleftrightarrow> email_match rx p"
| "rule_fires rx p PiiPhone \<longleftrightarrow> phone_match rx p"
| "rule_fires rx p PiiCreditCard \<longleftrightarrow> credit_card_match rx p"
| "rule_fires rx p PiiSsn \<longleftrightarrow> ssn_match rx p"
| "rule_fires rx p SensitiveKeyName \<longleftrightarrow> False"

definition SECRET_RULES :: "taint_rule_id list" where
  "SECRET_RULES = [AuthorizationLiteral, KeyValueSecret, OpaqueToken, WellKnownPrefix]"

definition PII_RULES :: "taint_rule_id list" where
  "PII_RULES = [PiiEmail, PiiPhone, PiiCreditCard, PiiSsn]"

definition pii_exempt :: "string \<Rightarrow> bool" where
  "pii_exempt p \<longleftrightarrow> tokenish_mixed (trim p) \<or> is_numeric_timestamp (trim p)"

lemma detect_secret_find:
  "detect_secret_rule_with_skip rx p skip = find (\<lambda>r. r \<notin> skip \<and> rule_fires rx p r) SECRET_RULES"
  by (simp add: detect_secret_rule_with_skip_def SECRET_RULES_def Let_def)

lemma detect_pii_find:
  "detect_pii_rule_with_skip rx p skip =
     (if pii_exempt p then None else find (\<lambda>r. r \<notin> skip \<and> rule_fires rx p r) PII_RULES)"
  by (simp add: detect_pii_rule_with_skip_def PII_RULES_def pii_exempt_def Let_def)

lemma tainted_check:
  "check_sink (tainted p [l] s) sink = Inr () \<longleftrightarrow> l \<notin> set (blocked_labels sink)"
  by (simp add: check_sink_ok_iff tainted_def)

lemma detected_rules:
  "detect_outbound_text_violation_rules_with_skip rx p sink skip =
     (if Secret \<in> set (blocked_labels sink)
      then (case detect_secret_rule_with_skip rx p skip of Some r \<Rightarrow> [r] | None \<Rightarrow> []) else [])
     @ (if Pii \<in> set (blocked_labels sink)
        then (case detect_pii_rule_with_skip rx p skip of Some r \<Rightarrow> [r] | None \<Rightarrow> []) else [])"
  using tainted_check[of p Secret "''llm_tool_call''" sink] tainted_check[of p Pii "''llm_tool_call''" sink]
  by (auto simp: detect_outbound_text_violation_rules_with_skip_def split: option.split sum.split)

definition text_passes :: "regex_set \<Rightarrow> string \<Rightarrow> taint_sink \<Rightarrow> taint_rule_id set \<Rightarrow> bool" where
  "text_passes rx p sink skip \<longleftrightarrow>
     (Secret \<in> set (blocked_labels sink) \<longrightarrow> (\<forall>r \<in> set SECRET_RULES - skip. \<not> rule_fires rx p r))
     \<and> (Pii \<in> set (blocked_labels sink) \<and> \<not> pii_exempt p \<longrightarrow> (\<forall>r \<in> set PII_RULES - skip. \<not> rule_fires rx p r))"

lemma secret_silent:
  "detect_secret_rule_with_skip rx p skip = None \<longleftrightarrow> (\<forall>r \<in> set SECRET_RULES - skip. \<not> rule_fires rx p r)"
  by (auto simp: detect_secret_find find_eq_None)

lemma pii_silent:
  "detect_pii_rule_with_skip rx p skip = None \<longleftrightarrow>
     pii_exempt p \<or> (\<forall>r \<in> set PII_RULES - skip. \<not> rule_fires rx p r)"
  by (auto simp: detect_pii_find find_eq_None)

lemma detected_Nil:
  "detect_outbound_text_violation_rules_with_skip rx p sink skip = [] \<longleftrightarrow> text_passes rx p sink skip"
  using pii_silent[of rx p skip]
  by (auto simp: detected_rules text_passes_def simp flip: secret_silent split: option.splits)

lemma detect_passes_iff:
  "detect_outbound_text_violation_with_skip rx p sink skip = None \<longleftrightarrow> text_passes rx p sink skip"
  by (auto simp: detect_outbound_text_violation_with_skip_def simp flip: detected_Nil split: list.splits)

lemma check_passes_iff:
  "check_outbound_text_violation_with_skip rx p sink skip = None \<longleftrightarrow> text_passes rx p sink skip"
proof -
  let ?A = "detect_secret_rule_with_skip rx p skip \<noteq> None"
  let ?B = "Pii \<in> set (blocked_labels sink) \<and> detect_pii_rule_with_skip rx p skip \<noteq> None"
  have passes: "text_passes rx p sink skip \<longleftrightarrow> (Secret \<in> set (blocked_labels sink) \<longrightarrow> \<not> ?A) \<and> \<not> ?B"
    unfolding text_passes_def secret_silent[symmetric] using pii_silent by auto
  have ok: "(case check_sink (tainted p ls s) sink of Inl v \<Rightarrow> Some (show_violation v) | Inr _ \<Rightarrow> None) = None
      \<longleftrightarrow> set ls \<inter> set (blocked_labels sink) = {}" for ls s
    using check_sink_ok_iff[of "tainted p ls s" sink] by (auto simp: tainted_def split: sum.splits)
  show ?thesis
    unfolding check_outbound_text_violation_with_skip_def Let_def passes
    by (cases ?A; cases ?B) (auto simp: ok simp del: not_None_eq)
qed

lemma text_passes_mono: "text_passes rx p sink skip \<Longrightarrow> skip \<subseteq> skip' \<Longrightarrow> text_passes rx p sink skip'"
  by (auto simp: text_passes_def)

text \<open>
  C35: The filter lets a text pass exactly when, in each family of rules whose label the sink blocks,
  every rule that is not skipped stays silent; the rules for personal data are not asked at all
  about a text that, trimmed, is a mixed token or a numeric timestamp. The two entry points agree
  on this, and skipping more rules never makes a text fail at either of them.
\<close>
theorem outbound_filter_exact:
  "(check_outbound_text_violation_with_skip rx p sink skip = None \<longleftrightarrow> text_passes rx p sink skip)
   \<and> (detect_outbound_text_violation_with_skip rx p sink skip = None \<longleftrightarrow> text_passes rx p sink skip)
   \<and> (skip \<subseteq> skip' \<longrightarrow>
        (check_outbound_text_violation_with_skip rx p sink skip = None \<longrightarrow>
           check_outbound_text_violation_with_skip rx p sink skip' = None)
        \<and> (detect_outbound_text_violation_with_skip rx p sink skip = None \<longrightarrow>
           detect_outbound_text_violation_with_skip rx p sink skip' = None))"
  using text_passes_mono[of rx p sink skip skip']
  by (simp add: check_passes_iff detect_passes_iff)

definition email_regexes :: regex_set where
  "email_regexes = \<lparr>date_component_match = (\<lambda>_. False), email_match = (\<lambda>s. CHR 0x40 \<in> set s),
     phone_match = (\<lambda>_. False), credit_card_match = (\<lambda>_. False), ssn_match = (\<lambda>_. False),
     email_replace = (\<lambda>s _. s), phone_replace = (\<lambda>s _. s), credit_card_replace = (\<lambda>s _. s),
     ssn_replace = (\<lambda>s _. s)\<rparr>"

theorem outbound_filter_exact_witness:
  "detect_outbound_text_violation_with_skip email_regexes ''mail a@b.c'' mcp_tool_call {PiiEmail} = None
   \<and> detect_outbound_text_violation_with_skip email_regexes ''mail a@b.c'' mcp_tool_call {PiiEmail, PiiSsn} = None
   \<and> detect_outbound_text_violation_with_skip email_regexes ''mail a@b.c'' mcp_tool_call {} = Some PiiEmail"
proof -
  have "detect_outbound_text_violation_with_skip email_regexes ''mail a@b.c'' mcp_tool_call {PiiEmail} = None"
    "detect_outbound_text_violation_with_skip email_regexes ''mail a@b.c'' mcp_tool_call {} = Some PiiEmail"
    by code_simp+
  with outbound_filter_exact[of email_regexes "''mail a@b.c''" mcp_tool_call "{PiiEmail}" "{PiiEmail, PiiSsn}"]
  show ?thesis by blast
qed

section \<open>Labels along a computation\<close>

text \<open>
  Values in named cells, combined and declassified in any order.
\<close>

datatype taint_op = Combine nat nat | Declassify nat taint_label

fun exec_taint :: "(nat \<Rightarrow> tainted_value) \<Rightarrow> taint_op \<Rightarrow> nat \<Rightarrow> tainted_value" where
  "exec_taint st (Combine i j) = st(i := merge_taint (st i) (st j))"
| "exec_taint st (Declassify i l) = st(i := declassify (st i) l)"

lemma exec_taint_keeps:
  assumes "l \<in> set (labels (st i))" and "op \<noteq> Declassify i l"
  shows "l \<in> set (labels (exec_taint st op i))"
  using assms by (cases op) (auto simp: merge_taint_labels declassify_labels)

text \<open>
  A label leaves a value only by an explicit declassification of that value, so a value that
  ever took on a label a sink blocks, by itself or by being combined with one that had it, never
  passes the sink before it is declassified.
\<close>
theorem labels_leave_by_declassification:
  assumes "l \<in> set (labels (st j)) \<or> l \<in> set (labels (st i))" and "l \<in> set (blocked_labels sink)"
    and "Declassify i l \<notin> set ops"
  shows "check_sink (foldl exec_taint (exec_taint st (Combine i j)) ops i) sink \<noteq> Inr ()"
proof -
  have keep: "l \<in> set (labels (foldl exec_taint s ops i))" if "l \<in> set (labels (s i))" for s
    using that assms(3)
  proof (induction ops arbitrary: s)
    case (Cons op ops)
    then have "l \<in> set (labels (exec_taint s op i))" by (intro exec_taint_keeps) auto
    then show ?case using Cons by simp
  qed simp
  have "l \<in> set (labels (exec_taint st (Combine i j) i))" using assms(1) by (auto simp: merge_taint_labels)
  from keep[of "exec_taint st (Combine i j)", OF this] show ?thesis using assms(2) by (auto simp: check_sink_ok_iff disjoint_iff)
qed

theorem labels_leave_by_declassification_witness:
  "check_sink
     (foldl exec_taint
        (exec_taint (\<lambda>k. tainted [] (if k = 1 then [Secret] else []) ''user'') (Combine 0 1))
        [Declassify 1 Secret, Declassify 0 Pii] 0) mcp_tool_call \<noteq> Inr ()"
  by (rule labels_leave_by_declassification[where l = Secret]) code_simp+

end
