(* ===== verification/McpTaint.thy ===== *)
theory McpTaint
  imports Taint
begin

text \<open>
  The scan of tool arguments before they leave for an external server
  (\<open>crates/librefang-runtime-mcp/src/lib.rs\<close>), with its policy types
  (\<open>crates/librefang-types/src/config/types.rs\<close>), and the checks the built-in tools make on
  commands, addresses and texts (\<open>crates/librefang-runtime/src/tool_runner.rs\<close>).

  A hash map of the policy is an association list. The query pairs of an address come from the
  URL parser, which is a parameter.
\<close>

section \<open>Policy\<close>

record taint_path_policy =
  skip_rules :: "taint_rule_id list"

datatype taint_tool_action = Scan | SkipTool

record taint_tool_policy =
  tool_default :: taint_tool_action
  tool_paths :: "(string \<times> taint_path_policy) list"
  tool_rule_sets :: "string list"

record taint_policy =
  policy_tools :: "(string \<times> taint_tool_policy) list"

datatype rule_set_action = Block | Warn | LogOnly

record named_rule_set =
  set_name :: string
  set_action :: rule_set_action
  set_rules :: "taint_rule_id list"

definition MCP_TAINT_SCAN_MAX_DEPTH :: nat where "MCP_TAINT_SCAN_MAX_DEPTH = 64"

definition MCP_SENSITIVE_KEY_NAMES :: "string list" where
  "MCP_SENSITIVE_KEY_NAMES =
     [''authorization'', ''proxy-authorization'', ''api_key'', ''apikey'', ''api-key'', ''x-api-key'',
      ''access_token'', ''accesstoken'', ''refresh_token'', ''bearer'', ''password'', ''passwd'', ''secret'',
      ''client_secret'', ''private_key'']"

definition is_sensitive_key_name :: "string \<Rightarrow> bool" where
  "is_sensitive_key_name k \<longleftrightarrow> to_lowercase k \<in> set MCP_SENSITIVE_KEY_NAMES"

section \<open>Paths\<close>

text \<open>A path is cut at every dot but one at its very start.\<close>

definition split_jsonpath :: "string \<Rightarrow> string list" where
  "split_jsonpath p =
     (case p of
        [] \<Rightarrow> [[]]
      | c # cs \<Rightarrow>
          (case split_on (\<lambda>x. x = CHR ''.'') cs of
             [] \<Rightarrow> [[c]]
           | s # ss \<Rightarrow> (c # s) # ss))"

definition seg_array_wildcard_matches :: "string \<Rightarrow> string \<Rightarrow> bool" where
  "seg_array_wildcard_matches pat seg =
     (case strip_suffix ''[*]'' pat of
        None \<Rightarrow> False
      | Some pre \<Rightarrow>
          starts_with pre seg
          \<and> (let rest = drop (length pre) seg
             in starts_with ''['' rest \<and> ends_with '']'' rest
                \<and> list_all is_digit (take (length rest - 2) (drop 1 rest))))"

fun segs_match :: "string list \<Rightarrow> string list \<Rightarrow> bool" where
  "segs_match [] [] \<longleftrightarrow> True"
| "segs_match [] (_ # _) \<longleftrightarrow> False"
| "segs_match (_ # _) [] \<longleftrightarrow> False"
| "segs_match (p # pr) (h # hr) \<longleftrightarrow>
     (p = h \<or> p = ''*'' \<and> CHR ''['' \<notin> set h \<or> seg_array_wildcard_matches p h) \<and> segs_match pr hr"

definition jsonpath_matches :: "string \<Rightarrow> string \<Rightarrow> bool" where
  "jsonpath_matches pat path \<longleftrightarrow> pat = path \<or> segs_match (split_jsonpath pat) (split_jsonpath path)"

definition resolve_skip_rules :: "taint_policy option \<Rightarrow> string \<Rightarrow> string \<Rightarrow> taint_rule_id set" where
  "resolve_skip_rules policy tool_name json_path =
     (case policy of
        None \<Rightarrow> {}
      | Some pol \<Rightarrow>
          (case map_of (policy_tools pol) tool_name of
             None \<Rightarrow> {}
           | Some tp \<Rightarrow>
               set (concat (map (\<lambda>(pat, pp). if jsonpath_matches pat json_path then skip_rules pp else [])
                              (tool_paths tp)))))"

section \<open>Rule sets\<close>

fun action_priority :: "rule_set_action \<Rightarrow> nat" where
  "action_priority Block = 0"
| "action_priority Warn = 1"
| "action_priority LogOnly = 2"

fun best_action ::
  "named_rule_set list \<Rightarrow> taint_rule_id \<Rightarrow> string list \<Rightarrow> (rule_set_action \<times> string) option
   \<Rightarrow> (rule_set_action \<times> string) option" where
  "best_action registry rule [] best = best"
| "best_action registry rule (n # ns) best =
     (case find (\<lambda>s. set_name s = n) registry of
        None \<Rightarrow> best_action registry rule ns best
      | Some s \<Rightarrow>
          if rule \<notin> set (set_rules s) then best_action registry rule ns best
          else best_action registry rule ns
            (case best of
               None \<Rightarrow> Some (set_action s, set_name s)
             | Some prev \<Rightarrow>
                 if action_priority (set_action s) > action_priority (fst prev)
                 then Some (set_action s, set_name s) else Some prev))"

definition lookup_rule_set_action ::
  "taint_policy option \<Rightarrow> string \<Rightarrow> taint_rule_id \<Rightarrow> named_rule_set list \<Rightarrow> (rule_set_action \<times> string) option" where
  "lookup_rule_set_action policy tool_name rule registry =
     (case policy of
        None \<Rightarrow> None
      | Some pol \<Rightarrow>
          (case map_of (policy_tools pol) tool_name of
             None \<Rightarrow> None
           | Some tp \<Rightarrow>
               if tool_rule_sets tp = [] \<or> registry = [] then None
               else best_action registry rule (tool_rule_sets tp) None))"

definition apply_rule_set_action ::
  "taint_policy option \<Rightarrow> string \<Rightarrow> taint_rule_id \<Rightarrow> named_rule_set list \<Rightarrow> bool" where
  "apply_rule_set_action policy tool_name rule registry =
     (case lookup_rule_set_action policy tool_name rule registry of
        None \<Rightarrow> True
      | Some (act, _) \<Rightarrow> (case act of Block \<Rightarrow> True | Warn \<Rightarrow> False | LogOnly \<Rightarrow> False))"

section \<open>The walk\<close>

definition quoted :: "string \<Rightarrow> string" where
  "quoted s = [CHR 0x27] @ s @ [CHR 0x27]"

definition depth_message :: "string \<Rightarrow> string" where
  "depth_message path =
     ''taint violation: MCP argument tree exceeds max depth '' @ show_nat MCP_TAINT_SCAN_MAX_DEPTH
     @ '' at '' @ quoted path"

definition value_message :: "string \<Rightarrow> taint_sink \<Rightarrow> string" where
  "value_message path sink =
     ''taint violation: sensitive value in MCP argument '' @ quoted path
     @ '' (blocked by sink '' @ quoted (sink_name sink) @ '')''"

definition key_message :: "string \<Rightarrow> taint_sink \<Rightarrow> string" where
  "key_message path sink =
     ''taint violation: sensitive MCP argument key at '' @ quoted path
     @ '' (blocked by sink '' @ quoted (sink_name sink) @ '')''"

record scan_env =
  env_regex :: regex_set
  env_sink :: taint_sink
  env_policy :: "taint_policy option"
  env_registry :: "named_rule_set list"
  env_tool :: string

definition blocking :: "scan_env \<Rightarrow> taint_rule_id \<Rightarrow> bool" where
  "blocking env rule = apply_rule_set_action (env_policy env) (env_tool env) rule (env_registry env)"

definition scan_string :: "scan_env \<Rightarrow> string \<Rightarrow> string \<Rightarrow> string option" where
  "scan_string env path s =
     (if list_ex (blocking env)
           (detect_outbound_text_violation_rules_with_skip (env_regex env) s (env_sink env)
              (resolve_skip_rules (env_policy env) (env_tool env) path))
      then Some (value_message path (env_sink env)) else None)"

definition key_blocked :: "scan_env \<Rightarrow> string \<Rightarrow> string \<Rightarrow> json \<Rightarrow> bool" where
  "key_blocked env child k v \<longleftrightarrow>
     is_sensitive_key_name k
     \<and> SensitiveKeyName \<notin> resolve_skip_rules (env_policy env) (env_tool env) child
     \<and> (case v of JString s \<Rightarrow> trim s \<noteq> [] \<and> blocking env SensitiveKeyName | _ \<Rightarrow> False)"

definition index_path :: "string \<Rightarrow> nat \<Rightarrow> string" where
  "index_path path i = path @ ''['' @ show_nat i @ '']''"

definition key_path :: "string \<Rightarrow> string \<Rightarrow> string" where
  "key_path path k = path @ ''.'' @ k"

fun walk_taint :: "scan_env \<Rightarrow> json \<Rightarrow> string \<Rightarrow> nat \<Rightarrow> string option"
  and walk_items :: "scan_env \<Rightarrow> json list \<Rightarrow> string \<Rightarrow> nat \<Rightarrow> nat \<Rightarrow> string option"
  and walk_members :: "scan_env \<Rightarrow> (string \<times> json) list \<Rightarrow> string \<Rightarrow> nat \<Rightarrow> string option" where
  "walk_taint env v path depth =
     (if depth > MCP_TAINT_SCAN_MAX_DEPTH then Some (depth_message path)
      else case v of
             JString s \<Rightarrow> scan_string env path s
           | JArray items \<Rightarrow> walk_items env items path 0 (Suc depth)
           | JObject obj \<Rightarrow> walk_members env obj path (Suc depth)
           | _ \<Rightarrow> None)"
| "walk_items env [] path i depth = None"
| "walk_items env (x # xs) path i depth =
     (case walk_taint env x (index_path path i) depth of
        Some m \<Rightarrow> Some m
      | None \<Rightarrow> walk_items env xs path (Suc i) depth)"
| "walk_members env [] path depth = None"
| "walk_members env ((k, v) # kvs) path depth =
     (if key_blocked env (key_path path k) k v then Some (key_message (key_path path k) (env_sink env))
      else case walk_taint env v (key_path path k) depth of
             Some m \<Rightarrow> Some m
           | None \<Rightarrow> walk_members env kvs path depth)"

definition scan_mcp_arguments_for_taint_with_policy ::
  "regex_set \<Rightarrow> json \<Rightarrow> taint_policy option \<Rightarrow> named_rule_set list \<Rightarrow> string \<Rightarrow> string option" where
  "scan_mcp_arguments_for_taint_with_policy rx v policy registry tool_name =
     (if (case policy of
            None \<Rightarrow> False
          | Some pol \<Rightarrow>
              (case map_of (policy_tools pol) tool_name of
                 None \<Rightarrow> False
               | Some tp \<Rightarrow> tool_default tp = SkipTool))
      then None
      else walk_taint
             \<lparr>env_regex = rx, env_sink = mcp_tool_call, env_policy = policy, env_registry = registry,
              env_tool = tool_name\<rparr> v ''$'' 0)"

text \<open>
  The gate of \<open>call_tool\<close>: an error, and no request, when the scan finds something.
\<close>

definition call_tool_gate ::
  "regex_set \<Rightarrow> bool \<Rightarrow> taint_policy option \<Rightarrow> named_rule_set list \<Rightarrow> string \<Rightarrow> json \<Rightarrow> string + unit" where
  "call_tool_gate rx taint_scanning policy registry raw_name arguments =
     (if taint_scanning then
        (case scan_mcp_arguments_for_taint_with_policy rx arguments policy registry raw_name of
           Some violation \<Rightarrow> Inl violation
         | None \<Rightarrow> Inr ())
      else Inr ())"

section \<open>What the scan decides\<close>

text \<open>
  The parts of an argument tree: its texts and its members with their paths, its nodes, and how
  deep it is.
\<close>

fun string_leaves :: "json \<Rightarrow> string \<Rightarrow> (string \<times> string) list"
  and item_leaves :: "json list \<Rightarrow> string \<Rightarrow> nat \<Rightarrow> (string \<times> string) list"
  and member_leaves :: "(string \<times> json) list \<Rightarrow> string \<Rightarrow> (string \<times> string) list" where
  "string_leaves v path =
     (case v of
        JString s \<Rightarrow> [(path, s)]
      | JArray items \<Rightarrow> item_leaves items path 0
      | JObject obj \<Rightarrow> member_leaves obj path
      | _ \<Rightarrow> [])"
| "item_leaves [] path i = []"
| "item_leaves (x # xs) path i = string_leaves x (index_path path i) @ item_leaves xs path (Suc i)"
| "member_leaves [] path = []"
| "member_leaves ((k, v) # kvs) path = string_leaves v (key_path path k) @ member_leaves kvs path"

fun members :: "json \<Rightarrow> string \<Rightarrow> (string \<times> string \<times> json) list"
  and item_members :: "json list \<Rightarrow> string \<Rightarrow> nat \<Rightarrow> (string \<times> string \<times> json) list"
  and object_members :: "(string \<times> json) list \<Rightarrow> string \<Rightarrow> (string \<times> string \<times> json) list" where
  "members v path =
     (case v of
        JArray items \<Rightarrow> item_members items path 0
      | JObject obj \<Rightarrow> object_members obj path
      | _ \<Rightarrow> [])"
| "item_members [] path i = []"
| "item_members (x # xs) path i = members x (index_path path i) @ item_members xs path (Suc i)"
| "object_members [] path = []"
| "object_members ((k, v) # kvs) path =
     (key_path path k, k, v) # members v (key_path path k) @ object_members kvs path"

fun fits :: "json \<Rightarrow> nat \<Rightarrow> bool" and items_fit :: "json list \<Rightarrow> nat \<Rightarrow> bool"
  and members_fit :: "(string \<times> json) list \<Rightarrow> nat \<Rightarrow> bool" where
  "fits v d \<longleftrightarrow>
     d \<le> MCP_TAINT_SCAN_MAX_DEPTH
     \<and> (case v of
          JArray items \<Rightarrow> items_fit items (Suc d)
        | JObject obj \<Rightarrow> members_fit obj (Suc d)
        | _ \<Rightarrow> True)"
| "items_fit [] d \<longleftrightarrow> True"
| "items_fit (x # xs) d \<longleftrightarrow> fits x d \<and> items_fit xs d"
| "members_fit [] d \<longleftrightarrow> True"
| "members_fit ((k, v) # kvs) d \<longleftrightarrow> fits v d \<and> members_fit kvs d"

definition parts_pass :: "scan_env \<Rightarrow> (string \<times> string) list \<Rightarrow> (string \<times> string \<times> json) list \<Rightarrow> bool" where
  "parts_pass env ls ms \<longleftrightarrow>
     (\<forall>(p, s) \<in> set ls. scan_string env p s = None) \<and> (\<forall>(p, k, v) \<in> set ms. \<not> key_blocked env p k v)"

lemma parts_pass_append:
  "parts_pass env (ls @ ls') (ms @ ms') \<longleftrightarrow> parts_pass env ls ms \<and> parts_pass env ls' ms'"
  by (simp add: parts_pass_def ball_Un conj_ac)

lemma parts_pass_simps [simp]:
  "parts_pass env [] []"
  "parts_pass env ls ((p, k, v) # ms) \<longleftrightarrow> \<not> key_blocked env p k v \<and> parts_pass env ls ms"
  "parts_pass env [(p, s)] [] \<longleftrightarrow> scan_string env p s = None"
  by (auto simp: parts_pass_def)

lemma walk_exact:
  "walk_taint env v path d = None \<longleftrightarrow>
     fits v d \<and> parts_pass env (string_leaves v path) (members v path)"
  "walk_items env xs path i d = None \<longleftrightarrow>
     items_fit xs d \<and> parts_pass env (item_leaves xs path i) (item_members xs path i)"
  "walk_members env kvs path d = None \<longleftrightarrow>
     members_fit kvs d \<and> parts_pass env (member_leaves kvs path) (object_members kvs path)"
proof (induction env v path d and env xs path i d and env kvs path d
    rule: walk_taint_walk_items_walk_members.induct)
  case (1 env v path depth)
  then show ?case by (cases v) (auto simp: not_less)
next
  case (3 env x xs path i depth)
  then show ?case by (auto simp: parts_pass_append split: option.splits)
next
  case (5 env k v kvs path depth)
  then show ?case by (auto simp: parts_pass_append split: option.splits)
qed simp_all

definition tool_skipped :: "taint_policy option \<Rightarrow> string \<Rightarrow> bool" where
  "tool_skipped policy tool \<longleftrightarrow>
     (case policy of
        None \<Rightarrow> False
      | Some pol \<Rightarrow> (case map_of (policy_tools pol) tool of None \<Rightarrow> False | Some tp \<Rightarrow> tool_default tp = SkipTool))"

definition mcp_env :: "regex_set \<Rightarrow> taint_policy option \<Rightarrow> named_rule_set list \<Rightarrow> string \<Rightarrow> scan_env" where
  "mcp_env rx policy registry tool =
     \<lparr>env_regex = rx, env_sink = mcp_tool_call, env_policy = policy, env_registry = registry, env_tool = tool\<rparr>"

lemma scan_walk:
  "scan_mcp_arguments_for_taint_with_policy rx v policy registry tool =
     (if tool_skipped policy tool then None else walk_taint (mcp_env rx policy registry tool) v ''$'' 0)"
  by (simp add: scan_mcp_arguments_for_taint_with_policy_def tool_skipped_def mcp_env_def
      del: walk_taint.simps)

lemma scan_string_None:
  "scan_string env p s = None \<longleftrightarrow>
     (\<forall>r \<in> set (detect_outbound_text_violation_rules_with_skip (env_regex env) s (env_sink env)
        (resolve_skip_rules (env_policy env) (env_tool env) p)). \<not> blocking env r)"
  by (auto simp: scan_string_def list_ex_iff)

lemma no_policy [simp]:
  "resolve_skip_rules None tool p = {}" "apply_rule_set_action None tool r registry" "\<not> tool_skipped None tool"
  by (simp_all add: resolve_skip_rules_def apply_rule_set_action_def lookup_rule_set_action_def tool_skipped_def)

text \<open>
  A non-blank text.
\<close>

fun carries_text :: "json \<Rightarrow> bool" where
  "carries_text (JString s) \<longleftrightarrow> trim s \<noteq> []"
| "carries_text _ \<longleftrightarrow> False"

lemma unpoliced_scan:
  "scan_mcp_arguments_for_taint_with_policy rx v None registry tool = None \<longleftrightarrow>
     fits v 0
     \<and> (\<forall>(p, s) \<in> set (string_leaves v ''$''). text_passes rx s mcp_tool_call {})
     \<and> (\<forall>(p, k, x) \<in> set (members v ''$''). \<not> (is_sensitive_key_name k \<and> carries_text x))"
proof -
  have leaf: "scan_string (mcp_env rx None registry tool) p s = None \<longleftrightarrow> text_passes rx s mcp_tool_call {}" for p s
    by (auto simp: scan_string_None mcp_env_def blocking_def simp flip: detected_Nil)
  have key: "key_blocked (mcp_env rx None registry tool) p k x \<longleftrightarrow> is_sensitive_key_name k \<and> carries_text x" for p k x
    by (cases x) (auto simp: key_blocked_def mcp_env_def blocking_def)
  show ?thesis
    by (simp only: scan_walk no_policy if_False walk_exact parts_pass_def leaf key)
qed

text \<open>
  C23: Without a policy, arguments leave exactly when the tree is no deeper than the limit, every text
  in it, wherever it is nested, passes the filter with no rule skipped, and no member with the
  name of a credential holds a non-blank text.
\<close>
theorem unpoliced_scan_exact:
  "scan_mcp_arguments_for_taint_with_policy rx v None registry tool = None \<longleftrightarrow>
     fits v 0
     \<and> (\<forall>(p, s) \<in> set (string_leaves v ''$''). text_passes rx s mcp_tool_call {})
     \<and> (\<forall>(p, k, x) \<in> set (members v ''$''). \<not> (is_sensitive_key_name k \<and> carries_text x))"
  by (rule unpoliced_scan)

text \<open>
  A policy only loosens: what leaves without one leaves with any.
\<close>
theorem policy_only_loosens:
  assumes "scan_mcp_arguments_for_taint_with_policy rx v None registry tool = None"
  shows "scan_mcp_arguments_for_taint_with_policy rx v policy registry tool = None"
proof -
  let ?env = "mcp_env rx policy registry tool"
  have plain: "fits v 0" "\<forall>(p, s) \<in> set (string_leaves v ''$''). text_passes rx s mcp_tool_call {}"
    "\<forall>(p, k, x) \<in> set (members v ''$''). \<not> (is_sensitive_key_name k \<and> carries_text x)"
    using assms unfolding unpoliced_scan by blast+
  have "scan_string ?env p s = None" if "text_passes rx s mcp_tool_call {}" for p s
    using that text_passes_mono[OF that, of "resolve_skip_rules policy tool p"]
    by (auto simp: scan_string_None mcp_env_def simp flip: detected_Nil)
  moreover have "\<not> key_blocked ?env p k x" if "\<not> (is_sensitive_key_name k \<and> carries_text x)" for p k x
    using that by (cases x) (auto simp: key_blocked_def)
  ultimately have "parts_pass ?env (string_leaves v ''$'') (members v ''$'')"
    using plain(2,3) unfolding parts_pass_def by blast
  with plain(1) have "walk_taint ?env v ''$'' 0 = None" using walk_exact(1) by blast
  then show ?thesis by (simp only: scan_walk if_cancel)
qed

section \<open>What the error says\<close>

text \<open>
  The same tree with every text blanked out.
\<close>

fun blanked :: "json \<Rightarrow> json" where
  "blanked (JString s) = JString []"
| "blanked (JArray xs) = JArray (map blanked xs)"
| "blanked (JObject kvs) = JObject (map (\<lambda>(k, v). (k, blanked v)) kvs)"
| "blanked v = v"

fun node_paths :: "json \<Rightarrow> string \<Rightarrow> string list"
  and item_paths :: "json list \<Rightarrow> string \<Rightarrow> nat \<Rightarrow> string list"
  and member_paths :: "(string \<times> json) list \<Rightarrow> string \<Rightarrow> string list" where
  "node_paths v path =
     path # (case v of
               JArray items \<Rightarrow> item_paths items path 0
             | JObject obj \<Rightarrow> member_paths obj path
             | _ \<Rightarrow> [])"
| "item_paths [] path i = []"
| "item_paths (x # xs) path i = node_paths x (index_path path i) @ item_paths xs path (Suc i)"
| "member_paths [] path = []"
| "member_paths ((k, v) # kvs) path = node_paths v (key_path path k) @ member_paths kvs path"

lemma blanked_paths:
  "node_paths (blanked v) path = node_paths v path"
  "item_paths (map blanked xs) path i = item_paths xs path i"
  "member_paths (map (\<lambda>(k, v). (k, blanked v)) kvs) path = member_paths kvs path"
proof (induction v path and xs path i and kvs path rule: node_paths_item_paths_member_paths.induct)
  case (1 v path)
  then show ?case by (cases v) auto
qed simp_all

definition messages :: "taint_sink \<Rightarrow> string list \<Rightarrow> string list" where
  "messages sink ps = concat (map (\<lambda>p. [depth_message p, value_message p sink, key_message p sink]) ps)"

lemma path_in_nodes [simp]: "path \<in> set (node_paths v path)"
  by (cases v) simp_all

lemma messages_append [simp]: "messages sink (ps @ qs) = messages sink ps @ messages sink qs"
  by (simp add: messages_def)

lemma message_of_node:
  "p \<in> set ps \<Longrightarrow> depth_message p \<in> set (messages sink ps)"
  "p \<in> set ps \<Longrightarrow> value_message p sink \<in> set (messages sink ps)"
  "p \<in> set ps \<Longrightarrow> key_message p sink \<in> set (messages sink ps)"
  by (auto simp: messages_def)

lemma walk_message:
  "walk_taint env v path d = Some m \<Longrightarrow> m \<in> set (messages (env_sink env) (node_paths v path))"
  "walk_items env xs path i d = Some m \<Longrightarrow> m \<in> set (messages (env_sink env) (item_paths xs path i))"
  "walk_members env kvs path d = Some m \<Longrightarrow> m \<in> set (messages (env_sink env) (member_paths kvs path))"
proof (induction env v path d and env xs path i d and env kvs path d
    rule: walk_taint_walk_items_walk_members.induct)
  case (1 env v path depth)
  then show ?case
    by (cases v) (auto simp: scan_string_def messages_def split: if_splits)
next
  case (3 env x xs path i depth)
  then show ?case by (auto simp del: walk_taint.simps node_paths.simps split: option.splits)
next
  case (5 env k v kvs path depth)
  then show ?case
    by (auto simp del: walk_taint.simps node_paths.simps intro!: message_of_node split: option.splits if_splits)
qed simp_all

text \<open>
  The error the scan returns repeats none of the texts it was given: it is one of the messages
  that can be built from the tree with every text blanked out.
\<close>
theorem scan_error_is_redacted:
  assumes "scan_mcp_arguments_for_taint_with_policy rx v policy registry tool = Some m"
  shows "m \<in> set (messages mcp_tool_call (node_paths (blanked v) ''$''))"
  using assms walk_message(1)[of "mcp_env rx policy registry tool" v "''$''" 0 m]
  by (simp add: scan_walk blanked_paths mcp_env_def del: walk_taint.simps node_paths.simps split: if_splits)

section \<open>Downgrades\<close>

definition silent_regexes :: regex_set where
  "silent_regexes =
     \<lparr>date_component_match = (\<lambda>_. False), email_match = (\<lambda>_. False), phone_match = (\<lambda>_. False),
      credit_card_match = (\<lambda>_. False), ssn_match = (\<lambda>_. False), email_replace = (\<lambda>s _. s),
      phone_replace = (\<lambda>s _. s), credit_card_replace = (\<lambda>s _. s), ssn_replace = (\<lambda>s _. s)\<rparr>"

theorem unpoliced_scan_exact_witness:
  "scan_mcp_arguments_for_taint_with_policy silent_regexes
     (JObject [(''Authorization'', JString ''Bearer x'')]) None [] ''t'' \<noteq> None"
  unfolding unpoliced_scan_exact by code_simp

theorem policy_only_loosens_witness:
  "scan_mcp_arguments_for_taint_with_policy silent_regexes (JObject [(''q'', JString ''weather'')])
     (Some \<lparr>policy_tools = [(''t'', \<lparr>tool_default = Scan, tool_paths = [], tool_rule_sets = []\<rparr>)]\<rparr>) [] ''t'' = None"
  by (rule policy_only_loosens) code_simp

theorem scan_error_is_redacted_witness:
  "value_message ''$.q'' mcp_tool_call \<in> set (messages mcp_tool_call (node_paths (blanked (JObject [(''q'', JString ''sk-1'')])) ''$''))"
  by (rule scan_error_is_redacted[of silent_regexes _ None "[]" "''t''"]) code_simp

text \<open>
  The detector reports one rule per family, so a rule set that downgrades the reported rule also
  silences every later rule of the family that fires on the same text, although no set names it:
  the arguments below leave, and the rule on key-value secrets fires on them and is neither
  skipped nor downgraded.
\<close>

theorem downgrade_masks_other_rule:
  "let policy = Some \<lparr>policy_tools = [(''t'', \<lparr>tool_default = Scan, tool_paths = [], tool_rule_sets = [''audit'']\<rparr>)]\<rparr>;
       registry = [\<lparr>set_name = ''audit'', set_action = Warn, set_rules = [AuthorizationLiteral]\<rparr>];
       payload = ''authorization: token=abc''
   in scan_mcp_arguments_for_taint_with_policy silent_regexes (JString payload) policy registry ''t'' = None
      \<and> rule_fires silent_regexes payload KeyValueSecret
      \<and> KeyValueSecret \<notin> resolve_skip_rules policy ''t'' ''$''
      \<and> apply_rule_set_action policy ''t'' KeyValueSecret registry"
  by code_simp

text \<open>
  Turning scanning off turns off the check of member names with it.
\<close>

theorem scanning_off_allows_credentials:
  "call_tool_gate rx False policy registry tool (JObject [(''Authorization'', JString ''Bearer secret'')]) = Inr ()"
  by (simp add: call_tool_gate_def)

text \<open>
  Of two rule sets with the same name the first one counts.
\<close>

theorem first_rule_set_wins:
  "set_name s = set_name s' \<Longrightarrow> rule \<in> set (set_rules s) \<Longrightarrow>
   best_action (s # s' # registry) rule [set_name s] None = Some (set_action s, set_name s)"
  by simp

end
