(* ===== verification/ShellSandbox.thy ===== *)
theory ShellSandbox
  imports Taint
begin

text \<open>
  Shell commands of agents: the exec policy and its validator
  (\<open>crates/librefang-runtime/src/subprocess_sandbox.rs\<close>, \<open>ExecPolicy\<close> of
  \<open>crates/librefang-types/src/config/types.rs\<close>) and the taint checks of the built-in tools
  (\<open>crates/librefang-runtime/src/tool_runner.rs\<close>).

  Texts are bytes; the scanners of the source look for ASCII characters only, so reading bytes
  instead of characters gives the same result. The query names of a URL come from the URL
  parser, a parameter. Starting, waiting for and killing processes is not modelled.
\<close>

section \<open>Words and names\<close>

definition after_last :: "char \<Rightarrow> string \<Rightarrow> string" where
  "after_last c s = last (split_on (\<lambda>x. x = c) s)"

definition BACKSLASH :: char where "BACKSLASH = CHR 0x5C"

definition SINGLE_QUOTE :: char where "SINGLE_QUOTE = CHR 0x27"

definition DOUBLE_QUOTE :: char where "DOUBLE_QUOTE = CHR 0x22"

definition extract_base_command :: "string \<Rightarrow> string" where
  "extract_base_command cmd =
     (let first_word = (case split_whitespace (trim cmd) of w # _ \<Rightarrow> w | [] \<Rightarrow> [])
      in after_last BACKSLASH (after_last (CHR ''/'') first_word))"

section \<open>Quotes and metacharacters\<close>

text \<open>
  What follows the closing double quote. A backslash hides the next character; at the end of the
  text, closed or not, nothing follows.
\<close>

fun after_double :: "string \<Rightarrow> string" where
  "after_double [] = []"
| "after_double [c] = []"
| "after_double (c # d # ds) =
     (if c = DOUBLE_QUOTE then d # ds
      else if c = BACKSLASH then after_double ds
      else after_double (d # ds))"

lemma after_double_length: "length (after_double s) \<le> length s"
  by (induction s rule: after_double.induct) auto

function strip_quoted_regions :: "string \<Rightarrow> string" where
  "strip_quoted_regions [] = []"
| "strip_quoted_regions (c # cs) =
     (if c = SINGLE_QUOTE then CHR '' '' # strip_quoted_regions (drop 1 (dropWhile (\<lambda>x. x \<noteq> SINGLE_QUOTE) cs))
      else if c = DOUBLE_QUOTE then CHR '' '' # strip_quoted_regions (after_double cs)
      else c # strip_quoted_regions cs)"
  by pat_completeness auto

termination
proof (relation "measure length", goal_cases)
  case (2 c cs)
  have "length (dropWhile (\<lambda>x. x \<noteq> SINGLE_QUOTE) cs) \<le> length cs" by (rule length_dropWhile_le)
  then show ?case by simp
next
  case (3 c cs)
  then show ?case using after_double_length[of cs] by simp
qed simp_all

datatype metachar =
    EmbeddedNewline
  | NullByte
  | BacktickSubstitution
  | DollarParen
  | DollarBrace
  | SemicolonChain
  | PipeOperator
  | IoRedirection
  | BraceExpansion
  | AmpersandOperator

definition contains_shell_metacharacters :: "string \<Rightarrow> metachar option" where
  "contains_shell_metacharacters command =
     (if CHR 0x0A \<in> set command \<or> CHR 0x0D \<in> set command then Some EmbeddedNewline
      else if CHR 0x00 \<in> set command then Some NullByte
      else
        let unquoted = strip_quoted_regions command
        in if CHR 0x60 \<in> set unquoted then Some BacktickSubstitution
           else if contains_str ''$('' unquoted then Some DollarParen
           else if contains_str ''${'' unquoted then Some DollarBrace
           else if CHR '';'' \<in> set unquoted then Some SemicolonChain
           else if CHR ''|'' \<in> set unquoted then Some PipeOperator
           else if CHR ''>'' \<in> set unquoted \<or> CHR ''<'' \<in> set unquoted then Some IoRedirection
           else if CHR ''{'' \<in> set unquoted \<or> CHR ''}'' \<in> set unquoted then Some BraceExpansion
           else if CHR ''&'' \<in> set unquoted then Some AmpersandOperator
           else None)"

section \<open>Splitting at separators\<close>

text \<open>
  The earliest separator of a text: its position and length; of two at one position the first in
  the list wins. As no separator is empty, cutting always makes progress; the test for no
  progress below is never true.
\<close>

fun earliest :: "string list \<Rightarrow> string \<Rightarrow> nat \<times> nat \<Rightarrow> nat \<times> nat" where
  "earliest [] rest best = best"
| "earliest (sep # seps) rest best =
     earliest seps rest
       (case find_str sep rest of
          Some pos \<Rightarrow> if pos < fst best then (pos, length sep) else best
        | None \<Rightarrow> best)"

function cut_segments :: "string list \<Rightarrow> string \<Rightarrow> string list" where
  "cut_segments seps rest =
     (if rest = [] then []
      else
        case earliest seps rest (length rest, 0) of
          (pos, len) \<Rightarrow>
            take pos rest
            # (if pos + len \<ge> length rest \<or> pos + len = 0 then [] else cut_segments seps (drop (pos + len) rest)))"
  by pat_completeness auto

termination
  by (relation "measure (\<lambda>(_, rest). length rest)") auto

declare cut_segments.simps [simp del]

definition SCRIPT_SEPARATORS :: "string list" where
  "SCRIPT_SEPARATORS = [''&&'', ''||'', ''|'', '';'', ''&'', ''('', '')'']"

definition COMMAND_SEPARATORS :: "string list" where
  "COMMAND_SEPARATORS = [''&&'', ''||'', ''|'', '';'']"

definition split_script_segments :: "string \<Rightarrow> string list" where
  "split_script_segments script = filter (\<lambda>seg. trim seg \<noteq> []) (cut_segments SCRIPT_SEPARATORS script)"

definition extract_all_commands :: "string \<Rightarrow> string list" where
  "extract_all_commands command =
     filter (\<lambda>base. base \<noteq> []) (map extract_base_command (cut_segments COMMAND_SEPARATORS command))"

section \<open>Shell wrappers\<close>

definition SHELL_WRAPPERS :: "string list" where
  "SHELL_WRAPPERS = [''powershell'', ''pwsh'', ''cmd'', ''bash'', ''sh'', ''zsh'']"

definition SHELL_INLINE_FLAGS :: "(string list \<times> string) list" where
  "SHELL_INLINE_FLAGS =
     [([''powershell'', ''pwsh''], ''-Command''), ([''powershell'', ''pwsh''], ''-command''),
      ([''powershell'', ''pwsh''], ''-c''), ([''cmd''], ''/c''), ([''cmd''], ''/C''),
      ([''bash'', ''sh'', ''zsh''], ''-c''), ([''bash'', ''sh'', ''zsh''], ''--command'')]"

definition is_powershell_encoded_flag :: "string \<Rightarrow> bool" where
  "is_powershell_encoded_flag arg =
     (let lower = to_lowercase arg
      in starts_with ''-en'' lower
         \<and> (let name = drop 1 lower
            in starts_with name ''encodedcommand'' \<or> starts_with name ''encodedarguments''))"

definition is_powershell_command_flag :: "string \<Rightarrow> bool" where
  "is_powershell_command_flag arg =
     (let lower = to_lowercase arg
      in lower = ''-c'' \<or> starts_with ''-co'' lower \<and> starts_with (drop 1 lower) ''command'')"

datatype opaque_reason =
    NestedTooDeep
  | EncodedPayload string
  | NestedWith opaque_reason
  | NestedInvocation string

datatype shell_wrapper_inspection =
    NotWrapper
  | WrapperNoInline
  | WrapperInline "string list"
  | WrapperOpaque opaque_reason

definition MAX_WRAPPER_NEST_DEPTH :: nat where "MAX_WRAPPER_NEST_DEPTH = 4"

definition strip_outer_quotes :: "string \<Rightarrow> string" where
  "strip_outer_quotes s0 =
     (let s = trim s0
      in if starts_with [DOUBLE_QUOTE] s \<and> ends_with [DOUBLE_QUOTE] s \<and> length s \<ge> 2
            \<or> starts_with [SINGLE_QUOTE] s \<and> ends_with [SINGLE_QUOTE] s \<and> length s \<ge> 2
         then take (length s - 2) (drop 1 s) else s)"

text \<open>The words after the first that satisfies a test, when there are any.\<close>

fun words_after :: "(string \<Rightarrow> bool) \<Rightarrow> string list \<Rightarrow> string list option" where
  "words_after P [] = None"
| "words_after P (a # as) = (if P a \<and> as \<noteq> [] then Some as else words_after P as)"

fun words_after_flag :: "string \<Rightarrow> string list \<Rightarrow> (string list \<times> string) list \<Rightarrow> string list option" where
  "words_after_flag base args [] = None"
| "words_after_flag base args ((wrappers, flag) # rest) =
     (if base \<notin> set wrappers then words_after_flag base args rest
      else case words_after (\<lambda>a. to_lowercase a = to_lowercase flag) args of
             Some ws \<Rightarrow> Some ws
           | None \<Rightarrow> words_after_flag base args rest)"

text \<open>
  The segments of an inline script, each inspected in turn by the function given.
\<close>

fun inspect_segments ::
  "(string \<Rightarrow> shell_wrapper_inspection) \<Rightarrow> string list \<Rightarrow> string list \<Rightarrow> shell_wrapper_inspection" where
  "inspect_segments inspect [] commands = WrapperInline commands"
| "inspect_segments inspect (seg0 # segs) commands =
     (let seg = trim seg0
      in if seg = [] then inspect_segments inspect segs commands
         else case inspect seg of
                NotWrapper \<Rightarrow>
                  inspect_segments inspect segs
                    (if extract_base_command seg \<noteq> [] then commands @ [extract_base_command seg] else commands)
              | WrapperNoInline \<Rightarrow>
                  inspect_segments inspect segs
                    (if extract_base_command seg \<noteq> [] then commands @ [extract_base_command seg] else commands)
              | WrapperOpaque reason \<Rightarrow> WrapperOpaque (NestedWith reason)
              | WrapperInline _ \<Rightarrow> WrapperOpaque (NestedInvocation (extract_base_command seg)))"

definition inline_script :: "string list \<Rightarrow> string" where
  "inline_script ws = strip_outer_quotes (join_with (CHR '' '') ws)"

definition normalized_base :: "string \<Rightarrow> string" where
  "normalized_base command =
     (let base_lower = to_lowercase (extract_base_command (trim command))
      in case strip_suffix ''.exe'' base_lower of Some b \<Rightarrow> b | None \<Rightarrow> base_lower)"

definition is_powershell :: "string \<Rightarrow> bool" where
  "is_powershell base \<longleftrightarrow> base = ''powershell'' \<or> base = ''pwsh''"

definition encoded_flag :: "string \<Rightarrow> string list \<Rightarrow> string option" where
  "encoded_flag base args = (if is_powershell base then find is_powershell_encoded_flag args else None)"

definition inline_words :: "string \<Rightarrow> string list \<Rightarrow> string list option" where
  "inline_words base args =
     (if is_powershell base then words_after is_powershell_command_flag args
      else words_after_flag base args SHELL_INLINE_FLAGS)"

text \<open>
  The inspection counts down the levels of nesting that are left, where the source counts up to
  the maximum.
\<close>

primrec inspect_wrapper :: "nat \<Rightarrow> string \<Rightarrow> shell_wrapper_inspection" where
  "inspect_wrapper 0 command = WrapperOpaque NestedTooDeep"
| "inspect_wrapper (Suc levels) command =
     (let base = normalized_base command;
          args = drop 1 (split_whitespace (trim command))
      in if base \<notin> set SHELL_WRAPPERS then NotWrapper
         else case encoded_flag base args of
                Some arg \<Rightarrow> WrapperOpaque (EncodedPayload arg)
              | None \<Rightarrow>
                  (case inline_words base args of
                     Some ws \<Rightarrow> inspect_segments (inspect_wrapper levels) (split_script_segments (inline_script ws)) []
                   | None \<Rightarrow> WrapperNoInline))"

definition inspect_shell_wrapper :: "string \<Rightarrow> shell_wrapper_inspection" where
  "inspect_shell_wrapper command = inspect_wrapper MAX_WRAPPER_NEST_DEPTH command"

section \<open>The exec policy\<close>

datatype exec_security_mode = Deny | Allowlist | FullAccess

record exec_policy =
  exec_mode :: exec_security_mode
  safe_bins :: "string list"
  allowed_commands :: "string list"
  allowed_env_vars :: "string list"
  exec_timeout_secs :: u64
  max_output_bytes :: nat
  no_output_timeout_secs :: u64

definition default_exec_policy :: exec_policy where
  "default_exec_policy =
     \<lparr>exec_mode = Allowlist,
      safe_bins = [''sleep'', ''true'', ''false'', ''cat'', ''sort'', ''uniq'', ''cut'', ''tr'', ''head'', ''tail'', ''wc'',
        ''date'', ''echo'', ''printf'', ''basename'', ''dirname'', ''pwd'', ''env''],
      allowed_commands = [], allowed_env_vars = [], exec_timeout_secs = 30,
      max_output_bytes = 100 * 1024, no_output_timeout_secs = 30\<rparr>"

datatype exec_error =
    ExecDisabled
  | OpaqueWrapper opaque_reason
  | HasMetachar metachar
  | NotInAllowlist string
  | NotInAllowlistInside string

definition listed :: "exec_policy \<Rightarrow> string \<Rightarrow> bool" where
  "listed p c \<longleftrightarrow> c \<in> set (safe_bins p) \<or> c \<in> set (allowed_commands p)"

fun first_unlisted :: "exec_policy \<Rightarrow> string list \<Rightarrow> string option" where
  "first_unlisted p [] = None"
| "first_unlisted p (c # cs) = (if listed p c then first_unlisted p cs else Some c)"

definition validate_command_allowlist :: "string \<Rightarrow> exec_policy \<Rightarrow> exec_error + unit" where
  "validate_command_allowlist command p =
     (case exec_mode p of
        Deny \<Rightarrow> Inl ExecDisabled
      | FullAccess \<Rightarrow> Inr ()
      | Allowlist \<Rightarrow>
          let inspection = inspect_shell_wrapper command;
              meta = (case inspection of WrapperInline _ \<Rightarrow> None | _ \<Rightarrow> contains_shell_metacharacters command)
          in case inspection of
               WrapperOpaque reason \<Rightarrow> Inl (OpaqueWrapper reason)
             | _ \<Rightarrow>
               (case meta of
                  Some r \<Rightarrow> Inl (HasMetachar r)
                | None \<Rightarrow>
                    (case first_unlisted p (extract_all_commands command) of
                       Some base \<Rightarrow> Inl (NotInAllowlist base)
                     | None \<Rightarrow>
                         (case inspection of
                            WrapperInline inner \<Rightarrow>
                              (case first_unlisted p inner of
                                 Some c \<Rightarrow> Inl (NotInAllowlistInside c)
                               | None \<Rightarrow> Inr ())
                          | _ \<Rightarrow> Inr ()))))"

section \<open>The environment and the path of a child\<close>

definition SAFE_ENV_VARS :: "string list" where
  "SAFE_ENV_VARS = [''PATH'', ''HOME'', ''TMPDIR'', ''TMP'', ''TEMP'', ''LANG'', ''LC_ALL'', ''TERM'']"

definition copy_vars :: "(string \<rightharpoonup> string) \<Rightarrow> string list \<Rightarrow> (string \<rightharpoonup> string) \<Rightarrow> (string \<rightharpoonup> string)" where
  "copy_vars parent vars child =
     fold (\<lambda>v m. case parent v of Some x \<Rightarrow> m(v \<mapsto> x) | None \<Rightarrow> m) vars child"

definition sandbox_command :: "(string \<rightharpoonup> string) \<Rightarrow> string list \<Rightarrow> (string \<rightharpoonup> string)" where
  "sandbox_command parent allowed = copy_vars parent allowed (copy_vars parent SAFE_ENV_VARS Map.empty)"

definition validate_executable_path :: "string \<Rightarrow> bool" where
  "validate_executable_path path \<longleftrightarrow> ''..'' \<notin> set (split_on (\<lambda>c. c = CHR ''/'') path)"

section \<open>Taint checks of the built-in tools\<close>

definition SUSPICIOUS_PATTERNS :: "string list" where
  "SUSPICIOUS_PATTERNS = [''curl '', ''wget '', ''| sh'', ''| bash'', ''base64 -d'', ''eval '']"

datatype shell_taint = MetacharBlocked metachar | ShellViolation taint_violation

definition check_taint_shell_exec :: "string \<Rightarrow> shell_taint option" where
  "check_taint_shell_exec command =
     (case contains_shell_metacharacters command of
        Some reason \<Rightarrow> Some (MetacharBlocked reason)
      | None \<Rightarrow>
          if list_ex (\<lambda>p. contains_str p command) SUSPICIOUS_PATTERNS then
            (case check_sink (tainted command [ExternalNetwork] ''llm_tool_call'') shell_exec of
               Inl v \<Rightarrow> Some (ShellViolation v) | Inr _ \<Rightarrow> None)
          else None)"

definition NET_SECRET_KEYS :: "string list" where
  "NET_SECRET_KEYS = [''api_key'', ''apikey'', ''token'', ''secret'', ''password'']"

definition check_taint_net_fetch :: "(string \<Rightarrow> string list option) \<Rightarrow> string \<Rightarrow> taint_violation option" where
  "check_taint_net_fetch query_names url =
     (let lower = to_lowercase url;
          hit = contains_str ''authorization:'' lower
                \<or> list_ex (\<lambda>k. contains_str (k @ ''='') lower) NET_SECRET_KEYS
                \<or> (case query_names url of
                     Some names \<Rightarrow> list_ex (\<lambda>n. to_lowercase n \<in> set NET_SECRET_KEYS) names
                   | None \<Rightarrow> False)
      in if hit then
           (case check_sink (tainted url [Secret] ''llm_tool_call'') net_fetch of Inl v \<Rightarrow> Some v | Inr _ \<Rightarrow> None)
         else None)"

definition SECRET_HEADER_NAMES :: "string list" where
  "SECRET_HEADER_NAMES =
     [''authorization'', ''proxy-authorization'', ''x-api-key'', ''api-key'', ''apikey'', ''x-auth-token'',
      ''cookie'', ''set-cookie'']"

definition looks_like_opaque_token :: "string \<Rightarrow> bool" where
  "looks_like_opaque_token t \<longleftrightarrow>
     length t \<ge> 32 \<and> \<not> has_whitespace t \<and> list_all is_token_char t
     \<and> (list_ex is_ascii_uppercase t \<and> list_ex is_ascii_lowercase t \<or> list_ex (\<lambda>c. c \<in> set ''-_./+='') t)"

definition check_taint_outbound_text :: "string \<Rightarrow> taint_sink \<Rightarrow> taint_violation option" where
  "check_taint_outbound_text payload sink =
     (let lower = to_lowercase payload;
          t = trim payload;
          hit = contains_str ''authorization:'' lower \<or> has_key_value_secret lower
                \<or> looks_like_opaque_token t \<or> has_well_known_prefix t
      in if hit then
           (case check_sink (tainted payload [Secret] ''llm_tool_call'') sink of Inl v \<Rightarrow> Some v | Inr _ \<Rightarrow> None)
         else None)"

definition check_taint_outbound_header :: "string \<Rightarrow> string \<Rightarrow> taint_sink \<Rightarrow> taint_violation option" where
  "check_taint_outbound_header name v sink =
     (let name_lower = to_lowercase name
      in if name_lower \<in> set SECRET_HEADER_NAMES \<or> name_lower \<in> set SECRET_KEYS then
           (case check_sink (tainted v [Secret] ''llm_tool_call'') sink of
              Inl viol \<Rightarrow> Some viol
            | Inr _ \<Rightarrow> check_taint_outbound_text v sink)
         else check_taint_outbound_text v sink)"

section \<open>The gate of the shell tool\<close>

text \<open>
  What \<open>execute_tool\<close> checks before it starts a command: the policy, when there is one, then,
  unless the policy gives full access, the metacharacters and the taint patterns.
\<close>

datatype shell_block = BlockedByPolicy exec_error | BlockedMetachar metachar | BlockedTaint shell_taint

definition shell_exec_gate :: "exec_policy option \<Rightarrow> string \<Rightarrow> shell_block + unit" where
  "shell_exec_gate policy command =
     (let is_full = (case policy of Some p \<Rightarrow> exec_mode p = FullAccess | None \<Rightarrow> False)
      in case (case policy of Some p \<Rightarrow> validate_command_allowlist command p | None \<Rightarrow> Inr ()) of
           Inl e \<Rightarrow> Inl (BlockedByPolicy e)
         | Inr _ \<Rightarrow>
             if is_full then Inr ()
             else (case contains_shell_metacharacters command of
                     Some r \<Rightarrow> Inl (BlockedMetachar r)
                   | None \<Rightarrow>
                       (case check_taint_shell_exec command of
                          Some v \<Rightarrow> Inl (BlockedTaint v)
                        | None \<Rightarrow> Inr ())))"

section \<open>Quotes, against a scanner that reads one character at a time\<close>

datatype quote_state = Plain | InSingle | InDouble | Escaped

fun outside :: "quote_state \<Rightarrow> string \<Rightarrow> string" where
  "outside q [] = []"
| "outside Plain (c # cs) =
     (if c = SINGLE_QUOTE then CHR '' '' # outside InSingle cs
      else if c = DOUBLE_QUOTE then CHR '' '' # outside InDouble cs
      else c # outside Plain cs)"
| "outside InSingle (c # cs) = (if c = SINGLE_QUOTE then outside Plain cs else outside InSingle cs)"
| "outside InDouble (c # cs) =
     (if c = DOUBLE_QUOTE then outside Plain cs
      else if c = BACKSLASH then outside Escaped cs
      else outside InDouble cs)"
| "outside Escaped (c # cs) = outside InDouble cs"

lemma quotes_differ [simp]: "DOUBLE_QUOTE \<noteq> SINGLE_QUOTE" "SINGLE_QUOTE \<noteq> DOUBLE_QUOTE" "BACKSLASH \<noteq> DOUBLE_QUOTE"
  by (simp_all add: SINGLE_QUOTE_def DOUBLE_QUOTE_def BACKSLASH_def)

lemma outside_InSingle: "outside InSingle s = outside Plain (drop 1 (dropWhile (\<lambda>x. x \<noteq> SINGLE_QUOTE) s))"
  by (induction s) auto

lemma outside_InDouble: "outside InDouble s = outside Plain (after_double s)"
  by (induction s rule: after_double.induct) auto

lemma strip_is_outside: "strip_quoted_regions s = outside Plain s"
  by (induction s rule: strip_quoted_regions.induct) (simp_all add: outside_InSingle outside_InDouble)

definition DANGEROUS :: "char list" where
  "DANGEROUS = [CHR 0x60, CHR '';'', CHR ''|'', CHR ''>'', CHR ''<'', CHR ''{'', CHR ''}'', CHR ''&'']"

text \<open>
  C32: A command passes the metacharacter check exactly when it has no line break and no null byte at
  all, and, outside of quotes as a character-by-character scanner reads them, none of the
  operators and no command substitution.
\<close>
theorem metachar_check_exact:
  "contains_shell_metacharacters command = None \<longleftrightarrow>
     CHR 0x0A \<notin> set command \<and> CHR 0x0D \<notin> set command \<and> CHR 0x00 \<notin> set command
     \<and> set (outside Plain command) \<inter> set DANGEROUS = {}
     \<and> \<not> contains_str ''$('' (outside Plain command)"
proof -
  have "CHR ''{'' \<in> set s" if "contains_str ''${'' s" for s
    using that by (auto simp: contains_str_iff)
  then show ?thesis
    by (auto simp: contains_shell_metacharacters_def Let_def strip_is_outside DANGEROUS_def)
qed

section \<open>What the validator guarantees\<close>

lemma first_unlisted_None: "first_unlisted p cs = None \<longleftrightarrow> (\<forall>c \<in> set cs. listed p c)"
  by (induction cs) auto

lemma inspect_segments_inline:
  "inspect_segments inspect segs done = WrapperInline cmds \<longleftrightarrow>
     (\<forall>seg \<in> set segs. trim seg \<noteq> [] \<longrightarrow> inspect (trim seg) = NotWrapper \<or> inspect (trim seg) = WrapperNoInline)
     \<and> cmds = done @ filter (\<lambda>c. c \<noteq> []) (map (extract_base_command \<circ> trim) (filter (\<lambda>seg. trim seg \<noteq> []) segs))"
proof (induction segs arbitrary: "done")
  case (Cons seg segs)
  then show ?case by (cases "inspect (trim seg)") (auto simp: Let_def)
qed auto

text \<open>
  The inline script of a command, when it is an invocation of a shell with one.
\<close>

definition script_of :: "string \<Rightarrow> string option" where
  "script_of command =
     (if normalized_base command \<notin> set SHELL_WRAPPERS then None
      else map_option inline_script
             (inline_words (normalized_base command) (drop 1 (split_whitespace (trim command)))))"

lemma inspect_inline:
  assumes "inspect_wrapper (Suc n) command = WrapperInline cmds"
  obtains script where "script_of command = Some script"
    and "inspect_segments (inspect_wrapper n) (split_script_segments script) [] = WrapperInline cmds"
  using assms by (auto simp: Let_def script_of_def split: if_splits option.splits)

lemma inspect_plain:
  assumes "inspect_wrapper (Suc n) command = NotWrapper \<or> inspect_wrapper (Suc n) command = WrapperNoInline"
  shows "script_of command = None"
proof -
  have "inspect_segments f segs ds \<noteq> NotWrapper \<and> inspect_segments f segs ds \<noteq> WrapperNoInline" for f segs ds
    by (induction segs arbitrary: ds) (auto simp: Let_def split: shell_wrapper_inspection.split)
  then show ?thesis using assms by (auto simp: Let_def script_of_def split: if_splits option.splits)
qed

text \<open>
  C13: In allowlist mode, every command that the gate lets through is free of unquoted operators, and
  all the commands the validator reads off it are on the list. When the command is one of the shells
  the validator knows (\<open>SHELL_WRAPPERS\<close>) and hands it a script after a flag the validator
  recognises, standing as a word of its own (\<open>-c\<close> or \<open>--command\<close> for bash, sh and zsh,
  \<open>/c\<close> for cmd, \<open>-c\<close> or a prefix of \<open>-Command\<close> from \<open>-co\<close> on for
  PowerShell, in any case), so are the commands of all segments of the script, none of which hands a
  further script to a shell in this way. (A script after another spelling is not looked at:
  \<open>combined_inline_flag_passes\<close>.)
\<close>
theorem allowlist_gate_sound:
  assumes "shell_exec_gate (Some p) command = Inr ()" and "exec_mode p = Allowlist"
  shows "contains_shell_metacharacters command = None
    \<and> (\<forall>c \<in> set (extract_all_commands command). listed p c)
    \<and> (\<forall>script. script_of command = Some script \<longrightarrow>
         (\<forall>seg \<in> set (split_script_segments script).
            script_of (trim seg) = None
            \<and> (extract_base_command (trim seg) = [] \<or> listed p (extract_base_command (trim seg)))))"
proof -
  have valid: "validate_command_allowlist command p = Inr ()" and meta: "contains_shell_metacharacters command = None"
    using assms by (auto simp: shell_exec_gate_def split: sum.splits option.splits if_splits)
  have outer: "\<forall>c \<in> set (extract_all_commands command). listed p c"
    using valid assms(2) unfolding first_unlisted_None[symmetric] validate_command_allowlist_def
    by (auto simp: Let_def split: shell_wrapper_inspection.splits option.splits)
  have inner: "script_of (trim seg) = None
      \<and> (extract_base_command (trim seg) = [] \<or> listed p (extract_base_command (trim seg)))"
    if script: "script_of command = Some script" and seg: "seg \<in> set (split_script_segments script)" for script seg
  proof -
    have levels: "MAX_WRAPPER_NEST_DEPTH = Suc (Suc 2)" by (simp add: MAX_WRAPPER_NEST_DEPTH_def)
    have "inspect_shell_wrapper command \<noteq> NotWrapper" "inspect_shell_wrapper command \<noteq> WrapperNoInline"
      using inspect_plain[of "Suc 2" command] script
      by (auto simp: inspect_shell_wrapper_def levels simp del: inspect_wrapper.simps)
    moreover have "inspect_shell_wrapper command \<noteq> WrapperOpaque r" for r
      using valid assms(2) by (auto simp: validate_command_allowlist_def Let_def)
    ultimately obtain cmds where cmds: "inspect_shell_wrapper command = WrapperInline cmds"
      by (cases "inspect_shell_wrapper command") auto
    then have listed: "\<forall>c \<in> set cmds. listed p c"
      using valid assms(2) unfolding first_unlisted_None[symmetric] validate_command_allowlist_def
      by (auto simp: Let_def split: option.splits)
    obtain script' where s': "script_of command = Some script'"
      and run: "inspect_segments (inspect_wrapper (Suc 2)) (split_script_segments script') [] = WrapperInline cmds"
      using cmds inspect_inline[of "Suc 2" command cmds]
      by (auto simp: inspect_shell_wrapper_def levels simp del: inspect_wrapper.simps)
    have "script' = script" using s' script by simp
    moreover have "trim seg \<noteq> []" using seg by (simp add: split_script_segments_def)
    ultimately have "inspect_wrapper (Suc 2) (trim seg) = NotWrapper \<or> inspect_wrapper (Suc 2) (trim seg) = WrapperNoInline"
      and "extract_base_command (trim seg) = [] \<or> extract_base_command (trim seg) \<in> set cmds"
      using run seg by (auto simp: inspect_segments_inline simp del: inspect_wrapper.simps)
    then show ?thesis using inspect_plain[of 2 "trim seg"] listed by (auto simp del: inspect_wrapper.simps)
  qed
  show ?thesis using meta outer inner by blast
qed

theorem allowlist_gate_sound_witness:
  "listed (default_exec_policy\<lparr>allowed_commands := [''sh'']\<rparr>) ''sh''
   \<and> contains_shell_metacharacters ''sh -c echo'' = None"
proof -
  let ?p = "default_exec_policy\<lparr>allowed_commands := [''sh'']\<rparr>"
  have parts: "inspect_shell_wrapper ''sh -c echo'' = WrapperInline [''echo'']"
    "contains_shell_metacharacters ''sh -c echo'' = None" "extract_all_commands ''sh -c echo'' = [''sh'']"
    "check_taint_shell_exec ''sh -c echo'' = None"
    by code_simp+
  then have "shell_exec_gate (Some ?p) ''sh -c echo'' = Inr ()" "exec_mode ?p = Allowlist"
    by (simp_all add: shell_exec_gate_def validate_command_allowlist_def default_exec_policy_def listed_def)
  from allowlist_gate_sound[OF this] show ?thesis by (simp add: parts(3))
qed

section \<open>The environment of a child\<close>

lemma copy_vars_apply:
  "copy_vars parent vars child v = (if v \<in> set vars \<and> parent v \<noteq> None then parent v else child v)"
  by (induction vars arbitrary: child) (auto simp: copy_vars_def split: option.split)

text \<open>
  A child sees exactly the safe variables and those the caller allows, with the values the parent
  has; every other variable of the parent is hidden from it.
\<close>
theorem child_environment_exact:
  "sandbox_command parent allowed v =
     (if v \<in> set SAFE_ENV_VARS \<or> v \<in> set allowed then parent v else None)"
  by (simp add: sandbox_command_def copy_vars_apply)

section \<open>Taint checks\<close>

lemma net_fetch_blocks_secret:
  "check_sink (tainted u [Secret] s) net_fetch = Inl \<lparr>viol_label = Secret, viol_sink_name = ''net_fetch'', viol_source = s\<rparr>"
  by (simp add: check_sink_def tainted_def net_fetch_def)

text \<open>
  A request is refused when the name of any of its decoded query parameters is that of a secret,
  whatever encoding the address uses for it.
\<close>
theorem encoded_secret_name_refused:
  assumes "query_names url = Some names" and "n \<in> set names" and "to_lowercase n \<in> set NET_SECRET_KEYS"
  shows "check_taint_net_fetch query_names url \<noteq> None"
proof -
  have "list_ex (\<lambda>n. to_lowercase n \<in> set NET_SECRET_KEYS) names"
    using assms(2,3) by (auto simp: list_ex_iff)
  then show ?thesis by (simp add: check_taint_net_fetch_def assms(1) net_fetch_blocks_secret Let_def)
qed

text \<open>
  A credential header is refused at every sink that blocks secrets, whatever its value.
\<close>
lemma credential_header_refused:
  "to_lowercase name \<in> set SECRET_HEADER_NAMES \<Longrightarrow> Secret \<in> set (blocked_labels sink)
   \<Longrightarrow> check_taint_outbound_header name v sink \<noteq> None"
  using tainted_check[of v Secret "''llm_tool_call''" sink]
  by (auto simp: check_taint_outbound_header_def Let_def split: sum.split)

text \<open>
  On every sink, the check of the built-in tools refuses what the filter of the type library
  calls a secret, up to opaque tokens, which the two read differently.
\<close>
lemma tool_check_covers_filter:
  assumes "detect_secret_rule_with_skip rx payload {} \<in> {Some AuthorizationLiteral, Some KeyValueSecret, Some WellKnownPrefix}"
    and "Secret \<in> set (blocked_labels sink)"
  shows "check_taint_outbound_text payload sink \<noteq> None"
  using assms tainted_check[of payload Secret "''llm_tool_call''" sink]
  by (auto simp: detect_secret_rule_with_skip_def check_taint_outbound_text_def Let_def split: if_splits sum.split)

section \<open>What the validator lets through\<close>

text \<open>
  A first word that ends in a backslash or a slash has an empty base name, and an empty name is
  skipped instead of refused: the gate lets a program of any name through when the name has an
  escaped blank in it.
\<close>

theorem escaped_blank_passes:
  "shell_exec_gate (Some default_exec_policy) (''./x'' @ [BACKSLASH] @ '' y'') = Inr ()"
proof -
  have "inspect_shell_wrapper (''./x'' @ [BACKSLASH] @ '' y'') = NotWrapper" "contains_shell_metacharacters (''./x'' @ [BACKSLASH] @ '' y'') = None"
    "extract_all_commands (''./x'' @ [BACKSLASH] @ '' y'') = []" "check_taint_shell_exec (''./x'' @ [BACKSLASH] @ '' y'') = None"
    by code_simp+
  then show ?thesis
    by (simp add: shell_exec_gate_def validate_command_allowlist_def default_exec_policy_def listed_def)
qed

text \<open>
  A backtick inside the quotes of an inline script is neither a metacharacter nor a separator, so
  the command it substitutes is not checked.
\<close>

theorem quoted_backtick_passes:
  "let p = default_exec_policy\<lparr>allowed_commands := [''bash'']\<rparr>
   in shell_exec_gate (Some p)
        (''bash -c '' @ [DOUBLE_QUOTE] @ ''echo '' @ [CHR 0x60] @ ''rm x'' @ [CHR 0x60] @ [DOUBLE_QUOTE]) = Inr ()
      \<and> \<not> listed p ''rm''"
proof -
  have "inspect_shell_wrapper (''bash -c '' @ [DOUBLE_QUOTE] @ ''echo '' @ [CHR 0x60] @ ''rm x'' @ [CHR 0x60] @ [DOUBLE_QUOTE]) = WrapperInline [''echo'']" "contains_shell_metacharacters (''bash -c '' @ [DOUBLE_QUOTE] @ ''echo '' @ [CHR 0x60] @ ''rm x'' @ [CHR 0x60] @ [DOUBLE_QUOTE]) = None"
    "extract_all_commands (''bash -c '' @ [DOUBLE_QUOTE] @ ''echo '' @ [CHR 0x60] @ ''rm x'' @ [CHR 0x60] @ [DOUBLE_QUOTE]) = [''bash'']" "check_taint_shell_exec (''bash -c '' @ [DOUBLE_QUOTE] @ ''echo '' @ [CHR 0x60] @ ''rm x'' @ [CHR 0x60] @ [DOUBLE_QUOTE]) = None"
    by code_simp+
  then show ?thesis
    by (simp add: shell_exec_gate_def validate_command_allowlist_def default_exec_policy_def listed_def)
qed

text \<open>
  The flag that introduces a script is recognised only as a word of its own: combined with another
  one, as in a login shell, the script after it is not looked at.
\<close>

theorem combined_inline_flag_passes:
  "let p = default_exec_policy\<lparr>allowed_commands := [''bash'']\<rparr>
   in shell_exec_gate (Some p) ''bash -lc rm'' = Inr () \<and> \<not> listed p ''rm''"
proof -
  have "inspect_shell_wrapper ''bash -lc rm'' = WrapperNoInline" "contains_shell_metacharacters ''bash -lc rm'' = None"
    "extract_all_commands ''bash -lc rm'' = [''bash'']" "check_taint_shell_exec ''bash -lc rm'' = None"
    by code_simp+
  then show ?thesis
    by (simp add: shell_exec_gate_def validate_command_allowlist_def default_exec_policy_def listed_def)
qed

text \<open>
  The default list has the program that runs any other program.
\<close>

theorem default_list_runs_anything:
  "shell_exec_gate (Some default_exec_policy) ''env rm -rf x'' = Inr () \<and> \<not> listed default_exec_policy ''rm''"
proof -
  have "inspect_shell_wrapper ''env rm -rf x'' = NotWrapper" "contains_shell_metacharacters ''env rm -rf x'' = None"
    "extract_all_commands ''env rm -rf x'' = [''env'']" "check_taint_shell_exec ''env rm -rf x'' = None"
    by code_simp+
  then show ?thesis
    by (simp add: shell_exec_gate_def validate_command_allowlist_def default_exec_policy_def listed_def)
qed

text \<open>
  A script file given to a PowerShell is not refused.
\<close>

theorem script_file_passes:
  "validate_command_allowlist ''pwsh -File foo.ps1'' (default_exec_policy\<lparr>allowed_commands := [''pwsh'']\<rparr>) = Inr ()"
proof -
  have "inspect_shell_wrapper ''pwsh -File foo.ps1'' = WrapperNoInline" "contains_shell_metacharacters ''pwsh -File foo.ps1'' = None"
    "extract_all_commands ''pwsh -File foo.ps1'' = [''pwsh'']" "check_taint_shell_exec ''pwsh -File foo.ps1'' = None"
    by code_simp+
  then show ?thesis
    by (simp add: shell_exec_gate_def validate_command_allowlist_def default_exec_policy_def listed_def)
qed

end
