(* ===== verification/CronTypes.thy ===== *)
theory CronTypes
  imports Events
begin

text \<open>
  Scheduled jobs and their validation, \<open>crates/librefang-types/src/scheduler.rs\<close>.

  Error texts are constructors with the values they print. The environment of a script is an
  association list in the iteration order of its hash map. The file system is a parameter: the
  canonical form of a path, when it exists. Paths are those of Unix.
\<close>

section \<open>Data\<close>

type_synonym cron_job_id = "128 word"

datatype cron_schedule =
    At instant
  | Every u64
  | CronExpr string "string option"

record pre_script =
  argv :: "string list"
  script_cwd :: "string option"
  script_env :: "(string \<times> string) list"

datatype cron_action =
    SystemEventAction string
  | AgentTurn string "string option" "u64 option" "string option" "pre_script option" "string option"
  | WorkflowAction string "string option" "u64 option"

datatype cron_delivery =
    NoDelivery
  | ChannelDelivery string string
  | LastChannel
  | WebhookDelivery string

datatype cron_delivery_target =
    ChannelTarget string string "string option" "string option"
  | WebhookTarget string "string option"
  | LocalFileTarget string bool
  | EmailTarget string "string option"

record cron_job =
  cj_id :: cron_job_id
  cj_agent :: agent_id
  cj_name :: string
  cj_enabled :: bool
  cj_schedule :: cron_schedule
  cj_action :: cron_action
  cj_delivery :: cron_delivery
  cj_targets :: "cron_delivery_target list"
  cj_peer :: "string option"
  cj_session_mode :: "session_mode option"
  cj_created_at :: instant
  cj_last_run :: "instant option"
  cj_next_run :: "instant option"

definition MAX_JOBS_PER_AGENT :: nat where "MAX_JOBS_PER_AGENT = 50"
definition MAX_NAME_LEN :: nat where "MAX_NAME_LEN = 128"
definition MIN_EVERY_SECS :: u64 where "MIN_EVERY_SECS = 60"
definition MAX_EVERY_SECS :: u64 where "MAX_EVERY_SECS = 86400"
definition MAX_AT_HORIZON_SECS :: int where "MAX_AT_HORIZON_SECS = 365 * 24 * 3600"
definition MAX_EVENT_TEXT_LEN :: nat where "MAX_EVENT_TEXT_LEN = 4096"
definition MAX_TURN_MESSAGE_LEN :: nat where "MAX_TURN_MESSAGE_LEN = 16384"
definition MAX_WORKFLOW_ID_LEN :: nat where "MAX_WORKFLOW_ID_LEN = 256"
definition MIN_TIMEOUT_SECS :: u64 where "MIN_TIMEOUT_SECS = 10"
definition MAX_TIMEOUT_SECS :: u64 where "MAX_TIMEOUT_SECS = 600"
definition MAX_WEBHOOK_URL_LEN :: nat where "MAX_WEBHOOK_URL_LEN = 2048"

datatype pre_script_error =
    EmptyArgv
  | OutsideAllowlist string string
  | ScriptNotFound string
  | DangerousEnvKey string

datatype target_error =
    TargetChannelEmpty
  | TargetRecipientEmpty
  | TargetUrlScheme
  | TargetUrlTooLong nat
  | TargetHostBlocked string
  | TargetPathEmpty
  | TargetPathAbsolute string
  | TargetPathDrive string
  | TargetPathParent string
  | TargetEmailEmpty

datatype job_error =
    TooManyJobs nat
  | JobNameEmpty
  | JobNameTooLong nat
  | JobNameChars
  | EveryTooSmall u64
  | EveryTooLarge u64
  | AtNotInFuture
  | AtTooFar
  | CronExprEmpty
  | CronExprFields nat string
  | CronFieldEmpty nat
  | CronFieldChars nat string
  | EventTextEmpty
  | EventTextTooLong nat
  | TurnMessageEmpty
  | TurnMessageTooLong nat
  | TurnTimeoutTooSmall u64
  | TurnTimeoutTooLarge u64
  | PreScriptError pre_script_error
  | WorkflowIdEmpty
  | WorkflowIdTooLong nat
  | WorkflowTimeoutZero
  | WorkflowTimeoutTooLarge u64
  | DeliveryChannelEmpty
  | DeliveryRecipientEmpty
  | DeliveryUrlScheme
  | DeliveryUrlTooLong nat
  | DeliveryTarget nat target_error

section \<open>Pre-scripts\<close>

definition DANGEROUS_ENV_KEYS :: "string list" where
  "DANGEROUS_ENV_KEYS =
     [''LD_PRELOAD'', ''LD_LIBRARY_PATH'', ''LD_AUDIT'', ''DYLD_INSERT_LIBRARIES'',
      ''DYLD_LIBRARY_PATH'', ''DYLD_FALLBACK_LIBRARY_PATH'', ''PATH'', ''IFS'']"

definition is_dangerous_env_key :: "string \<Rightarrow> bool" where
  "is_dangerous_env_key key \<longleftrightarrow> list_ex (\<lambda>k. to_lowercase k = to_lowercase key) DANGEROUS_ENV_KEYS"

definition validate_pre_script_env :: "pre_script \<Rightarrow> pre_script_error option" where
  "validate_pre_script_env script =
     map_option DangerousEnvKey (find is_dangerous_env_key (map fst (script_env script)))"

definition validate_pre_script ::
  "(string \<Rightarrow> string option) \<Rightarrow> pre_script \<Rightarrow> string \<Rightarrow> pre_script_error option" where
  "validate_pre_script canonicalize script home_dir =
     (case validate_pre_script_env script of
        Some e \<Rightarrow> Some e
      | None \<Rightarrow>
          (case argv script of
             [] \<Rightarrow> Some EmptyArgv
           | argv0 # _ \<Rightarrow>
               if argv0 = [] then Some EmptyArgv
               else
                 (let scripts_root = path_join home_dir ''scripts'';
                      candidate = (if is_absolute argv0 then argv0 else path_join scripts_root argv0)
                  in case canonicalize candidate of
                       None \<Rightarrow> Some (ScriptNotFound candidate)
                     | Some resolved \<Rightarrow>
                         (case canonicalize scripts_root of
                            None \<Rightarrow> Some (OutsideAllowlist resolved scripts_root)
                          | Some allow_root \<Rightarrow>
                              if \<not> path_starts_with resolved allow_root
                              then Some (OutsideAllowlist resolved allow_root) else None))))"

section \<open>Webhook hosts\<close>

definition host_end :: "string \<Rightarrow> nat" where
  "host_end s = length (takeWhile (\<lambda>c. c \<notin> {CHR ''/'', CHR ''?'', CHR ''#''}) s)"

definition extract_url_host :: "string \<Rightarrow> string option" where
  "extract_url_host url =
     (case (case strip_prefix ''http://'' url of Some r \<Rightarrow> Some r | None \<Rightarrow> strip_prefix ''https://'' url) of
        None \<Rightarrow> None
      | Some after_scheme \<Rightarrow>
          (let host_part = last (split_on (\<lambda>c. c = CHR ''@'') (take (host_end after_scheme) after_scheme));
               host = (case strip_prefix ''['' host_part of
                         Some stripped \<Rightarrow>
                           map_option (\<lambda>close. take (Suc close) host_part) (find_char (CHR '']'') stripped)
                       | None \<Rightarrow>
                           (case find_char (CHR '':'') host_part of
                              Some colon \<Rightarrow> Some (take colon host_part)
                            | None \<Rightarrow> Some host_part))
           in case host of
                None \<Rightarrow> None
              | Some h \<Rightarrow> if h = [] then None else Some (to_lowercase h)))"

definition is_blocked_webhook_host :: "string \<Rightarrow> bool" where
  "is_blocked_webhook_host host \<longleftrightarrow>
     host \<in> set [''localhost'', ''metadata'', ''metadata.google.internal'', ''metadata.aws.amazon.com'']
     \<or> starts_with ''127.'' host
     \<or> starts_with ''169.254.'' host
     \<or> host = ''[::1]''
     \<or> starts_with ''[fe80:'' host
     \<or> starts_with ''fe80:'' host"

section \<open>Validation\<close>

definition is_cron_char :: "char \<Rightarrow> bool" where
  "is_cron_char c \<longleftrightarrow> is_digit c \<or> c \<in> {CHR ''*'', CHR ''/'', CHR ''-'', CHR '','', CHR ''?''}"

fun cron_field_errors :: "nat \<Rightarrow> string list \<Rightarrow> job_error option" where
  "cron_field_errors i [] = None"
| "cron_field_errors i (field # rest) =
     (if field = [] then Some (CronFieldEmpty i)
      else if \<not> list_all is_cron_char field then Some (CronFieldChars i field)
      else cron_field_errors (Suc i) rest)"

definition validate_cron_expr :: "string \<Rightarrow> job_error option" where
  "validate_cron_expr expr =
     (let trimmed = trim expr; parts = split_whitespace trimmed
      in if trimmed = [] then Some CronExprEmpty
         else if length parts \<noteq> 5 then Some (CronExprFields (length parts) trimmed)
         else cron_field_errors 0 parts)"

definition validate_schedule :: "instant \<Rightarrow> cron_job \<Rightarrow> job_error option" where
  "validate_schedule now job =
     (case cj_schedule job of
        Every every_secs \<Rightarrow>
          if every_secs < MIN_EVERY_SECS then Some (EveryTooSmall every_secs)
          else if every_secs > MAX_EVERY_SECS then Some (EveryTooLarge every_secs)
          else None
      | At at_time \<Rightarrow>
          if at_time \<le> now then Some AtNotInFuture
          else if (at_time - now) div 1000000000 > MAX_AT_HORIZON_SECS then Some AtTooFar
          else None
      | CronExpr expr _ \<Rightarrow> validate_cron_expr expr)"

definition validate_action ::
  "(string \<Rightarrow> string option) \<Rightarrow> string option \<Rightarrow> cron_job \<Rightarrow> job_error option" where
  "validate_action canonicalize home_dir job =
     (case cj_action job of
        SystemEventAction body \<Rightarrow>
          if body = [] then Some EventTextEmpty
          else if length body > MAX_EVENT_TEXT_LEN then Some (EventTextTooLong (length body))
          else None
      | AgentTurn message _ timeout_secs _ script _ \<Rightarrow>
          if message = [] then Some TurnMessageEmpty
          else if length message > MAX_TURN_MESSAGE_LEN then Some (TurnMessageTooLong (length message))
          else (case (case timeout_secs of
                        None \<Rightarrow> None
                      | Some t \<Rightarrow>
                          if t < MIN_TIMEOUT_SECS then Some (TurnTimeoutTooSmall t)
                          else if t > MAX_TIMEOUT_SECS then Some (TurnTimeoutTooLarge t)
                          else None) of
                  Some e \<Rightarrow> Some e
                | None \<Rightarrow>
                    (case script of
                       None \<Rightarrow> None
                     | Some ps \<Rightarrow>
                         map_option PreScriptError
                           (case home_dir of
                              Some home \<Rightarrow> validate_pre_script canonicalize ps home
                            | None \<Rightarrow> validate_pre_script_env ps)))
      | WorkflowAction workflow_id _ timeout_secs \<Rightarrow>
          if workflow_id = [] then Some WorkflowIdEmpty
          else if length workflow_id > MAX_WORKFLOW_ID_LEN then Some (WorkflowIdTooLong (length workflow_id))
          else (case timeout_secs of
                  None \<Rightarrow> None
                | Some t \<Rightarrow>
                    if t = 0 then Some WorkflowTimeoutZero
                    else if t > 3600 then Some (WorkflowTimeoutTooLarge t)
                    else None))"

definition has_http_scheme :: "string \<Rightarrow> bool" where
  "has_http_scheme url \<longleftrightarrow> starts_with ''http://'' url \<or> starts_with ''https://'' url"

definition validate_delivery :: "cron_job \<Rightarrow> job_error option" where
  "validate_delivery job =
     (case cj_delivery job of
        ChannelDelivery channel to_id \<Rightarrow>
          if channel = [] then Some DeliveryChannelEmpty
          else if to_id = [] then Some DeliveryRecipientEmpty
          else None
      | WebhookDelivery url \<Rightarrow>
          if \<not> has_http_scheme url then Some DeliveryUrlScheme
          else if length url > MAX_WEBHOOK_URL_LEN then Some (DeliveryUrlTooLong (length url))
          else None
      | NoDelivery \<Rightarrow> None
      | LastChannel \<Rightarrow> None)"

definition validate_target :: "cron_delivery_target \<Rightarrow> target_error option" where
  "validate_target target =
     (case target of
        ChannelTarget channel_type recipient _ _ \<Rightarrow>
          if trim channel_type = [] then Some TargetChannelEmpty
          else if trim recipient = [] then Some TargetRecipientEmpty
          else None
      | WebhookTarget url _ \<Rightarrow>
          if \<not> has_http_scheme url then Some TargetUrlScheme
          else if length url > MAX_WEBHOOK_URL_LEN then Some (TargetUrlTooLong (length url))
          else (case extract_url_host url of
                  Some host \<Rightarrow> if is_blocked_webhook_host host then Some (TargetHostBlocked host) else None
                | None \<Rightarrow> None)
      | LocalFileTarget path _ \<Rightarrow>
          if trim path = [] then Some TargetPathEmpty
          else if is_absolute path then Some (TargetPathAbsolute path)
          else if length path \<ge> 3 \<and> is_ascii_alphabetic (path ! 0) \<and> path ! 1 = CHR '':''
                  \<and> (path ! 2 = CHR 0x5C \<or> path ! 2 = CHR ''/'')
               then Some (TargetPathDrive path)
          else if ''..'' \<in> set (components path) then Some (TargetPathParent path)
          else None
      | EmailTarget to_id _ \<Rightarrow> if trim to_id = [] then Some TargetEmailEmpty else None)"

fun first_target_error :: "nat \<Rightarrow> cron_delivery_target list \<Rightarrow> job_error option" where
  "first_target_error i [] = None"
| "first_target_error i (t # ts) =
     (case validate_target t of
        Some e \<Rightarrow> Some (DeliveryTarget i e)
      | None \<Rightarrow> first_target_error (Suc i) ts)"

definition validate_delivery_targets :: "cron_job \<Rightarrow> job_error option" where
  "validate_delivery_targets job = first_target_error 0 (cj_targets job)"

text \<open>
  The checks run in order; \<open>orelse\<close> is the \<open>?\<close> between them.
\<close>

fun orelse :: "'e option \<Rightarrow> 'e option \<Rightarrow> 'e option" where
  "orelse (Some e) _ = Some e"
| "orelse None r = r"

definition validate_with_home ::
  "(string \<Rightarrow> bool) \<Rightarrow> (string \<Rightarrow> string option) \<Rightarrow> instant \<Rightarrow> cron_job \<Rightarrow> nat \<Rightarrow> string option
   \<Rightarrow> job_error option" where
  "validate_with_home alnum canonicalize now job existing_count home_dir =
     (if existing_count \<ge> MAX_JOBS_PER_AGENT then Some (TooManyJobs existing_count)
      else if cj_name job = [] then Some JobNameEmpty
      else if length (cj_name job) > MAX_NAME_LEN then Some (JobNameTooLong (length (cj_name job)))
      else if \<not> list_all (\<lambda>c. alnum c \<or> c = '' '' \<or> c = ''-'' \<or> c = ''_'') (chars_of (cj_name job))
           then Some JobNameChars
      else orelse (validate_schedule now job)
             (orelse (validate_action canonicalize home_dir job)
               (orelse (validate_delivery job) (validate_delivery_targets job))))"

definition validate :: "(string \<Rightarrow> bool) \<Rightarrow> (string \<Rightarrow> string option) \<Rightarrow> instant \<Rightarrow> cron_job \<Rightarrow> nat \<Rightarrow> job_error option" where
  "validate alnum canonicalize now job existing_count =
     validate_with_home alnum canonicalize now job existing_count None"

end
