(* ===== verification/Cron.thy ===== *)
theory Cron
  imports CronTypes
begin

text \<open>
  The cron scheduler, \<open>crates/librefang-kernel/src/cron.rs\<close>, and what the tick loop of
  \<open>crates/librefang-kernel/src/kernel/mod.rs\<close> does with its jobs.

  The table of jobs is an association list in the iteration order of the concurrent map; the file
  \<open>cron_jobs.json\<close> is a component of the state. The parser of cron expressions and the time
  zone database are the parameter \<open>cron_lib\<close>: which seven-field expressions parse, which zone
  names exist, and the next occurrence after an instant in UTC or in a zone.
\<close>

section \<open>State\<close>

record job_meta =
  meta_job :: cron_job
  one_shot :: bool
  last_status :: "string option"
  consecutive_errors :: u32
  auto_disabled :: bool

record cron_scheduler =
  jobs :: "(cron_job_id \<times> job_meta) list"
  home_dir :: string
  max_total_jobs :: nat
  cron_file :: "job_meta list option"

datatype cron_error =
    CronNotFound cron_job_id
  | CronLimitReached nat
  | InvalidJob job_error
  | InvalidAgentId
  | InvalidSchedule
  | InvalidAction
  | InvalidDelivery
  | InvalidTargets
  | CronReadFailed
  | CronParseFailed
  | CronWriteFailed

record cron_lib =
  cron_parses :: "string \<Rightarrow> bool"
  next_in_utc :: "string \<Rightarrow> instant \<Rightarrow> instant option"
  is_timezone :: "string \<Rightarrow> bool"
  next_in_zone :: "string \<Rightarrow> string \<Rightarrow> instant \<Rightarrow> instant option"

definition MAX_CONSECUTIVE_ERRORS :: u32 where "MAX_CONSECUTIVE_ERRORS = 5"

definition SECOND :: int where "SECOND = 1000000000"

definition new_meta :: "cron_job \<Rightarrow> bool \<Rightarrow> job_meta" where
  "new_meta job once =
     \<lparr>meta_job = job, one_shot = once, last_status = None, consecutive_errors = 0, auto_disabled = False\<rparr>"

definition new_scheduler :: "string \<Rightarrow> nat \<Rightarrow> job_meta list option \<Rightarrow> cron_scheduler" where
  "new_scheduler home limit file =
     \<lparr>jobs = [], home_dir = home, max_total_jobs = limit, cron_file = file\<rparr>"

definition set_max_total_jobs :: "nat \<Rightarrow> cron_scheduler \<Rightarrow> cron_scheduler" where
  "set_max_total_jobs limit s = s\<lparr>max_total_jobs := limit\<rparr>"

section \<open>Persistence\<close>

definition insert_meta :: "job_meta \<Rightarrow> (cron_job_id \<times> job_meta) list \<Rightarrow> (cron_job_id \<times> job_meta) list" where
  "insert_meta m = AList.update (cj_id (meta_job m)) m"

definition load :: "bool \<Rightarrow> bool \<Rightarrow> cron_scheduler \<Rightarrow> (cron_error + nat) \<times> cron_scheduler" where
  "load read_ok parse_ok s =
     (case cron_file s of
        None \<Rightarrow> (Inr 0, s)
      | Some metas \<Rightarrow>
          if \<not> read_ok then (Inl CronReadFailed, s)
          else if \<not> parse_ok then (Inl CronParseFailed, s)
          else (Inr (length metas), s\<lparr>jobs := fold insert_meta metas (jobs s)\<rparr>))"

definition persist :: "bool \<Rightarrow> cron_scheduler \<Rightarrow> (cron_error + unit) \<times> cron_scheduler" where
  "persist write_ok s =
     (if \<not> write_ok then (Inl CronWriteFailed, s)
      else (Inr (), s\<lparr>cron_file := Some (map snd (jobs s))\<rparr>))"

section \<open>The next run\<close>

definition seven_field :: "string \<Rightarrow> string" where
  "seven_field expr =
     (let trimmed = trim expr; n = length (split_whitespace trimmed)
      in if n = 5 then ''0 '' @ trimmed @ '' *''
         else if n = 6 then trimmed @ '' *''
         else expr)"

definition next_cron_run :: "cron_lib \<Rightarrow> string \<Rightarrow> string option \<Rightarrow> instant \<Rightarrow> instant option" where
  "next_cron_run lib sched tz base =
     (case tz of
        Some tz_str \<Rightarrow>
          if tz_str \<noteq> [] \<and> tz_str \<noteq> ''UTC''
          then if is_timezone lib tz_str then next_in_zone lib sched tz_str base
               else next_in_utc lib sched base
          else next_in_utc lib sched base
      | None \<Rightarrow> next_in_utc lib sched base)"

definition compute_next_run_after :: "cron_lib \<Rightarrow> cron_schedule \<Rightarrow> instant \<Rightarrow> instant" where
  "compute_next_run_after lib schedule after =
     (case schedule of
        At at_time \<Rightarrow> if at_time > after then at_time else after + 36500 * 86400 * SECOND
      | Every every_secs \<Rightarrow> after + sint every_secs * SECOND
      | CronExpr expr tz \<Rightarrow>
          (let sched = seven_field expr; base = after + SECOND
           in if cron_parses lib sched
              then (case next_cron_run lib sched tz base of
                      Some t \<Rightarrow> t
                    | None \<Rightarrow> after + 3600 * SECOND)
              else after + 3600 * SECOND))"

text \<open>\<open>compute_next_run\<close> is this at the current reading of the clock.\<close>

definition scheduled_at :: "cron_lib \<Rightarrow> instant \<Rightarrow> job_meta \<Rightarrow> job_meta" where
  "scheduled_at lib now m =
     m\<lparr>meta_job := (meta_job m)
         \<lparr>cj_next_run := Some (compute_next_run_after lib (cj_schedule (meta_job m)) now)\<rparr>\<rparr>"

section \<open>Adding, removing and changing jobs\<close>

definition count_agent_jobs :: "cron_scheduler \<Rightarrow> agent_id \<Rightarrow> nat" where
  "count_agent_jobs s a = length (filter (\<lambda>(_, m). cj_agent (meta_job m) = a) (jobs s))"

definition is_at :: "cron_schedule \<Rightarrow> bool" where
  "is_at sch = (case sch of At _ \<Rightarrow> True | _ \<Rightarrow> False)"

definition add_job ::
  "cron_lib \<Rightarrow> (string \<Rightarrow> bool) \<Rightarrow> (string \<Rightarrow> string option) \<Rightarrow> instant \<Rightarrow> cron_job \<Rightarrow> bool
   \<Rightarrow> cron_scheduler \<Rightarrow> (cron_error + cron_job_id) \<times> cron_scheduler" where
  "add_job lib alnum canonicalize now job once s =
     (if length (jobs s) \<ge> max_total_jobs s then (Inl (CronLimitReached (max_total_jobs s)), s)
      else case validate_with_home alnum canonicalize now job (count_agent_jobs s (cj_agent job)) (Some (home_dir s)) of
             Some e \<Rightarrow> (Inl (InvalidJob e), s)
           | None \<Rightarrow>
               let m = scheduled_at lib now (new_meta job (once \<or> is_at (cj_schedule job)))
               in (Inr (cj_id job), s\<lparr>jobs := AList.update (cj_id job) m (jobs s)\<rparr>))"

definition get_meta :: "cron_scheduler \<Rightarrow> cron_job_id \<Rightarrow> job_meta option" where
  "get_meta s i = map_of (jobs s) i"

definition get_job :: "cron_scheduler \<Rightarrow> cron_job_id \<Rightarrow> cron_job option" where
  "get_job s i = map_option meta_job (get_meta s i)"

definition put_meta :: "cron_job_id \<Rightarrow> job_meta \<Rightarrow> cron_scheduler \<Rightarrow> cron_scheduler" where
  "put_meta i m s = s\<lparr>jobs := AList.update i m (jobs s)\<rparr>"

definition drop_job :: "cron_job_id \<Rightarrow> cron_scheduler \<Rightarrow> cron_scheduler" where
  "drop_job i s = s\<lparr>jobs := AList.delete i (jobs s)\<rparr>"

definition remove_job :: "cron_job_id \<Rightarrow> cron_scheduler \<Rightarrow> (cron_error + cron_job) \<times> cron_scheduler" where
  "remove_job i s =
     (case get_meta s i of
        Some m \<Rightarrow> (Inr (meta_job m), drop_job i s)
      | None \<Rightarrow> (Inl (CronNotFound i), s))"

definition switch_enabled :: "cron_lib \<Rightarrow> instant \<Rightarrow> bool \<Rightarrow> job_meta \<Rightarrow> job_meta" where
  "switch_enabled lib now on m =
     (let m' = m\<lparr>meta_job := (meta_job m)\<lparr>cj_enabled := on\<rparr>, auto_disabled := False\<rparr>
      in if on then scheduled_at lib now (m'\<lparr>consecutive_errors := 0\<rparr>) else m')"

definition set_enabled ::
  "cron_lib \<Rightarrow> instant \<Rightarrow> cron_job_id \<Rightarrow> bool \<Rightarrow> cron_scheduler \<Rightarrow> (cron_error + unit) \<times> cron_scheduler" where
  "set_enabled lib now i on s =
     (case get_meta s i of
        Some m \<Rightarrow> (Inr (), put_meta i (switch_enabled lib now on m) s)
      | None \<Rightarrow> (Inl (CronNotFound i), s))"

text \<open>
  The fields of the JSON of an update: the inner option is \<open>None\<close> where the value is present
  but does not parse.
\<close>

record job_updates =
  up_name :: "string option"
  up_enabled :: "bool option"
  up_agent :: "agent_id option option"
  up_schedule :: "cron_schedule option option"
  up_action :: "cron_action option option"
  up_delivery :: "cron_delivery option option"
  up_targets :: "cron_delivery_target list option option"

text \<open>
  One patch after the other on the entry in the table: an error leaves the patches before it.
\<close>

definition patch_with :: "cron_error \<Rightarrow> 'a option option \<Rightarrow> ('a \<Rightarrow> job_meta \<Rightarrow> job_meta)
   \<Rightarrow> cron_error option \<times> job_meta \<Rightarrow> cron_error option \<times> job_meta" where
  "patch_with err upd f r =
     (case fst r of
        Some e \<Rightarrow> r
      | None \<Rightarrow>
          (case upd of
             None \<Rightarrow> r
           | Some None \<Rightarrow> (Some err, snd r)
           | Some (Some x) \<Rightarrow> (None, f x (snd r))))"

definition with_job :: "(cron_job \<Rightarrow> cron_job) \<Rightarrow> job_meta \<Rightarrow> job_meta" where
  "with_job f m = m\<lparr>meta_job := f (meta_job m)\<rparr>"

definition update_meta :: "cron_lib \<Rightarrow> instant \<Rightarrow> job_updates \<Rightarrow> job_meta \<Rightarrow> cron_error option \<times> job_meta" where
  "update_meta lib now u m =
     (let named = (case up_name u of Some n \<Rightarrow> with_job (cj_name_update (\<lambda>_. n)) m | None \<Rightarrow> m);
          switched = (case up_enabled u of Some on \<Rightarrow> switch_enabled lib now on named | None \<Rightarrow> named)
      in patch_with InvalidTargets (up_targets u) (\<lambda>ts. with_job (cj_targets_update (\<lambda>_. ts)))
          (patch_with InvalidDelivery (up_delivery u) (\<lambda>d. with_job (cj_delivery_update (\<lambda>_. d)))
            (patch_with InvalidAction (up_action u) (\<lambda>a. with_job (cj_action_update (\<lambda>_. a)))
              (patch_with InvalidSchedule (up_schedule u)
                 (\<lambda>sch m. scheduled_at lib now (with_job (cj_schedule_update (\<lambda>_. sch)) m))
                (patch_with InvalidAgentId (up_agent u) (\<lambda>a. with_job (cj_agent_update (\<lambda>_. a)))
                  (None, switched))))))"

definition update_job ::
  "cron_lib \<Rightarrow> instant \<Rightarrow> cron_job_id \<Rightarrow> job_updates \<Rightarrow> cron_scheduler \<Rightarrow> (cron_error + cron_job) \<times> cron_scheduler" where
  "update_job lib now i u s =
     (case get_meta s i of
        Some m \<Rightarrow>
          let r = update_meta lib now u m
          in ((case fst r of Some e \<Rightarrow> Inl e | None \<Rightarrow> Inr (meta_job (snd r))), put_meta i (snd r) s)
      | None \<Rightarrow> (Inl (CronNotFound i), s))"

definition set_delivery_targets ::
  "cron_job_id \<Rightarrow> cron_delivery_target list \<Rightarrow> cron_scheduler \<Rightarrow> (cron_error + unit) \<times> cron_scheduler" where
  "set_delivery_targets i ts s =
     (case get_meta s i of
        Some m \<Rightarrow> (Inr (), put_meta i (with_job (cj_targets_update (\<lambda>_. ts)) m) s)
      | None \<Rightarrow> (Inl (CronNotFound i), s))"

definition list_jobs :: "cron_scheduler \<Rightarrow> agent_id \<Rightarrow> cron_job list" where
  "list_jobs s a = filter (\<lambda>j. cj_agent j = a) (map (meta_job \<circ> snd) (jobs s))"

definition list_all_jobs :: "cron_scheduler \<Rightarrow> cron_job list" where
  "list_all_jobs s = map (meta_job \<circ> snd) (jobs s)"

definition total_jobs :: "cron_scheduler \<Rightarrow> nat" where
  "total_jobs s = length (jobs s)"

definition map_metas :: "(job_meta \<Rightarrow> job_meta) \<Rightarrow> cron_scheduler \<Rightarrow> cron_scheduler" where
  "map_metas f s = s\<lparr>jobs := map (\<lambda>(i, m). (i, f m)) (jobs s)\<rparr>"

definition reassign_meta :: "cron_lib \<Rightarrow> instant \<Rightarrow> agent_id \<Rightarrow> agent_id \<Rightarrow> job_meta \<Rightarrow> job_meta" where
  "reassign_meta lib now old_agent new_agent m =
     (if cj_agent (meta_job m) = old_agent
      then let m' = (with_job (cj_agent_update (\<lambda>_. new_agent)) m)\<lparr>consecutive_errors := 0\<rparr>
           in if \<not> cj_enabled (meta_job m') \<and> auto_disabled m'
              then scheduled_at lib now ((with_job (cj_enabled_update (\<lambda>_. True)) m')\<lparr>auto_disabled := False\<rparr>)
              else m'
      else m)"

definition reassign_agent_jobs ::
  "cron_lib \<Rightarrow> instant \<Rightarrow> agent_id \<Rightarrow> agent_id \<Rightarrow> cron_scheduler \<Rightarrow> nat \<times> cron_scheduler" where
  "reassign_agent_jobs lib now old_agent new_agent s =
     (count_agent_jobs s old_agent, map_metas (reassign_meta lib now old_agent new_agent) s)"

definition remove_agent_jobs :: "agent_id \<Rightarrow> cron_scheduler \<Rightarrow> nat \<times> cron_scheduler" where
  "remove_agent_jobs a s =
     (let ids = map fst (filter (\<lambda>(_, m). cj_agent (meta_job m) = a) (jobs s))
      in (length ids, fold drop_job ids s))"

section \<open>Missed fires\<close>

text \<open>
  The number of missed fires divides by the interval of the job; a division by zero is a panic.
\<close>

definition missed_interval :: "cron_lib \<Rightarrow> cron_schedule \<Rightarrow> instant \<Rightarrow> int \<Rightarrow> int" where
  "missed_interval lib sch next_run overdue_secs =
     (case sch of
        Every every_secs \<Rightarrow> sint every_secs
      | At _ \<Rightarrow> overdue_secs
      | CronExpr _ _ \<Rightarrow> max 1 ((compute_next_run_after lib sch next_run - next_run) div SECOND))"

definition missed_count :: "int \<Rightarrow> int \<Rightarrow> int option" where
  "missed_count overdue_secs interval_secs =
     (if interval_secs = 0 then None else Some (max 1 (overdue_secs div interval_secs)))"

definition catch_up :: "cron_lib \<Rightarrow> instant \<Rightarrow> job_meta \<Rightarrow> job_meta option" where
  "catch_up lib now m =
     (if \<not> cj_enabled (meta_job m) then Some m
      else case cj_next_run (meta_job m) of
             None \<Rightarrow> Some m
           | Some next_run \<Rightarrow>
               if next_run < now - 60 * SECOND
               then let overdue_secs = (now - next_run) div SECOND
                    in map_option (\<lambda>_. with_job (cj_next_run_update (\<lambda>_. Some now)) m)
                         (missed_count overdue_secs
                           (missed_interval lib (cj_schedule (meta_job m)) next_run overdue_secs))
               else Some m)"

fun catch_up_all ::
  "cron_lib \<Rightarrow> instant \<Rightarrow> (cron_job_id \<times> job_meta) list \<Rightarrow> (cron_job_id \<times> job_meta) list option" where
  "catch_up_all lib now [] = Some []"
| "catch_up_all lib now ((i, m) # ms) =
     (case catch_up lib now m of
        None \<Rightarrow> None
      | Some m' \<Rightarrow> map_option ((#) (i, m')) (catch_up_all lib now ms))"

definition warn_missed_fires :: "cron_lib \<Rightarrow> instant \<Rightarrow> cron_scheduler \<Rightarrow> cron_scheduler option" where
  "warn_missed_fires lib now s = map_option (\<lambda>js. s\<lparr>jobs := js\<rparr>) (catch_up_all lib now (jobs s))"

definition MAX_ITER :: nat where "MAX_ITER = 1440"

fun count_missed :: "cron_lib \<Rightarrow> cron_schedule \<Rightarrow> instant \<Rightarrow> instant \<Rightarrow> nat \<Rightarrow> nat" where
  "count_missed lib sch now cursor 0 = 0"
| "count_missed lib sch now cursor (Suc n) =
     (if cursor < now then Suc (count_missed lib sch now (compute_next_run_after lib sch cursor) n) else 0)"

definition missed_since :: "cron_lib \<Rightarrow> instant \<Rightarrow> instant \<Rightarrow> job_meta \<Rightarrow> nat" where
  "missed_since lib since now m =
     (if \<not> cj_enabled (meta_job m) then 0
      else if (case cj_schedule (meta_job m) of At at_time \<Rightarrow> at_time < since | _ \<Rightarrow> False) then 0
      else count_missed lib (cj_schedule (meta_job m)) now
             (compute_next_run_after lib (cj_schedule (meta_job m)) since) MAX_ITER)"

definition log_missed_fires_since ::
  "cron_lib \<Rightarrow> instant \<Rightarrow> instant \<Rightarrow> cron_scheduler \<Rightarrow> (cron_job_id \<times> nat) list" where
  "log_missed_fires_since lib since now s =
     (if since \<ge> now then []
      else filter (\<lambda>(_, n). n > 0) (map (\<lambda>(i, m). (i, missed_since lib since now m)) (jobs s)))"

text \<open>
  The start of the kernel (lines 2994 to 3015 of \<open>kernel/mod.rs\<close>).
\<close>

definition boot_cron ::
  "cron_lib \<Rightarrow> bool \<Rightarrow> bool \<Rightarrow> instant \<Rightarrow> string \<Rightarrow> nat \<Rightarrow> job_meta list option
   \<Rightarrow> ((cron_job_id \<times> nat) list \<times> cron_scheduler) option" where
  "boot_cron lib read_ok parse_ok now home limit file =
     (let r = load read_ok parse_ok (new_scheduler home limit file); s = snd r;
          logged = (case fst r of
                      Inr n \<Rightarrow> if n > 0 then log_missed_fires_since lib (now - 300 * SECOND) now s else []
                    | Inl _ \<Rightarrow> [])
      in map_option (Pair logged) (warn_missed_fires lib now s))"

section \<open>Due jobs and outcomes\<close>

definition is_due :: "instant \<Rightarrow> job_meta \<Rightarrow> bool" where
  "is_due now m \<longleftrightarrow>
     cj_enabled (meta_job m) \<and> (case cj_next_run (meta_job m) of Some t \<Rightarrow> t \<le> now | None \<Rightarrow> False)"

definition due_jobs :: "cron_lib \<Rightarrow> instant \<Rightarrow> cron_scheduler \<Rightarrow> cron_job list \<times> cron_scheduler" where
  "due_jobs lib now s =
     (map (meta_job \<circ> snd) (filter (\<lambda>(_, m). is_due now m) (jobs s)),
      map_metas (\<lambda>m. if is_due now m then scheduled_at lib now m else m) s)"

definition mark_due_now_by_agent :: "instant \<Rightarrow> agent_id \<Rightarrow> cron_scheduler \<Rightarrow> cron_scheduler" where
  "mark_due_now_by_agent now a s =
     map_metas (\<lambda>m. if cj_agent (meta_job m) = a \<and> cj_enabled (meta_job m)
                    then with_job (cj_next_run_update (\<lambda>_. Some now)) m else m) s"

definition record_success :: "instant \<Rightarrow> cron_job_id \<Rightarrow> cron_scheduler \<Rightarrow> cron_scheduler" where
  "record_success now i s =
     (case get_meta s i of
        None \<Rightarrow> s
      | Some m \<Rightarrow>
          let m' = (with_job (cj_last_run_update (\<lambda>_. Some now)) m)
                     \<lparr>last_status := Some ''ok'', consecutive_errors := 0\<rparr>
          in if one_shot m' then drop_job i s else put_meta i m' s)"

definition record_skipped :: "cron_job_id \<Rightarrow> cron_scheduler \<Rightarrow> cron_scheduler" where
  "record_skipped i s =
     (case get_meta s i of
        None \<Rightarrow> s
      | Some m \<Rightarrow>
          let m' = m\<lparr>last_status := Some ''skipped: agent suspended''\<rparr>
          in if one_shot m' then drop_job i s else put_meta i m' s)"

definition record_failure :: "cron_lib \<Rightarrow> instant \<Rightarrow> cron_job_id \<Rightarrow> string \<Rightarrow> cron_scheduler \<Rightarrow> cron_scheduler" where
  "record_failure lib now i error_msg s =
     (case get_meta s i of
        None \<Rightarrow> s
      | Some m \<Rightarrow>
          let m' = (with_job (cj_last_run_update (\<lambda>_. Some now)) m)
                     \<lparr>last_status := Some (''error: '' @ safe_truncate_str error_msg 256),
                      consecutive_errors := consecutive_errors m + 1\<rparr>
          in if one_shot m' then drop_job i s
             else if consecutive_errors m' \<ge> MAX_CONSECUTIVE_ERRORS
             then put_meta i ((with_job (cj_enabled_update (\<lambda>_. False)) m')\<lparr>auto_disabled := True\<rparr>) s
             else put_meta i (scheduled_at lib now m') s)"

section \<open>Sessions of fires\<close>

text \<open>
  Identifiers print as \<open>show_uuid\<close> and instants as \<open>rfc3339\<close>, with nanoseconds; the hashes
  of a name in the two name spaces are \<open>uuid_cron\<close> and \<open>uuid_channel\<close>.
\<close>

definition for_cron_run :: "(128 word \<Rightarrow> string) \<Rightarrow> (string \<Rightarrow> 128 word) \<Rightarrow> agent_id \<Rightarrow> string \<Rightarrow> 128 word" where
  "for_cron_run show_uuid uuid_cron a run_key =
     uuid_cron (show_uuid a @ '':'' @ to_lowercase run_key)"

definition cron_fire_session_override ::
  "(128 word \<Rightarrow> string) \<Rightarrow> (instant \<Rightarrow> string) \<Rightarrow> (string \<Rightarrow> 128 word) \<Rightarrow> agent_id \<Rightarrow> session_mode option
   \<Rightarrow> cron_job_id \<Rightarrow> instant \<Rightarrow> session_mode option \<times> 128 word option" where
  "cron_fire_session_override show_uuid rfc3339 uuid_cron a mode job_id fire_time =
     (if mode \<noteq> Some NewSession then (None, None)
      else (Some NewSession,
            Some (for_cron_run show_uuid uuid_cron a (show_uuid job_id @ '':'' @ rfc3339 fire_time))))"

section \<open>What a tick does with a due job\<close>

text \<open>
  The wake gate: the agent sleeps only if the last line of the script that is not blank is a JSON
  object whose \<open>wakeAgent\<close> is \<open>false\<close>.
\<close>

definition parse_wake_gate :: "(string \<Rightarrow> json option) \<Rightarrow> string \<Rightarrow> bool" where
  "parse_wake_gate parse_json script_output =
     (case find (\<lambda>l. trim l \<noteq> []) (rev (split_on (\<lambda>c. c = CHR 0x0A) script_output)) of
        None \<Rightarrow> True
      | Some l \<Rightarrow>
          (case parse_json (trim l) of
             Some (JObject kvs) \<Rightarrow> map_of kvs ''wakeAgent'' \<noteq> Some (JBool False)
           | _ \<Rightarrow> True))"

datatype script_outcome = ScriptTimedOut | ScriptLaunchFailed | ScriptExited bool string

definition cron_script_wake_gate :: "(string \<Rightarrow> json option) \<Rightarrow> script_outcome \<Rightarrow> bool" where
  "cron_script_wake_gate parse_json outcome =
     (case outcome of
        ScriptExited True stdout \<Rightarrow> parse_wake_gate parse_json stdout
      | _ \<Rightarrow> True)"

datatype run_outcome = RunOk bool string | RunFailed string | RunTimedOut

text \<open>
  What a fire depends on: whether the agent is suspended, what its script did, how the turn or
  the workflow ended, and whether the workflow was found.
\<close>

record fire_world =
  agent_suspended :: bool
  script_result :: script_outcome
  run_result :: run_outcome
  workflow_found :: bool

datatype fire_record = Succeeded | Skipped | Failed string

definition turn_timeout :: "u64 option \<Rightarrow> u64" where
  "turn_timeout t = (case t of Some n \<Rightarrow> n | None \<Rightarrow> 120)"

definition workflow_timeout :: "u64 option \<Rightarrow> u64" where
  "workflow_timeout t = (case t of Some n \<Rightarrow> n | None \<Rightarrow> 300)"

definition show_u64 :: "u64 \<Rightarrow> string" where
  "show_u64 n = show_nat (unat n)"

text \<open>
  The outcome that is recorded, and the output that is delivered afterwards.
\<close>

definition fire_job :: "(string \<Rightarrow> json option) \<Rightarrow> fire_world \<Rightarrow> cron_job \<Rightarrow> fire_record \<times> string option" where
  "fire_job parse_json w job =
     (case cj_action job of
        SystemEventAction _ \<Rightarrow> (Succeeded, None)
      | AgentTurn _ _ timeout_secs pre_check _ _ \<Rightarrow>
          if agent_suspended w then (Skipped, None)
          else if pre_check \<noteq> None \<and> \<not> cron_script_wake_gate parse_json (script_result w)
          then (Succeeded, None)
          else (case run_result w of
                  RunOk silent response \<Rightarrow> (Succeeded, if silent then None else Some response)
                | RunFailed err_msg \<Rightarrow> (Failed err_msg, None)
                | RunTimedOut \<Rightarrow>
                    (Failed (''timed out after '' @ show_u64 (turn_timeout timeout_secs) @ ''s''), None))
      | WorkflowAction workflow_id _ timeout_secs \<Rightarrow>
          if \<not> workflow_found w then (Failed (''workflow not found: '' @ workflow_id), None)
          else (case run_result w of
                  RunOk _ output \<Rightarrow> (Succeeded, Some output)
                | RunFailed err_msg \<Rightarrow> (Failed err_msg, None)
                | RunTimedOut \<Rightarrow>
                    (Failed (''workflow timed out after '' @ show_u64 (workflow_timeout timeout_secs) @ ''s''), None)))"

definition record_outcome :: "cron_lib \<Rightarrow> instant \<Rightarrow> cron_job_id \<Rightarrow> fire_record \<Rightarrow> cron_scheduler \<Rightarrow> cron_scheduler" where
  "record_outcome lib now i r s =
     (case r of
        Succeeded \<Rightarrow> record_success now i s
      | Skipped \<Rightarrow> record_skipped i s
      | Failed msg \<Rightarrow> record_failure lib now i msg s)"

text \<open>
  The pruning of the shared session before a turn: first the number of messages, then the
  estimated number of tokens, dropping the oldest message until it fits.
\<close>

fun drop_until_fits :: "('m list \<Rightarrow> nat) \<Rightarrow> nat \<Rightarrow> 'm list \<Rightarrow> 'm list" where
  "drop_until_fits estimate limit [] = []"
| "drop_until_fits estimate limit (m # ms) =
     (if estimate (m # ms) \<le> limit then m # ms else drop_until_fits estimate limit ms)"

definition prune_cron_session :: "('m list \<Rightarrow> nat) \<Rightarrow> nat option \<Rightarrow> u64 option \<Rightarrow> 'm list \<Rightarrow> 'm list" where
  "prune_cron_session estimate max_messages max_tokens msgs =
     (let kept = (case max_messages of
                    Some n \<Rightarrow> if length msgs > n then drop (length msgs - n) msgs else msgs
                  | None \<Rightarrow> msgs)
      in case max_tokens of
           Some n \<Rightarrow> drop_until_fits estimate (unat n) kept
         | None \<Rightarrow> kept)"

end
