(* ===== verification/CronProps.thy ===== *)
theory CronProps
  imports Cron
begin

text \<open>
  Properties of the cron scheduler: over any run of the kernel's operations a job on an interval
  fires at most once per interval and an \<open>At\<close> job once and not before its time; only jobs that
  were validated are in the table, within its limits, so that a restart neither loses a job nor
  panics; failures in a row disable a job exactly at the fifth; and webhooks to the machine itself
  are refused, save in the bracketed form of an IPv6 address.
\<close>

section \<open>Runs\<close>

record cron_env =
  ce_lib :: cron_lib
  ce_alnum :: "string \<Rightarrow> bool"
  ce_canonicalize :: "string \<Rightarrow> string option"

datatype cron_op =
    CAdd cron_job bool
  | CRemove cron_job_id
  | CEnable cron_job_id bool
  | CUpdate cron_job_id job_updates
  | CTargets cron_job_id "cron_delivery_target list"
  | CReassign agent_id agent_id
  | CRemoveAgent agent_id
  | CMarkDue agent_id
  | CTick
  | COutcome cron_job_id fire_record
  | CPersist bool
  | CSetMax nat

fun exec_cron :: "cron_env \<Rightarrow> instant \<Rightarrow> cron_op \<Rightarrow> cron_scheduler \<Rightarrow> cron_job list \<times> cron_scheduler" where
  "exec_cron env now (CAdd job once) s =
     ([], snd (add_job (ce_lib env) (ce_alnum env) (ce_canonicalize env) now job once s))"
| "exec_cron env now (CRemove i) s = ([], snd (remove_job i s))"
| "exec_cron env now (CEnable i on) s = ([], snd (set_enabled (ce_lib env) now i on s))"
| "exec_cron env now (CUpdate i u) s = ([], snd (update_job (ce_lib env) now i u s))"
| "exec_cron env now (CTargets i ts) s = ([], snd (set_delivery_targets i ts s))"
| "exec_cron env now (CReassign a b) s = ([], snd (reassign_agent_jobs (ce_lib env) now a b s))"
| "exec_cron env now (CRemoveAgent a) s = ([], snd (remove_agent_jobs a s))"
| "exec_cron env now (CMarkDue a) s = ([], mark_due_now_by_agent now a s)"
| "exec_cron env now CTick s = due_jobs (ce_lib env) now s"
| "exec_cron env now (COutcome i r) s = ([], record_outcome (ce_lib env) now i r s)"
| "exec_cron env now (CPersist ok) s = ([], snd (persist ok s))"
| "exec_cron env now (CSetMax n) s = ([], set_max_total_jobs n s)"

text \<open>
  A run is a list of operations with the instants they happen at; it gives the fires, with their
  instants, and the final state.
\<close>

fun run_cron ::
  "cron_env \<Rightarrow> (instant \<times> cron_op) list \<Rightarrow> cron_scheduler \<Rightarrow> (instant \<times> cron_job) list \<times> cron_scheduler" where
  "run_cron env [] s = ([], s)"
| "run_cron env ((now, op) # ops) s =
     (map (Pair now) (fst (exec_cron env now op s)) @ fst (run_cron env ops (snd (exec_cron env now op s))),
      snd (run_cron env ops (snd (exec_cron env now op s))))"

definition fire_times :: "cron_job_id \<Rightarrow> (instant \<times> cron_job) list \<Rightarrow> instant list" where
  "fire_times i fires = map fst (filter (\<lambda>(_, j). cj_id j = i) fires)"

section \<open>One entry of the table\<close>

lemma get_put [simp]: "get_meta (put_meta i m s) j = (if j = i then Some m else get_meta s j)"
  by (simp add: get_meta_def put_meta_def map_of_AList_update)

lemma get_drop [simp]: "get_meta (drop_job i s) j = (if j = i then None else get_meta s j)"
  by (simp add: get_meta_def drop_job_def map_of_AList_delete)

interpretation cron_table: keyed_store get_meta put_meta drop_job
  by unfold_locales simp_all

lemma get_map_metas [simp]: "get_meta (map_metas f s) i = map_option f (get_meta s i)"
  by (simp add: get_meta_def map_metas_def map_of_map)

lemma get_other_fields [simp]:
  "get_meta (s\<lparr>cron_file := f\<rparr>) i = get_meta s i" "get_meta (s\<lparr>max_total_jobs := n\<rparr>) i = get_meta s i"
  by (simp_all add: get_meta_def)

lemma get_drop_all: "get_meta (fold drop_job ids s) i = (if i \<in> set ids then None else get_meta s i)"
  by (induction ids arbitrary: s) auto

text \<open>What an operation other than an addition makes of the entry of one job.\<close>

fun outcome_entry :: "cron_lib \<Rightarrow> instant \<Rightarrow> fire_record \<Rightarrow> job_meta \<Rightarrow> job_meta option" where
  "outcome_entry lib now Succeeded m =
     (if one_shot m then None
      else Some ((with_job (cj_last_run_update (\<lambda>_. Some now)) m)
                   \<lparr>last_status := Some ''ok'', consecutive_errors := 0\<rparr>))"
| "outcome_entry lib now Skipped m =
     (if one_shot m then None else Some (m\<lparr>last_status := Some ''skipped: agent suspended''\<rparr>))"
| "outcome_entry lib now (Failed msg) m =
     (if one_shot m then None
      else let m' = (with_job (cj_last_run_update (\<lambda>_. Some now)) m)
                      \<lparr>last_status := Some (''error: '' @ safe_truncate_str msg 256),
                       consecutive_errors := consecutive_errors m + 1\<rparr>
           in Some (if consecutive_errors m + 1 \<ge> MAX_CONSECUTIVE_ERRORS
                    then (with_job (cj_enabled_update (\<lambda>_. False)) m')\<lparr>auto_disabled := True\<rparr>
                    else scheduled_at lib now m'))"

fun entry_after :: "cron_lib \<Rightarrow> instant \<Rightarrow> cron_job_id \<Rightarrow> cron_op \<Rightarrow> job_meta \<Rightarrow> job_meta option" where
  "entry_after lib now i (CRemove j) m = (if j = i then None else Some m)"
| "entry_after lib now i (CEnable j on) m = Some (if j = i then switch_enabled lib now on m else m)"
| "entry_after lib now i (CUpdate j u) m = Some (if j = i then snd (update_meta lib now u m) else m)"
| "entry_after lib now i (CTargets j ts) m = Some (if j = i then with_job (cj_targets_update (\<lambda>_. ts)) m else m)"
| "entry_after lib now i (CReassign a b) m = Some (reassign_meta lib now a b m)"
| "entry_after lib now i (CRemoveAgent a) m = (if cj_agent (meta_job m) = a then None else Some m)"
| "entry_after lib now i (CMarkDue a) m =
     Some (if cj_agent (meta_job m) = a \<and> cj_enabled (meta_job m)
           then with_job (cj_next_run_update (\<lambda>_. Some now)) m else m)"
| "entry_after lib now i CTick m = Some (if is_due now m then scheduled_at lib now m else m)"
| "entry_after lib now i (COutcome j r) m = (if j = i then outcome_entry lib now r m else Some m)"
| "entry_after lib now i _ m = Some m"

lemma record_outcome_entry:
  "get_meta (record_outcome lib now j r s) i =
     (if j = i then Option.bind (get_meta s i) (outcome_entry lib now r) else get_meta s i)"
  by (cases r; cases "get_meta s j")
    (auto simp: record_outcome_def record_success_def record_skipped_def record_failure_def Let_def with_job_def
      scheduled_at_def)

lemma agent_ids:
  assumes "distinct (map fst (jobs s))"
  shows "i \<in> set (map fst (filter (\<lambda>(_, m). cj_agent (meta_job m) = a) (jobs s)))
    \<longleftrightarrow> (\<exists>m. get_meta s i = Some m \<and> cj_agent (meta_job m) = a)"
  using assms by (force simp: get_meta_def image_iff)

definition adds :: "cron_op \<Rightarrow> cron_job_id \<Rightarrow> bool" where
  "adds op i \<longleftrightarrow> (\<exists>job once. op = CAdd job once \<and> cj_id job = i)"

lemma exec_entry:
  assumes "distinct (map fst (jobs s))" and "\<not> adds op i"
  shows "get_meta (snd (exec_cron env now op s)) i = Option.bind (get_meta s i) (entry_after (ce_lib env) now i op)"
proof (cases op)
  case (CAdd job once)
  with assms(2) have "i \<noteq> cj_id job" by (auto simp: adds_def)
  then show ?thesis
    by (cases "get_meta s i")
      (auto simp: CAdd add_job_def Let_def get_meta_def map_of_AList_update split: option.splits)
next
  case (CRemoveAgent a)
  show ?thesis
    using agent_ids[OF assms(1), of i a]
    by (cases "get_meta s i") (auto simp: CRemoveAgent remove_agent_jobs_def Let_def get_drop_all simp del: set_map)
qed (cases "get_meta s i"; auto simp: remove_job_def set_enabled_def update_job_def set_delivery_targets_def
      reassign_agent_jobs_def mark_due_now_by_agent_def due_jobs_def persist_def set_max_total_jobs_def
      record_outcome_entry Let_def split: option.splits)+

section \<open>The table\<close>

definition table_ok :: "cron_scheduler \<Rightarrow> bool" where
  "table_ok s \<longleftrightarrow>
     distinct (map fst (jobs s)) \<and> (\<forall>i m. get_meta s i = Some m \<longrightarrow> cj_id (meta_job m) = i)"

lemma table_ok_keys [simp]: "table_ok s \<Longrightarrow> distinct (map fst (jobs s))"
  by (simp add: table_ok_def)

lemma distinct_put [simp]: "distinct (map fst (jobs s)) \<Longrightarrow> distinct (map fst (jobs (put_meta i m s)))"
  by (simp add: put_meta_def distinct_update)

lemma distinct_drop [simp]: "distinct (map fst (jobs s)) \<Longrightarrow> distinct (map fst (jobs (drop_job i s)))"
  by (simp add: drop_job_def distinct_delete)

lemma distinct_drop_all: "distinct (map fst (jobs s)) \<Longrightarrow> distinct (map fst (jobs (fold drop_job ids s)))"
  by (induction ids arbitrary: s) auto

lemma keys_map_metas [simp]: "map fst (jobs (map_metas f s)) = map fst (jobs s)"
  by (simp add: map_metas_def case_prod_unfold comp_def)

lemma distinct_recorded:
  "distinct (map fst (jobs s)) \<Longrightarrow> distinct (map fst (jobs (record_outcome lib now i r s)))"
  by (cases r)
    (auto simp: record_outcome_def record_success_def record_skipped_def record_failure_def Let_def split: option.split)

lemma exec_distinct:
  "distinct (map fst (jobs s)) \<Longrightarrow> distinct (map fst (jobs (snd (exec_cron env now op s))))"
  by (cases op)
    (auto simp: add_job_def remove_job_def set_enabled_def update_job_def set_delivery_targets_def
      reassign_agent_jobs_def remove_agent_jobs_def mark_due_now_by_agent_def due_jobs_def persist_def
      set_max_total_jobs_def distinct_recorded distinct_drop_all distinct_update Let_def split: option.split)

lemma with_job_sel [simp]:
  "meta_job (with_job f m) = f (meta_job m)" "one_shot (with_job f m) = one_shot m"
  "last_status (with_job f m) = last_status m" "consecutive_errors (with_job f m) = consecutive_errors m"
  "auto_disabled (with_job f m) = auto_disabled m"
  by (simp_all add: with_job_def)

lemma scheduled_sel [simp]:
  "meta_job (scheduled_at lib now m) =
     (meta_job m)\<lparr>cj_next_run := Some (compute_next_run_after lib (cj_schedule (meta_job m)) now)\<rparr>"
  "one_shot (scheduled_at lib now m) = one_shot m" "auto_disabled (scheduled_at lib now m) = auto_disabled m"
  "consecutive_errors (scheduled_at lib now m) = consecutive_errors m"
  by (simp_all add: scheduled_at_def)

text \<open>A fact of an entry that every patch keeps is kept by an update.\<close>

lemma patch_with_keeps:
  "(\<And>x m. P m \<Longrightarrow> P (f x m)) \<Longrightarrow> P (snd r) \<Longrightarrow> P (snd (patch_with err upd f r))"
  by (auto simp: patch_with_def split: option.split)

lemma update_meta_id [simp]: "cj_id (meta_job (snd (update_meta lib now u m))) = cj_id (meta_job m)"
proof -
  let ?P = "\<lambda>m'. cj_id (meta_job m') = cj_id (meta_job m)"
  show ?thesis
    unfolding update_meta_def Let_def
    by (intro patch_with_keeps[of ?P]) (auto simp: switch_enabled_def Let_def split: option.split)
qed

lemma outcome_entry_id: "outcome_entry lib now r m = Some m' \<Longrightarrow> cj_id (meta_job m') = cj_id (meta_job m)"
  by (cases r) (auto simp: Let_def split: if_splits)

lemma entry_after_id: "entry_after lib now i op m = Some m' \<Longrightarrow> cj_id (meta_job m') = cj_id (meta_job m)"
  by (cases op)
    (auto simp: switch_enabled_def reassign_meta_def Let_def dest: outcome_entry_id split: if_splits)

text \<open>
  A property of entries holds after an operation if the operation keeps it and an addition
  establishes it.
\<close>

lemma entries_after:
  assumes "distinct (map fst (jobs s))"
    and "\<And>m. get_meta s i = Some m \<Longrightarrow> P m"
    and "\<And>m m'. P m \<Longrightarrow> entry_after (ce_lib env) now i op m = Some m' \<Longrightarrow> P m'"
    and "\<And>job once. op = CAdd job once \<Longrightarrow> cj_id job = i \<Longrightarrow>
      validate_with_home (ce_alnum env) (ce_canonicalize env) now job (count_agent_jobs s (cj_agent job))
        (Some (home_dir s)) = None \<Longrightarrow>
      P (scheduled_at (ce_lib env) now (new_meta job (once \<or> is_at (cj_schedule job))))"
    and "get_meta (snd (exec_cron env now op s)) i = Some m'"
  shows "P m'"
proof (cases "adds op i")
  case False
  with exec_entry[OF assms(1)] assms(5) obtain m where
    "get_meta s i = Some m" "entry_after (ce_lib env) now i op m = Some m'"
    by (metis bind_eq_Some_conv)
  with assms(2,3) show ?thesis by blast
next
  case True
  then obtain job once where op: "op = CAdd job once" "cj_id job = i" by (auto simp: adds_def)
  show ?thesis
    using assms(5) assms(2) assms(4)[OF op]
    by (auto simp: op add_job_def Let_def get_meta_def map_of_AList_update split: if_splits option.splits)
qed

lemma table_ok_exec:
  assumes "table_ok s"
  shows "table_ok (snd (exec_cron env now op s))"
  unfolding table_ok_def
proof (intro conjI allI impI)
  show "distinct (map fst (jobs (snd (exec_cron env now op s))))"
    using assms by (simp add: exec_distinct)
  fix i m' assume "get_meta (snd (exec_cron env now op s)) i = Some m'"
  then show "cj_id (meta_job m') = i"
    by (rule entries_after[rotated 4, where P = "\<lambda>m. cj_id (meta_job m) = i"])
      (use assms in \<open>auto simp: table_ok_def new_meta_def dest: entry_after_id\<close>)
qed

lemma new_table_ok [simp]: "table_ok (new_scheduler home limit file)"
  by (simp add: table_ok_def new_scheduler_def get_meta_def)

text \<open>
  A run keeps what each operation keeps; a scheduler is a machine whose table stays in order.
\<close>

interpretation cron_machine: invariant_machine "\<lambda>s e. snd (exec_cron env (fst e) (snd e) s)" table_ok
  for env
  by unfold_locales (rule table_ok_exec)

lemma run_final: "snd (run_cron env ops s) = foldl (\<lambda>s e. snd (exec_cron env (fst e) (snd e) s)) s ops"
  by (induction ops arbitrary: s) auto

lemma table_ok_run: "table_ok s \<Longrightarrow> table_ok (snd (run_cron env ops s))"
  unfolding run_final by (rule cron_machine.inv_run)

section \<open>Spacing of fires\<close>

text \<open>What the documentation of the parser promises: the next occurrence is not in the past.\<close>

definition lawful :: "cron_lib \<Rightarrow> bool" where
  "lawful lib \<longleftrightarrow>
     (\<forall>e base t. next_in_utc lib e base = Some t \<longrightarrow> base \<le> t)
     \<and> (\<forall>e z base t. next_in_zone lib e z base = Some t \<longrightarrow> base \<le> t)"

fun gap :: "cron_schedule \<Rightarrow> int" where
  "gap (Every n) = uint n * SECOND"
| "gap (At _) = 36500 * 86400 * SECOND"
| "gap (CronExpr _ _) = SECOND"

fun interval_ok :: "cron_schedule \<Rightarrow> bool" where
  "interval_ok (Every n) \<longleftrightarrow> n \<le> MAX_EVERY_SECS"
| "interval_ok _ \<longleftrightarrow> True"

fun passed :: "cron_schedule \<Rightarrow> instant \<Rightarrow> bool" where
  "passed (At a) t \<longleftrightarrow> a \<le> t"
| "passed _ t \<longleftrightarrow> True"

lemma sint_small_interval: "n \<le> MAX_EVERY_SECS \<Longrightarrow> sint n = uint n"
proof -
  assume "n \<le> MAX_EVERY_SECS"
  then have "uint n \<le> 86400" by (simp add: MAX_EVERY_SECS_def word_le_def)
  then show ?thesis
    using order_trans[OF _ uint_ge_0[of n], of "- (2 ^ 63)"]
    by (simp add: sint_uint signed_take_bit_int_eq_self_iff)
qed

lemma next_cron_run_ge: "lawful lib \<Longrightarrow> next_cron_run lib e tz base = Some t \<Longrightarrow> base \<le> t"
  by (auto simp: lawful_def next_cron_run_def split: option.splits if_splits)

lemma next_run_gap:
  assumes "lawful lib" "interval_ok sch" "passed sch now"
  shows "now + gap sch \<le> compute_next_run_after lib sch now"
proof (cases sch)
  case (CronExpr e tz)
  then show ?thesis
    using next_cron_run_ge[OF assms(1), of "seven_field e" tz "now + SECOND"]
    by (auto simp: compute_next_run_after_def Let_def SECOND_def split: option.split)
qed (use assms(2,3) in \<open>auto simp: compute_next_run_after_def sint_small_interval\<close>)

definition undisturbed :: "cron_job_id \<Rightarrow> cron_op \<Rightarrow> bool" where
  "undisturbed i op \<longleftrightarrow>
     (case op of
        CMarkDue _ \<Rightarrow> False
      | CAdd job _ \<Rightarrow> cj_id job \<noteq> i
      | CUpdate j u \<Rightarrow> j \<noteq> i \<or> up_schedule u = None
      | _ \<Rightarrow> True)"

text \<open>
  The entry keeps its schedule, and its next run is as it was or computed at the present instant.
\<close>

definition rescheduled :: "cron_lib \<Rightarrow> instant \<Rightarrow> job_meta \<Rightarrow> job_meta \<Rightarrow> bool" where
  "rescheduled lib now m m' \<longleftrightarrow>
     cj_schedule (meta_job m') = cj_schedule (meta_job m)
     \<and> (cj_next_run (meta_job m') = cj_next_run (meta_job m)
        \<or> cj_next_run (meta_job m') = Some (compute_next_run_after lib (cj_schedule (meta_job m)) now))"

lemma rescheduled_refl [simp]: "rescheduled lib now m m"
  by (simp add: rescheduled_def)

lemma rescheduled_update:
  assumes "up_schedule u = None"
  shows "rescheduled lib now m (snd (update_meta lib now u m))"
proof -
  have sched: "patch_with InvalidSchedule (up_schedule u) f r = r" for f r
    using assms by (simp add: patch_with_def split: option.split)
  show ?thesis
    unfolding update_meta_def Let_def sched
    by (intro patch_with_keeps[of "rescheduled lib now m"])
      (auto simp: rescheduled_def switch_enabled_def Let_def split: option.split)
qed

lemma rescheduled_outcome: "outcome_entry lib now r m = Some m' \<Longrightarrow> rescheduled lib now m m'"
  by (cases r) (auto simp: rescheduled_def Let_def split: if_splits)

lemma undisturbed_after:
  "entry_after lib now i op m = Some m' \<Longrightarrow> undisturbed i op \<Longrightarrow> rescheduled lib now m m'"
proof (cases op)
  case (CUpdate j u)
  then show "entry_after lib now i op m = Some m' \<Longrightarrow> undisturbed i op \<Longrightarrow> rescheduled lib now m m'"
    by (auto simp: undisturbed_def rescheduled_update split: if_splits)
next
  case (COutcome j r)
  then show "entry_after lib now i op m = Some m' \<Longrightarrow> rescheduled lib now m m'"
    by (auto simp: rescheduled_outcome split: if_splits)
qed (auto simp: undisturbed_def switch_enabled_def reassign_meta_def Let_def rescheduled_def split: if_splits)

lemma undisturbed_entry:
  assumes "table_ok s" "undisturbed i op" "get_meta (snd (exec_cron env now op s)) i = Some m'"
  obtains m where "get_meta s i = Some m" "rescheduled (ce_lib env) now m m'"
proof -
  have "\<not> adds op i" using assms(2) by (auto simp: adds_def undisturbed_def)
  with assms exec_entry[of s op i env now] show ?thesis
    by (auto simp: bind_eq_Some_conv intro: that undisturbed_after)
qed

definition not_before :: "instant \<Rightarrow> job_meta \<Rightarrow> bool" where
  "not_before t m \<longleftrightarrow> (case cj_next_run (meta_job m) of Some r \<Rightarrow> t \<le> r | None \<Rightarrow> True)"

lemma filter_fired:
  assumes "distinct (map fst xs)" "\<forall>(k, m) \<in> set xs. cj_id (meta_job m) = k"
  shows "filter (\<lambda>j. cj_id j = i) (map (meta_job \<circ> snd) (filter (\<lambda>(_, m). Q m) xs))
    = (case map_of xs i of Some m \<Rightarrow> if Q m then [meta_job m] else [] | None \<Rightarrow> [])"
  using assms
proof (induction xs)
  case (Cons x xs)
  have "map_of xs (fst x) = None" using Cons.prems(1) by (simp add: map_of_eq_None_iff)
  with Cons show ?case by (cases x) (auto split: option.splits)
qed simp

lemma fired_jobs:
  assumes "table_ok s"
  shows "filter (\<lambda>j. cj_id j = i) (fst (exec_cron env now op s)) =
    (case get_meta s i of
       Some m \<Rightarrow> if op = CTick \<and> is_due now m then [meta_job m] else []
     | None \<Rightarrow> [])"
proof (cases "op = CTick")
  case True
  have "\<forall>(k, m) \<in> set (jobs s). cj_id (meta_job m) = k"
    using assms map_of_is_SomeI[OF table_ok_keys[OF assms]] unfolding table_ok_def get_meta_def by blast
  from filter_fired[OF table_ok_keys[OF assms] this, of i "is_due now"] show ?thesis
    unfolding True exec_cron.simps due_jobs_def fst_conv get_meta_def by (rule trans) (simp split: option.split)
next
  case False
  then have "fst (exec_cron env now op s) = []" by (cases op) simp_all
  then show ?thesis using False by (simp split: option.split)
qed

lemma fire_times_Cons:
  assumes "table_ok s"
  shows "fire_times i (fst (run_cron env ((now, op) # ops) s)) =
    (case get_meta s i of Some m \<Rightarrow> if op = CTick \<and> is_due now m then [now] else [] | None \<Rightarrow> [])
    @ fire_times i (fst (run_cron env ops (snd (exec_cron env now op s))))"
proof -
  have pairs: "map fst (filter (\<lambda>(_, j). cj_id j = i) (map (Pair now) xs)) = map (\<lambda>_. now) (filter (\<lambda>j. cj_id j = i) xs)" for xs
    by (induction xs) auto
  show ?thesis
    unfolding fire_times_def run_cron.simps fst_conv filter_append map_append pairs fired_jobs[OF assms]
    by (simp split: option.split)
qed

text \<open>The entry of a job, if it is there, has the schedule and is not due before an instant.\<close>

definition entry_waits :: "cron_scheduler \<Rightarrow> cron_job_id \<Rightarrow> cron_schedule \<Rightarrow> instant \<Rightarrow> bool" where
  "entry_waits s i sch b \<longleftrightarrow>
     (\<forall>m. get_meta s i = Some m \<longrightarrow> cj_schedule (meta_job m) = sch \<and> not_before b m)"

lemma entry_waits_exec:
  assumes "table_ok s" "entry_waits s i sch b" "undisturbed i op"
    "b \<le> compute_next_run_after (ce_lib env) sch now"
  shows "entry_waits (snd (exec_cron env now op s)) i sch b"
  unfolding entry_waits_def
proof (intro allI impI)
  fix m' assume "get_meta (snd (exec_cron env now op s)) i = Some m'"
  from undisturbed_entry[OF assms(1,3) this] obtain m where
    "get_meta s i = Some m" "rescheduled (ce_lib env) now m m'" .
  with assms(2,4) show "cj_schedule (meta_job m') = sch \<and> not_before b m'"
    by (auto simp: entry_waits_def rescheduled_def not_before_def)
qed

lemma fire_waits:
  assumes "entry_waits s i sch b" "get_meta s i = Some m" "is_due now m"
  shows "b \<le> now"
  using assms by (auto simp: entry_waits_def not_before_def is_due_def split: option.splits)

lemma fires_not_before:
  assumes "table_ok s" "entry_waits s i sch b"
    "\<forall>(now, op) \<in> set ops. undisturbed i op \<and> b \<le> compute_next_run_after (ce_lib env) sch now"
  shows "\<forall>x \<in> set (fire_times i (fst (run_cron env ops s))). b \<le> x"
  using assms
proof (induction ops arbitrary: s)
  case (Cons e ops)
  obtain now op where e: "e = (now, op)" by fastforce
  have "entry_waits (snd (exec_cron env now op s)) i sch b"
    using Cons.prems by (intro entry_waits_exec) (auto simp: e)
  from Cons.IH[OF table_ok_exec[OF Cons.prems(1)] this] Cons.prems(3)
  have "\<forall>x \<in> set (fire_times i (fst (run_cron env ops (snd (exec_cron env now op s))))). b \<le> x"
    by auto
  then show ?case
    using fire_waits[OF Cons.prems(2)]
    by (cases "get_meta s i") (auto simp: e fire_times_Cons[OF Cons.prems(1)] simp del: run_cron.simps)
qed (simp add: fire_times_def)

lemma at_never_before: "a \<le> compute_next_run_after lib (At a) now"
  by (simp add: compute_next_run_after_def SECOND_def)

lemma waits_any: "entry_waits s i sch b \<longleftrightarrow>
    (\<forall>m. get_meta s i = Some m \<longrightarrow> cj_schedule (meta_job m) = sch) \<and>
    (\<forall>m. get_meta s i = Some m \<longrightarrow> not_before b m)"
  by (auto simp: entry_waits_def)

definition waits_its_time :: "cron_scheduler \<Rightarrow> cron_job_id \<Rightarrow> cron_schedule \<Rightarrow> bool" where
  "waits_its_time s i sch \<longleftrightarrow>
     (\<forall>m. get_meta s i = Some m \<longrightarrow> cj_schedule (meta_job m) = sch)
     \<and> (\<forall>a. sch = At a \<longrightarrow> entry_waits s i sch a)"

lemma waits_its_time_exec:
  assumes "table_ok s" "waits_its_time s i sch" "undisturbed i op"
  shows "waits_its_time (snd (exec_cron env now op s)) i sch"
proof -
  have "\<forall>m. get_meta (snd (exec_cron env now op s)) i = Some m \<longrightarrow> cj_schedule (meta_job m) = sch"
    using assms(2) undisturbed_entry[OF assms(1,3)] by (metis rescheduled_def waits_its_time_def)
  moreover have "entry_waits (snd (exec_cron env now op s)) i sch a" if "sch = At a" for a
    using assms that at_never_before by (intro entry_waits_exec) (auto simp: waits_its_time_def)
  ultimately show ?thesis by (simp add: waits_its_time_def)
qed

lemma fires_spaced:
  assumes "table_ok s" "waits_its_time s i sch" "lawful (ce_lib env)" "interval_ok sch"
    "sorted (map fst ops)" "\<forall>(now, op) \<in> set ops. undisturbed i op"
  shows "sorted_wrt (\<lambda>t t'. t + gap sch \<le> t') (fire_times i (fst (run_cron env ops s)))"
  using assms
proof (induction ops arbitrary: s)
  case (Cons e ops)
  obtain now op where e: "e = (now, op)" by fastforce
  let ?s = "snd (exec_cron env now op s)"
  have ok: "table_ok ?s" using Cons.prems(1) by (rule table_ok_exec)
  have quiet: "undisturbed i op" using Cons.prems(6) by (auto simp: e)
  have rest: "sorted_wrt (\<lambda>t t'. t + gap sch \<le> t') (fire_times i (fst (run_cron env ops ?s)))"
    using Cons.prems quiet by (intro Cons.IH ok waits_its_time_exec) (auto simp: e)
  have later: "\<forall>x \<in> set (fire_times i (fst (run_cron env ops ?s))). now + gap sch \<le> x"
    if m: "get_meta s i = Some m" "op = CTick" "is_due now m" for m
  proof (rule fires_not_before[OF ok])
    have sch: "cj_schedule (meta_job m) = sch" using Cons.prems(2) m(1) by (simp add: waits_its_time_def)
    have past: "passed sch now'" if "now \<le> now'" for now'
    proof (cases sch)
      case (At a)
      then have "entry_waits s i sch a" using Cons.prems(2) by (simp add: waits_its_time_def)
      from fire_waits[OF this m(1,3)] that At show ?thesis by simp
    qed simp_all
    have next_run: "now + gap sch \<le> compute_next_run_after (ce_lib env) sch now'" if "now \<le> now'" for now'
      using next_run_gap[OF Cons.prems(3,4) past[OF that]] that by simp
    from next_run show "\<forall>(now', op) \<in> set ops. undisturbed i op \<and> now + gap sch \<le> compute_next_run_after (ce_lib env) sch now'"
      using Cons.prems(5,6) by (fastforce simp: e)
    have "get_meta ?s i = Some (scheduled_at (ce_lib env) now m)"
      using exec_entry[of s op i env now] Cons.prems(1) m by (simp add: adds_def)
    then show "entry_waits ?s i sch (now + gap sch)"
      using next_run[of now] sch by (simp add: entry_waits_def not_before_def)
  qed
  show ?case
    using rest later
    by (cases "get_meta s i") (auto simp: e fire_times_Cons[OF Cons.prems(1)] simp del: run_cron.simps)
qed (simp add: fire_times_def)

section \<open>Validated jobs and limits\<close>

definition safe_job :: "(string \<Rightarrow> string option) \<Rightarrow> string \<Rightarrow> cron_job \<Rightarrow> bool" where
  "safe_job canonicalize home j \<longleftrightarrow>
     (case cj_schedule j of
        Every n \<Rightarrow> MIN_EVERY_SECS \<le> n \<and> n \<le> MAX_EVERY_SECS
      | CronExpr e _ \<Rightarrow> validate_cron_expr e = None
      | At _ \<Rightarrow> True)
     \<and> validate_action canonicalize (Some home) j = None
     \<and> validate_delivery j = None
     \<and> validate_delivery_targets j = None"

lemma orelse_None [simp]: "orelse a b = None \<longleftrightarrow> a = None \<and> b = None"
  by (cases a) auto

lemma validated_is_safe:
  "validate_with_home alnum canonicalize now job n (Some home) = None \<Longrightarrow> safe_job canonicalize home job"
  by (auto simp: validate_with_home_def safe_job_def validate_schedule_def split: if_splits cron_schedule.splits)

lemma safe_job_cong:
  "cj_schedule j' = cj_schedule j \<Longrightarrow> cj_action j' = cj_action j \<Longrightarrow> cj_delivery j' = cj_delivery j
   \<Longrightarrow> cj_targets j' = cj_targets j \<Longrightarrow> safe_job canonicalize home j' = safe_job canonicalize home j"
  by (simp add: safe_job_def validate_action_def validate_delivery_def validate_delivery_targets_def)

text \<open>Operations that change what was validated.\<close>

definition alters :: "cron_op \<Rightarrow> bool" where
  "alters op \<longleftrightarrow> (case op of CUpdate _ _ \<Rightarrow> True | CTargets _ _ \<Rightarrow> True | _ \<Rightarrow> False)"

definition same_orders :: "job_meta \<Rightarrow> job_meta \<Rightarrow> bool" where
  "same_orders m m' \<longleftrightarrow>
     cj_schedule (meta_job m') = cj_schedule (meta_job m) \<and> cj_action (meta_job m') = cj_action (meta_job m)
     \<and> cj_delivery (meta_job m') = cj_delivery (meta_job m) \<and> cj_targets (meta_job m') = cj_targets (meta_job m)"

lemma outcome_same_orders: "outcome_entry lib now r m = Some m' \<Longrightarrow>
    same_orders m m' \<and> cj_agent (meta_job m') = cj_agent (meta_job m)"
  by (cases r) (auto simp: same_orders_def Let_def split: if_splits)

lemma same_orders_after: "entry_after lib now i op m = Some m' \<Longrightarrow> \<not> alters op \<Longrightarrow> same_orders m m'"
proof (cases op)
  case (COutcome j r)
  then show "entry_after lib now i op m = Some m' \<Longrightarrow> same_orders m m'"
    by (auto dest: outcome_same_orders simp: same_orders_def split: if_splits)
qed (auto simp: same_orders_def alters_def switch_enabled_def reassign_meta_def Let_def split: if_splits)

definition all_safe :: "cron_env \<Rightarrow> cron_scheduler \<Rightarrow> bool" where
  "all_safe env s \<longleftrightarrow>
     (\<forall>i m. get_meta s i = Some m \<longrightarrow> safe_job (ce_canonicalize env) (home_dir s) (meta_job m))"

text \<open>Operations that raise a limit or the number of jobs of an agent without a check.\<close>

definition shifts :: "cron_op \<Rightarrow> bool" where
  "shifts op \<longleftrightarrow> (case op of CReassign _ _ \<Rightarrow> True | CSetMax _ \<Rightarrow> True | _ \<Rightarrow> False)"

lemma frame_drop_all [simp]:
  "home_dir (fold drop_job ids s) = home_dir s" "max_total_jobs (fold drop_job ids s) = max_total_jobs s"
  by (induction ids arbitrary: s) (auto simp: drop_job_def)

lemma frame_recorded [simp]:
  "home_dir (record_outcome lib now i r s) = home_dir s"
  "max_total_jobs (record_outcome lib now i r s) = max_total_jobs s"
  by (cases r; auto simp: record_outcome_def record_success_def record_skipped_def record_failure_def
    put_meta_def drop_job_def Let_def split: option.split)+

lemma exec_frame:
  "home_dir (snd (exec_cron env now op s)) = home_dir s"
  "\<not> shifts op \<Longrightarrow> max_total_jobs (snd (exec_cron env now op s)) = max_total_jobs s"
  by (cases op; simp add: shifts_def add_job_def remove_job_def set_enabled_def update_job_def
      set_delivery_targets_def reassign_agent_jobs_def mark_due_now_by_agent_def due_jobs_def persist_def
      set_max_total_jobs_def remove_agent_jobs_def put_meta_def drop_job_def map_metas_def Let_def
      split: option.split)+

lemma all_safe_exec:
  assumes "table_ok s" "all_safe env s" "\<not> alters op"
  shows "all_safe env (snd (exec_cron env now op s))"
  unfolding all_safe_def exec_frame
proof (intro allI impI)
  fix i m' assume m': "get_meta (snd (exec_cron env now op s)) i = Some m'"
  let ?P = "\<lambda>m. safe_job (ce_canonicalize env) (home_dir s) (meta_job m)"
  show "?P m'"
  proof (rule entries_after[where P = ?P, OF table_ok_keys[OF assms(1)] _ _ _ m'])
    fix m m'' assume "?P m" "entry_after (ce_lib env) now i op m = Some m''"
    then show "?P m''"
      using same_orders_after[OF _ assms(3)] safe_job_cong unfolding same_orders_def by metis
  next
    fix job once
    assume "validate_with_home (ce_alnum env) (ce_canonicalize env) now job (count_agent_jobs s (cj_agent job))
      (Some (home_dir s)) = None"
    then show "?P (scheduled_at (ce_lib env) now (new_meta job (once \<or> is_at (cj_schedule job))))"
      by (subst safe_job_cong[of _ job]) (auto simp: new_meta_def intro: validated_is_safe)
  qed (use assms(2) in \<open>simp add: all_safe_def\<close>)
qed

text \<open>Counting by entries.\<close>

definition owned :: "cron_scheduler \<Rightarrow> agent_id \<Rightarrow> cron_job_id set" where
  "owned s a = {i. \<exists>m. get_meta s i = Some m \<and> cj_agent (meta_job m) = a}"

lemma count_owned: "table_ok s \<Longrightarrow> count_agent_jobs s a = card (owned s a)"
proof -
  assume "table_ok s"
  then have dist: "distinct (map fst (jobs s))" by simp
  let ?xs = "filter (\<lambda>(_, m). cj_agent (meta_job m) = a) (jobs s)"
  have "distinct (map fst ?xs)" using dist by (rule distinct_map_filter)
  moreover have "owned s a = set (map fst ?xs)"
    using agent_ids[OF dist] by (auto simp: owned_def simp del: set_map)
  ultimately show ?thesis
    unfolding count_agent_jobs_def by (metis distinct_card length_map)
qed

lemma total_entries: "table_ok s \<Longrightarrow> total_jobs s = card (dom (get_meta s))"
  unfolding total_jobs_def get_meta_def
  by (metis distinct_card dom_map_of_conv_image_fst length_map set_map table_ok_keys)

lemma finite_entries [simp]: "finite (dom (get_meta s))" "finite (owned s a)"
proof -
  show fin: "finite (dom (get_meta s))" by (simp add: get_meta_def finite_dom_map_of)
  show "finite (owned s a)" by (rule finite_subset[OF _ fin]) (auto simp: owned_def)
qed

definition within_limits :: "cron_scheduler \<Rightarrow> bool" where
  "within_limits s \<longleftrightarrow>
     total_jobs s \<le> max_total_jobs s \<and> (\<forall>a. count_agent_jobs s a \<le> MAX_JOBS_PER_AGENT)"

lemma same_agent_after:
  "entry_after lib now i op m = Some m' \<Longrightarrow> \<not> alters op \<Longrightarrow> \<not> shifts op \<Longrightarrow> cj_agent (meta_job m') = cj_agent (meta_job m)"
proof (cases op)
  case (COutcome j r)
  then show "entry_after lib now i op m = Some m' \<Longrightarrow> cj_agent (meta_job m') = cj_agent (meta_job m)"
    by (auto dest: outcome_same_orders split: if_splits)
qed (auto simp: alters_def shifts_def switch_enabled_def Let_def split: if_splits)

lemma within_limits_exec:
  assumes "table_ok s" "within_limits s" "\<not> alters op" "\<not> shifts op"
  shows "within_limits (snd (exec_cron env now op s))"
proof (cases "\<exists>job once. op = CAdd job once \<and> snd (exec_cron env now op s) \<noteq> s")
  case False
  let ?s = "snd (exec_cron env now op s)"
  have ok: "table_ok ?s" using assms(1) by (rule table_ok_exec)
  have sub: "\<exists>m. get_meta s i = Some m \<and> cj_agent (meta_job m') = cj_agent (meta_job m)"
    if "get_meta ?s i = Some m'" for i m'
  proof (cases "?s = s")
    case True
    with that show ?thesis by simp
  next
    case changed: False
    then have "\<not> adds op i" using False by (auto simp: adds_def)
    with that exec_entry[of s op i env now] assms(1) obtain m where
      m: "get_meta s i = Some m" "entry_after (ce_lib env) now i op m = Some m'"
      by (auto simp: bind_eq_Some_conv)
    with same_agent_after[OF m(2) assms(3,4)] show ?thesis by blast
  qed
  then have "owned ?s a \<subseteq> owned s a" for a by (fastforce simp: owned_def)
  then have "card (owned ?s a) \<le> card (owned s a)" for a by (intro card_mono) simp_all
  moreover have "dom (get_meta ?s) \<subseteq> dom (get_meta s)" using sub by fastforce
  then have "card (dom (get_meta ?s)) \<le> card (dom (get_meta s))" by (intro card_mono) simp_all
  ultimately show ?thesis
    using assms(2) exec_frame(2)[OF assms(4)]
    by (auto simp: within_limits_def count_owned[OF ok] count_owned[OF assms(1)] total_entries[OF ok]
      total_entries[OF assms(1)] intro: order_trans) (meson order_trans)
next
  case True
  then obtain job once where op: "op = CAdd job once" and changed: "snd (exec_cron env now op s) \<noteq> s" by blast
  let ?i = "cj_id job" and ?s = "snd (exec_cron env now op s)"
  have ok: "table_ok ?s" using assms(1) by (rule table_ok_exec)
  from changed have room: "total_jobs s < max_total_jobs s" "count_agent_jobs s (cj_agent job) < MAX_JOBS_PER_AGENT"
    by (auto simp: op add_job_def total_jobs_def validate_with_home_def split: if_splits option.splits)
  have new: "get_meta ?s i = (if i = ?i then
      Some (scheduled_at (ce_lib env) now (new_meta job (once \<or> is_at (cj_schedule job)))) else get_meta s i)" for i
    using changed by (auto simp: op add_job_def get_meta_def map_of_AList_update Let_def split: if_splits option.splits)
  have sub: "owned ?s a \<subseteq> (if a = cj_agent job then insert ?i (owned s a) else owned s a)" for a
    by (auto simp: owned_def new new_meta_def split: if_splits)
  have "count_agent_jobs ?s a \<le> MAX_JOBS_PER_AGENT" for a
  proof (cases "a = cj_agent job")
    case True
    with sub[of a] have "card (owned ?s a) \<le> card (insert ?i (owned s a))" by (intro card_mono) simp_all
    also have "\<dots> \<le> Suc (card (owned s a))" by (simp add: card_insert_if)
    finally show ?thesis using room(2) True by (simp add: count_owned[OF ok] count_owned[OF assms(1)])
  next
    case False
    with sub[of a] have "card (owned ?s a) \<le> card (owned s a)" by (intro card_mono) simp_all
    also have "\<dots> \<le> MAX_JOBS_PER_AGENT"
      using assms(2) by (simp add: within_limits_def count_owned[OF assms(1)])
    finally show ?thesis by (simp add: count_owned[OF ok])
  qed
  moreover have "dom (get_meta ?s) = insert ?i (dom (get_meta s))" by (auto simp: new)
  then have "total_jobs ?s \<le> Suc (total_jobs s)"
    by (simp add: total_entries[OF ok] total_entries[OF assms(1)] card_insert_if)
  ultimately show ?thesis
    using room(1) exec_frame(2)[OF assms(4)] by (simp add: within_limits_def)
qed

lemma run_keeps:
  assumes "\<And>s now op. I s \<Longrightarrow> P op \<Longrightarrow> I (snd (exec_cron env now op s))"
  shows "I s \<Longrightarrow> \<forall>(now, op) \<in> set ops. P op \<Longrightarrow> I (snd (run_cron env ops s))"
proof (induction ops arbitrary: s)
  case (Cons e ops)
  then show ?case using assms by (cases e) auto
qed simp

lemma new_scheduler_empty [simp]:
  "get_meta (new_scheduler home limit file) i = None" "home_dir (new_scheduler home limit file) = home"
  by (simp_all add: new_scheduler_def get_meta_def)

definition orderly :: "cron_env \<Rightarrow> cron_scheduler \<Rightarrow> bool" where
  "orderly env s \<longleftrightarrow> table_ok s \<and> all_safe env s"

lemma orderly_run:
  assumes "\<forall>(now, op) \<in> set ops. \<not> alters op"
  shows "orderly env (snd (run_cron env ops (new_scheduler home limit file)))"
  by (rule run_keeps[where P = "\<lambda>op. \<not> alters op"])
    (use assms in \<open>auto simp: orderly_def all_safe_def table_ok_exec dest: all_safe_exec[unfolded all_safe_def]\<close>)

section \<open>Restart\<close>














section \<open>Failures in a row\<close>

fun streak :: "nat \<Rightarrow> fire_record list \<Rightarrow> nat" where
  "streak n [] = n"
| "streak n (Succeeded # rs) = streak 0 rs"
| "streak n (Skipped # rs) = streak n rs"
| "streak n (Failed _ # rs) = streak (Suc n) rs"

lemma streak_snoc: "streak n (rs @ [r]) = (case r of Succeeded \<Rightarrow> 0 | Skipped \<Rightarrow> streak n rs | Failed _ \<Rightarrow> Suc (streak n rs))"
  by (induction n rs rule: streak.induct) (auto split: fire_record.split)

lemma streak_le: "streak n rs \<le> n + length rs"
  by (induction n rs rule: streak.induct) auto

definition record_all :: "cron_lib \<Rightarrow> cron_job_id \<Rightarrow> (instant \<times> fire_record) list \<Rightarrow> cron_scheduler \<Rightarrow> cron_scheduler" where
  "record_all lib i rs s = foldl (\<lambda>s (now, r). record_outcome lib now i r s) s rs"

lemma word_Suc_ge: "unat (x :: u32) = k \<Longrightarrow> Suc k < 2 ^ 32 \<Longrightarrow> unat (x + 1) = Suc k \<and> (5 \<le> x + 1 \<longleftrightarrow> 5 \<le> Suc k)"
  by (simp add: word_le_nat_alt unat_add_no_wrap)

lemma record_all_entry:
  assumes "get_meta s i = Some m" "\<not> one_shot m" "cj_enabled (meta_job m)" "consecutive_errors m = 0"
    "length rs < 2 ^ 32"
  shows "\<exists>m'. get_meta (record_all lib i rs s) i = Some m' \<and> \<not> one_shot m'
    \<and> unat (consecutive_errors m') = streak 0 (map snd rs)
    \<and> (cj_enabled (meta_job m') \<longleftrightarrow> (\<forall>n \<le> length rs. streak 0 (take n (map snd rs)) < 5))"
  using assms(5)
proof (induction rs rule: rev_induct)
  case Nil
  then show ?case using assms by (simp add: record_all_def)
next
  case (snoc e rs)
  obtain now r where e: "e = (now, r)" by fastforce
  from snoc obtain m' where m': "get_meta (record_all lib i rs s) i = Some m'" "\<not> one_shot m'"
    "unat (consecutive_errors m') = streak 0 (map snd rs)"
    "cj_enabled (meta_job m') \<longleftrightarrow> (\<forall>n \<le> length rs. streak 0 (take n (map snd rs)) < 5)" by auto
  have prefixes: "(\<forall>n \<le> length (rs @ [e]). streak 0 (take n (map snd (rs @ [e]))) < 5) \<longleftrightarrow>
    (\<forall>n \<le> length rs. streak 0 (take n (map snd rs)) < 5) \<and> streak 0 (map snd (rs @ [e])) < 5"
    by (auto simp: le_Suc_eq)
  have bound: "Suc (streak 0 (map snd rs)) < 2 ^ 32"
    using streak_le[of 0 "map snd rs"] snoc.prems by simp
  have full: "(\<forall>n \<le> length rs. streak 0 (take n (map snd rs)) < 5) \<Longrightarrow> streak 0 (map snd rs) < 5"
    by (metis length_map order_refl take_all_iff)
  have "get_meta (record_all lib i (rs @ [e]) s) i = outcome_entry lib now r m'"
    using m'(1) by (simp add: record_all_def e record_outcome_entry)
  then show ?case
    unfolding prefixes
    using m' word_Suc_ge[OF m'(3) bound] full
    by (cases r) (auto simp: e streak_snoc Let_def MAX_CONSECUTIVE_ERRORS_def not_less)
qed

text \<open>
  C27: a recurring job stays in the table whatever the outcomes of its fires, and it is disabled
  exactly when five failures came in a row at some time, skipped fires not counted.
\<close>
theorem auto_disable_exact:
  assumes "get_meta s i = Some m" "\<not> one_shot m" "cj_enabled (meta_job m)" "consecutive_errors m = 0"
    "length rs < 2 ^ 32"
  shows "\<exists>m'. get_meta (record_all lib i rs s) i = Some m'
    \<and> (cj_enabled (meta_job m') \<longleftrightarrow> (\<forall>n \<le> length rs. streak 0 (take n (map snd rs)) < 5))"
  using record_all_entry[OF assms] by blast

section \<open>Main properties\<close>

text \<open>
  C12: two fires of one job are never closer than its interval (one second for a cron expression, a
  century for a point in time), and a job at a point in time does not fire before it. The job's
  interval is at most a day, as the validation demands; a job at a point in time is not due before
  it, as it is when added; in the run the clock does not go back, no job is marked due by hand, this
  job gets no other schedule by an update and is not added again under its id; and the parser of cron
  expressions keeps its promise that a next occurrence is not in the past. (Updates are not
  validated, and with the intervals they can set a job fires at every tick:
  \<open>huge_interval_fires_at_every_tick\<close>.)
\<close>
theorem fires_are_spaced:
  assumes "get_meta (snd (run_cron env past (new_scheduler home limit None))) i = Some m"
    and "\<forall>a. cj_schedule (meta_job m) = At a \<longrightarrow> not_before a m"
    and "interval_ok (cj_schedule (meta_job m))" and "lawful (ce_lib env)"
    and "sorted (map fst ops)" and "\<forall>(now, op) \<in> set ops. undisturbed i op"
  shows "sorted_wrt (\<lambda>t t'. t + gap (cj_schedule (meta_job m)) \<le> t')
      (fire_times i (fst (run_cron env ops (snd (run_cron env past (new_scheduler home limit None))))))
    \<and> (\<forall>a t. cj_schedule (meta_job m) = At a
        \<and> t \<in> set (fire_times i (fst (run_cron env ops (snd (run_cron env past (new_scheduler home limit None))))))
        \<longrightarrow> a \<le> t)"
proof -
  let ?s = "snd (run_cron env past (new_scheduler home limit None))"
  have ok: "table_ok ?s" by (rule table_ok_run) simp
  have waits: "waits_its_time ?s i (cj_schedule (meta_job m))"
    using assms(1,2) by (auto simp: waits_its_time_def entry_waits_def)
  have "\<forall>x \<in> set (fire_times i (fst (run_cron env ops ?s))). a \<le> x" if "cj_schedule (meta_job m) = At a" for a
    using waits assms(6) that at_never_before
    by (intro fires_not_before[OF ok, of i "At a"]) (auto simp: waits_its_time_def)
  then show ?thesis using fires_spaced[OF ok waits assms(4,3,5,6)] by blast
qed

text \<open>
  What an operation that changes no job and hands none to another agent keeps of an entry: all of the
  job but whether it is enabled and when it runs next and ran last.
\<close>

definition same_but_runs :: "cron_job \<Rightarrow> cron_job \<Rightarrow> bool" where
  "same_but_runs job j \<longleftrightarrow>
     j = job\<lparr>cj_enabled := cj_enabled j, cj_last_run := cj_last_run j, cj_next_run := cj_next_run j\<rparr>"

lemma same_but_runs_intro:
  "same_but_runs job j \<Longrightarrow> same_but_runs job (cj_enabled_update f j)"
  "same_but_runs job j \<Longrightarrow> same_but_runs job (cj_last_run_update g j)"
  "same_but_runs job j \<Longrightarrow> same_but_runs job (cj_next_run_update g j)"
  unfolding same_but_runs_def by (cases job; cases j; simp)+

lemma same_but_runs_after:
  assumes "entry_after lib now i op m = Some m'" "\<not> alters op" "\<not> shifts op" "same_but_runs job (meta_job m)"
  shows "same_but_runs job (meta_job m')"
proof (cases op)
  case (COutcome j r)
  with assms(1,4) show ?thesis
    by (cases r) (auto simp: Let_def intro!: same_but_runs_intro split: if_splits)
qed (use assms in \<open>auto simp: alters_def shifts_def switch_enabled_def Let_def intro!: same_but_runs_intro
      split: if_splits\<close>)

text \<open>The job was added, and the validation accepted it as it was added.\<close>

definition was_validated ::
  "cron_env \<Rightarrow> string \<Rightarrow> nat \<Rightarrow> (instant \<times> cron_op) list \<Rightarrow> cron_job \<Rightarrow> bool" where
  "was_validated env home limit ops j \<longleftrightarrow>
     (\<exists>pre t job once post. ops = pre @ (t, CAdd job once) # post \<and> same_but_runs job j
        \<and> validate_with_home (ce_alnum env) (ce_canonicalize env) t job
            (count_agent_jobs (snd (run_cron env pre (new_scheduler home limit None))) (cj_agent job))
            (Some home) = None)"

lemma was_validated_snoc: "was_validated env home limit ops j \<Longrightarrow> was_validated env home limit (ops @ [e]) j"
  unfolding was_validated_def by (metis append.assoc append_Cons)

lemma was_validated_keeps:
  assumes "was_validated env home limit ops (meta_job m)" "\<not> alters op" "\<not> shifts op"
    and "entry_after lib now i op m = Some m'"
  shows "was_validated env home limit ops (meta_job m')"
  using assms(1) same_but_runs_after[OF assms(4,2,3)] unfolding was_validated_def by blast

lemma home_run: "home_dir (snd (run_cron env ops s)) = home_dir s"
  unfolding run_final by (induction ops arbitrary: s) (auto simp: exec_frame)

lemma table_validated:
  assumes "\<forall>(now, op) \<in> set ops. \<not> alters op \<and> \<not> shifts op"
    and "get_meta (snd (run_cron env ops (new_scheduler home limit None))) i = Some m"
  shows "was_validated env home limit ops (meta_job m)"
  using assms
proof (induction ops arbitrary: m rule: rev_induct)
  case (snoc e ops)
  obtain now op where e: "e = (now, op)" by fastforce
  let ?s = "snd (run_cron env ops (new_scheduler home limit None))"
  have ok: "table_ok ?s" by (rule table_ok_run) simp
  have home: "home_dir ?s = home" by (simp add: home_run)
  have quiet: "\<not> alters op" "\<not> shifts op" using snoc.prems(1) by (auto simp: e)
  have m: "get_meta (snd (exec_cron env now op ?s)) i = Some m"
    using snoc.prems(2) by (simp add: run_final e)
  let ?P = "\<lambda>m. was_validated env home limit (ops @ [e]) (meta_job m)"
  show "?P m"
  proof (rule entries_after[where P = ?P, OF table_ok_keys[OF ok] _ _ _ m])
    fix m' assume "get_meta ?s i = Some m'"
    with snoc.IH[of m'] snoc.prems(1) show "?P m'" by (auto intro: was_validated_snoc)
  next
    fix m1 m2 assume "?P m1" "entry_after (ce_lib env) now i op m1 = Some m2"
    with was_validated_keeps quiet show "?P m2" by blast
  next
    fix job once
    assume "op = CAdd job once" and v: "validate_with_home (ce_alnum env) (ce_canonicalize env) now job
        (count_agent_jobs ?s (cj_agent job)) (Some (home_dir ?s)) = None"
    then show "?P (scheduled_at (ce_lib env) now (new_meta job (once \<or> is_at (cj_schedule job))))"
      unfolding was_validated_def home e
      by (intro exI[of _ ops] exI[of _ now] exI[of _ job] exI[of _ once] exI[of _ "[]"])
        (simp add: new_meta_def same_but_runs_def)
  qed
qed simp

text \<open>
  C25: as long as jobs are only added, switched on and off, marked due, fired, saved and removed (no
  job is updated, given other targets or handed to another agent, and the global limit stays), every
  job in the table was added by one of the operations, was accepted by the validation at that moment
  with the number of jobs its agent had then, and is still the job that was accepted, save that it may
  be enabled or not and that its next and last run have moved; and neither the global limit nor the
  limit per agent is exceeded.
\<close>
theorem only_validated_jobs:
  assumes "\<forall>(now, op) \<in> set ops. \<not> alters op \<and> \<not> shifts op"
    and "s = snd (run_cron env ops (new_scheduler home limit None))"
  shows "(\<forall>i m. get_meta s i = Some m \<longrightarrow> was_validated env home limit ops (meta_job m)) \<and> within_limits s"
proof -
  let ?I = "\<lambda>s. table_ok s \<and> within_limits s"
  have "?I (snd (run_cron env ops (new_scheduler home limit None)))"
  proof (rule run_keeps[where P = "\<lambda>op. \<not> alters op \<and> \<not> shifts op"])
    show "?I (new_scheduler home limit None)"
      by (auto simp: within_limits_def total_jobs_def count_agent_jobs_def new_scheduler_def get_meta_def
        table_ok_def)
  qed (use assms in \<open>auto intro: table_ok_exec within_limits_exec\<close>)
  then show ?thesis using table_validated[OF assms(1)] assms(2) by blast
qed

definition plain :: "string \<Rightarrow> bool" where
  "plain s \<longleftrightarrow> set s \<inter> {CHR ''/'', CHR ''?'', CHR ''#'', CHR ''@'', CHR '':'', CHR ''[''} = {}"

text \<open>
  The parts of an address: a scheme, perhaps user information, a host, perhaps a port, and the
  rest, which is empty or begins with a slash, a question mark or a hash.
\<close>

definition address :: "string \<Rightarrow> string option \<Rightarrow> string \<Rightarrow> string option \<Rightarrow> string \<Rightarrow> string" where
  "address scheme user host port rest =
     scheme @ (case user of Some u \<Rightarrow> u @ ''@'' | None \<Rightarrow> []) @ host
     @ (case port of Some p \<Rightarrow> '':'' @ p | None \<Rightarrow> []) @ rest"

definition address_ok :: "string \<Rightarrow> string option \<Rightarrow> string \<Rightarrow> string option \<Rightarrow> string \<Rightarrow> bool" where
  "address_ok scheme user host port rest \<longleftrightarrow>
     scheme \<in> {''http://'', ''https://''} \<and> plain host \<and> host \<noteq> []
     \<and> (\<forall>u. user = Some u \<longrightarrow> set u \<inter> {CHR ''/'', CHR ''?'', CHR ''#''} = {})
     \<and> (\<forall>p. port = Some p \<longrightarrow> plain p)
     \<and> (rest = [] \<or> hd rest \<in> {CHR ''/'', CHR ''?'', CHR ''#''})"

lemma host_of_address:
  assumes "address_ok scheme user host port rest"
  shows "extract_url_host (address scheme user host port rest) = Some (to_lowercase host)"
proof -
  let ?u = "case user of Some u \<Rightarrow> u @ ''@'' | None \<Rightarrow> []" and ?p = "case port of Some p \<Rightarrow> '':'' @ p | None \<Rightarrow> []"
  let ?body = "?u @ host @ ?p @ rest"
  have body: "(case strip_prefix ''http://'' (address scheme user host port rest) of
      Some r \<Rightarrow> Some r | None \<Rightarrow> strip_prefix ''https://'' (address scheme user host port rest)) = Some ?body"
  proof -
    have "scheme = ''http://'' \<or> scheme = ''https://''" using assms by (simp add: address_ok_def)
    then show ?thesis unfolding address_def strip_prefix_def starts_with_def by (elim disjE) simp_all
  qed
  let ?S = "{CHR ''/'', CHR ''?'', CHR ''#''}"
  have "set host \<inter> ?S = {}" using assms unfolding address_ok_def plain_def by blast
  moreover have "set ?u \<inter> ?S = {}" using assms unfolding address_ok_def by (cases user) simp_all
  moreover have "set ?p \<inter> ?S = {}" using assms unfolding address_ok_def plain_def by (cases port) auto
  ultimately have "\<forall>c \<in> set (?u @ host @ ?p). c \<notin> ?S"
    unfolding set_append ball_Un disjoint_iff by (intro conjI ballI) metis+
  moreover have "takeWhile (\<lambda>c. c \<notin> ?S) rest = []" using assms unfolding address_ok_def by (cases rest) simp_all
  ultimately have "takeWhile (\<lambda>c. c \<notin> ?S) ((?u @ host @ ?p) @ rest) = ?u @ host @ ?p"
    by (subst takeWhile_append2) simp_all
  then have cut: "take (host_end ?body) ?body = ?u @ host @ ?p"
    unfolding host_end_def append_assoc by (metis takeWhile_eq_take)
  have no_at: "\<forall>c \<in> set (host @ ?p). c \<noteq> CHR ''@''"
    using assms by (auto simp: address_ok_def plain_def split: option.splits)
  have part: "last (split_on (\<lambda>c. c = CHR ''@'') (?u @ host @ ?p)) = host @ ?p"
    using last_split_on[OF no_at, of "CHR ''@''"] split_on_no_sep[OF no_at] by (auto split: option.split)
  have bracket: "strip_prefix ''['' (host @ ?p) = None"
    using assms by (cases host) (auto simp: address_ok_def plain_def strip_prefix_def starts_with_code)
  have none: "CHR '':'' \<notin> set host" using assms by (auto simp: address_ok_def plain_def)
  have colon: "find_char c (xs @ c # ys) = Some (length xs)" if "c \<notin> set xs" for c :: char and xs ys
    using that by (induction xs) auto
  have host: "(case find_char (CHR '':'') (host @ ?p) of Some k \<Rightarrow> Some (take k (host @ ?p)) | None \<Rightarrow> Some (host @ ?p)) = Some host"
    using none colon[OF none] find_char_None[of "CHR '':''" host] by (auto split: option.split)
  show ?thesis
    unfolding extract_url_host_def body option.case Let_def cut part bracket host
    using assms by (simp add: address_ok_def)
qed

text \<open>
  C17: as long as no job is updated or given other targets, no fan-out target of a job in the table
  (an element of its \<open>delivery_targets\<close>) is a webhook on this machine or a metadata service by
  name or by an IPv4 address the validation blocks, however the address is written around the host:
  any case, with user information, with a port. (The job's single \<open>delivery\<close> is not covered: its
  host is not checked at all, \<open>single_webhook_is_not_checked\<close>.)
\<close>
theorem no_target_on_blocked_host:
  assumes "\<forall>(now, op) \<in> set ops. \<not> alters op"
    and "address_ok scheme user host port rest" and "is_blocked_webhook_host (to_lowercase host)"
    and "get_meta (snd (run_cron env ops (new_scheduler home limit None))) i = Some m"
  shows "WebhookTarget (address scheme user host port rest) auth \<notin> set (cj_targets (meta_job m))"
proof
  let ?t = "WebhookTarget (address scheme user host port rest) auth"
  assume listed: "?t \<in> set (cj_targets (meta_job m))"
  have "safe_job (ce_canonicalize env) home (meta_job m)"
    using orderly_run[OF assms(1), of env home limit None] assms(4) run_keeps[of "\<lambda>s. home_dir s = home" "\<lambda>_. True" env
      "new_scheduler home limit None" ops]
    by (auto simp: orderly_def all_safe_def exec_frame)
  moreover have "validate_target ?t \<noteq> None"
    using host_of_address[OF assms(2)] assms(3) by (auto simp: validate_target_def)
  moreover have "first_target_error n ts \<noteq> None" if "t \<in> set ts" "validate_target t \<noteq> None" for n t ts
    using that by (induction ts arbitrary: n) (auto split: option.split)
  ultimately show False using listed unfolding safe_job_def validate_delivery_targets_def by blast
qed

text \<open>
  The session that a turn of a shared session starts from: the newest messages, as many as both
  limits allow.
\<close>
lemma drop_until_fits_spec:
  "\<exists>n. drop_until_fits estimate limit ms = drop n ms \<and> (\<forall>k < n. limit < estimate (drop k ms))
    \<and> (drop n ms = [] \<or> estimate (drop n ms) \<le> limit)"
proof (induction ms)
  case Nil
  then show ?case by (intro exI[of _ 0]) simp
next
  case (Cons m ms)
  show ?case
  proof (cases "estimate (m # ms) \<le> limit")
    case True
    then show ?thesis by (intro exI[of _ 0]) simp
  next
    case False
    from Cons obtain n where n: "drop_until_fits estimate limit ms = drop n ms" "\<forall>k < n. limit < estimate (drop k ms)"
      "drop n ms = [] \<or> estimate (drop n ms) \<le> limit" by blast
    with False show ?thesis by (intro exI[of _ "Suc n"]) (auto simp: less_Suc_eq_0_disj)
  qed
qed

section \<open>Concrete runs\<close>

definition sample_lib :: cron_lib where
  "sample_lib =
     \<lparr>cron_parses = (\<lambda>_. False), next_in_utc = (\<lambda>_ _. None), is_timezone = (\<lambda>_. False),
      next_in_zone = (\<lambda>_ _ _. None)\<rparr>"

definition sample_cron_env :: cron_env where
  "sample_cron_env = \<lparr>ce_lib = sample_lib, ce_alnum = (\<lambda>_. True), ce_canonicalize = (\<lambda>_. None)\<rparr>"

definition sample_job :: cron_job where
  "sample_job =
     \<lparr>cj_id = 1, cj_agent = 7, cj_name = ''report'', cj_enabled = True, cj_schedule = Every 60,
      cj_action = WorkflowAction ''w'' None None, cj_delivery = NoDelivery, cj_targets = [], cj_peer = None,
      cj_session_mode = None, cj_created_at = 0, cj_last_run = None, cj_next_run = None\<rparr>"

definition sample_cron :: cron_scheduler where
  "sample_cron = new_scheduler ''/h'' 2 None"

definition no_updates :: job_updates where
  "no_updates =
     \<lparr>up_name = None, up_enabled = None, up_agent = None, up_schedule = None, up_action = None,
      up_delivery = None, up_targets = None\<rparr>"

definition sample_entry :: job_meta where
  "sample_entry = scheduled_at sample_lib 0 (new_meta sample_job False)"

lemma sample_added: "get_meta (snd (run_cron sample_cron_env [(0, CAdd sample_job False)] sample_cron)) 1 = Some sample_entry"
  by code_simp

lemma sample_lawful: "lawful (ce_lib sample_cron_env)"
  by (simp add: lawful_def sample_cron_env_def sample_lib_def)

theorem fires_are_spaced_witness:
  "sorted_wrt (\<lambda>t t'. t + gap (cj_schedule (meta_job sample_entry)) \<le> t')
     (fire_times 1 (fst (run_cron sample_cron_env
        [(60 * SECOND, CTick), (61 * SECOND, COutcome 1 (Failed ''no'')), (75 * SECOND, CTick), (121 * SECOND, CTick)]
        (snd (run_cron sample_cron_env [(0, CAdd sample_job False)] (new_scheduler ''/h'' 2 None))))))
   \<and> fire_times 1 (fst (run_cron sample_cron_env
        [(60 * SECOND, CTick), (61 * SECOND, COutcome 1 (Failed ''no'')), (75 * SECOND, CTick), (121 * SECOND, CTick)]
        (snd (run_cron sample_cron_env [(0, CAdd sample_job False)] sample_cron)))) = [60 * SECOND, 121 * SECOND]"
proof
  show "sorted_wrt (\<lambda>t t'. t + gap (cj_schedule (meta_job sample_entry)) \<le> t')
     (fire_times 1 (fst (run_cron sample_cron_env
        [(60 * SECOND, CTick), (61 * SECOND, COutcome 1 (Failed ''no'')), (75 * SECOND, CTick), (121 * SECOND, CTick)]
        (snd (run_cron sample_cron_env [(0, CAdd sample_job False)] (new_scheduler ''/h'' 2 None))))))"
    by (rule conjunct1, rule fires_are_spaced[OF sample_added[unfolded sample_cron_def] _ _ sample_lawful])
      (simp_all add: sample_entry_def new_meta_def sample_job_def undisturbed_def SECOND_def MAX_EVERY_SECS_def)
qed code_simp

theorem only_validated_jobs_witness:
  "was_validated sample_cron_env ''/h'' 2 [(0, CAdd sample_job False), (60 * SECOND, CTick)]
     (sample_job\<lparr>cj_next_run := Some (120 * SECOND)\<rparr>)
   \<and> within_limits (snd (run_cron sample_cron_env [(0, CAdd sample_job False), (60 * SECOND, CTick)] sample_cron))"
proof -
  let ?ops = "[(0, CAdd sample_job False), (60 * SECOND, CTick)]"
  define s where "s = snd (run_cron sample_cron_env ?ops sample_cron)"
  have "map_option meta_job (get_meta s 1) = Some (sample_job\<lparr>cj_next_run := Some (120 * SECOND)\<rparr>)"
    unfolding s_def by code_simp
  then obtain m where m: "get_meta s 1 = Some m" "meta_job m = sample_job\<lparr>cj_next_run := Some (120 * SECOND)\<rparr>"
    by (cases "get_meta s 1") simp_all
  have "\<forall>(now, op) \<in> set ?ops. \<not> alters op \<and> \<not> shifts op" by (simp add: alters_def shifts_def)
  from only_validated_jobs[OF this s_def[unfolded sample_cron_def]] m show ?thesis
    unfolding s_def[symmetric] by metis
qed


theorem auto_disable_exact_witness:
  "\<exists>m'. get_meta (record_all sample_lib 1 [(0, Failed ''a''), (1, Skipped)]
      (snd (run_cron sample_cron_env [(0, CAdd sample_job False)] sample_cron))) 1 = Some m'
    \<and> (cj_enabled (meta_job m') \<longleftrightarrow>
       (\<forall>n \<le> length [(0 :: int, Failed ''a''), (1, Skipped)].
          streak 0 (take n (map snd [(0 :: int, Failed ''a''), (1, Skipped)])) < 5))"
  by (rule auto_disable_exact[OF sample_added]) (simp_all add: sample_entry_def new_meta_def sample_job_def)

theorem no_target_on_blocked_host_witness:
  "WebhookTarget (address ''https://'' (Some ''a@b'') ''LocalHost'' (Some ''80'') ''/x'') None
     \<notin> set (cj_targets (meta_job sample_entry))"
  by (rule no_target_on_blocked_host[where ops = "[(0, CAdd sample_job False)]" and env = sample_cron_env
        and home = "''/h''" and limit = 2 and i = 1, OF _ _ _ sample_added[unfolded sample_cron_def]])
    (simp add: alters_def, simp add: address_ok_def plain_def, code_simp)

text \<open>
  The bracketed form of an IPv6 address is cut before its closing bracket, so the loopback address
  is not the blocked one.
\<close>
theorem ipv6_loopback_passes:
  "validate_target (WebhookTarget ''http://[::1]:8080/hook'' None) = None"
  by code_simp

text \<open>
  An update is not validated: an interval of zero seconds is accepted, the job is then due on every
  tick, and a restart after more than a minute divides by zero before the kernel is up.
\<close>
theorem zero_interval_stops_restart:
  "boot_cron sample_lib True True (200 * SECOND) ''/h'' 2
     (cron_file (snd (persist True (snd (run_cron sample_cron_env
        [(0, CAdd sample_job False), (1, CUpdate 1 (no_updates\<lparr>up_schedule := Some (Some (Every 0))\<rparr>))] sample_cron))))) = None"
  by code_simp

text \<open>
  An interval whose signed reading is negative puts the next run into the past: a job that was
  updated to the largest one fires at every tick.
\<close>
theorem huge_interval_fires_at_every_tick:
  "fire_times 1 (fst (run_cron sample_cron_env
     [(0, CAdd sample_job False), (1, CUpdate 1 (no_updates\<lparr>up_schedule := Some (Some (Every (- 1)))\<rparr>)),
      (2, CTick), (3, CTick), (4, CTick)] sample_cron)) = [2, 3, 4]"
  by code_simp

text \<open>
  The single delivery of a job is only checked for its scheme and length: a job that posts its output
  to this machine is accepted, while the same address as a fan-out target is refused.
\<close>
theorem single_webhook_is_not_checked:
  "map_option (cj_delivery \<circ> meta_job) (get_meta (snd (run_cron sample_cron_env
     [(0, CAdd (sample_job\<lparr>cj_delivery := WebhookDelivery ''http://localhost:8080/hook''\<rparr>) False)] sample_cron)) 1)
     = Some (WebhookDelivery ''http://localhost:8080/hook'')
   \<and> validate_target (WebhookTarget ''http://localhost:8080/hook'' None) = Some (TargetHostBlocked ''localhost'')"
  by code_simp

theorem update_posts_to_localhost:
  "map_option (cj_targets \<circ> meta_job) (get_meta (snd (run_cron sample_cron_env
     [(0, CAdd sample_job False),
      (1, CUpdate 1 (no_updates\<lparr>up_targets := Some (Some [WebhookTarget ''http://localhost/'' None])\<rparr>))] sample_cron)) 1)
   = Some [WebhookTarget ''http://localhost/'' None]"
  by code_simp

text \<open>An update that reports an error has been applied up to the field that was wrong.\<close>
theorem failed_update_is_half_applied:
  "case update_job sample_lib 1 1 (no_updates\<lparr>up_name := Some ''new'', up_schedule := Some None\<rparr>)
       (snd (run_cron sample_cron_env [(0, CAdd sample_job False)] sample_cron)) of
     (r, s) \<Rightarrow> r = Inl InvalidSchedule \<and> map_option (cj_name \<circ> meta_job) (get_meta s 1) = Some ''new''"
  by code_simp

text \<open>
  A job that its user switched off while it ran is marked as switched off by the scheduler when
  that run fails as the fifth in a row, and a reassignment then switches it on again.
\<close>
theorem manual_disable_is_undone:
  "map_option (cj_enabled \<circ> meta_job) (get_meta (snd (run_cron sample_cron_env
     [(0, CAdd sample_job False), (1, COutcome 1 (Failed ''x'')), (2, COutcome 1 (Failed ''x'')),
      (3, COutcome 1 (Failed ''x'')), (4, COutcome 1 (Failed ''x'')), (5, CEnable 1 False),
      (6, COutcome 1 (Failed ''x'')), (7, CReassign 7 8)] sample_cron)) 1) = Some True"
  by code_simp

text \<open>
  The report of missed fires does not look at the last run: a job that ran half a minute ago is
  reported as having missed its fires of the last five minutes.
\<close>
theorem missed_fires_are_overreported:
  "log_missed_fires_since sample_lib (1000 * SECOND) (1300 * SECOND)
     (put_meta 1 (with_job (cj_last_run_update (\<lambda>_. Some (1270 * SECOND))) sample_entry) sample_cron) = [(1, 4)]"
  by code_simp

end
