(* ===== verification/Workspace.thy ===== *)
theory Workspace
  imports Prelude
begin

text \<open>
  The confinement of file operations to the workspace of an agent,
  \<open>crates/librefang-runtime/src/workspace_sandbox.rs\<close>.

  A path is absolute and known by its components, which is how \<open>PathBuf\<close> compares paths. The
  file system is the parameter \<open>canonicalize\<close>: the canonical form of a path, with links followed,
  if something is there; a path exists exactly when it has one.
\<close>

type_synonym path = "string list"

datatype sandbox_error =
    PathTraversal
  | WorkspaceRootUnresolved
  | NoParentDirectory
  | SandboxEscape string bool

definition under :: "path \<Rightarrow> path \<Rightarrow> bool" where
  "under p base \<longleftrightarrow> take (length base) p = base"

definition strip_base :: "path \<Rightarrow> path \<Rightarrow> path option" where
  "strip_base p base = (if under p base then Some (drop (length base) p) else None)"

text \<open>
  The place of a candidate that exists is its canonical form. If only its parent exists, it is the
  file name below the canonical parent. Otherwise the candidate is moved from the root it was
  written under to the canonical form of that root.
\<close>

definition rebase :: "bool \<Rightarrow> path \<Rightarrow> path \<Rightarrow> path \<Rightarrow> path list \<Rightarrow> path" where
  "rebase given_absolute candidate workspace_root canon_root additional_roots =
     (case (if given_absolute then find (under candidate) additional_roots else None) of
        Some r \<Rightarrow> r @ drop (length r) candidate
      | None \<Rightarrow>
          (case strip_base candidate workspace_root of
             Some relative \<Rightarrow> canon_root @ relative
           | None \<Rightarrow> candidate))"

definition locate ::
  "(path \<Rightarrow> path option) \<Rightarrow> bool \<Rightarrow> path \<Rightarrow> path \<Rightarrow> path \<Rightarrow> path list \<Rightarrow> sandbox_error + path" where
  "locate canonicalize given_absolute candidate workspace_root canon_root additional_roots =
     (case canonicalize candidate of
        Some p \<Rightarrow> Inr p
      | None \<Rightarrow>
          if candidate = [] then Inl NoParentDirectory
          else (case canonicalize (butlast candidate) of
                  Some canon_parent \<Rightarrow> Inr (canon_parent @ [last candidate])
                | None \<Rightarrow> Inr (rebase given_absolute candidate workspace_root canon_root additional_roots)))"

definition resolve_sandbox_path_ext ::
  "(path \<Rightarrow> path option) \<Rightarrow> string \<Rightarrow> path \<Rightarrow> path list \<Rightarrow> sandbox_error + path" where
  "resolve_sandbox_path_ext canonicalize user_path workspace_root additional_roots =
     (if ''..'' \<in> set (components user_path) then Inl PathTraversal
      else
        (let candidate =
               (if is_absolute user_path then components user_path
                else workspace_root @ components user_path)
         in case canonicalize workspace_root of
              None \<Rightarrow> Inl WorkspaceRootUnresolved
            | Some canon_root \<Rightarrow>
                (case locate canonicalize (is_absolute user_path) candidate workspace_root canon_root additional_roots of
                   Inl e \<Rightarrow> Inl e
                 | Inr p \<Rightarrow>
                     if \<not> under p canon_root \<and> \<not> list_ex (under p) additional_roots
                     then Inl (SandboxEscape user_path (additional_roots = []))
                     else Inr p)))"

definition resolve_sandbox_path :: "(path \<Rightarrow> path option) \<Rightarrow> string \<Rightarrow> path \<Rightarrow> sandbox_error + path" where
  "resolve_sandbox_path canonicalize user_path workspace_root =
     resolve_sandbox_path_ext canonicalize user_path workspace_root []"

section \<open>Confinement\<close>

definition inside :: "path \<Rightarrow> path list \<Rightarrow> path \<Rightarrow> bool" where
  "inside canon_root additional_roots p \<longleftrightarrow> under p canon_root \<or> (\<exists>r \<in> set additional_roots. under p r)"

lemma resolved_inside:
  assumes "resolve_sandbox_path_ext canonicalize user_path workspace_root additional_roots = Inr p"
    and "canonicalize workspace_root = Some canon_root"
  shows "inside canon_root additional_roots p"
  using assms
  by (auto simp: resolve_sandbox_path_ext_def inside_def Let_def list_ex_iff split: if_splits sum.splits)

lemma accepted_path_places:
  assumes "resolve_sandbox_path_ext canonicalize user_path workspace_root additional_roots = Inr p"
    and "canonicalize workspace_root = Some canon_root"
  defines "candidate \<equiv> (if is_absolute user_path then components user_path else workspace_root @ components user_path)"
  shows "inside canon_root additional_roots p"
    and "canonicalize candidate = Some q \<Longrightarrow> p = q"
    and "canonicalize candidate = None \<Longrightarrow> canonicalize (butlast candidate) = Some d
        \<Longrightarrow> candidate \<noteq> [] \<and> p = d @ [last candidate]"
  using resolved_inside[OF assms(1,2)] assms(1,2)
  unfolding candidate_def
  by (auto simp: resolve_sandbox_path_ext_def locate_def Let_def split: if_splits sum.splits option.splits)

text \<open>
  C20: a path that the sandbox accepts lies below the workspace or a named root, and this is where
  the file is: if the candidate exists the path is its canonical form, and if only its directory
  exists the path is directly below the canonical form of that. A path with a parent component is
  never accepted.
\<close>
theorem accepted_path_is_confined:
  assumes "resolve_sandbox_path_ext canonicalize user_path workspace_root additional_roots = Inr p"
    and "canonicalize workspace_root = Some canon_root"
  defines "candidate \<equiv> (if is_absolute user_path then components user_path else workspace_root @ components user_path)"
  shows "inside canon_root additional_roots p \<and> ''..'' \<notin> set (components user_path)
    \<and> (\<forall>q. canonicalize candidate = Some q \<longrightarrow> p = q)
    \<and> (\<forall>d. canonicalize candidate = None \<and> canonicalize (butlast candidate) = Some d
        \<longrightarrow> candidate \<noteq> [] \<and> p = d @ [last candidate])"
  using resolved_inside[OF assms(1,2)] assms(1,2)
  unfolding candidate_def
  by (auto simp: resolve_sandbox_path_ext_def locate_def Let_def split: if_splits sum.splits option.splits)

text \<open>A small file system: a workspace, a directory outside it, and a link from one to the other.\<close>

definition linked_fs :: "path \<Rightarrow> path option" where
  "linked_fs p =
     (if p = [''ws''] then Some [''ws'']
      else if p = [''etc''] then Some [''etc'']
      else if p = [''ws'', ''link''] then Some [''etc'']
      else None)"

theorem accepted_path_is_confined_witness:
  "resolve_sandbox_path_ext linked_fs ''notes.txt'' [''ws''] [] = Inr [''ws'', ''notes.txt'']
   \<and> inside [''ws''] [] [''ws'', ''notes.txt'']"
proof -
  have ok: "resolve_sandbox_path_ext linked_fs ''notes.txt'' [''ws''] [] = Inr [''ws'', ''notes.txt'']"
    and canon: "linked_fs [''ws''] = Some [''ws'']"
    by code_simp+
  from accepted_path_is_confined[OF ok canon] ok show ?thesis by blast
qed

text \<open>
  Through the link a path with one new directory is refused, and a path with two is accepted: its
  first component that exists leads out of the workspace, where the file is then created.
\<close>
theorem linked_ancestor_escapes:
  "resolve_sandbox_path linked_fs ''link/f'' [''ws''] = Inl (SandboxEscape ''link/f'' True)
   \<and> resolve_sandbox_path linked_fs ''link/new/f'' [''ws''] = Inr [''ws'', ''link'', ''new'', ''f'']
   \<and> linked_fs (take 2 [''ws'', ''link'', ''new'', ''f'']) = Some [''etc'']"
  by code_simp

end
