(* ===== verification/Patch.thy ===== *)
theory Patch
  imports Workspace
begin

text \<open>
  Patches of several hunks, \<open>crates/librefang-runtime/src/apply_patch.rs\<close>: the parser, the
  application of hunks to a text and of a patch to the files of a workspace.

  Error texts are constructors with the values they print. The files are a map from the places where
  they really are to texts. The file system is a parameter (\<open>io_world\<close>): the canonical form of a
  path among the present files, the place that the operating system reaches through a path when it
  opens or makes a file (it follows links in every directory of the path, and a dangling link at its
  end), whether such a dangling link is at a path, and whether a directory can be made, a file written
  or removed.
\<close>

section \<open>Patches\<close>

record hunk =
  context_before :: "string list"
  old_lines :: "string list"
  new_lines :: "string list"
  context_after :: "string list"

datatype patch_op =
    AddFile string string
  | UpdateFile string "string option" "hunk list"
  | DeleteFile string

datatype patch_error =
    MissingBegin
  | MissingEnd
  | EndBeforeBegin
  | EmptyAddPath
  | ExpectedPlus string
  | EmptyUpdatePath
  | NoHunks string
  | EmptyDeletePath
  | UnexpectedLine string
  | NoOperations

datatype apply_error =
    PathRefused string sandbox_error
  | MkdirFailed string
  | WriteFailed string
  | ReadFailed string
  | PatchFailed string nat
  | DeleteFailed string

record patch_result =
  files_added :: u32
  files_updated :: u32
  files_deleted :: u32
  files_moved :: u32
  patch_errors :: "apply_error list"

definition no_result :: patch_result where
  "no_result = \<lparr>files_added = 0, files_updated = 0, files_deleted = 0, files_moved = 0, patch_errors = []\<rparr>"

definition is_ok :: "patch_result \<Rightarrow> bool" where
  "is_ok r \<longleftrightarrow> patch_errors r = []"

fun join_str :: "string \<Rightarrow> string list \<Rightarrow> string" where
  "join_str sep [] = []"
| "join_str sep [s] = s"
| "join_str sep (s # t # ss) = s @ sep @ join_str sep (t # ss)"

definition show_u32 :: "u32 \<Rightarrow> string" where
  "show_u32 n = show_nat (unat n)"

definition summary :: "patch_result \<Rightarrow> string" where
  "summary r =
     (let parts =
        (if files_added r > 0 then [show_u32 (files_added r) @ '' added''] else [])
        @ (if files_updated r > 0 then [show_u32 (files_updated r) @ '' updated''] else [])
        @ (if files_deleted r > 0 then [show_u32 (files_deleted r) @ '' deleted''] else [])
        @ (if files_moved r > 0 then [show_u32 (files_moved r) @ '' moved''] else [])
        @ (if patch_errors r \<noteq> [] then [show_nat (length (patch_errors r)) @ '' errors''] else [])
      in if parts = [] then ''No changes applied'' else join_str '', '' parts)"

section \<open>Parsing\<close>

definition begins_op :: "string \<Rightarrow> bool" where
  "begins_op l \<longleftrightarrow> starts_with ''***'' (trim l)"

definition begins_hunk :: "string \<Rightarrow> bool" where
  "begins_hunk l \<longleftrightarrow> starts_with ''@@'' (trim l)"

text \<open>The content of an added file: its lines up to the next operation.\<close>

fun add_lines :: "string list \<Rightarrow> patch_error + string list \<times> string list" where
  "add_lines [] = Inr ([], [])"
| "add_lines (l # ls) =
     (if begins_op l then Inr ([], l # ls)
      else case strip_prefix ''+'' l of
             Some stripped \<Rightarrow>
               (case add_lines ls of
                  Inl e \<Rightarrow> Inl e
                | Inr r \<Rightarrow> Inr (stripped # fst r, snd r))
           | None \<Rightarrow> if trim l \<noteq> [] then Inl (ExpectedPlus l) else add_lines ls)"

text \<open>
  The lines of a hunk. Two flags tell whether a change has begun; lines of context go before or
  after the change by them.
\<close>

record hunk_state =
  hs_hunk :: hunk
  in_change :: bool
  past_change :: bool

definition start_hunk :: hunk_state where
  "start_hunk =
     \<lparr>hs_hunk = \<lparr>context_before = [], old_lines = [], new_lines = [], context_after = []\<rparr>,
      in_change = False, past_change = False\<rparr>"

definition context_line :: "string \<Rightarrow> hunk_state \<Rightarrow> hunk_state" where
  "context_line l st =
     (let h = hs_hunk st
      in if in_change st \<or> past_change st
         then st\<lparr>hs_hunk := h\<lparr>context_after := context_after h @ [l]\<rparr>, past_change := True, in_change := False\<rparr>
         else st\<lparr>hs_hunk := h\<lparr>context_before := context_before h @ [l]\<rparr>\<rparr>)"

definition hunk_line :: "string \<Rightarrow> hunk_state \<Rightarrow> hunk_state" where
  "hunk_line l st =
     (case strip_prefix ''-'' l of
        Some r \<Rightarrow>
          st\<lparr>hs_hunk := (hs_hunk st)\<lparr>old_lines := old_lines (hs_hunk st) @ [r]\<rparr>, in_change := True, past_change := False\<rparr>
      | None \<Rightarrow>
          (case strip_prefix ''+'' l of
             Some r \<Rightarrow>
               st\<lparr>hs_hunk := (hs_hunk st)\<lparr>new_lines := new_lines (hs_hunk st) @ [r]\<rparr>, in_change := True, past_change := False\<rparr>
           | None \<Rightarrow>
               (case strip_prefix '' '' l of
                  Some r \<Rightarrow> context_line r st
                | None \<Rightarrow> if trim l = [] then context_line [] st else context_line l st)))"

definition in_hunk :: "string \<Rightarrow> bool" where
  "in_hunk l \<longleftrightarrow> \<not> begins_hunk l \<and> \<not> begins_op l"

definition parse_hunk :: "string list \<Rightarrow> hunk" where
  "parse_hunk ls = hs_hunk (fold hunk_line (takeWhile in_hunk ls) start_hunk)"

function parse_hunks :: "string list \<Rightarrow> hunk list \<times> string list" where
  "parse_hunks [] = ([], [])"
| "parse_hunks (l # ls) =
     (if begins_op l then ([], l # ls)
      else if begins_hunk l
      then (let r = parse_hunks (dropWhile in_hunk ls) in (parse_hunk ls # fst r, snd r))
      else parse_hunks ls)"
  by pat_completeness auto
termination
  by (relation "measure length") (auto simp: length_dropWhile_le less_Suc_eq_le)

lemma parse_hunks_rest: "length (snd (parse_hunks ls)) \<le> length ls"
proof (induction ls rule: parse_hunks.induct)
  case (2 l ls)
  then show ?case using length_dropWhile_le[of in_hunk ls] by (auto simp: Let_def)
qed simp

lemma add_lines_rest: "add_lines ls = Inr r \<Longrightarrow> length (snd r) \<le> length ls"
proof (induction ls arbitrary: r)
  case (Cons l ls)
  show ?case
  proof (cases "begins_op l")
    case True
    then show ?thesis using Cons.prems by auto
  next
    case False
    with Cons.prems obtain r' where "add_lines ls = Inr r'" "snd r = snd r'"
      by (auto split: option.splits if_splits sum.splits)
    with Cons.IH[of r'] show ?thesis by simp
  qed
qed simp

definition ADD_FILE :: string where "ADD_FILE = ''*** Add File:''"
definition UPDATE_FILE :: string where "UPDATE_FILE = ''*** Update File:''"
definition DELETE_FILE :: string where "DELETE_FILE = ''*** Delete File:''"

text \<open>The path of an update, and where it moves to.\<close>

definition update_paths :: "string \<Rightarrow> string \<times> string option" where
  "update_paths rest =
     (case find_str ''->'' rest of
        Some k \<Rightarrow> (trim (take k rest), Some (trim (drop (k + 2) rest)))
      | None \<Rightarrow> (rest, None))"

function parse_body :: "string list \<Rightarrow> patch_error + patch_op list" where
  "parse_body [] = Inr []"
| "parse_body (l # ls) =
     (let line = trim l
      in case strip_prefix ADD_FILE line of
           Some p \<Rightarrow>
             (if trim p = [] then Inl EmptyAddPath
              else case add_lines ls of
                     Inl e \<Rightarrow> Inl e
                   | Inr r \<Rightarrow>
                       (case parse_body (snd r) of
                          Inl e \<Rightarrow> Inl e
                        | Inr ops \<Rightarrow> Inr (AddFile (trim p) (join_with (CHR 0x0A) (fst r)) # ops)))
         | None \<Rightarrow>
             (case strip_prefix UPDATE_FILE line of
                Some p \<Rightarrow>
                  (let paths = update_paths (trim p); r = parse_hunks ls
                   in if fst paths = [] then Inl EmptyUpdatePath
                      else if fst r = [] then Inl (NoHunks (fst paths))
                      else case parse_body (snd r) of
                             Inl e \<Rightarrow> Inl e
                           | Inr ops \<Rightarrow> Inr (UpdateFile (fst paths) (snd paths) (fst r) # ops))
              | None \<Rightarrow>
                  (case strip_prefix DELETE_FILE line of
                     Some p \<Rightarrow>
                       (if trim p = [] then Inl EmptyDeletePath
                        else case parse_body ls of
                               Inl e \<Rightarrow> Inl e
                             | Inr ops \<Rightarrow> Inr (DeleteFile (trim p) # ops))
                   | None \<Rightarrow> if line = [] then parse_body ls else Inl (UnexpectedLine line))))"
  by pat_completeness auto
termination
  by (relation "measure length")
    (auto dest: add_lines_rest simp: less_Suc_eq_le intro: parse_hunks_rest le_trans)

text \<open>The first index of a line, and the last.\<close>

definition position :: "(string \<Rightarrow> bool) \<Rightarrow> string list \<Rightarrow> nat option" where
  "position P ls = find (\<lambda>i. P (ls ! i)) [0..<length ls]"

definition rposition :: "(string \<Rightarrow> bool) \<Rightarrow> string list \<Rightarrow> nat option" where
  "rposition P ls = find (\<lambda>i. P (ls ! i)) (rev [0..<length ls])"

definition parse_patch :: "string \<Rightarrow> patch_error + patch_op list" where
  "parse_patch input =
     (let ls = str_lines input
      in case position (\<lambda>l. trim l = ''*** Begin Patch'') ls of
           None \<Rightarrow> Inl MissingBegin
         | Some b \<Rightarrow>
             (case rposition (\<lambda>l. trim l = ''*** End Patch'') ls of
                None \<Rightarrow> Inl MissingEnd
              | Some e \<Rightarrow>
                  if e \<le> b then Inl EndBeforeBegin
                  else (case parse_body (take (e - Suc b) (drop (Suc b) ls)) of
                          Inl err \<Rightarrow> Inl err
                        | Inr ops \<Rightarrow> if ops = [] then Inl NoOperations else Inr ops)))"

section \<open>Hunks\<close>

definition find_window :: "(string \<Rightarrow> string \<Rightarrow> bool) \<Rightarrow> string list \<Rightarrow> string list \<Rightarrow> nat option" where
  "find_window same file_lines anchor =
     (if anchor = [] then Some (length file_lines)
      else if length anchor > length file_lines then None
      else find (\<lambda>start. list_all2 same (take (length anchor) (drop start file_lines)) anchor)
             [0..<Suc (length file_lines - length anchor)])"

definition find_anchor :: "string list \<Rightarrow> string list \<Rightarrow> nat option" where
  "find_anchor = find_window (=)"

definition find_anchor_fuzzy :: "string list \<Rightarrow> string list \<Rightarrow> nat option" where
  "find_anchor_fuzzy = find_window (\<lambda>a b. trim_end a = trim_end b)"

text \<open>One hunk on the lines of a file; \<open>None\<close> if its place is not found.\<close>

definition apply_hunk :: "hunk \<Rightarrow> string list \<Rightarrow> string list option" where
  "apply_hunk h ls =
     (let anchor = context_before h @ old_lines h
      in if anchor = [] \<and> old_lines h = [] then Some (ls @ new_lines h)
         else case (case find_anchor ls anchor of Some p \<Rightarrow> Some p | None \<Rightarrow> find_anchor_fuzzy ls anchor) of
                None \<Rightarrow> None
              | Some pos \<Rightarrow>
                  Some (take pos ls @ context_before h @ new_lines h
                        @ drop (pos + (length (context_before h) + length (old_lines h))) ls))"

fun apply_hunk_list :: "nat \<Rightarrow> hunk list \<Rightarrow> string list \<Rightarrow> nat + string list" where
  "apply_hunk_list k [] ls = Inr ls"
| "apply_hunk_list k (h # hs) ls =
     (case apply_hunk h ls of
        None \<Rightarrow> Inl (Suc k)
      | Some ls' \<Rightarrow> apply_hunk_list (Suc k) hs ls')"

definition apply_hunks :: "string \<Rightarrow> hunk list \<Rightarrow> nat + string" where
  "apply_hunks content hunks =
     (case apply_hunk_list 0 hunks (str_lines content) of
        Inl k \<Rightarrow> Inl k
      | Inr ls \<Rightarrow>
          let result = join_with (CHR 0x0A) ls
          in Inr (if ends_with [CHR 0x0A] content \<and> \<not> ends_with [CHR 0x0A] result
                  then result @ [CHR 0x0A] else result))"

section \<open>Files\<close>

type_synonym files = "path \<rightharpoonup> string"

record io_world =
  canon_in :: "files \<Rightarrow> path \<Rightarrow> path option"
  os_place :: "files \<Rightarrow> path \<Rightarrow> path"
  dangling :: "files \<Rightarrow> path \<Rightarrow> bool"
  mkdir_ok :: "path \<Rightarrow> bool"
  write_ok :: "path \<Rightarrow> bool"
  remove_ok :: "path \<Rightarrow> bool"

definition resolve_patch_path :: "io_world \<Rightarrow> path \<Rightarrow> path list \<Rightarrow> string \<Rightarrow> files \<Rightarrow> sandbox_error + path" where
  "resolve_patch_path io workspace_root additional_roots raw fs =
     resolve_sandbox_path_ext (canon_in io fs) raw workspace_root additional_roots"

definition push_error :: "apply_error \<Rightarrow> patch_result \<times> files \<Rightarrow> patch_result \<times> files" where
  "push_error e r = ((fst r)\<lparr>patch_errors := patch_errors (fst r) @ [e]\<rparr>, snd r)"

definition apply_add ::
  "io_world \<Rightarrow> path \<Rightarrow> path list \<Rightarrow> string \<Rightarrow> string \<Rightarrow> patch_result \<times> files \<Rightarrow> patch_result \<times> files" where
  "apply_add io base extra p content r =
     (case resolve_patch_path io base extra p (snd r) of
        Inl e \<Rightarrow> push_error (PathRefused p e) r
      | Inr resolved \<Rightarrow>
          if resolved \<noteq> [] \<and> \<not> mkdir_ok io (butlast resolved) then push_error (MkdirFailed p) r
          else if write_ok io resolved
          then ((fst r)\<lparr>files_added := files_added (fst r) + 1\<rparr>, (snd r)(os_place io (snd r) resolved \<mapsto> content))
          else push_error (WriteFailed p) r)"

text \<open>The writing of a patched text: a move is counted before it is known to succeed.\<close>

definition write_patched ::
  "io_world \<Rightarrow> string \<Rightarrow> path \<Rightarrow> path option \<Rightarrow> string \<Rightarrow> patch_result \<times> files \<Rightarrow> patch_result \<times> files" where
  "write_patched io p resolved moved patched r =
     (let target = (case moved of Some t \<Rightarrow> t | None \<Rightarrow> resolved);
          counted = (case moved of
                       Some _ \<Rightarrow> ((fst r)\<lparr>files_moved := files_moved (fst r) + 1\<rparr>, snd r)
                     | None \<Rightarrow> r)
      in if write_ok io target
         then let fs = (snd counted)(os_place io (snd counted) target \<mapsto> patched)
              in ((fst counted)\<lparr>files_updated := files_updated (fst counted) + 1\<rparr>,
                  if moved \<noteq> None \<and> target \<noteq> resolved \<and> remove_ok io resolved
                  then fs(os_place io (snd counted) resolved := None) else fs)
         else push_error (WriteFailed p) counted)"

definition apply_update ::
  "io_world \<Rightarrow> path \<Rightarrow> path list \<Rightarrow> string \<Rightarrow> string option \<Rightarrow> hunk list
   \<Rightarrow> patch_result \<times> files \<Rightarrow> patch_result \<times> files" where
  "apply_update io base extra p move_to hunks r =
     (case resolve_patch_path io base extra p (snd r) of
        Inl e \<Rightarrow> push_error (PathRefused p e) r
      | Inr resolved \<Rightarrow>
          (case snd r (os_place io (snd r) resolved) of
             None \<Rightarrow> push_error (ReadFailed p) r
           | Some original \<Rightarrow>
               (case apply_hunks original hunks of
                  Inl k \<Rightarrow> push_error (PatchFailed p k) r
                | Inr patched \<Rightarrow>
                    (case move_to of
                       None \<Rightarrow> write_patched io p resolved None patched r
                     | Some new_path \<Rightarrow>
                         (case resolve_patch_path io base extra new_path (snd r) of
                            Inl e \<Rightarrow> push_error (PathRefused new_path e) r
                          | Inr t \<Rightarrow> write_patched io p resolved (Some t) patched r)))))"

definition apply_delete ::
  "io_world \<Rightarrow> path \<Rightarrow> path list \<Rightarrow> string \<Rightarrow> patch_result \<times> files \<Rightarrow> patch_result \<times> files" where
  "apply_delete io base extra p r =
     (case resolve_patch_path io base extra p (snd r) of
        Inl e \<Rightarrow> push_error (PathRefused p e) r
      | Inr resolved \<Rightarrow>
          if (snd r (os_place io (snd r) resolved) \<noteq> None \<or> dangling io (snd r) resolved) \<and> remove_ok io resolved
          then ((fst r)\<lparr>files_deleted := files_deleted (fst r) + 1\<rparr>,
                if dangling io (snd r) resolved then snd r
                else (snd r)(os_place io (snd r) resolved := None))
          else push_error (DeleteFailed p) r)"

fun apply_op :: "io_world \<Rightarrow> path \<Rightarrow> path list \<Rightarrow> patch_op \<Rightarrow> patch_result \<times> files \<Rightarrow> patch_result \<times> files" where
  "apply_op io base extra (AddFile p content) r = apply_add io base extra p content r"
| "apply_op io base extra (UpdateFile p move_to hunks) r = apply_update io base extra p move_to hunks r"
| "apply_op io base extra (DeleteFile p) r = apply_delete io base extra p r"

definition apply_patch ::
  "io_world \<Rightarrow> patch_op list \<Rightarrow> path \<Rightarrow> path list \<Rightarrow> files \<Rightarrow> patch_result \<times> files" where
  "apply_patch io ops workspace_root additional_roots fs =
     fold (apply_op io workspace_root additional_roots) ops (no_result, fs)"

end
