(* ===== verification/PatchProps.thy ===== *)
theory PatchProps
  imports Patch
begin

text \<open>
  Properties of patches: the parser reads back every patch that is printed in the documented
  format, a hunk replaces exactly the first place that matches, and a patch touches no file outside
  the roots of the workspace.
\<close>

section \<open>Hunks\<close>

definition occurs_at :: "(string \<Rightarrow> string \<Rightarrow> bool) \<Rightarrow> string list \<Rightarrow> string list \<Rightarrow> nat \<Rightarrow> bool" where
  "occurs_at same ls anchor p \<longleftrightarrow>
     p + length anchor \<le> length ls \<and> list_all2 same (take (length anchor) (drop p ls)) anchor"

definition is_first :: "(nat \<Rightarrow> bool) \<Rightarrow> nat \<Rightarrow> bool" where
  "is_first P p \<longleftrightarrow> P p \<and> (\<forall>q < p. \<not> P q)"

abbreviation same_text :: "string \<Rightarrow> string \<Rightarrow> bool" where
  "same_text a b \<equiv> trim_end a = trim_end b"

lemma find_upt: "find P [0..<n] = Some p \<longleftrightarrow> p < n \<and> is_first P p"
  by (auto simp: find_Some_iff is_first_def)

lemma find_upt_None: "find P [0..<n] = None \<longleftrightarrow> (\<forall>q < n. \<not> P q)"
  by (auto simp: find_None_iff)

lemma find_window_Some:
  assumes "anchor \<noteq> []"
  shows "find_window same ls anchor = Some p \<longleftrightarrow> is_first (occurs_at same ls anchor) p"
proof (cases "length anchor > length ls")
  case True
  then show ?thesis using assms by (auto simp: find_window_def is_first_def occurs_at_def)
next
  case False
  then have range: "q < Suc (length ls - length anchor) \<longleftrightarrow> q + length anchor \<le> length ls" for q by linarith
  show ?thesis
    using assms False by (auto simp: find_window_def find_upt range is_first_def occurs_at_def simp del: upt_Suc)
qed

lemma find_window_None:
  assumes "anchor \<noteq> []"
  shows "find_window same ls anchor = None \<longleftrightarrow> (\<forall>p. \<not> occurs_at same ls anchor p)"
proof -
  have "(\<exists>p. is_first (occurs_at same ls anchor) p) \<longleftrightarrow> (\<exists>p. occurs_at same ls anchor p)"
    unfolding is_first_def by (metis exists_least_iff)
  then show ?thesis using find_window_Some[OF assms] by (metis not_None_eq option.inject)
qed

definition hunk_place :: "string list \<Rightarrow> string list \<Rightarrow> nat \<Rightarrow> bool" where
  "hunk_place ls anchor p \<longleftrightarrow>
     (if \<exists>q. occurs_at (=) ls anchor q then is_first (occurs_at (=) ls anchor) p
      else is_first (occurs_at same_text ls anchor) p)"

text \<open>
  C22: a hunk with an anchor applies exactly when its anchor, the context before and the old lines,
  occurs in the file up to white space at the ends of lines. It replaces the first exact occurrence
  if there is one, and else the first such occurrence, by the context and the new lines; every
  other line stays.
\<close>
theorem hunk_application_exact:
  assumes "context_before h @ old_lines h \<noteq> []"
  shows "(apply_hunk h ls = Some ls' \<longleftrightarrow>
      (\<exists>pre mid post. ls = pre @ mid @ post \<and> length mid = length (context_before h @ old_lines h)
        \<and> hunk_place ls (context_before h @ old_lines h) (length pre)
        \<and> ls' = pre @ context_before h @ new_lines h @ post))
    \<and> (apply_hunk h ls = None \<longleftrightarrow> (\<forall>p. \<not> occurs_at same_text ls (context_before h @ old_lines h) p))"
proof -
  let ?a = "context_before h @ old_lines h"
  define found where "found = (case find_anchor ls ?a of Some p \<Rightarrow> Some p | None \<Rightarrow> find_anchor_fuzzy ls ?a)"
  have applied: "apply_hunk h ls = map_option (\<lambda>p. take p ls @ context_before h @ new_lines h @ drop (p + length ?a) ls) found"
    using assms by (auto simp: apply_hunk_def found_def split: option.split)
  have some: "found = Some p \<longleftrightarrow> hunk_place ls ?a p" for p
    using find_window_Some[OF assms, of "(=)" ls] find_window_None[OF assms, of "(=)" ls]
      find_window_Some[OF assms, of same_text ls p]
    by (cases "find_anchor ls ?a") (auto simp: found_def find_anchor_def find_anchor_fuzzy_def hunk_place_def is_first_def)
  have room: "p + length ?a \<le> length ls" if "hunk_place ls ?a p" for p
    using that by (auto simp: hunk_place_def is_first_def occurs_at_def split: if_splits)
  have exact: "occurs_at (=) ls ?a p \<Longrightarrow> occurs_at same_text ls ?a p" for p
    by (auto simp: occurs_at_def list_all2_conv_all_nth)
  have none: "found = None \<longleftrightarrow> (\<forall>p. \<not> occurs_at same_text ls ?a p)"
    using find_window_None[OF assms, of same_text ls] find_window_None[OF assms, of "(=)" ls] exact
    by (auto simp: found_def find_anchor_def find_anchor_fuzzy_def split: option.split)
  have "(\<exists>p. hunk_place ls ?a p \<and> ls' = take p ls @ context_before h @ new_lines h @ drop (p + length ?a) ls) \<longleftrightarrow>
    (\<exists>pre mid post. ls = pre @ mid @ post \<and> length mid = length ?a \<and> hunk_place ls ?a (length pre)
      \<and> ls' = pre @ context_before h @ new_lines h @ post)" (is "?L \<longleftrightarrow> ?R")
  proof
    assume ?L
    then obtain p where p: "hunk_place ls ?a p" "ls' = take p ls @ context_before h @ new_lines h @ drop (p + length ?a) ls"
      by blast
    have "ls = take p ls @ take (length ?a) (drop p ls) @ drop (p + length ?a) ls"
      by (metis add.commute append_take_drop_id drop_drop)
    with p room[OF p(1)] show ?R
      by (intro exI[of _ "take p ls"] exI[of _ "take (length ?a) (drop p ls)"] exI[of _ "drop (p + length ?a) ls"]) auto
  next
    assume ?R
    then obtain pre mid post where "ls = pre @ mid @ post" "length mid = length ?a" "hunk_place ls ?a (length pre)"
      "ls' = pre @ context_before h @ new_lines h @ post" by blast
    then show ?L by (intro exI[of _ "length pre"]) simp
  qed
  then show ?thesis using none by (auto simp: applied some)
qed

section \<open>Confinement\<close>

text \<open>
  What the operating system documents of paths: one that exists is reached at its canonical form,
  which is its own canonical form; and a name that does not exist in a directory that does, and is
  no dangling link, is made in that directory.
\<close>

definition follows_links :: "io_world \<Rightarrow> bool" where
  "follows_links io \<longleftrightarrow>
     (\<forall>fs p q. canon_in io fs p = Some q \<longrightarrow> os_place io fs p = q \<and> canon_in io fs q = Some q)
     \<and> (\<forall>fs p d. p \<noteq> [] \<and> canon_in io fs p = None \<and> canon_in io fs (butlast p) = Some d
          \<and> \<not> dangling io fs (d @ [last p]) \<longrightarrow> os_place io fs (d @ [last p]) = d @ [last p])"

definition candidate :: "path \<Rightarrow> string \<Rightarrow> path" where
  "candidate base raw = (if is_absolute raw then components raw else base @ components raw)"

text \<open>
  An accepted path whose place the sandbox did not check: neither the file nor its directory exists,
  or a dangling link is there.
\<close>

definition unchecked_at ::
  "io_world \<Rightarrow> path \<Rightarrow> path list \<Rightarrow> string set \<Rightarrow> path \<Rightarrow> bool" where
  "unchecked_at io base additional_roots raws l \<longleftrightarrow>
     (\<exists>fs. \<exists>raw \<in> raws. \<exists>p. resolve_patch_path io base additional_roots raw fs = Inr p \<and> l = os_place io fs p
        \<and> canon_in io fs (candidate base raw) = None
        \<and> (canon_in io fs (butlast (candidate base raw)) = None \<or> dangling io fs p))"

fun op_paths :: "patch_op \<Rightarrow> string set" where
  "op_paths (AddFile p _) = {p}"
| "op_paths (UpdateFile p move_to _) = insert p (set_option move_to)"
| "op_paths (DeleteFile p) = {p}"

definition reach :: "io_world \<Rightarrow> path \<Rightarrow> path \<Rightarrow> path list \<Rightarrow> string set \<Rightarrow> path \<Rightarrow> bool" where
  "reach io base c additional_roots raws l \<longleftrightarrow>
     inside c additional_roots l \<or> unchecked_at io base additional_roots raws l"

lemma reach_mono: "reach io base c extra raws l \<Longrightarrow> raws \<subseteq> raws' \<Longrightarrow> reach io base c extra raws' l"
  unfolding reach_def unchecked_at_def by blast

lemma resolved_reach:
  assumes "follows_links io" "canon_in io fs base = Some c" "raw \<in> raws"
    and "resolve_patch_path io base extra raw fs = Inr p"
  shows "reach io base c extra raws (os_place io fs p)"
proof (cases "canon_in io fs (candidate base raw) = None
      \<and> (canon_in io fs (butlast (candidate base raw)) = None \<or> dangling io fs p)")
  case True
  with assms(3,4) show ?thesis unfolding reach_def unchecked_at_def by blast
next
  case False
  have res: "resolve_sandbox_path_ext (canon_in io fs) raw base extra = Inr p"
    using assms(4) by (simp add: resolve_patch_path_def)
  note p = accepted_path_places[OF res assms(2), folded candidate_def]
  have "os_place io fs p = p"
  proof (cases "canon_in io fs (candidate base raw)")
    case (Some q)
    with p(2) assms(1) show ?thesis by (simp add: follows_links_def)
  next
    case None
    with False obtain d where d: "canon_in io fs (butlast (candidate base raw)) = Some d" "\<not> dangling io fs p"
      by auto
    with p(3) None have "candidate base raw \<noteq> []" "p = d @ [last (candidate base raw)]" by auto
    with assms(1) None d show ?thesis unfolding follows_links_def by metis
  qed
  with p(1) show ?thesis by (simp add: reach_def)
qed

text \<open>An operation changes files only at such places.\<close>

definition changed_within :: "(path \<Rightarrow> bool) \<Rightarrow> files \<Rightarrow> files \<Rightarrow> bool" where
  "changed_within R fs fs' \<longleftrightarrow> (\<forall>p. fs' p \<noteq> fs p \<longrightarrow> R p)"

lemma changed_within_refl [simp]: "changed_within R fs fs"
  by (simp add: changed_within_def)

lemma changed_within_trans: "changed_within R fs fs' \<Longrightarrow> changed_within R fs' fs'' \<Longrightarrow> changed_within R fs fs''"
  unfolding changed_within_def by metis

lemma changed_within_at: "R p \<Longrightarrow> changed_within R fs (fs(p := v))"
  by (simp add: changed_within_def)

lemma snd_push_error [simp]: "snd (push_error e r) = snd r"
  by (simp add: push_error_def)

lemma write_patched_within:
  assumes "R (os_place io (snd r) resolved)" "\<And>t. moved = Some t \<Longrightarrow> R (os_place io (snd r) t)"
  shows "changed_within R (snd r) (snd (write_patched io p resolved moved patched r))"
  using assms by (cases moved) (auto simp: write_patched_def changed_within_def Let_def)

lemma apply_op_within:
  assumes "follows_links io" "canon_in io (snd r) base = Some c" "op_paths op \<subseteq> raws"
  shows "changed_within (reach io base c extra raws) (snd r) (snd (apply_op io base extra op r))"
proof (cases op)
  case (AddFile p content)
  then show ?thesis
    using resolved_reach[OF assms(1,2), of p raws] assms(3)
    by (auto simp: apply_add_def intro: changed_within_at split: sum.split)
next
  case (UpdateFile p move_to hunks)
  then show ?thesis
    using resolved_reach[OF assms(1,2), of _ raws] assms(3)
    by (auto simp: apply_update_def intro!: write_patched_within split: sum.split option.split)
next
  case (DeleteFile p)
  then show ?thesis
    using resolved_reach[OF assms(1,2), of p raws] assms(3)
    by (auto simp: apply_delete_def intro: changed_within_at split: sum.split)
qed

lemma apply_ops_within:
  assumes "follows_links io" "\<And>fs. canon_in io fs base = Some c" "\<Union> (op_paths ` set ops) \<subseteq> raws"
  shows "changed_within (reach io base c extra raws) (snd r) (snd (fold (apply_op io base extra) ops r))"
  using assms(3)
proof (induction ops arbitrary: r)
  case (Cons op ops)
  then have "op_paths op \<subseteq> raws" "\<Union> (op_paths ` set ops) \<subseteq> raws" by auto
  from changed_within_trans[OF apply_op_within[OF assms(1,2) this(1)] Cons.IH[OF this(2)]] show ?case by simp
qed simp

text \<open>
  C18: whatever a patch says, every file it adds, changes, moves or deletes really lies below the
  canonical root of the workspace or one of the named roots, links followed, with two exceptions: the
  file is where the operating system is led by a path of the patch that the sandbox accepted although
  neither the file nor its directory existed, or whose last component is a dangling link. (Both lead
  outside: \<open>patch_follows_link\<close>, \<open>patch_follows_dangling_link\<close>.) The root of the
  workspace keeps its canonical form; of the operating system it is only assumed that what exists is
  reached at its canonical form and that a new name in an existing directory is made there.
\<close>
theorem patch_stays_inside:
  assumes "follows_links io" "\<And>fs. canon_in io fs base = Some c"
    and "snd (apply_patch io ops base extra fs) l \<noteq> fs l"
  shows "inside c extra l \<or> unchecked_at io base extra (\<Union> (op_paths ` set ops)) l"
  using apply_ops_within[OF assms(1,2) order_refl, where r = "(no_result, fs)"] assms(3)
  by (auto simp: apply_patch_def changed_within_def reach_def)

end
