(* ===== verification/PatchFormat.thy ===== *)
theory PatchFormat
  imports PatchProps
begin

text \<open>
  The documented format of patches, as a printer, and the proof that the parser reads it back.
\<close>

section \<open>Printing\<close>

definition show_hunk :: "hunk \<Rightarrow> string list" where
  "show_hunk h =
     ''@@'' # map ((#) CHR '' '') (context_before h) @ map ((#) CHR ''-'') (old_lines h)
     @ map ((#) CHR ''+'') (new_lines h) @ map ((#) CHR '' '') (context_after h)"

fun show_op :: "patch_op \<Rightarrow> string list" where
  "show_op (AddFile p content) =
     (''*** Add File: '' @ p) # map ((#) CHR ''+'') (split_on (\<lambda>c. c = CHR 0x0A) content)"
| "show_op (UpdateFile p move_to hunks) =
     (''*** Update File: '' @ p @ (case move_to of Some q \<Rightarrow> '' -> '' @ q | None \<Rightarrow> []))
     # concat (map show_hunk hunks)"
| "show_op (DeleteFile p) = [''*** Delete File: '' @ p]"

definition show_patch :: "patch_op list \<Rightarrow> string" where
  "show_patch ops =
     join_with (CHR 0x0A) (''*** Begin Patch'' # concat (map show_op ops) @ [''*** End Patch''])"

definition line_ok :: "string \<Rightarrow> bool" where
  "line_ok l \<longleftrightarrow> CHR 0x0A \<notin> set l \<and> CHR 0x0D \<notin> set l"

definition path_ok :: "string \<Rightarrow> bool" where
  "path_ok p \<longleftrightarrow> p \<noteq> [] \<and> trim p = p \<and> line_ok p"

definition hunk_ok :: "hunk \<Rightarrow> bool" where
  "hunk_ok h \<longleftrightarrow>
     list_all line_ok (context_before h @ old_lines h @ new_lines h @ context_after h)
     \<and> list_all (\<lambda>l. in_hunk (CHR '' '' # l)) (context_before h @ context_after h)
     \<and> (old_lines h = [] \<and> new_lines h = [] \<longrightarrow> context_after h = [])"

fun op_ok :: "patch_op \<Rightarrow> bool" where
  "op_ok (AddFile p content) \<longleftrightarrow> path_ok p \<and> CHR 0x0D \<notin> set content"
| "op_ok (UpdateFile p move_to hunks) \<longleftrightarrow>
     path_ok p \<and> \<not> contains_str ''->'' p \<and> (case move_to of Some q \<Rightarrow> path_ok q | None \<Rightarrow> True)
     \<and> hunks \<noteq> [] \<and> list_all hunk_ok hunks"
| "op_ok (DeleteFile p) \<longleftrightarrow> path_ok p"

section \<open>Trimming\<close>

lemma trim_with_id: "(\<forall>w \<in> set ws. w \<noteq> [] \<longrightarrow> \<not> starts_with w s) \<Longrightarrow> trim_with ws s = s"
proof -
  assume "\<forall>w \<in> set ws. w \<noteq> [] \<longrightarrow> \<not> starts_with w s"
  then have "find (\<lambda>w. w \<noteq> [] \<and> starts_with w s) ws = None" by (auto simp: find_None_iff)
  then show ?thesis by (subst trim_with.simps) simp
qed

lemma trim_with_fixed:
  assumes "trim_with ws s = s" "w \<in> set ws" "w \<noteq> []"
  shows "\<not> starts_with w s"
proof
  assume "starts_with w s"
  then obtain v where v: "find (\<lambda>w. w \<noteq> [] \<and> starts_with w s) ws = Some v"
    using assms(2,3) by (metis (mono_tags, lifting) find_None_iff not_None_eq)
  then have "v \<noteq> []" "starts_with v s" by (auto simp: find_Some_iff)
  moreover obtain u where "drop (length v) s = u @ trim_with ws (drop (length v) s)"
    using trim_with_suffix by blast
  then have "length (trim_with ws (drop (length v) s)) \<le> length s - length v"
    by (metis length_append length_drop le_add2)
  moreover have "trim_with ws s = trim_with ws (drop (length v) s)" using v by (subst trim_with.simps) simp
  ultimately show False
    using assms(1) by (cases v; cases s) (auto simp: starts_with_def)
qed

lemma trim_with_keeps:
  assumes "\<forall>w \<in> set ws. c \<notin> set w"
  shows "\<exists>u'. trim_with ws (u @ [c]) = u' @ [c]"
proof (induction u rule: length_induct)
  case (1 u)
  show ?case
  proof (cases "find (\<lambda>w. w \<noteq> [] \<and> starts_with w (u @ [c])) ws")
    case None
    then show ?thesis by (subst trim_with.simps) simp
  next
    case (Some w)
    then have w: "w \<in> set ws" "w \<noteq> []" "starts_with w (u @ [c])" by (auto simp: find_Some_iff)
    then obtain v where v: "u @ [c] = w @ v" by (auto simp: starts_with_iff)
    with assms w have "v \<noteq> []" by (metis append_Nil2 in_set_conv_decomp)
    then obtain v' where v': "v = v' @ [c]" using v by (metis append_butlast_last_id last_appendR last_snoc)
    have "length v' < length u" using arg_cong[OF v, of length] w(2) v' by (cases w) auto
    with 1 v' obtain u' where "trim_with ws v = u' @ [c]" by blast
    moreover have "trim_with ws (u @ [c]) = trim_with ws v"
      using Some v by (subst trim_with.simps) simp
    ultimately have "trim_with ws (u @ [c]) = u' @ [c]" by (rule trans[rotated])
    then show ?thesis by blast
  qed
qed

text \<open>Characters that occur in no encoding of white space.\<close>

definition visible :: "char \<Rightarrow> bool" where
  "visible c \<longleftrightarrow> (\<forall>w \<in> set WHITE_SPACE. c \<notin> set w)"

lemma visible_marks [simp]:
  "visible CHR ''*''" "visible CHR ''@''" "visible CHR ''+''" "visible CHR ''-''"
  by (simp_all add: visible_def WHITE_SPACE_def)

lemma white_not_Nil: "w \<in> set WHITE_SPACE \<Longrightarrow> w \<noteq> []"
  by (auto simp: WHITE_SPACE_def)

lemma trim_start_visible: "visible c \<Longrightarrow> trim_start (c # s) = c # s"
  unfolding trim_start_def
  by (rule trim_with_id) (metis list.set_intros(1) starts_with_code(3) list.exhaust visible_def)

lemma trim_visible: "visible c \<Longrightarrow> \<exists>s'. trim (c # s) = c # s'"
proof -
  assume "visible c"
  then have "\<forall>w \<in> set (map rev WHITE_SPACE). c \<notin> set w" by (auto simp: visible_def)
  from trim_with_keeps[OF this, of "rev s"] obtain u' where "trim_with (map rev WHITE_SPACE) (rev s @ [c]) = u' @ [c]"
    by blast
  then have "trim (c # s) = c # rev u'" using \<open>visible c\<close> by (simp add: trim_def trim_start_visible trim_end_def)
  then show ?thesis by blast
qed

text \<open>The only white space with a blank in it is the blank.\<close>

lemma blank_alone: "w \<in> set WHITE_SPACE \<Longrightarrow> CHR '' '' \<in> set w \<Longrightarrow> w = '' ''"
  unfolding WHITE_SPACE_def by auto

lemma trim_parts:
  assumes "trim p = p"
  shows "trim_start p = p" "trim_end p = p"
proof -
  obtain u where u: "p = u @ trim_start p" using trim_with_suffix unfolding trim_start_def by metis
  obtain v where v: "rev (trim_start p) = v @ rev (trim_end (trim_start p))"
    using trim_with_suffix unfolding trim_end_def by (metis rev_rev_ident)
  have "length p = length u + length (trim_start p)" using u by (metis length_append)
  moreover have "length (trim_start p) = length v + length p"
    using arg_cong[OF v, of length] assms by (simp add: trim_def)
  ultimately have "u = []" by simp
  with u show "trim_start p = p" by simp
  with assms show "trim_end p = p" by (simp add: trim_def)
qed

lemma trim_end_after_blank:
  assumes "trim_end q = q" "q \<noteq> []"
  shows "trim_end (x @ '' '' @ q) = x @ '' '' @ q"
proof -
  have "trim_with (map rev WHITE_SPACE) (rev q @ '' '' @ rev x) = rev q @ '' '' @ rev x"
  proof (rule trim_with_id, intro ballI impI notI)
    fix w assume w: "w \<in> set (map rev WHITE_SPACE)" "w \<noteq> []" "starts_with w (rev q @ '' '' @ rev x)"
    have "trim_with (map rev WHITE_SPACE) (rev q) = rev q"
      using assms(1) by (metis rev_rev_ident trim_end_def)
    from trim_with_fixed[OF this w(1,2)] have "\<not> starts_with w (rev q)" .
    with w(3) obtain z where "w = rev q @ '' '' @ z"
      by (fastforce simp: starts_with_iff append_eq_append_conv2 Cons_eq_append_conv)
    then have "CHR '' '' \<in> set (rev w)" "rev w \<noteq> '' ''" using assms(2) by (auto simp: append_eq_Cons_conv)
    then show False using w(1) blank_alone[of "rev w"] by auto
  qed
  then show ?thesis by (simp add: trim_end_def)
qed

lemma trim_start_before_blank:
  assumes "trim_start p = p" "p \<noteq> []"
  shows "trim_start (p @ '' '' @ x) = p @ '' '' @ x"
  unfolding trim_start_def
proof (rule trim_with_id, intro ballI impI notI)
  fix w assume w: "w \<in> set WHITE_SPACE" "w \<noteq> []" "starts_with w (p @ '' '' @ x)"
  have "\<not> starts_with w p" using assms(1) w(1,2) by (intro trim_with_fixed) (auto simp: trim_start_def)
  with w(3) obtain z where "w = p @ '' '' @ z"
    by (fastforce simp: starts_with_iff append_eq_append_conv2 Cons_eq_append_conv)
  then have "CHR '' '' \<in> set w" "w \<noteq> '' ''" using assms(2) by (auto simp: append_eq_Cons_conv)
  then show False using w(1) blank_alone by blast
qed

lemma trim_start_blank: "trim_start (CHR '' '' # s) = trim_start s"
proof -
  have "find (\<lambda>w. w \<noteq> [] \<and> starts_with w (CHR '' '' # s)) WHITE_SPACE = Some '' ''"
    by (simp add: WHITE_SPACE_def starts_with_code)
  then show ?thesis unfolding trim_start_def by (subst trim_with.simps) simp
qed

lemma trim_end_blank: "trim_end (s @ '' '') = trim_end s"
proof -
  have "find (\<lambda>w. w \<noteq> [] \<and> starts_with w (CHR '' '' # rev s)) (map rev WHITE_SPACE) = Some '' ''"
    by (simp add: WHITE_SPACE_def starts_with_code)
  then show ?thesis unfolding trim_end_def by (subst trim_with.simps) simp
qed

section \<open>Lines\<close>

lemma split_on_join:
  assumes "\<forall>l \<in> set ls. c \<notin> set l" "ls \<noteq> []"
  shows "split_on (\<lambda>x. x = c) (join_with c ls) = ls"
proof -
  have app: "d \<notin> set l \<Longrightarrow> split_on (\<lambda>x. x = d) (l @ d # r) = l # split_on (\<lambda>x. x = d) r" for d :: char and l r
    by (induction l) auto
  show ?thesis
    using assms
  proof (induction c ls rule: join_with.induct)
    case (2 c s)
    then show ?case by (auto intro: split_on_no_sep)
  next
    case (3 c s t ss)
    then have "split_on (\<lambda>x. x = c) (join_with c (t # ss)) = t # ss" "c \<notin> set s" by simp_all
    then show ?case by (simp add: app)
  qed simp
qed

lemma strip_cr_id: "CHR 0x0D \<notin> set l \<Longrightarrow> strip_cr l = l"
  by (auto simp: strip_cr_def strip_suffix_Some split: option.split)

lemma str_lines_join:
  assumes "list_all line_ok ls" "ls \<noteq> []" "last ls \<noteq> []"
  shows "str_lines (join_with (CHR 0x0A) ls) = ls"
proof -
  have "split_on (\<lambda>x. x = CHR 0x0A) (join_with (CHR 0x0A) ls) = ls"
    using assms(1,2) by (intro split_on_join) (auto simp: list_all_iff line_ok_def)
  moreover have "map strip_cr (butlast ls) = butlast ls"
    using assms(1) by (intro map_idI strip_cr_id) (auto simp: list_all_iff line_ok_def dest: in_set_butlastD)
  ultimately show ?thesis using assms(2,3) by (simp add: str_lines_def Let_def)
qed

lemma find_str_least:
  assumes "starts_with m (drop k s)" "k \<le> length s" "\<forall>j < k. \<not> starts_with m (drop j s)"
  shows "find_str m s = Some k"
proof (cases "find_str m s")
  case None
  then show ?thesis using assms(1,2) contains_iff_starts find_str_None by blast
next
  case (Some j)
  then show ?thesis using find_str_Some[OF Some] assms by (metis linorder_neqE_nat)
qed

section \<open>Parsing what was printed\<close>

lemma marks_not_op [simp]: "\<not> begins_op (CHR ''+'' # l)" "\<not> begins_op (CHR ''-'' # l)" "\<not> begins_op (CHR ''@'' # l)"
  using trim_visible[of "CHR ''+''" l] trim_visible[of "CHR ''-''" l] trim_visible[of "CHR ''@''" l]
  by (auto simp: begins_op_def starts_with_def)

lemma marks_in_hunk [simp]: "in_hunk (CHR ''+'' # l)" "in_hunk (CHR ''-'' # l)"
  using trim_visible[of "CHR ''+''" l] trim_visible[of "CHR ''-''" l]
  by (auto simp: in_hunk_def begins_hunk_def starts_with_def)

definition op_or_end :: "string list \<Rightarrow> bool" where
  "op_or_end rest \<longleftrightarrow> rest = [] \<or> begins_op (hd rest)"

lemma add_lines_printed:
  "op_or_end rest \<Longrightarrow> add_lines (map ((#) CHR ''+'') cs @ rest) = Inr (cs, rest)"
proof (induction cs)
  case Nil
  then show ?case by (cases rest) (auto simp: op_or_end_def)
qed (simp add: strip_prefix_def starts_with_def)

text \<open>The three runs of lines of a hunk.\<close>

lemma context_run:
  "fold hunk_line (map ((#) CHR '' '') ls) st =
     (if ls = [] then st
      else let h = hs_hunk st in
        if in_change st \<or> past_change st
        then st\<lparr>hs_hunk := h\<lparr>context_after := context_after h @ ls\<rparr>, past_change := True, in_change := False\<rparr>
        else st\<lparr>hs_hunk := h\<lparr>context_before := context_before h @ ls\<rparr>\<rparr>)"
  by (induction ls arbitrary: st)
    (auto simp: hunk_line_def context_line_def strip_prefix_def starts_with_def Let_def)

lemma old_run:
  "fold hunk_line (map ((#) CHR ''-'') ls) st =
     (if ls = [] then st
      else st\<lparr>hs_hunk := (hs_hunk st)\<lparr>old_lines := old_lines (hs_hunk st) @ ls\<rparr>, in_change := True, past_change := False\<rparr>)"
  by (induction ls arbitrary: st) (auto simp: hunk_line_def strip_prefix_def starts_with_def)

lemma new_run:
  "fold hunk_line (map ((#) CHR ''+'') ls) st =
     (if ls = [] then st
      else st\<lparr>hs_hunk := (hs_hunk st)\<lparr>new_lines := new_lines (hs_hunk st) @ ls\<rparr>, in_change := True, past_change := False\<rparr>)"
  by (induction ls arbitrary: st) (auto simp: hunk_line_def strip_prefix_def starts_with_def)

definition hunk_body :: "hunk \<Rightarrow> string list" where
  "hunk_body h = tl (show_hunk h)"

lemma hunk_body_in: "hunk_ok h \<Longrightarrow> \<forall>l \<in> set (hunk_body h). in_hunk l"
  by (auto simp: hunk_body_def show_hunk_def hunk_ok_def list_all_iff)

lemma parse_hunk_printed:
  assumes "hunk_ok h" "rest = [] \<or> \<not> in_hunk (hd rest)"
  shows "parse_hunk (hunk_body h @ rest) = h" "dropWhile in_hunk (hunk_body h @ rest) = rest"
proof -
  have stop: "takeWhile in_hunk rest = []" "dropWhile in_hunk rest = rest" using assms(2) by (cases rest; simp)+
  have lines: "takeWhile in_hunk (hunk_body h @ rest) = hunk_body h"
    using hunk_body_in[OF assms(1)] stop by (simp add: takeWhile_append)
  show "dropWhile in_hunk (hunk_body h @ rest) = rest"
    using hunk_body_in[OF assms(1)] stop by (simp add: dropWhile_append)
  have "hs_hunk (fold hunk_line (hunk_body h) start_hunk) = h"
    using assms(1)
    by (cases h) (auto simp: hunk_body_def show_hunk_def context_run old_run new_run start_hunk_def Let_def hunk_ok_def)
  then show "parse_hunk (hunk_body h @ rest) = h" unfolding parse_hunk_def lines .
qed

lemma show_hunk_body: "show_hunk h = ''@@'' # hunk_body h"
  by (simp add: hunk_body_def show_hunk_def)

lemma at_begins_hunk [simp]: "begins_hunk ''@@''"
  by code_simp

lemma parse_hunks_printed:
  "list_all hunk_ok hunks \<Longrightarrow> op_or_end rest \<Longrightarrow> parse_hunks (concat (map show_hunk hunks) @ rest) = (hunks, rest)"
proof (induction hunks)
  case Nil
  then show ?case by (cases rest) (auto simp: op_or_end_def)
next
  case (Cons h hunks)
  let ?rest = "concat (map show_hunk hunks) @ rest"
  have "?rest = [] \<or> \<not> in_hunk (hd ?rest)"
    using Cons.prems(2) by (cases hunks) (auto simp: show_hunk_body in_hunk_def op_or_end_def)
  with parse_hunk_printed[of h ?rest] Cons show ?case by (simp add: show_hunk_body[of h] Let_def)
qed

lemma header_line:
  assumes "trim_end q = q" "q \<noteq> []" "visible c"
  shows "trim (c # x @ '' '' @ q) = c # x @ '' '' @ q"
  using trim_end_after_blank[OF assms(1,2), of "c # x"] trim_start_visible[OF assms(3)] by (simp add: trim_def)

lemma trim_blank_front: "trim (CHR '' '' # s) = trim s"
  by (simp add: trim_def trim_start_blank)

definition header :: "patch_op \<Rightarrow> string" where
  "header op = hd (show_op op)"

lemma path_okD: "path_ok p \<Longrightarrow> p \<noteq> [] \<and> trim p = p \<and> trim_start p = p \<and> trim_end p = p"
  using trim_parts by (auto simp: path_ok_def)

text \<open>The header of an operation is its own trimmed form.\<close>

lemma trim_header:
  assumes "op_ok op"
  shows "trim (header op) = header op"
proof (cases op)
  case (AddFile p content)
  with assms path_okD[of p] header_line[of p "CHR ''*''" "''** Add File:''"] show ?thesis by (simp add: header_def)
next
  case (DeleteFile p)
  with assms path_okD[of p] header_line[of p "CHR ''*''" "''** Delete File:''"] show ?thesis by (simp add: header_def)
next
  case (UpdateFile p move_to hunks)
  show ?thesis
  proof (cases move_to)
    case None
    with UpdateFile assms path_okD[of p] header_line[of p "CHR ''*''" "''** Update File:''"] show ?thesis
      by (simp add: header_def)
  next
    case (Some q)
    with UpdateFile assms path_okD[of q] header_line[of q "CHR ''*''" "''** Update File: '' @ p @ '' ->''"] show ?thesis
      by (simp add: header_def)
  qed
qed

lemma header_begins_op: "op_ok op \<Longrightarrow> begins_op (header op)"
  unfolding begins_op_def by (subst trim_header) (cases op; simp add: header_def starts_with_def)+

lemma show_op_Cons: "show_op op = header op # tl (show_op op)"
  by (cases op) (auto simp: header_def)

lemma shown_ops_begin: "list_all op_ok ops \<Longrightarrow> op_or_end (concat (map show_op ops))"
proof (cases ops)
  case (Cons op ops')
  moreover assume "list_all op_ok ops"
  ultimately show ?thesis using header_begins_op[of op] show_op_Cons[of op] by (simp add: op_or_end_def) (metis hd_append2 list.discI list.sel(1))
qed (simp add: op_or_end_def)

lemma arrow_not_in:
  assumes "\<not> contains_str ''->'' p"
  shows "find_str ''->'' (p @ '' -> '' @ q) = Some (Suc (length p))"
proof (rule find_str_least)
  show "\<forall>j < Suc (length p). \<not> starts_with ''->'' (drop j (p @ '' -> '' @ q))"
  proof (intro allI impI notI)
    fix j assume j: "j < Suc (length p)" "starts_with ''->'' (drop j (p @ '' -> '' @ q))"
    then have d: "starts_with ''->'' (drop j p @ '' -> '' @ q)" by simp
    show False
    proof (cases "drop j p")
      case Nil
      with d show False by (simp add: starts_with_def)
    next
      case (Cons x xs)
      with d have "x = CHR ''-''" "starts_with ''>'' (xs @ '' -> '' @ q)" by (auto simp: starts_with_def)
      then obtain ys where "xs = CHR ''>'' # ys" by (cases xs) (auto simp: starts_with_def)
      with Cons \<open>x = CHR ''-''\<close> have "p = take j p @ ''->'' @ ys" by (metis append_Cons append_Nil append_take_drop_id)
      then show False using assms contains_str_iff by blast
    qed
  qed
qed (simp_all add: starts_with_def)

lemma update_paths_printed:
  assumes "path_ok p" "\<not> contains_str ''->'' p" "case move_to of Some q \<Rightarrow> path_ok q | None \<Rightarrow> True"
  shows "update_paths (trim ('' '' @ p @ (case move_to of Some q \<Rightarrow> '' -> '' @ q | None \<Rightarrow> []))) = (p, move_to)"
proof (cases move_to)
  case None
  then show ?thesis
    using assms(1,2) path_okD[of p] by (auto simp: update_paths_def trim_blank_front find_str_None[symmetric] split: option.split)
next
  case (Some q)
  have q: "q \<noteq> []" "trim q = q" "trim_end q = q" and p: "p \<noteq> []" "trim p = p" "trim_start p = p" "trim_end p = p"
    using assms(1,3) Some path_okD by auto
  have "trim ('' '' @ p @ '' -> '' @ q) = p @ '' -> '' @ q"
    using trim_start_before_blank[OF p(3,1), of "''-> '' @ q"] trim_end_after_blank[OF q(3,1), of "p @ '' ->''"]
    by (simp add: trim_start_blank trim_def)
  moreover have "trim (p @ '' '') = p"
    using trim_start_before_blank[OF p(3,1), of "[]"] trim_end_blank[of p] p(4) by (simp add: trim_def)
  ultimately show ?thesis
    using q(2) by (simp add: Some update_paths_def arrow_not_in[OF assms(2), of q, simplified] trim_blank_front)
qed

lemma parse_body_printed:
  "list_all op_ok ops \<Longrightarrow> parse_body (concat (map show_op ops)) = Inr ops"
proof (induction ops)
  case (Cons op ops)
  then have ok: "op_ok op" and IH: "parse_body (concat (map show_op ops)) = Inr ops"
    and stop: "op_or_end (concat (map show_op ops))" by (simp_all add: shown_ops_begin)
  show ?case
  proof (cases op)
    case (AddFile p content)
    have "trim ('' '' @ p) = p" using ok AddFile path_okD by (simp add: trim_blank_front)
    moreover have "p \<noteq> []" using ok AddFile path_okD by simp
    ultimately show ?thesis
      using trim_header[OF ok] IH add_lines_printed[OF stop] AddFile
      by (simp add: header_def Let_def ADD_FILE_def strip_prefix_def starts_with_def join_split_on)
  next
    case (UpdateFile p move_to hunks)
    let ?rest = "'' '' @ p @ (case move_to of Some q \<Rightarrow> '' -> '' @ q | None \<Rightarrow> [])"
    have line: "trim (''*** Update File:'' @ ?rest) = ''*** Update File:'' @ ?rest"
      using trim_header[OF ok] by (simp add: UpdateFile header_def)
    have paths: "update_paths (trim ?rest) = (p, move_to)" "p \<noteq> []"
      using ok UpdateFile update_paths_printed path_okD by auto
    have hunks: "parse_hunks (concat (map show_hunk hunks) @ concat (map show_op ops)) = (hunks, concat (map show_op ops))"
      "hunks \<noteq> []" using ok UpdateFile parse_hunks_printed[OF _ stop] by auto
    have "strip_prefix ADD_FILE (''*** Update File:'' @ ?rest) = None"
      "strip_prefix UPDATE_FILE (''*** Update File:'' @ ?rest) = Some ?rest"
      by (simp_all add: ADD_FILE_def UPDATE_FILE_def strip_prefix_def starts_with_def)
    moreover have "concat (map show_op (op # ops))
        = (''*** Update File:'' @ ?rest) # (concat (map show_hunk hunks) @ concat (map show_op ops))"
      by (simp add: UpdateFile)
    ultimately show ?thesis
      by (simp only: parse_body.simps Let_def line option.case paths hunks fst_conv snd_conv IH sum.case if_False UpdateFile)
  next
    case (DeleteFile p)
    have "trim ('' '' @ p) = p" using ok DeleteFile path_okD by (simp add: trim_blank_front)
    moreover have "p \<noteq> []" using ok DeleteFile path_okD by simp
    ultimately show ?thesis
      using trim_header[OF ok] IH DeleteFile
      by (simp add: header_def Let_def ADD_FILE_def UPDATE_FILE_def DELETE_FILE_def strip_prefix_def starts_with_def)
  qed
qed simp

lemma shown_lines_ok: "op_ok op \<Longrightarrow> list_all line_ok (show_op op)"
proof (cases op)
  case (AddFile p content)
  assume "op_ok op"
  then show ?thesis
    using split_on_segments[of _ "\<lambda>c. c = CHR 0x0A" content]
    by (fastforce simp: AddFile list_all_iff line_ok_def path_ok_def)
next
  case (UpdateFile p move_to hunks)
  assume ok: "op_ok op"
  have "list_all line_ok (show_hunk h)" if "hunk_ok h" for h
    using that by (auto simp: hunk_ok_def show_hunk_def list_all_iff line_ok_def)
  with ok show ?thesis
    by (auto simp: UpdateFile list_all_iff) (auto simp: line_ok_def path_ok_def split: option.split)
qed (auto simp: line_ok_def path_ok_def)

lemma parse_shown:
  assumes "list_all op_ok ops" and "ops \<noteq> []"
  shows "parse_patch (show_patch ops) = Inr ops"
proof -
  let ?body = "concat (map show_op ops)"
  let ?ls = "''*** Begin Patch'' # ?body @ [''*** End Patch'']"
  have marks: "trim ''*** Begin Patch'' = ''*** Begin Patch''" "trim ''*** End Patch'' = ''*** End Patch''" by code_simp+
  have "list_all line_ok ?body" using assms(1) shown_lines_ok by (fastforce simp: list_all_iff)
  then have lines: "str_lines (show_patch ops) = ?ls"
    unfolding show_patch_def by (intro str_lines_join) (auto simp: line_ok_def)
  have first: "position (\<lambda>l. trim l = ''*** Begin Patch'') ?ls = Some 0"
    unfolding position_def by (simp add: marks upt_conv_Cons del: upt_Suc)
  have last: "rposition (\<lambda>l. trim l = ''*** End Patch'') ?ls = Some (Suc (length ?body))"
    unfolding rposition_def by (simp add: marks nth_append)
  show ?thesis
    using parse_body_printed[OF assms(1)] assms(2)
    by (simp only: parse_patch_def Let_def lines first last option.case)
      (simp add: assms(2))
qed

text \<open>
  C19: the parser reads back every patch in the documented format: any number, but at least one, of
  added, changed, moved and deleted files, each change of any number of hunks, but at least one. The
  paths are not empty, trimmed, and without line feeds and carriage returns, and the path of a changed
  file has no arrow (\<open>->\<close>) in it; the content of an added file and the lines of hunks have no
  carriage return, and lines no line feed. Each hunk has one bare header \<open>@@\<close> and one change: the
  context before, the old lines, the new lines and the context after, in this order, the last only
  behind a change; and no line of context looks like the head of a hunk or of an operation. (An arrow
  in a path is read as a move, \<open>arrow_in_path_is_a_move\<close>; carriage returns are lost,
  \<open>carriage_returns_are_lost\<close>; a second change is misplaced, \<open>split_change_is_misplaced\<close>.)
\<close>
theorem parse_shown_patch:
  assumes "list_all op_ok ops" and "ops \<noteq> []"
  shows "parse_patch (show_patch ops) = Inr ops"
  using assms by (rule parse_shown)

text \<open>The lines of a file that ends in a line feed, and what its last line says of its end.\<close>

lemma str_lines_join_nl:
  assumes "list_all line_ok ls" "ls \<noteq> []"
  shows "str_lines (join_with (CHR 0x0A) ls @ [CHR 0x0A]) = ls"
proof -
  have join: "join_with (CHR 0x0A) (ls @ [[]]) = join_with (CHR 0x0A) ls @ [CHR 0x0A]"
    using assms(2) by (induction "CHR 0x0A" ls rule: join_with.induct) auto
  have "split_on (\<lambda>x. x = CHR 0x0A) (join_with (CHR 0x0A) (ls @ [[]])) = ls @ [[]]"
    using assms by (intro split_on_join) (auto simp: list_all_iff line_ok_def)
  moreover have "map strip_cr ls = ls"
    using assms(1) by (intro map_idI strip_cr_id) (auto simp: list_all_iff line_ok_def)
  ultimately show ?thesis by (simp add: str_lines_def Let_def join)
qed

lemma join_not_at_newline:
  assumes "list_all line_ok ls" "ls = [] \<or> last ls \<noteq> []"
  shows "\<not> ends_with [CHR 0x0A] (join_with (CHR 0x0A) ls)"
proof
  assume "ends_with [CHR 0x0A] (join_with (CHR 0x0A) ls)"
  then obtain u where u: "join_with (CHR 0x0A) ls = u @ [CHR 0x0A]" by (auto simp: ends_with_iff)
  then have "ls \<noteq> []" by auto
  have "last (split_on (\<lambda>c. c = CHR 0x0A) (u @ [CHR 0x0A])) = []"
    by (rule last_split_on) simp_all
  moreover have "split_on (\<lambda>c. c = CHR 0x0A) (join_with (CHR 0x0A) ls) = ls"
    using assms(1) \<open>ls \<noteq> []\<close> by (intro split_on_join) (auto simp: list_all_iff line_ok_def)
  ultimately show False using u assms(2) \<open>ls \<noteq> []\<close> by simp
qed

definition file_of :: "string list \<Rightarrow> bool \<Rightarrow> string" where
  "file_of ls final = join_with (CHR 0x0A) ls @ (if final then [CHR 0x0A] else [])"

lemma apply_hunks_file:
  assumes "list_all line_ok ls" "list_all line_ok ls'" "ls \<noteq> []" "apply_hunk h ls = Some ls'"
    and "if final then ls' = [] \<or> last ls' \<noteq> [] else last ls \<noteq> []"
  shows "apply_hunks (file_of ls final) [h] = Inr (file_of ls' final)"
proof (cases final)
  case True
  then have "\<not> ends_with [CHR 0x0A] (join_with (CHR 0x0A) ls')"
    using join_not_at_newline[OF assms(2)] assms(5) by simp
  moreover have "ends_with [CHR 0x0A] (join_with (CHR 0x0A) ls @ [CHR 0x0A])" by (auto simp: ends_with_iff)
  ultimately show ?thesis
    using True str_lines_join_nl[OF assms(1,3)] assms(4) by (simp add: apply_hunks_def file_of_def)
next
  case False
  then show ?thesis
    using join_not_at_newline[OF assms(1)] str_lines_join[OF assms(1,3)] assms(4,5)
    by (simp add: apply_hunks_def file_of_def)
qed

text \<open>
  C21: an edit expressed as a patch is the edit: reading the printed patch of one hunk and applying it
  replaces the old lines, where the anchor first occurs, by the new ones, in the file that the
  accepted path leads to, and leaves every other file alone. The path and the hunk are as the printer
  needs them (no arrow in the path, no carriage returns, context that looks like no header); the
  anchor is not empty; and the file has no carriage returns. With a final line feed the file keeps it,
  as long as its last line after the edit is not blank; without one, its last line before the edit is
  not blank. (The other cases lose lines or characters: \<open>trailing_blank_line_is_lost\<close>,
  \<open>carriage_returns_are_lost\<close>.)
\<close>
theorem printed_edit_applies:
  assumes "op_ok (UpdateFile p None [h])" and "context_before h @ old_lines h \<noteq> []"
    and "resolve_patch_path io base extra p fs = Inr f" and "write_ok io f" and "l = os_place io fs f"
    and "ls = pre @ context_before h @ old_lines h @ post" and "ls' = pre @ context_before h @ new_lines h @ post"
    and "fs l = Some (file_of ls final)" and "list_all line_ok ls"
    and "if final then ls' = [] \<or> last ls' \<noteq> [] else last ls \<noteq> []"
    and "\<forall>q < length pre. \<not> occurs_at (=) ls (context_before h @ old_lines h) q"
  shows "\<exists>ops. parse_patch (show_patch [UpdateFile p None [h]]) = Inr ops
    \<and> apply_patch io ops base extra fs =
        (no_result\<lparr>files_updated := 1\<rparr>, fs(l \<mapsto> file_of ls' final))"
proof -
  let ?a = "context_before h @ old_lines h"
  have parsed: "parse_patch (show_patch [UpdateFile p None [h]]) = Inr [UpdateFile p None [h]]"
    using assms(1) by (intro parse_shown) simp_all
  have first: "is_first (occurs_at (=) ls ?a) (length pre)"
    using assms(6,11) by (auto simp: is_first_def occurs_at_def list.rel_eq)
  then have place: "find_anchor ls ?a = Some (length pre)"
    using find_window_Some[OF assms(2), of "(=)" ls "length pre"] by (simp add: find_anchor_def)
  have hunk: "apply_hunk h ls = Some ls'"
    using assms(2,6,7) place by (auto simp: apply_hunk_def Let_def)
  have ok': "list_all line_ok ls'"
    using assms(1,6,7,9) by (simp add: hunk_ok_def)
  have "apply_hunks (file_of ls final) [h] = Inr (file_of ls' final)"
    using assms(2,6) by (intro apply_hunks_file[OF assms(9) ok' _ hunk assms(10)]) auto
  then have "apply_patch io [UpdateFile p None [h]] base extra fs =
      (no_result\<lparr>files_updated := 1\<rparr>, fs(l \<mapsto> file_of ls' final))"
    using assms(3,4,5,8)
    by (simp add: apply_patch_def apply_update_def write_patched_def Let_def no_result_def)
  with parsed show ?thesis by blast
qed

section \<open>Concrete patches\<close>

definition sample_hunk :: hunk where
  "sample_hunk = \<lparr>context_before = [''a''], old_lines = [''b''], new_lines = [''c'', ''d''], context_after = [''e'']\<rparr>"

definition sample_ops :: "patch_op list" where
  "sample_ops =
     [AddFile ''new.txt'' ''x'', UpdateFile ''old.txt'' (Some ''sub/moved.txt'') [sample_hunk], DeleteFile ''gone.txt'']"

lemma sample_ops_ok: "list_all op_ok sample_ops"
  by code_simp

theorem parse_shown_patch_witness: "parse_patch (show_patch sample_ops) = Inr sample_ops"
  by (rule parse_shown_patch[OF sample_ops_ok]) (simp add: sample_ops_def)

definition sample_io :: io_world where
  "sample_io =
     \<lparr>canon_in = (\<lambda>fs p. if p = [''ws''] \<or> fs p \<noteq> None then Some p else None), os_place = (\<lambda>_ p. p),
      dangling = (\<lambda>_ _. False), mkdir_ok = (\<lambda>_. True),
      write_ok = (\<lambda>_. True), remove_ok = (\<lambda>_. True)\<rparr>"

definition sample_files :: files where
  "sample_files = [[''ws'', ''old.txt''] \<mapsto> file_of [''0'', ''a'', ''b'', ''e''] True]"

theorem printed_edit_applies_witness:
  "\<exists>ops. parse_patch (show_patch [UpdateFile ''old.txt'' None [sample_hunk]]) = Inr ops
    \<and> apply_patch sample_io ops [''ws''] [] sample_files =
        (no_result\<lparr>files_updated := 1\<rparr>,
         sample_files([''ws'', ''old.txt''] \<mapsto> file_of [''0'', ''a'', ''c'', ''d'', ''e''] True))"
proof (rule printed_edit_applies)
  show "[''0'', ''a'', ''b'', ''e''] = [''0''] @ context_before sample_hunk @ old_lines sample_hunk @ [''e'']"
    by code_simp
  show "[''0'', ''a'', ''c'', ''d'', ''e''] = [''0''] @ context_before sample_hunk @ new_lines sample_hunk @ [''e'']"
    by code_simp
qed code_simp+

theorem hunk_application_exact_witness:
  "(apply_hunk sample_hunk [''0'', ''a '', ''b''] = Some [''0'', ''a'', ''c'', ''d''] \<longleftrightarrow>
      (\<exists>pre mid post. [''0'', ''a '', ''b''] = pre @ mid @ post
        \<and> length mid = length (context_before sample_hunk @ old_lines sample_hunk)
        \<and> hunk_place [''0'', ''a '', ''b''] (context_before sample_hunk @ old_lines sample_hunk) (length pre)
        \<and> [''0'', ''a'', ''c'', ''d''] = pre @ context_before sample_hunk @ new_lines sample_hunk @ post))
    \<and> (apply_hunk sample_hunk [''0'', ''a '', ''b''] = None \<longleftrightarrow>
        (\<forall>p. \<not> occurs_at same_text [''0'', ''a '', ''b''] (context_before sample_hunk @ old_lines sample_hunk) p))"
  by (rule hunk_application_exact) (simp add: sample_hunk_def)

lemma sample_io_laws: "follows_links sample_io"
  by (auto simp: follows_links_def sample_io_def split: if_splits)

theorem patch_stays_inside_witness:
  "inside [''ws''] [] [''ws'', ''new.txt'']
   \<or> unchecked_at sample_io [''ws''] [] {''new.txt'', ''old.txt'', ''sub/moved.txt'', ''gone.txt''} [''ws'', ''new.txt'']"
proof -
  have changed: "snd (apply_patch sample_io sample_ops [''ws''] [] sample_files) [''ws'', ''new.txt'']
      \<noteq> sample_files [''ws'', ''new.txt'']"
    by code_simp
  have "canon_in sample_io fs [''ws''] = Some [''ws'']" for fs by (simp add: sample_io_def)
  from patch_stays_inside[OF sample_io_laws this changed] show ?thesis
    by (simp add: sample_ops_def insert_commute)
qed

text \<open>
  Two changes in one hunk with a line of context between them are joined: the second line that is
  added lands before the context instead of after it.
\<close>
theorem split_change_is_misplaced:
  "apply_hunk (parse_hunk [''-a'', ''+b'', '' m'', ''+c'']) [''a'', ''m''] = Some [''b'', ''c'', ''m'']"
  by code_simp

text \<open>The context after a change is parsed and never compared.\<close>
theorem context_after_is_ignored:
  "apply_hunk (parse_hunk [''-a'', ''+b'', '' m'']) [''a'', ''z''] = Some [''b'', ''z'']"
  by code_simp

text \<open>A file that ends in a blank line loses it.\<close>
theorem trailing_blank_line_is_lost:
  "apply_hunks (''a'' @ [CHR 0x0A, CHR 0x0A]) [parse_hunk [''-a'', ''+b'']] = Inr (''b'' @ [CHR 0x0A])"
  by code_simp

text \<open>A move that cannot be written is still counted.\<close>
theorem failed_move_is_counted:
  "files_moved (fst (apply_patch (sample_io\<lparr>write_ok := (\<lambda>_. False)\<rparr>)
     [UpdateFile ''old.txt'' (Some ''m.txt'') [sample_hunk]] [''ws''] [] sample_files)) = 1"
  by code_simp

text \<open>
  The parser drops the carriage returns that end lines, and a hunk drops those of every line of the
  file. An arrow in the path of an update is read as a move.
\<close>
theorem carriage_returns_are_lost:
  "apply_hunks (''a'' @ [CHR 0x0D, CHR 0x0A] @ ''b'' @ [CHR 0x0D, CHR 0x0A]) [parse_hunk [''-a'', ''+c'']]
     = Inr (''c'' @ [CHR 0x0A] @ ''b'' @ [CHR 0x0A])
   \<and> parse_patch (show_patch [AddFile ''f'' (''a'' @ [CHR 0x0D])]) = Inr [AddFile ''f'' ''a'']"
  by code_simp

theorem arrow_in_path_is_a_move:
  "parse_patch (show_patch [UpdateFile ''a->b'' None [sample_hunk]]) = Inr [UpdateFile ''a'' (Some ''b'') [sample_hunk]]"
  by code_simp

text \<open>
  Through a link in the workspace a patch creates a file in a directory that did not exist: the
  path is accepted, and what the operating system makes of it lies where the link leads. And a
  dangling link in the workspace is accepted as the name of a new file, which is then made where the
  link points to.
\<close>

definition linked_place :: "path \<Rightarrow> path" where
  "linked_place p =
     (if take 2 p = [''ws'', ''link''] then ''etc'' # drop 2 p
      else if p = [''ws'', ''out''] then [''tmp'', ''x''] else p)"

definition linked_io :: io_world where
  "linked_io =
     \<lparr>canon_in = (\<lambda>_. linked_fs), os_place = (\<lambda>_. linked_place), dangling = (\<lambda>_ p. p = [''ws'', ''out'']),
      mkdir_ok = (\<lambda>_. True), write_ok = (\<lambda>_. True), remove_ok = (\<lambda>_. True)\<rparr>"

lemma linked_io_laws: "follows_links linked_io"
proof -
  have "linked_place p = q \<and> linked_fs q = Some q" if "linked_fs p = Some q" for p q
    using that by (auto simp: linked_fs_def linked_place_def split: if_splits)
  moreover have "linked_place (d @ [last p]) = d @ [last p]"
    if "linked_fs p = None" "linked_fs (butlast p) = Some d" "d @ [last p] \<noteq> [''ws'', ''out'']" "p \<noteq> []" for p d
  proof -
    have d: "d = [''ws''] \<or> d = [''etc'']" using that(2) by (auto simp: linked_fs_def split: if_splits)
    have "d @ [last p] \<noteq> [''ws'', ''link'']"
    proof
      assume l: "d @ [last p] = [''ws'', ''link'']"
      with d have "d = [''ws'']" "last p = ''link''" by auto
      with that(2) have "butlast p = [''ws'']" by (auto simp: linked_fs_def split: if_splits)
      with \<open>last p = ''link''\<close> that(4) have "p = [''ws'', ''link'']" by (metis append_Cons append_Nil append_butlast_last_id)
      with that(1) show False by (simp add: linked_fs_def)
    qed
    with d that(3) show ?thesis by (auto simp: linked_place_def)
  qed
  ultimately show ?thesis by (auto simp: follows_links_def linked_io_def)
qed

theorem patch_follows_link:
  "snd (apply_patch linked_io [AddFile ''link/new/f'' ''x''] [''ws''] [] Map.empty) [''etc'', ''new'', ''f''] = Some ''x''
   \<and> \<not> inside [''ws''] [] [''etc'', ''new'', ''f''] \<and> follows_links linked_io"
proof -
  have "snd (apply_patch linked_io [AddFile ''link/new/f'' ''x''] [''ws''] [] Map.empty) [''etc'', ''new'', ''f''] = Some ''x''"
    by code_simp
  then show ?thesis using linked_io_laws by (simp add: inside_def under_def)
qed

theorem patch_follows_dangling_link:
  "snd (apply_patch linked_io [AddFile ''out'' ''x''] [''ws''] [] Map.empty) [''tmp'', ''x''] = Some ''x''
   \<and> \<not> inside [''ws''] [] [''tmp'', ''x''] \<and> follows_links linked_io"
proof -
  have "snd (apply_patch linked_io [AddFile ''out'' ''x''] [''ws''] [] Map.empty) [''tmp'', ''x''] = Some ''x''"
    by code_simp
  then show ?thesis using linked_io_laws by (simp add: inside_def under_def)
qed

end
