(* ===== verification/Spec2Isabelle.thy ===== *)
theory Spec2Isabelle
  imports Capability Scheduler LoopGuard SessionHistory ToolSanitize AuthCooldown Auth
    AuditTrail Streaming Lifecycle ApprovalProps TriggerProps McpTaint ShellSandbox CronProps PatchFormat
begin

text \<open>
  Verification of LibreFang, an operating system for language-model agents written in Rust.

  \<^bold>\<open>The program.\<close> A kernel (\<open>librefang-kernel\<close>) keeps a registry of agents, a scheduler with
  token quotas, capability grants, users and roles, an approval queue and a supervisor. For each
  message it runs the agent loop of \<open>librefang-runtime\<close>: the loop repairs and trims the message
  history, asks a model provider (guarded by a circuit breaker), filters the streamed reply, and runs
  the tools that the model calls, after the tool policy, the user's policy, the approval policy and a
  loop guard had their say. Arguments for external tool servers pass a taint scan, shell commands a
  validator, and patches the sandbox of the workspace. Events go over a bus, and triggers wake further
  agents on them; a cron scheduler wakes them by the clock. What happened goes to a hash-chained audit
  log. Shared types are in
  \<open>librefang-types\<close>; chat channels, HTTP interface, drivers and stores surround this core.

  \<^bold>\<open>Conventions.\<close> Structs are records, enums are datatypes, \<open>Result\<close> is a sum with the error
  on the left (or an optional error where success carries nothing), and error texts are constructors
  with the values they print. \<open>u8\<close>, \<open>u32\<close>, \<open>u64\<close> and identifiers are words, whose
  arithmetic wraps as in the release profile; lengths are natural numbers; strings are lists of UTF-8
  bytes, so lengths and slices agree with \<open>str\<close>, and a slice that would panic is \<open>None\<close>. An
  operation is one function from state to state that reads the clock once, as an argument in
  nanoseconds; concurrent callers are sequences of operations. Hash maps are association lists where
  the code iterates over them and maps otherwise. Code that is not in the repository is a parameter:
  the digests and JSON printing of the loop guard (\<open>guard_env\<close>), SHA-256, identifiers and
  timestamps of the audit log (\<open>audit_env\<close>), the vault and TOTP verifier (\<open>chat_env\<close>), Unicode
  lower-casing (\<open>lower\<close>) and character classes (\<open>alnum\<close>), the PII patterns (\<open>scrub\<close>),
  UUIDv5 (\<open>uid_of\<close>), float products (\<open>scale\<close>), the printed form of events (\<open>event_fmt\<close>), the
  compiled regular expressions of the taint rules (\<open>regex_set\<close>), the URL query parser, the parser
  of cron expressions and time zones (\<open>cron_lib\<close>), the file system (\<open>canonicalize\<close> gives the
  canonical form of a path; \<open>io_world\<close> adds where the system reaches a path and which writes
  succeed), the JSON parser (a value that does not parse is \<open>None\<close>), and whether a statement or a
  file write succeeds.

  \<^bold>\<open>Theories.\<close>

  \<^item> \<open>Prelude\<close>: machine integers, the \<open>std\<close> operations on strings and numbers with their
    laws, \<open>safe_truncate_str\<close>, and two interfaces as locales: a keyed store (what a lookup
    returns after an insert or a delete) and a machine with an invariant (steps keep it, so runs do).
    The manager of grants, the breaker, the user directory, the agent registry and the cron table
    provide the first; the scheduler, the guard, the breaker, the user directory, the audit log, the
    duplicate filter, the approval manager and the cron scheduler provide the second.

  \<^item> \<open>Capability\<close> (\<open>capability.rs\<close>, \<open>capabilities.rs\<close>): capabilities, the glob matcher,
    matching of grants, inheritance and the manager. Path globs are equivalent to a declarative
    matching relation, one star stays within a segment, and inheritance cannot escalate when the child's
    patterns are literal (with a star, or by exchanging separators, it can).

  \<^item> \<open>Scheduler\<close> (\<open>scheduler.rs\<close>, \<open>ResourceQuota\<close>, \<open>TokenUsage\<close>): usage windows,
    quota checks, reservations. Reservations keep the hourly limit under any interleaving, and an agent
    past its limit is granted nothing; releasing and settling restore and correct the charge.

  \<^item> \<open>LoopGuard\<close> (\<open>loop_guard.rs\<close>): the detector of repeated calls; exact circuit breaker,
    bound on identical calls, blocking of repeated outcomes.

  \<^item> \<open>Message\<close>, \<open>SessionRepair\<close>, \<open>RepairKeeps\<close>, \<open>RepairPlacement\<close>, \<open>SessionHistory\<close>
    (\<open>message.rs\<close>, \<open>silent_response.rs\<close>, \<open>session_repair.rs\<close>, \<open>safe_trim_messages\<close> of
    \<open>agent_loop.rs\<close>): the message types and every phase of the history repair. Each phase
    implements one interface (\<open>repair_pass\<close>: it keeps the calls), and their composition gives the
    contract that providers demand: every call answered by exactly one result directly after it.
    Trimming orphans nothing; the loop that drops leading messages ends after as many rounds as there
    are messages to drop, each a drop and a repair.

  \<^item> \<open>ToolSanitize\<close> (\<open>strip_tool_result_details\<close>): no injection marker survives in ASCII text.

  \<^item> \<open>AuthCooldown\<close> (\<open>auth_cooldown.rs\<close>): the provider circuit breaker and profile selection.

  \<^item> \<open>ToolPolicy\<close>, \<open>UserPolicy\<close>, \<open>Auth\<close> (\<open>tool_policy.rs\<close>, \<open>user_policy.rs\<close>,
    \<open>namespace_acl.rs\<close>, \<open>auth.rs\<close>): which tools and memory namespaces an agent and a user may
    use; the greedy pattern matcher is exact, deny wins, and the gate for unknown users fails closed.

  \<^item> \<open>AuditTrail\<close> (\<open>audit.rs\<close>): the hash chain with its table and anchor file. Every run verifies,
    a restart reloads the same log, and a change of an entry is detected under collision resistance.

  \<^item> \<open>Streaming\<close> (\<open>think_filter.rs\<close>, \<open>stream_chunker.rs\<close>, \<open>stream_dedup.rs\<close>): the filter
    of thinking tags is independent of how the stream is cut.

  \<^item> \<open>Registry\<close> (\<open>registry.rs\<close>, agent types): every agent is indexed under its name and tags, and as long as
    no id is registered twice the indexes are exactly the map from names to agents.

  \<^item> \<open>Lifecycle\<close> (\<open>heartbeat.rs\<close>, \<open>supervisor.rs\<close>, \<open>session_policy.rs\<close> and the heartbeat
    monitor of \<open>kernel/mod.rs\<close>): alerts are exactly the transitions to unresponsive; the daily
    reset is exactly the crossing of the boundary.

  \<^item> \<open>ApprovalPolicy\<close>, \<open>Approval\<close>, \<open>ApprovalSafety\<close>, \<open>ApprovalProps\<close>
    (\<open>approval.rs\<close> of types and kernel, \<open>submit_tool_approval\<close>, the chat command of
    \<open>channel_bridge.rs\<close>): nothing is approved without an operator and the second factor, every
    request is decided after at most four sweeps, whoever waits is answered, waiting requests and
    lockouts survive a restart, and between two accepted codes a sender cannot guess faster than five
    in 300 seconds.

  \<^item> \<open>Events\<close>, \<open>Triggers\<close>, \<open>TriggerProps\<close> (\<open>event.rs\<close>, \<open>event_bus.rs\<close>,
    \<open>triggers.rs\<close> and their entry points in \<open>kernel/mod.rs\<close>): the bus history is the last thousand
    events; the trigger table and its index by agent agree in every reachable state; an evaluation
    fires exactly the first eligible triggers; a trigger never exceeds its firing limit or fires twice
    within its cooldown, restarts included.

  \<^item> \<open>Taint\<close>, \<open>McpTaint\<close> (\<open>taint.rs\<close>, the argument scan of \<open>librefang-runtime-mcp\<close>): labels,
    sinks, the secret and PII detectors and the walk over JSON arguments. The scan is equivalent to a
    statement about every text and member in the tree, a policy can only loosen it, and its error
    repeats no text.

  \<^item> \<open>ShellSandbox\<close> (\<open>subprocess_sandbox.rs\<close>, \<open>ExecPolicy\<close>, the shell checks of
    \<open>tool_runner.rs\<close>): the metacharacter check, the extraction of commands, inspection of shell
    wrappers, the allowlist gate and the environment of the child.

  \<^item> \<open>CronTypes\<close>, \<open>Cron\<close>, \<open>CronProps\<close> (\<open>scheduler.rs\<close> of the types, \<open>cron.rs\<close> and the
    cron part of \<open>kernel/mod.rs\<close>): jobs and their validation, the table with its file, the tick and
    the start. A run is a list of operations with their instants; a table entry follows
    \<open>entry_after\<close>. Fires are spaced, the table holds only what the validation accepted, five
    failures in a row disable a job, and a restart resumes every job; updates are not validated, and
    the findings show what follows from that.

  \<^item> \<open>Workspace\<close>, \<open>Patch\<close>, \<open>PatchProps\<close>, \<open>PatchFormat\<close>
    (\<open>workspace_sandbox.rs\<close>, \<open>apply_patch.rs\<close>): the resolution of paths inside a workspace, the
    parser of patches, hunks and the operations on files. An accepted path is confined, a hunk replaces
    the first place that matches, the parser reads back every printed patch, a printed edit is the
    edit, and a patch changes files only inside the workspace, but for paths whose directory does not
    exist or that end in a dangling link, where links lead it outside.

  \<^bold>\<open>Termination and bounds.\<close> All definitions are total: loops are structural recursion or carry a
  termination proof (\<open>trim_with\<close>, the glob matchers, \<open>ensure_starts_with_user\<close>, \<open>drain\<close>,
  \<open>replace_str\<close>, \<open>cut_segments\<close>, \<open>parse_hunks\<close>, \<open>parse_body\<close>), and no fuel is used: where the code itself bounds a recursion
  (four levels of shell wrappers, the depth of JSON arguments) the bound is the code's. The waiting loop of \<open>request_approval\<close> is cut at its await points into
  steps. Properties over runs bound their length where the code counts in \<open>u32\<close> or \<open>u64\<close>.

  \<^bold>\<open>Not modelled.\<close> Interleavings inside one operation (a check and an insert on a concurrent map are
  one step); time passing during an operation; logging and notifications; random identifiers, secrets
  and recovery codes; durations beyond the range of \<open>chrono\<close>. The parts of the system that are
  network clients, user interfaces, SQL stores, process control or prompt texts are left out: HTTP
  handlers, chat adapters, drivers, memory stores, the launching of child processes, skills, the MCP
  transport and WASM hosts, command line and desktop. The agent loop and \<open>kernel/mod.rs\<close> are modelled only where named above.

  \<^bold>\<open>Plan.\<close> Next are the workflow machine of the kernel, the context budget and overflow
  stages, the credential pool and the error classifier of the drivers, and cost metering.
\<close>

end
